(* ===== verification/Qfs_Prelude.thy ===== *)
theory Qfs_Prelude
  imports "HOL-Library.Word" "HOL-Library.List_Lexorder" "HOL-Library.Char_ord" "HOL-Library.Multiset"
begin

text \<open>
  The prelude of the development: the machine types the crates share, the result
  type of fallible operations, and the generic facts on lists, options and maps that
  the component theories use.

  \<^item> A Rust \<open>String\<close> is a \<open>string\<close> (a list of \<open>char\<close>, the code points below 256).
  \<^item> \<open>u64\<close> and \<open>i64\<close> are 64-bit words; \<open>u64\<close> is read with \<open>unat\<close>, \<open>i64\<close> with \<open>sint\<close>.
  \<^item> \<open>Result<T, E>\<close> is the sum \<open>'e + 't\<close>, \<open>Inl\<close> the error.
\<close>

section \<open>Types\<close>

type_synonym u8 = "8 word"
type_synonym u32 = "32 word"
type_synonym u64 = "64 word"
type_synonym i64 = "64 word"

text \<open>Rust's \<open>saturating_add\<close> on unsigned words: clamp at the largest value.\<close>

definition sat_add :: "'a::len word \<Rightarrow> 'a word \<Rightarrow> 'a word" where
  "sat_add a b = (if unat a + unat b < 2 ^ LENGTH('a) then a + b else - 1)"

section \<open>Collections of facts\<close>

named_theorems model_defs "definitions of the model to unfold in evaluations"
named_theorems wf_intros "introduction rules for well-formedness predicates"

text \<open>\<open>Iterator::position\<close>: the index of the first element satisfying the predicate.\<close>

fun position :: "('a \<Rightarrow> bool) \<Rightarrow> 'a list \<Rightarrow> nat option" where
  "position P [] = None"
| "position P (x # xs) = (if P x then Some 0 else map_option Suc (position P xs))"

text \<open>\<open>str::split\<close> on a character: the pieces between its occurrences.\<close>

fun split_char :: "char \<Rightarrow> string \<Rightarrow> string list" where
  "split_char c [] = [[]]"
| "split_char c (x # xs) =
     (if x = c then [] # split_char c xs
      else (case split_char c xs of [] \<Rightarrow> [[x]] | p # ps \<Rightarrow> (x # p) # ps))"

text \<open>The non-empty segments of a \<open>/\<close>-separated path.\<close>

definition path_segments :: "string \<Rightarrow> string list" where
  "path_segments s = filter (\<lambda>p. p \<noteq> []) (split_char CHR ''/'' s)"

section \<open>Words\<close>

lemma unat_sat_add:
  "unat (sat_add a b) = min (unat a + unat b) (2 ^ LENGTH('a) - 1)" for a b :: "'a::len word"
proof (cases "unat a + unat b < 2 ^ LENGTH('a)")
  case True
  then show ?thesis by (auto simp: sat_add_def unat_add_lem [THEN iffD1] min_def)
next
  case False
  then show ?thesis by (simp add: sat_add_def unsigned_minus_1_eq_mask mask_eq_exp_minus_1)
qed

lemma sat_add_commute: "sat_add a b = sat_add b a"
  by (simp add: word_unat_eq_iff unat_sat_add add.commute)

lemma sat_add_assoc: "sat_add (sat_add a b) c = sat_add a (sat_add b c)"
  by (simp add: word_unat_eq_iff unat_sat_add min_def) linarith

lemma sat_add_0 [simp]: "sat_add 0 a = a" "sat_add a 0 = a"
  by (simp_all add: sat_add_def)

section \<open>Lists and options\<close>

lemma find_None_iff_all: "find P xs = None \<longleftrightarrow> (\<forall>x\<in>set xs. \<not> P x)"
  by (auto simp: find_None_iff)

lemma find_SomeD: "find P xs = Some x \<Longrightarrow> x \<in> set xs \<and> P x"
  by (auto simp: find_Some_iff)

lemma find_distinct_key:
  assumes "distinct (map f xs)" "x \<in> set xs"
  shows "find (\<lambda>y. f y = f x) xs = Some x"
  using assms by (induction xs) (auto simp: image_iff)

lemma position_SomeD:
  "position P xs = Some i \<Longrightarrow> i < length xs \<and> P (xs ! i) \<and> (\<forall>j<i. \<not> P (xs ! j))"
proof (induction xs arbitrary: i)
  case (Cons x xs)
  then show ?case by (auto split: if_splits simp: nth_Cons split: nat.splits)
qed simp

lemma position_None_iff: "position P xs = None \<longleftrightarrow> (\<forall>x\<in>set xs. \<not> P x)"
  by (induction xs) auto

lemma map_filter_dom: "set xs \<subseteq> dom m \<Longrightarrow> List.map_filter m xs = map (\<lambda>x. the (m x)) xs"
  by (induction xs) auto

text \<open>Lists whose elements are told apart by a key, seen as finite maps from the key.\<close>

lemma find_key_map:
  assumes "\<And>x. x \<in> set xs \<Longrightarrow> f (g x) = f x"
  shows "find (\<lambda>y. f y = k) (map g xs) = map_option g (find (\<lambda>y. f y = k) xs)"
  using assms by (induction xs) auto

lemma find_append:
  "find P (xs @ ys) = (case find P xs of None \<Rightarrow> find P ys | Some x \<Rightarrow> Some x)"
  by (induction xs) auto

lemma find_filter: "find P (filter Q xs) = find (\<lambda>x. Q x \<and> P x) xs"
  by (induction xs) auto

lemma mset_eq_of_find_eq:
  assumes xs: "distinct (map f xs)" and ys: "distinct (map f ys)"
    and eq: "\<And>k. find (\<lambda>y. f y = k) xs = find (\<lambda>y. f y = k) ys"
  shows "mset xs = mset ys"
proof -
  have "set zs \<subseteq> set ws"
    if "distinct (map f zs)" "\<And>k. find (\<lambda>y. f y = k) zs = find (\<lambda>y. f y = k) ws" for zs ws
  proof
    fix x assume "x \<in> set zs"
    then have "find (\<lambda>y. f y = f x) ws = Some x"
      using that find_distinct_key [of f zs x] by simp
    then show "x \<in> set ws" by (auto dest: find_SomeD)
  qed
  from this [of xs ys] this [of ys xs] have "set xs = set ys" using xs ys eq by auto
  moreover have "distinct xs" "distinct ys" using xs ys by (auto simp: distinct_map)
  ultimately show ?thesis by (simp add: set_eq_iff_mset_eq_distinct)
qed

lemma sort_key_eq_of_find_eq:
  assumes "distinct (map f xs)" "distinct (map f ys)"
    "\<And>k. find (\<lambda>y. f y = k) xs = find (\<lambda>y. f y = k) ys"
  shows "sort_key f xs = sort_key f ys"
  using assms mset_eq_of_find_eq [OF assms]
  by (intro sort_key_inj_key_eq) (auto simp: distinct_map)

end
