(* ===== verification/Types_Schema.thy ===== *)
theory Types_Schema
  imports Qfs_Prelude
begin

text \<open>
  The static type model, \<open>crates/types/src/schema.rs\<close>, \<open>unify.rs\<close> and the error type of
  \<open>error.rs\<close>: column types, columns and schemas, the schema algebra (\<open>project\<close>, \<open>join\<close>,
  \<open>resolve_path\<close>, \<open>expand\<close>) and the widening used by \<open>UNION\<close>.

  \<^item> \<open>column_type\<close>, \<open>schema\<close> and \<open>column\<close> are mutually recursive datatypes, as
    \<open>ColumnType::Struct\<close> holds a \<open>Schema\<close>, which holds \<open>Column\<close>s.
  \<^item> Operations returning \<open>Result<_, TypeError>\<close> return \<open>type_error + _\<close>.
  \<^item> \<open>unify_schema\<close> always answers \<open>Ok\<close> in the source; it is the total function of its
    \<open>Ok\<close> value here, and the defensive \<open>Err\<close> arm of \<open>widen\<close> disappears with it.
\<close>

section \<open>Types, columns, schemas\<close>

type_synonym name = string
type_synonym driver_id = string

record provenance =
  prov_driver :: "driver_id option"
  prov_source_col :: "string option"

definition prov_none :: provenance where
  "prov_none = \<lparr>prov_driver = None, prov_source_col = None\<rparr>"

datatype column_type =
    TBool | TInt | TFloat | TDecimal | TText | TBytes | TTimestamp | TDate | TUuid
  | TStruct schema
  | TArray column_type
  | TJson
  | TUnknown
and schema = Schema (columns: "column list")
and column = Column (col_name: name) (col_ty: column_type) (col_nullable: bool)
                    (col_prov: provenance)

datatype cmp_op = Eq | Ne | Lt | Gt | Le | Ge | Match

datatype type_error =
    UnknownColumn name "name list"
  | NotAStruct string column_type
  | NotExpandable name column_type
  | IncomparableTypes cmp_op column_type column_type

fun type_error_code :: "type_error \<Rightarrow> string" where
  "type_error_code (UnknownColumn _ _) = ''unknown_column''"
| "type_error_code (NotAStruct _ _) = ''not_a_struct''"
| "type_error_code (NotExpandable _ _) = ''not_expandable''"
| "type_error_code (IncomparableTypes _ _ _) = ''incomparable_types''"

fun type_token :: "column_type \<Rightarrow> string" where
  "type_token TBool = ''bool''"
| "type_token TInt = ''int''"
| "type_token TFloat = ''float''"
| "type_token TDecimal = ''decimal''"
| "type_token TText = ''text''"
| "type_token TBytes = ''bytes''"
| "type_token TTimestamp = ''timestamp''"
| "type_token TDate = ''date''"
| "type_token TUuid = ''uuid''"
| "type_token (TStruct _) = ''struct''"
| "type_token (TArray _) = ''array''"
| "type_token TJson = ''json''"
| "type_token TUnknown = ''unknown''"

fun is_scalar :: "column_type \<Rightarrow> bool" where
  "is_scalar (TStruct _) = False"
| "is_scalar (TArray _) = False"
| "is_scalar TJson = False"
| "is_scalar TUnknown = False"
| "is_scalar _ = True"

definition column_new :: "name \<Rightarrow> column_type \<Rightarrow> bool \<Rightarrow> column" where
  "column_new n ty nullable = Column n ty nullable prov_none"

fun with_provenance :: "column \<Rightarrow> provenance \<Rightarrow> column" where
  "with_provenance (Column n ty nu _) p = Column n ty nu p"

definition schema_empty :: schema where
  "schema_empty = Schema []"

definition schema_column :: "schema \<Rightarrow> name \<Rightarrow> column option" where
  "schema_column s n = find (\<lambda>c. col_name c = n) (columns s)"

definition column_names :: "schema \<Rightarrow> name list" where
  "column_names s = map col_name (columns s)"

section \<open>The schema algebra\<close>

fun project_cols :: "schema \<Rightarrow> name list \<Rightarrow> type_error + column list" where
  "project_cols s [] = Inr []"
| "project_cols s (n # ns) =
     (case schema_column s n of
        None \<Rightarrow> Inl (UnknownColumn n (column_names s))
      | Some c \<Rightarrow> (case project_cols s ns of Inl e \<Rightarrow> Inl e | Inr out \<Rightarrow> Inr (c # out)))"

definition project :: "schema \<Rightarrow> name list \<Rightarrow> type_error + schema" where
  "project s ns = (case project_cols s ns of Inl e \<Rightarrow> Inl e | Inr out \<Rightarrow> Inr (Schema out))"

definition join_qualifier :: "column \<Rightarrow> string" where
  "join_qualifier c = (case prov_driver (col_prov c) of Some d \<Rightarrow> d | None \<Rightarrow> ''r'')"

definition join_right_column :: "name list \<Rightarrow> column \<Rightarrow> column" where
  "join_right_column left_names c =
     (if col_name c \<in> set left_names
      then Column (join_qualifier c @ ''.'' @ col_name c) (col_ty c) (col_nullable c) (col_prov c)
      else c)"

definition schema_join :: "schema \<Rightarrow> schema \<Rightarrow> schema" where
  "schema_join s rhs =
     Schema (columns s @ map (join_right_column (column_names s)) (columns rhs))"

fun resolve_in_type :: "column_type \<Rightarrow> string \<Rightarrow> name list \<Rightarrow> type_error + column_type" where
  "resolve_in_type ty seg [] = Inr ty"
| "resolve_in_type ty seg (nxt # tail) =
     (case ty of
        TStruct inner \<Rightarrow>
          (case schema_column inner nxt of
             None \<Rightarrow> Inl (UnknownColumn nxt (column_names inner))
           | Some c \<Rightarrow> resolve_in_type (col_ty c) nxt tail)
      | TJson \<Rightarrow> Inr TUnknown
      | TUnknown \<Rightarrow> Inr TUnknown
      | other \<Rightarrow> Inl (NotAStruct seg other))"

fun resolve_path :: "schema \<Rightarrow> name list \<Rightarrow> type_error + column_type" where
  "resolve_path s [] = Inr (TStruct s)"
| "resolve_path s (seg # rest) =
     (case schema_column s seg of
        None \<Rightarrow> Inl (UnknownColumn seg (column_names s))
      | Some c \<Rightarrow> resolve_in_type (col_ty c) seg rest)"

text \<open>The columns that replace an expanded one; \<open>None\<close> when the column is no collection.\<close>

definition expand_replacement :: "name \<Rightarrow> column \<Rightarrow> column list option" where
  "expand_replacement field target =
     (case col_ty target of
        TArray elem \<Rightarrow>
          (case elem of
             TStruct inner \<Rightarrow> Some (columns inner)
           | other \<Rightarrow> Some [with_provenance (column_new field other False) (col_prov target)])
      | TStruct inner \<Rightarrow> Some (columns inner)
      | _ \<Rightarrow> None)"

definition expand_schema :: "schema \<Rightarrow> name \<Rightarrow> type_error + schema" where
  "expand_schema s field =
     (case position (\<lambda>c. col_name c = field) (columns s) of
        None \<Rightarrow> Inl (UnknownColumn field (column_names s))
      | Some idx \<Rightarrow>
          (let target = columns s ! idx in
           case expand_replacement field target of
             None \<Rightarrow> Inl (NotExpandable field (col_ty target))
           | Some replacement \<Rightarrow>
               Inr (Schema (take idx (columns s) @ replacement @ drop (idx + 1) (columns s)))))"

section \<open>Widening and \<open>UNION\<close> unification\<close>

definition merge_provenance :: "provenance \<Rightarrow> provenance \<Rightarrow> provenance" where
  "merge_provenance a b =
     \<lparr>prov_driver = (if prov_driver a = prov_driver b then prov_driver a else None),
      prov_source_col =
        (if prov_source_col a = prov_source_col b then prov_source_col a else None)\<rparr>"

lemma size_col_ty_less [termination_simp]:
  "c \<in> set cs \<Longrightarrow> size (col_ty c) < Suc (size_list size cs)"
  by (induction cs) (auto simp: less_Suc_eq_le intro: le_trans, case_tac c, auto)

text \<open>
  \<open>widen\<close> and \<open>unify_schema\<close> call each other. The source tests the pairs in order: \<open>Unknown\<close>
  on either side, \<open>Int\<close> with \<open>Float\<close>, two structs, two arrays, equal types, anything else.
\<close>

function (sequential) widen :: "column_type \<Rightarrow> column_type \<Rightarrow> column_type"
  and unify_schema :: "schema \<Rightarrow> schema \<Rightarrow> schema" where
  "widen a b =
     (if a = TUnknown then b
      else if b = TUnknown then a
      else if a = TInt \<and> b = TFloat \<or> a = TFloat \<and> b = TInt then TFloat
      else (case a of
              TStruct sa \<Rightarrow>
                (case b of TStruct sb \<Rightarrow> TStruct (unify_schema sa sb) | _ \<Rightarrow> TJson)
            | TArray ea \<Rightarrow>
                (case b of TArray eb \<Rightarrow> TArray (widen ea eb) | _ \<Rightarrow> TJson)
            | _ \<Rightarrow> (if a = b then a else TJson)))"
| "unify_schema (Schema as) b =
     Schema (map (\<lambda>ca. case schema_column b (col_name ca) of
                         Some cb \<Rightarrow> Column (col_name ca) (widen (col_ty ca) (col_ty cb))
                                      (col_nullable ca \<or> col_nullable cb)
                                      (merge_provenance (col_prov ca) (col_prov cb))
                       | None \<Rightarrow> Column (col_name ca) (col_ty ca) True (col_prov ca)) as
             @ map (\<lambda>cb. Column (col_name cb) (col_ty cb) True (col_prov cb))
                   (filter (\<lambda>cb. schema_column (Schema as) (col_name cb) = None) (columns b)))"
  by pat_completeness auto

termination widen
  by (relation "measure (\<lambda>x. case x of Inl (a, b) \<Rightarrow> size a | Inr (a, b) \<Rightarrow> size a)")
     (auto dest: size_col_ty_less)

declare widen.simps [simp del] unify_schema.simps [simp del]

end
