(* ===== verification/Types_Unify.thy ===== *)
theory Types_Unify
  imports Types_Schema
begin

text \<open>
  Properties of \<open>crates/types/src/unify.rs\<close>, whose module comment promises that \<open>unify\<close> is
  idempotent and commutative up to column order. Both hold of schemas whose column names
  are distinct at every level (\<open>wf_schema\<close>), the convention \<open>Schema::column\<close> relies on, and
  \<open>unify\<close> keeps that convention. "Up to column order" is equality of \<open>norm_schema\<close>, which
  sorts the columns by name at every level.
\<close>

section \<open>Well-formed types and the order-insensitive normal form\<close>

fun wf_ct :: "column_type \<Rightarrow> bool" and wf_schema :: "schema \<Rightarrow> bool" where
  "wf_ct (TStruct s) = wf_schema s"
| "wf_ct (TArray t) = wf_ct t"
| "wf_ct _ = True"
| "wf_schema (Schema cs) = (distinct (map col_name cs) \<and> (\<forall>c\<in>set cs. wf_ct (col_ty c)))"

fun norm_ct :: "column_type \<Rightarrow> column_type" and norm_schema :: "schema \<Rightarrow> schema"
  and norm_col :: "column \<Rightarrow> column" where
  "norm_ct (TStruct s) = TStruct (norm_schema s)"
| "norm_ct (TArray t) = TArray (norm_ct t)"
| "norm_ct t = t"
| "norm_schema (Schema cs) = Schema (sort_key col_name (map norm_col cs))"
| "norm_col (Column n t nu p) = Column n (norm_ct t) nu p"

lemma norm_col_sel [simp]: "col_name (norm_col c) = col_name c"
  by (cases c) simp

lemma wf_schema_iff:
  "wf_schema s \<longleftrightarrow> distinct (column_names s) \<and> (\<forall>c\<in>set (columns s). wf_ct (col_ty c))"
  by (cases s) (simp add: column_names_def)

lemma schema_column_SomeD:
  "schema_column s n = Some c \<Longrightarrow> c \<in> set (columns s) \<and> col_name c = n"
  by (auto simp: schema_column_def dest: find_SomeD)

lemma schema_column_None_iff: "schema_column s n = None \<longleftrightarrow> n \<notin> set (column_names s)"
  by (auto simp: schema_column_def column_names_def find_None_iff_all)

lemma wf_schema_column: "wf_schema s \<Longrightarrow> schema_column s n = Some c \<Longrightarrow> wf_ct (col_ty c)"
  by (auto simp: wf_schema_iff dest: schema_column_SomeD)

lemma widen_simps [simp]:
  "widen TUnknown b = b"
  "widen a TUnknown = a"
  "widen (TStruct s) (TStruct t) = TStruct (unify_schema s t)"
  "widen (TArray u) (TArray v) = TArray (widen u v)"
  by (subst widen.simps, simp)+

definition both_nested :: "column_type \<Rightarrow> column_type \<Rightarrow> bool" where
  "both_nested a b \<longleftrightarrow> (\<exists>s t. a = TStruct s \<and> b = TStruct t) \<or> (\<exists>u v. a = TArray u \<and> b = TArray v)"

lemma both_nested_sym: "both_nested a b \<longleftrightarrow> both_nested b a"
  by (auto simp: both_nested_def)

lemma both_nested_simps [simp]:
  "\<not> both_nested TBool b" "\<not> both_nested TInt b" "\<not> both_nested TFloat b"
  "\<not> both_nested TDecimal b" "\<not> both_nested TText b" "\<not> both_nested TBytes b"
  "\<not> both_nested TTimestamp b" "\<not> both_nested TDate b" "\<not> both_nested TUuid b"
  "\<not> both_nested TJson b" "both_nested (TStruct s) (TStruct t)"
  "both_nested (TArray u) (TArray v)"
  by (simp_all add: both_nested_def)

lemma widen_flat:
  "\<not> both_nested a b \<Longrightarrow> a \<noteq> TUnknown \<Longrightarrow> b \<noteq> TUnknown \<Longrightarrow>
   widen a b = (if a = TInt \<and> b = TFloat \<or> a = TFloat \<and> b = TInt then TFloat
                else if a = b then a else TJson)"
  by (subst widen.simps) (auto simp: both_nested_def split: column_type.splits)

lemma widen_cases [case_names unknown_l unknown_r struct array flat]:
  obtains "a = TUnknown" | "b = TUnknown"
  | s t where "a = TStruct s" "b = TStruct t" | u v where "a = TArray u" "b = TArray v"
  | "\<not> both_nested a b" "a \<noteq> TUnknown" "b \<noteq> TUnknown"
  by (auto simp: both_nested_def)

section \<open>Lookup in a unified schema\<close>

definition unify_col :: "column \<Rightarrow> column \<Rightarrow> column" where
  "unify_col ca cb = Column (col_name ca) (widen (col_ty ca) (col_ty cb))
                       (col_nullable ca \<or> col_nullable cb)
                       (merge_provenance (col_prov ca) (col_prov cb))"

definition null_col :: "column \<Rightarrow> column" where
  "null_col c = Column (col_name c) (col_ty c) True (col_prov c)"

lemma col_name_unify_null [simp]:
  "col_name (unify_col ca cb) = col_name ca" "col_name (null_col c) = col_name c"
  by (simp_all add: unify_col_def null_col_def)

lemma columns_unify:
  "columns (unify_schema a b) =
     map (\<lambda>ca. case schema_column b (col_name ca) of Some cb \<Rightarrow> unify_col ca cb
                                                    | None \<Rightarrow> null_col ca) (columns a)
     @ map null_col (filter (\<lambda>cb. schema_column a (col_name cb) = None) (columns b))"
  by (cases a) (simp add: unify_schema.simps unify_col_def null_col_def cong: option.case_cong)

lemma column_names_unify:
  "column_names (unify_schema a b) =
     column_names a @ filter (\<lambda>n. n \<notin> set (column_names a)) (column_names b)"
  by (auto simp: column_names_def [of "unify_schema a b"] columns_unify schema_column_None_iff
        column_names_def filter_map comp_def split: option.splits)

lemma schema_column_unify:
  "schema_column (unify_schema a b) n =
     (case (schema_column a n, schema_column b n) of
        (Some ca, Some cb) \<Rightarrow> Some (unify_col ca cb)
      | (Some ca, None) \<Rightarrow> Some (null_col ca)
      | (None, Some cb) \<Rightarrow> Some (null_col cb)
      | (None, None) \<Rightarrow> None)"
proof -
  let ?g = "\<lambda>ca. case schema_column b (col_name ca) of Some cb \<Rightarrow> unify_col ca cb
                                                     | None \<Rightarrow> null_col ca"
  have g: "col_name (?g c) = col_name c" for c by (simp split: option.split)
  have left: "find (\<lambda>c. col_name c = n) (map ?g (columns a)) =
                map_option ?g (schema_column a n)"
    unfolding schema_column_def [of a] by (rule find_key_map [where f = col_name]) (rule g)
  have right: "find (\<lambda>c. col_name c = n)
                 (map null_col (filter (\<lambda>cb. schema_column a (col_name cb) = None) (columns b))) =
               (if schema_column a n = None then map_option null_col (schema_column b n) else None)"
  proof -
    have "find (\<lambda>c. schema_column a (col_name c) = None \<and> col_name c = n) cs =
            (if schema_column a n = None then find (\<lambda>c. col_name c = n) cs else None)" for cs
      by (induction cs) auto
    then show ?thesis
      by (subst find_key_map) (simp_all add: find_filter schema_column_def [of b])
  qed
  show ?thesis
    unfolding schema_column_def [of "unify_schema a b"] columns_unify find_append left right
    by (auto split: option.splits dest: schema_column_SomeD)
qed

section \<open>Closure, idempotence, commutativity\<close>

lemma wf_unify_mutual:
  "wf_ct a \<Longrightarrow> wf_ct b \<Longrightarrow> wf_ct (widen a b)"
  "wf_schema s \<Longrightarrow> wf_schema t \<Longrightarrow> wf_schema (unify_schema s t)"
proof (induction a b and s t rule: widen_unify_schema.induct)
  case (1 a b)
  then show ?case
    by (cases rule: widen_cases [where a = a and b = b]) (auto simp: widen_flat)
next
  case (2 as b)
  have "distinct (column_names (unify_schema (Schema as) b))"
    using 2(2,3) by (auto simp: column_names_unify wf_schema_iff)
  moreover have "wf_ct (widen (col_ty ca) (col_ty cb))"
    if "ca \<in> set as" "schema_column b (col_name ca) = Some cb" for ca cb
    using 2(1) [OF that] 2(2,3) that wf_schema_column by simp
  then have "wf_ct (col_ty c)" if "c \<in> set (columns (unify_schema (Schema as) b))" for c
    using that 2(2,3)
    by (auto simp: columns_unify null_col_def unify_col_def wf_schema_iff split: option.splits)
  ultimately show ?case by (simp add: wf_schema_iff)
qed

lemma merge_provenance_idem: "merge_provenance p p = p"
  by (simp add: merge_provenance_def)

lemma merge_provenance_commute: "merge_provenance p q = merge_provenance q p"
  by (auto simp: merge_provenance_def)

lemma schema_column_self:
  "distinct (column_names s) \<Longrightarrow> c \<in> set (columns s) \<Longrightarrow> schema_column s (col_name c) = Some c"
  by (simp add: schema_column_def column_names_def find_distinct_key)

lemma widen_idem_mutual:
  "wf_ct a \<Longrightarrow> widen a a = a"
  "wf_schema s \<Longrightarrow> unify_schema s s = s"
  "wf_ct (col_ty c) \<Longrightarrow> unify_col c c = c"
proof (induction a and s and c)
  case (Schema cs)
  let ?s = "Schema cs"
  have "distinct (column_names ?s)" using Schema.prems by (simp add: wf_schema_iff)
  then have look: "schema_column ?s (col_name c) = Some c" if "c \<in> set cs" for c
    using schema_column_self that by simp
  have "columns (unify_schema ?s ?s) = cs"
    using Schema look by (auto simp: columns_unify wf_schema_iff filter_empty_conv intro!: map_idI)
  then show ?case by (cases "unify_schema ?s ?s") simp
qed (auto simp: widen_flat unify_col_def merge_provenance_idem)

lemma lookup_norm:
  "find (\<lambda>c. col_name c = n) (map norm_col (columns s)) = map_option norm_col (schema_column s n)"
  by (simp add: find_key_map schema_column_def)

lemma norm_schema_eqI:
  assumes "distinct (column_names s)" "distinct (column_names t)"
    and "\<And>n. map_option norm_col (schema_column s n) = map_option norm_col (schema_column t n)"
  shows "norm_schema s = norm_schema t"
proof -
  have "sort_key col_name (map norm_col (columns s)) = sort_key col_name (map norm_col (columns t))"
    using assms by (intro sort_key_eq_of_find_eq) (simp_all add: lookup_norm column_names_def comp_def)
  then show ?thesis by (cases s; cases t) simp
qed

lemma norm_unify_col:
  "norm_ct (widen (col_ty ca) (col_ty cb)) = norm_ct (widen (col_ty cb) (col_ty ca)) \<Longrightarrow>
   col_name ca = col_name cb \<Longrightarrow> norm_col (unify_col ca cb) = norm_col (unify_col cb ca)"
  by (auto simp: unify_col_def merge_provenance_commute)

lemma widen_commute_mutual:
  "wf_ct a \<Longrightarrow> wf_ct b \<Longrightarrow> norm_ct (widen a b) = norm_ct (widen b a)"
  "wf_schema s \<Longrightarrow> wf_schema t \<Longrightarrow> norm_schema (unify_schema s t) = norm_schema (unify_schema t s)"
proof (induction a b and s t rule: widen_unify_schema.induct)
  case (1 a b)
  show ?case
  proof (cases rule: widen_cases [where a = a and b = b])
    case flat
    then have "widen a b = widen b a" by (auto simp: widen_flat both_nested_sym [of b a])
    then show ?thesis by simp
  next
    case (struct s t)
    then show ?thesis using 1(1) [of s t] 1(3,4) by simp
  next
    case (array u v)
    then show ?thesis using 1(2) [of u v] 1(3,4) by simp
  qed simp_all
next
  case (2 as b)
  have "norm_col (unify_col ca cb) = norm_col (unify_col cb ca)"
    if ca: "schema_column (Schema as) n = Some ca" and cb: "schema_column b n = Some cb" for n ca cb
  proof -
    have "ca \<in> set as" "col_name ca = n" "col_name cb = n"
      using schema_column_SomeD [OF ca] schema_column_SomeD [OF cb] by simp_all
    then show ?thesis
      using 2(1) [of ca cb] cb wf_schema_column [OF 2(2) ca] wf_schema_column [OF 2(3) cb]
      by (simp add: norm_unify_col)
  qed
  then have "map_option norm_col (schema_column (unify_schema (Schema as) b) n) =
        map_option norm_col (schema_column (unify_schema b (Schema as)) n)" for n
    by (cases "schema_column (Schema as) n"; cases "schema_column b n")
       (simp_all add: schema_column_unify)
  moreover have "wf_schema (unify_schema (Schema as) b)" "wf_schema (unify_schema b (Schema as))"
    using 2(2,3) by (simp_all add: wf_unify_mutual)
  ultimately show ?case by (intro norm_schema_eqI) (simp_all only: wf_schema_iff)
qed

end
