(* ===== verification/Types_Value.thy ===== *)
theory Types_Value
  imports Types_Unify
begin

text \<open>
  Runtime values, rows and batches, \<open>crates/types/src/value.rs\<close>.

  \<^item> \<open>Value::Json\<close> carries a \<open>serde_json::Value\<close>, a type of another package: it is the type
    parameter \<open>'j\<close> of \<open>value\<close>.
  \<^item> \<open>Value::Float\<close> carries an \<open>f64\<close>: \<open>FFin s m\<close> is the finite number of sign \<open>s\<close> and
    magnitude \<open>m\<close> in units of the least subnormal \<open>2^-1074\<close>, so that every finite double has
    a value of this type.
  \<^item> \<open>Fields\<close> is its vector of \<open>(name, value)\<close> pairs.
\<close>

section \<open>Values, rows, batches\<close>

datatype f64 = FNaN | FInf bool | FFin bool nat

datatype 'j val =
    VNull | VBool bool | VInt i64 | VFloat f64 | VText string | VBytes "u8 list"
  | VTimestamp i64
  | VStruct "(name \<times> 'j val) list"
  | VArray "'j val list"
  | VJson 'j

record 'j row =
  row_values :: "'j val list"

record 'j row_batch =
  rb_schema :: schema
  rb_rows :: "'j row list"

definition row_batch_default :: "'j row_batch" where
  "row_batch_default = \<lparr>rb_schema = schema_empty, rb_rows = []\<rparr>"

definition fields_get :: "(name \<times> 'j val) list \<Rightarrow> name \<Rightarrow> 'j val option" where
  "fields_get fs n = map_option snd (find (\<lambda>(m, _). m = n) fs)"

definition fields_names :: "(name \<times> 'j val) list \<Rightarrow> name list" where
  "fields_names fs = map fst fs"

definition fields_into_values :: "(name \<times> 'j val) list \<Rightarrow> 'j val list" where
  "fields_into_values fs = map snd fs"

definition is_null :: "'j val \<Rightarrow> bool" where
  "is_null v = (case v of VNull \<Rightarrow> True | _ \<Rightarrow> False)"

section \<open>The type of a value and conformance to a type\<close>

lemma size_snd_less [termination_simp]:
  "(n, v) \<in> set fs \<Longrightarrow> size v < Suc (size_list (\<lambda>x. Suc (size (snd x))) fs)"
  by (induction fs) auto

lemma size_zip_less [termination_simp]:
  "((n, v), c) \<in> set (zip fs cs) \<Longrightarrow> size v < Suc (size_list (\<lambda>x. Suc (size (snd x))) fs)"
  by (auto dest!: set_zip_leftD intro: size_snd_less)

fun type_of :: "'j val \<Rightarrow> column_type" where
  "type_of VNull = TUnknown"
| "type_of (VBool _) = TBool"
| "type_of (VInt _) = TInt"
| "type_of (VFloat _) = TFloat"
| "type_of (VText _) = TText"
| "type_of (VBytes _) = TBytes"
| "type_of (VTimestamp _) = TTimestamp"
| "type_of (VStruct fs) =
     TStruct (Schema (map (\<lambda>(n, v). column_new n (type_of v) (is_null v)) fs))"
| "type_of (VArray items) = TArray (fold (\<lambda>item ty. widen ty (type_of item)) items TUnknown)"
| "type_of (VJson _) = TJson"

definition fields_schema_of :: "(name \<times> 'j val) list \<Rightarrow> schema" where
  "fields_schema_of fs = Schema (map (\<lambda>(n, v). column_new n (type_of v) (is_null v)) fs)"

fun conforms_to :: "'j val \<Rightarrow> column_type \<Rightarrow> bool \<Rightarrow> bool" where
  "conforms_to VNull ty nullable = nullable"
| "conforms_to (VBool _) ty nullable = (ty \<in> {TUnknown, TJson, TBool})"
| "conforms_to (VInt _) ty nullable = (ty \<in> {TUnknown, TJson, TInt, TTimestamp, TDate})"
| "conforms_to (VFloat _) ty nullable = (ty \<in> {TUnknown, TJson, TFloat})"
| "conforms_to (VText _) ty nullable = (ty \<in> {TUnknown, TJson, TText, TDecimal, TUuid})"
| "conforms_to (VBytes _) ty nullable = (ty \<in> {TUnknown, TJson, TBytes})"
| "conforms_to (VTimestamp _) ty nullable = (ty \<in> {TUnknown, TJson, TTimestamp, TInt})"
| "conforms_to (VStruct fs) ty nullable =
     (case ty of
        TUnknown \<Rightarrow> True | TJson \<Rightarrow> True
      | TStruct s \<Rightarrow> length fs = length (columns s) \<and>
                     list_all (\<lambda>((n, v), c). conforms_to v (col_ty c) (col_nullable c))
                              (zip fs (columns s))
      | _ \<Rightarrow> False)"
| "conforms_to (VArray items) ty nullable =
     (case ty of
        TUnknown \<Rightarrow> True | TJson \<Rightarrow> True
      | TArray elem \<Rightarrow> list_all (\<lambda>v. conforms_to v elem True) items
      | _ \<Rightarrow> False)"
| "conforms_to (VJson _) ty nullable = (ty \<in> {TUnknown, TJson})"

definition fields_conform :: "(name \<times> 'j val) list \<Rightarrow> schema \<Rightarrow> bool" where
  "fields_conform fs s =
     (length fs = length (columns s) \<and>
      list_all (\<lambda>((n, v), c). conforms_to v (col_ty c) (col_nullable c)) (zip fs (columns s)))"

definition row_conforms :: "'j row \<Rightarrow> schema \<Rightarrow> bool" where
  "row_conforms r s =
     (length (row_values r) = length (columns s) \<and>
      list_all (\<lambda>(v, c). conforms_to v (col_ty c) (col_nullable c))
               (zip (row_values r) (columns s)))"

definition is_conformant :: "'j row_batch \<Rightarrow> bool" where
  "is_conformant b = list_all (\<lambda>r. row_conforms r (rb_schema b)) (rb_rows b)"

end
