(* ===== verification/Plan_Model.thy ===== *)
theory Plan_Model
  imports Types_Value
begin

text \<open>
  Plans as data, \<open>crates/plan/src/{ids,node,plan,server,lib}.rs\<close>: node ids, affected-row
  estimates, effect kinds, effect nodes with their builders, and plans with their
  combinators. \<open>NodeId(u32)\<close> is a 32-bit word, ordered as the derived \<open>Ord\<close> orders it;
  \<open>ProcId\<close>, \<open>VfsPath\<close> and \<open>DriverId\<close> are their strings. \<open>Plan::validate\<close> needs the
  topological sort and is in \<open>Plan_Topo\<close>.
\<close>

section \<open>Identifiers and estimates\<close>

type_synonym node_id = u32
type_synonym proc_id = string
type_synonym vfs_path = string

record target =
  tgt_driver :: driver_id
  tgt_path :: vfs_path

datatype affected = Exact u64 | AtMost u64 | AffectedUnknown

fun affected_combine :: "affected \<Rightarrow> affected \<Rightarrow> affected" where
  "affected_combine AffectedUnknown _ = AffectedUnknown"
| "affected_combine _ AffectedUnknown = AffectedUnknown"
| "affected_combine (Exact a) (Exact b) = Exact (sat_add a b)"
| "affected_combine (Exact a) (AtMost b) = AtMost (sat_add a b)"
| "affected_combine (AtMost a) (Exact b) = AtMost (sat_add a b)"
| "affected_combine (AtMost a) (AtMost b) = AtMost (sat_add a b)"

section \<open>Server coordinates and effect kinds\<close>

datatype server_node = Endpoints | Triggers | Jobs | Views | Policies | Webhooks | Agents

fun server_segment :: "server_node \<Rightarrow> string" where
  "server_segment Endpoints = ''endpoints''"
| "server_segment Triggers = ''triggers''"
| "server_segment Jobs = ''jobs''"
| "server_segment Views = ''views''"
| "server_segment Policies = ''policies''"
| "server_segment Webhooks = ''webhooks''"
| "server_segment Agents = ''agents''"

definition server_from_segment :: "string \<Rightarrow> server_node option" where
  "server_from_segment seg =
     (if seg = ''endpoints'' then Some Endpoints
      else if seg = ''triggers'' then Some Triggers
      else if seg = ''jobs'' then Some Jobs
      else if seg = ''views'' \<or> seg = ''materialized_views'' then Some Views
      else if seg = ''policies'' then Some Policies
      else if seg = ''webhooks'' then Some Webhooks
      else if seg = ''agents'' then Some Agents
      else None)"

definition server_path :: "server_node \<Rightarrow> string" where
  "server_path n = ''/server/'' @ server_segment n"

datatype server_write_op = OpInsert | OpUpsert | OpUpdate | OpRemove

fun server_op_label :: "server_write_op \<Rightarrow> string" where
  "server_op_label OpInsert = ''INSERT''"
| "server_op_label OpUpsert = ''UPSERT''"
| "server_op_label OpUpdate = ''UPDATE''"
| "server_op_label OpRemove = ''REMOVE''"

datatype effect_kind =
    KRead | KList | KInsert | KUpsert | KUpdate | KRemove
  | KCall proc_id
  | KServerConfigWrite server_node server_write_op

definition is_inherently_irreversible :: "effect_kind \<Rightarrow> bool" where
  "is_inherently_irreversible k = (k = KRemove)"

text \<open>The node part of a \<open>/server\<close> label, \<open>SERVER_<NODE>_<OP>\<close>, as the source's table spells it.\<close>

fun server_label_node :: "server_node \<Rightarrow> string" where
  "server_label_node Endpoints = ''ENDPOINTS''"
| "server_label_node Triggers = ''TRIGGERS''"
| "server_label_node Jobs = ''JOBS''"
| "server_label_node Views = ''VIEWS''"
| "server_label_node Policies = ''POLICIES''"
| "server_label_node Webhooks = ''WEBHOOKS''"
| "server_label_node Agents = ''AGENTS''"

fun kind_label :: "effect_kind \<Rightarrow> string" where
  "kind_label KRead = ''READ''"
| "kind_label KList = ''LIST''"
| "kind_label KInsert = ''INSERT''"
| "kind_label KUpsert = ''UPSERT''"
| "kind_label KUpdate = ''UPDATE''"
| "kind_label KRemove = ''REMOVE''"
| "kind_label (KCall _) = ''CALL''"
| "kind_label (KServerConfigWrite n op) =
     ''SERVER_'' @ server_label_node n @ ''_'' @ server_op_label op"

datatype write_verb = WvInsert | WvUpsert | WvUpdate | WvRemove

fun kind_for_verb :: "write_verb \<Rightarrow> effect_kind" where
  "kind_for_verb WvInsert = KInsert"
| "kind_for_verb WvUpsert = KUpsert"
| "kind_for_verb WvUpdate = KUpdate"
| "kind_for_verb WvRemove = KRemove"

section \<open>Effect nodes\<close>

record 'j effect_node =
  en_id :: node_id
  en_kind :: effect_kind
  en_target :: target
  en_args :: "'j row_batch"
  en_selector :: "'j row_batch option"
  en_irreversible :: bool
  en_est_affected :: affected

definition node_new :: "node_id \<Rightarrow> effect_kind \<Rightarrow> target \<Rightarrow> 'j effect_node" where
  "node_new i k t =
     \<lparr>en_id = i, en_kind = k, en_target = t, en_args = row_batch_default, en_selector = None,
      en_irreversible = is_inherently_irreversible k, en_est_affected = AffectedUnknown\<rparr>"

definition selector_value :: "'j effect_node \<Rightarrow> name \<Rightarrow> 'j val option" where
  "selector_value n nm =
     (case en_selector n of
        None \<Rightarrow> None
      | Some sel \<Rightarrow>
          (case position (\<lambda>c. col_name c = nm) (columns (rb_schema sel)) of
             None \<Rightarrow> None
           | Some idx \<Rightarrow>
               (case rb_rows sel of
                  [] \<Rightarrow> None
                | r # _ \<Rightarrow> if idx < length (row_values r) then Some (row_values r ! idx) else None)))"

definition selector_text :: "'j effect_node \<Rightarrow> name \<Rightarrow> string option" where
  "selector_text n nm =
     (case selector_value n nm of
        Some v \<Rightarrow> (case v of VText t \<Rightarrow> if t \<noteq> [] then Some t else None | _ \<Rightarrow> None)
      | None \<Rightarrow> None)"

definition with_args :: "'j effect_node \<Rightarrow> 'j row_batch \<Rightarrow> 'j effect_node" where
  "with_args n args =
     (let n' = (if en_est_affected n = AffectedUnknown
                then n\<lparr>en_est_affected := Exact (of_nat (length (rb_rows args)))\<rparr> else n)
      in n'\<lparr>en_args := args\<rparr>)"

definition with_selector :: "'j effect_node \<Rightarrow> 'j row_batch \<Rightarrow> 'j effect_node" where
  "with_selector n sel =
     n\<lparr>en_selector := (if columns (rb_schema sel) = [] then None else Some sel)\<rparr>"

definition with_affected :: "'j effect_node \<Rightarrow> affected \<Rightarrow> 'j effect_node" where
  "with_affected n est = n\<lparr>en_est_affected := est\<rparr>"

definition node_irreversible :: "'j effect_node \<Rightarrow> bool \<Rightarrow> 'j effect_node" where
  "node_irreversible n yes = n\<lparr>en_irreversible := (en_irreversible n \<or> yes)\<rparr>"

section \<open>Plans and their combinators\<close>

datatype plan_error = DanglingDep node_id node_id | Cyclic | DuplicateId node_id

text \<open>\<open>pl_deps\<close> holds the edges \<open>(parent, child)\<close>: the parent applies before the child.\<close>

record 'j plan =
  pl_nodes :: "'j effect_node list"
  pl_deps :: "(node_id \<times> node_id) list"
  pl_returning :: "schema option"

definition plan_pure :: "'j plan" where
  "plan_pure = \<lparr>pl_nodes = [], pl_deps = [], pl_returning = None\<rparr>"

definition plan_leaf :: "'j effect_node \<Rightarrow> 'j plan" where
  "plan_leaf n = \<lparr>pl_nodes = [n], pl_deps = [], pl_returning = None\<rparr>"

definition plan_with_returning :: "'j plan \<Rightarrow> schema \<Rightarrow> 'j plan" where
  "plan_with_returning p s = p\<lparr>pl_returning := Some s\<rparr>"

definition plan_is_irreversible :: "'j plan \<Rightarrow> bool" where
  "plan_is_irreversible p = list_ex en_irreversible (pl_nodes p)"

definition plan_node :: "'j plan \<Rightarrow> node_id \<Rightarrow> 'j effect_node option" where
  "plan_node p i = find (\<lambda>n. en_id n = i) (pl_nodes p)"

definition plan_merge :: "'j plan \<Rightarrow> 'j plan \<Rightarrow> 'j plan" where
  "plan_merge p q = p\<lparr>pl_nodes := pl_nodes p @ pl_nodes q, pl_deps := pl_deps p @ pl_deps q\<rparr>"

definition root_ids :: "'j plan \<Rightarrow> node_id list" where
  "root_ids p = filter (\<lambda>i. \<not> list_ex (\<lambda>(_, child). child = i) (pl_deps p)) (map en_id (pl_nodes p))"

definition sink_ids :: "'j plan \<Rightarrow> node_id list" where
  "sink_ids p = filter (\<lambda>i. \<not> list_ex (\<lambda>(parent, _). parent = i) (pl_deps p)) (map en_id (pl_nodes p))"

definition plan_then :: "'j plan \<Rightarrow> 'j plan \<Rightarrow> 'j plan" where
  "plan_then p q =
     \<lparr>pl_nodes = pl_nodes p @ pl_nodes q,
      pl_deps = pl_deps p @ pl_deps q @ List.product (sink_ids p) (root_ids q),
      pl_returning = (case pl_returning q of Some s \<Rightarrow> Some s | None \<Rightarrow> pl_returning p)\<rparr>"

definition plan_depends_on :: "'j plan \<Rightarrow> node_id \<Rightarrow> node_id \<Rightarrow> 'j plan" where
  "plan_depends_on p child parent = p\<lparr>pl_deps := pl_deps p @ [(parent, child)]\<rparr>"

section \<open>The plan builder\<close>

record 'j plan_builder =
  bld_next :: u32
  bld_plan :: "'j plan"

definition builder_new :: "'j plan_builder" where
  "builder_new = \<lparr>bld_next = 0, bld_plan = plan_pure\<rparr>"

definition builder_next_id :: "'j plan_builder \<Rightarrow> node_id \<times> 'j plan_builder" where
  "builder_next_id b = (bld_next b, b\<lparr>bld_next := sat_add (bld_next b) 1\<rparr>)"

definition builder_push :: "'j plan_builder \<Rightarrow> 'j effect_node \<Rightarrow> node_id \<times> 'j plan_builder" where
  "builder_push b n =
     (en_id n, b\<lparr>bld_plan := (bld_plan b)\<lparr>pl_nodes := pl_nodes (bld_plan b) @ [n]\<rparr>\<rparr>)"

definition builder_depends_on :: "'j plan_builder \<Rightarrow> node_id \<Rightarrow> node_id \<Rightarrow> 'j plan_builder" where
  "builder_depends_on b child parent =
     b\<lparr>bld_plan := (bld_plan b)\<lparr>pl_deps := pl_deps (bld_plan b) @ [(parent, child)]\<rparr>\<rparr>"

definition builder_build :: "'j plan_builder \<Rightarrow> 'j plan" where
  "builder_build b = bld_plan b"

section \<open>Small plans for the witnesses\<close>

text \<open>\<open>demo_plan\<close>: an insert (1) and an upsert (2) that a removal (0) waits for, after which a
  procedure is called (3).\<close>

definition demo_target :: target where
  "demo_target = \<lparr>tgt_driver = ''db'', tgt_path = ''/db/t''\<rparr>"

definition demo_plan :: "unit plan" where
  "demo_plan =
     \<lparr>pl_nodes = [node_new 0 KRemove demo_target, node_new 1 KInsert demo_target,
                  node_new 2 KUpsert demo_target, node_new 3 (KCall ''m.send'') demo_target],
      pl_deps = [(2, 0), (1, 0), (0, 3)], pl_returning = None\<rparr>"

definition demo_leaf :: "unit plan" where
  "demo_leaf = plan_leaf (node_new 9 KList demo_target)"

section \<open>Shared facts\<close>

abbreviation plan_ids :: "'j plan \<Rightarrow> node_id list" where
  "plan_ids p \<equiv> map en_id (pl_nodes p)"

lemma plan_node_None_iff: "plan_node p i = None \<longleftrightarrow> i \<notin> set (plan_ids p)"
  by (auto simp: plan_node_def find_None_iff_all)

lemma plan_node_SomeD: "plan_node p i = Some n \<Longrightarrow> n \<in> set (pl_nodes p) \<and> en_id n = i"
  by (auto simp: plan_node_def dest: find_SomeD)

lemma plan_node_Some_ex: "i \<in> set (plan_ids p) \<Longrightarrow> \<exists>n. plan_node p i = Some n"
  using plan_node_None_iff by fastforce

lemma affected_combine_assoc:
  "affected_combine (affected_combine a b) c = affected_combine a (affected_combine b c)"
  by (cases a; cases b; cases c) (simp_all add: sat_add_assoc)

lemma affected_combine_commute: "affected_combine a b = affected_combine b a"
  by (cases a; cases b) (simp_all add: sat_add_commute)

lemma affected_combine_0 [simp]:
  "affected_combine (Exact 0) a = a" "affected_combine a (Exact 0) = a"
  by (cases a; simp)+

lemma server_from_segment_segment: "server_from_segment (server_segment n) = Some n"
  by (cases n) (simp_all add: server_from_segment_def)

end
