(* ===== verification/Plan_Topo.thy ===== *)
theory Plan_Topo
  imports Plan_Model
begin

text \<open>
  \<open>topo_order\<close> (\<open>crates/plan/src/topo.rs\<close>), Kahn's algorithm with a sorted ready list, and
  \<open>Plan::validate\<close> (\<open>plan.rs\<close>).

  The two \<open>BTreeMap\<close>s are maps; iterating over the keys of the in-degree map is the sorted
  list of the distinct ids. The \<open>while\<close> loop is \<open>kahn\<close>, with the number of nodes as fuel;
  its result \<open>None\<close> stands for an underflow of \<open>*d -= 1\<close> (a panic) or for exhausted fuel,
  and \<open>kahn_run\<close> shows that neither happens. The abstract specification is the greedy
  order: at every position the least id all of whose parents are placed
  (\<open>greedy_order\<close>), and the loop refines it.
\<close>

section \<open>The code\<close>

type_synonym indegrees = "node_id \<rightharpoonup> nat"
type_synonym adjacency = "node_id \<rightharpoonup> node_id list"

definition count_edge ::
  "node_id \<times> node_id \<Rightarrow> indegrees \<times> adjacency \<Rightarrow> indegrees \<times> adjacency" where
  "count_edge e s =
     (case e of (parent, child) \<Rightarrow>
      case s of (indegree, children) \<Rightarrow>
        if indegree parent = None \<or> indegree child = None then (indegree, children)
        else ((case indegree child of
                 Some d \<Rightarrow> indegree(child \<mapsto> d + 1) | None \<Rightarrow> indegree),
              children(parent \<mapsto> (case children parent of Some l \<Rightarrow> l | None \<Rightarrow> []) @ [child])))"

definition topo_tables :: "'j plan \<Rightarrow> indegrees \<times> adjacency" where
  "topo_tables p =
     fold count_edge (pl_deps p) (map_of (map (\<lambda>n. (en_id n, 0)) (pl_nodes p)), Map.empty)"

definition initial_ready :: "'j plan \<Rightarrow> indegrees \<Rightarrow> node_id list" where
  "initial_ready p indegree =
     sort (filter (\<lambda>i. indegree i = Some 0) (sort (remdups (plan_ids p))))"

text \<open>\<open>slice::partition_point\<close> on a slice partitioned by the predicate, and \<open>Vec::insert\<close>.\<close>

definition partition_point :: "('a \<Rightarrow> bool) \<Rightarrow> 'a list \<Rightarrow> nat" where
  "partition_point P xs = length (takeWhile P xs)"

definition insert_at :: "nat \<Rightarrow> 'a \<Rightarrow> 'a list \<Rightarrow> 'a list" where
  "insert_at i x xs = take i xs @ x # drop i xs"

fun relax :: "node_id list \<Rightarrow> indegrees \<times> node_id list \<Rightarrow> (indegrees \<times> node_id list) option" where
  "relax [] s = Some s"
| "relax (child # kids) (indegree, ready) =
     (case indegree child of
        None \<Rightarrow> relax kids (indegree, ready)
      | Some d \<Rightarrow>
          (if d = 0 then None
           else relax kids
                  (indegree(child \<mapsto> d - 1),
                   (if d - 1 = 0 then insert_at (partition_point (\<lambda>x. x < child) ready) child ready
                    else ready))))"

fun kahn :: "nat \<Rightarrow> adjacency \<Rightarrow> indegrees \<Rightarrow> node_id list \<Rightarrow> node_id list \<Rightarrow> node_id list option" where
  "kahn fuel children indegree [] order = Some order"
| "kahn 0 children indegree (nxt # ready) order = None"
| "kahn (Suc fuel) children indegree (nxt # ready) order =
     (case children nxt of
        None \<Rightarrow> kahn fuel children indegree ready (order @ [nxt])
      | Some kids \<Rightarrow>
          (case relax (sort kids) (indegree, ready) of
             None \<Rightarrow> None
           | Some (indegree', ready') \<Rightarrow> kahn fuel children indegree' ready' (order @ [nxt])))"

definition topo_run :: "'j plan \<Rightarrow> node_id list option" where
  "topo_run p =
     (case topo_tables p of (indegree, children) \<Rightarrow>
        kahn (length (pl_nodes p)) children indegree (initial_ready p indegree) [])"

definition topo_order :: "'j plan \<Rightarrow> node_id list option" where
  "topo_order p =
     (case topo_run p of
        Some order \<Rightarrow> if length order = length (pl_nodes p) then Some order else None
      | None \<Rightarrow> None)"

fun first_duplicate :: "node_id list \<Rightarrow> node_id option" where
  "first_duplicate [] = None"
| "first_duplicate (a # rest) = (if a \<in> set rest then Some a else first_duplicate rest)"

fun first_dangling :: "'j plan \<Rightarrow> (node_id \<times> node_id) list \<Rightarrow> plan_error option" where
  "first_dangling p [] = None"
| "first_dangling p ((parent, child) # deps) =
     (if plan_node p parent = None then Some (DanglingDep child parent)
      else if plan_node p child = None then Some (DanglingDep child parent)
      else first_dangling p deps)"

definition validate :: "'j plan \<Rightarrow> plan_error + unit" where
  "validate p =
     (case first_duplicate (plan_ids p) of
        Some i \<Rightarrow> Inl (DuplicateId i)
      | None \<Rightarrow>
          (case first_dangling p (pl_deps p) of
             Some e \<Rightarrow> Inl e
           | None \<Rightarrow> if topo_order p = None then Inl Cyclic else Inr ()))"

section \<open>The specification: greedy topological orders\<close>

definition live_deps :: "'j plan \<Rightarrow> (node_id \<times> node_id) list" where
  "live_deps p = filter (\<lambda>(a, b). a \<in> set (plan_ids p) \<and> b \<in> set (plan_ids p)) (pl_deps p)"

definition avail :: "'j plan \<Rightarrow> node_id set \<Rightarrow> node_id set" where
  "avail p D = {i \<in> set (plan_ids p). i \<notin> D \<and> (\<forall>a. (a, i) \<in> set (live_deps p) \<longrightarrow> a \<in> D)}"

definition greedy_order :: "'j plan \<Rightarrow> node_id list \<Rightarrow> bool" where
  "greedy_order p xs \<longleftrightarrow>
     (\<forall>k<length xs. avail p (set (take k xs)) \<noteq> {} \<and> xs ! k = Min (avail p (set (take k xs))))"

definition topological :: "'j plan \<Rightarrow> node_id list \<Rightarrow> bool" where
  "topological p xs \<longleftrightarrow>
     distinct xs \<and> set xs = set (plan_ids p) \<and>
     (\<forall>i j. i < length xs \<longrightarrow> j < length xs \<longrightarrow> (xs ! i, xs ! j) \<in> set (live_deps p) \<longrightarrow> i < j)"

lemma finite_avail [simp]: "finite (avail p D)"
  by (simp add: avail_def)

section \<open>The tables hold in-degrees and children\<close>

definition deg :: "'j plan \<Rightarrow> node_id set \<Rightarrow> node_id \<Rightarrow> nat" where
  "deg p D i = length (filter (\<lambda>(a, b). b = i \<and> a \<notin> D) (live_deps p))"

definition kids_of :: "'j plan \<Rightarrow> node_id \<Rightarrow> node_id list" where
  "kids_of p a = map snd (filter (\<lambda>e. fst e = a) (live_deps p))"

definition ind_of :: "'j plan \<Rightarrow> node_id set \<Rightarrow> indegrees" where
  "ind_of p D = (\<lambda>i. if i \<in> set (plan_ids p) then Some (deg p D i) else None)"

lemma map_of_ids: "map_of (map (\<lambda>n. (f n, 0)) ns) = (\<lambda>i. if i \<in> f ` set ns then Some 0 else None)"
  by (induction ns) (auto simp: fun_eq_iff)

lemma fold_count_edge:
  fixes ids :: "node_id set"
  defines "live \<equiv> \<lambda>es. filter (\<lambda>(a, b). a \<in> ids \<and> b \<in> ids) es"
  shows
  "fold count_edge es (\<lambda>i. if i \<in> ids then Some (c i) else None, ch) =
     (\<lambda>i. if i \<in> ids then Some (c i + length (filter (\<lambda>e. snd e = i) (live es))) else None,
      \<lambda>a. if filter (\<lambda>e. fst e = a) (live es) \<noteq> []
           then Some ((case ch a of Some l \<Rightarrow> l | None \<Rightarrow> []) @
                      map snd (filter (\<lambda>e. fst e = a) (live es)))
           else ch a)"
proof (induction es arbitrary: c ch)
  case Nil
  then show ?case by (simp add: live_def fun_eq_iff)
next
  case (Cons e es)
  obtain a b where e: "e = (a, b)" by (cases e)
  show ?case
  proof (cases "a \<in> ids \<and> b \<in> ids")
    case True
    have "(\<lambda>i. if i \<in> ids then Some (c i) else None)(b \<mapsto> c b + 1) =
          (\<lambda>i. if i \<in> ids then Some ((c(b := c b + 1)) i) else None)"
      using True by (auto simp: fun_eq_iff)
    then have "fold count_edge (e # es) (\<lambda>i. if i \<in> ids then Some (c i) else None, ch) =
               fold count_edge es (\<lambda>i. if i \<in> ids then Some ((c(b := c b + 1)) i) else None,
                 ch(a \<mapsto> (case ch a of Some l \<Rightarrow> l | None \<Rightarrow> []) @ [b]))"
      using True by (simp add: e count_edge_def)
    also note Cons.IH
    finally show ?thesis using True by (auto simp: e live_def fun_eq_iff)
  next
    case False
    then have "fold count_edge (e # es) (\<lambda>i. if i \<in> ids then Some (c i) else None, ch) =
               fold count_edge es (\<lambda>i. if i \<in> ids then Some (c i) else None, ch)"
      by (auto simp: e count_edge_def)
    also note Cons.IH
    finally show ?thesis using False by (auto simp: e live_def)
  qed
qed

lemma topo_tables_eq:
  "topo_tables p = (ind_of p {}, \<lambda>a. if kids_of p a = [] then None else Some (kids_of p a))"
  unfolding topo_tables_def map_of_ids
  by (subst fold_count_edge [where c = "\<lambda>_. 0"])
     (simp add: ind_of_def deg_def kids_of_def live_deps_def fun_eq_iff case_prod_unfold)

section \<open>Relaxing the children of an emitted node\<close>

lemma insert_at_insort:
  "sorted xs \<Longrightarrow> insert_at (partition_point (\<lambda>x. x < c) xs) c xs = insort c xs"
  for c :: "'a::linorder"
proof (induction xs)
  case Nil
  then show ?case by (simp add: insert_at_def partition_point_def)
next
  case (Cons x xs)
  then show ?case by (auto simp: insert_at_def partition_point_def)
qed

lemma relax_spec:
  assumes "\<And>i. count_list ks i \<le> the (ind i)" "set ks \<subseteq> dom ind" "sorted ready" "distinct ready"
    "\<And>i. i \<in> set ready \<Longrightarrow> ind i = Some 0"
  shows "\<exists>ready'. relax ks (ind, ready) = Some (\<lambda>i. map_option (\<lambda>d. d - count_list ks i) (ind i), ready')
           \<and> sorted ready' \<and> distinct ready'
           \<and> set ready' = set ready \<union> {i \<in> set ks. ind i = Some (count_list ks i)}"
  using assms
proof (induction ks arbitrary: ind ready)
  case Nil
  then show ?case by (auto simp: fun_eq_iff map_option_idI)
next
  case (Cons c ks)
  obtain d where d: "ind c = Some d" using Cons.prems(2) by auto
  have pos: "0 < d" using Cons.prems(1) [of c] d by simp
  let ?ind = "ind(c \<mapsto> d - 1)"
  let ?ready = "if d - 1 = 0 then insort c ready else ready"
  have cnt: "count_list ks i \<le> the (?ind i)" for i
    using Cons.prems(1) [of i] d by (auto split: if_splits)
  have notin: "c \<notin> set ready" using Cons.prems(5) d pos by auto
  have "\<exists>ready'. relax ks (?ind, ?ready) = Some (\<lambda>i. map_option (\<lambda>d. d - count_list ks i) (?ind i), ready')
          \<and> sorted ready' \<and> distinct ready'
          \<and> set ready' = set ?ready \<union> {i \<in> set ks. ?ind i = Some (count_list ks i)}"
  proof (rule Cons.IH)
    show "sorted ?ready" "distinct ?ready" "set ks \<subseteq> dom ?ind"
      using Cons.prems notin by (auto simp: sorted_insort distinct_insort)
    show "?ind i = Some 0" if "i \<in> set ?ready" for i
      using that Cons.prems(5) [of i] notin d by (auto simp: set_insort_key split: if_splits)
  qed (rule cnt)
  moreover have "relax (c # ks) (ind, ready) = relax ks (?ind, ?ready)"
    using d pos Cons.prems(3) by (simp add: insert_at_insort)
  moreover have "(\<lambda>i. map_option (\<lambda>d. d - count_list ks i) (?ind i)) =
                 (\<lambda>i. map_option (\<lambda>d. d - count_list (c # ks) i) (ind i))"
    using d by (auto simp: fun_eq_iff)
  moreover have "set ?ready \<union> {i \<in> set ks. ?ind i = Some (count_list ks i)} =
                 set ready \<union> {i \<in> set (c # ks). ind i = Some (count_list (c # ks) i)}"
    using d pos cnt [of c] by (auto simp: set_insort_key count_list_0_iff split: if_splits)
  ultimately show ?case by simp
qed

section \<open>The loop refines the greedy order\<close>

lemma deg_insert:
  "x \<notin> D \<Longrightarrow> deg p D i = deg p (insert x D) i + count_list (kids_of p x) i"
proof -
  have "length (filter (\<lambda>(a, b). b = i \<and> a \<notin> D) es) =
        length (filter (\<lambda>(a, b). b = i \<and> a \<notin> insert x D) es) +
        count_list (map snd (filter (\<lambda>e. fst e = x) es)) i" if "x \<notin> D" for es
    using that by (induction es) auto
  then show "x \<notin> D \<Longrightarrow> ?thesis" by (simp add: deg_def kids_of_def)
qed

lemma deg_0_iff: "deg p D i = 0 \<longleftrightarrow> (\<forall>a. (a, i) \<in> set (live_deps p) \<longrightarrow> a \<in> D)"
  by (auto simp: deg_def filter_empty_conv)

lemma avail_deg: "avail p D = {i \<in> set (plan_ids p). i \<notin> D \<and> deg p D i = 0}"
  by (simp add: avail_def deg_0_iff)

lemma kids_of_iff: "b \<in> set (kids_of p a) \<longleftrightarrow> (a, b) \<in> set (live_deps p)"
  by (force simp: kids_of_def)

lemma live_deps_ids: "(a, b) \<in> set (live_deps p) \<Longrightarrow> a \<in> set (plan_ids p) \<and> b \<in> set (plan_ids p)"
  by (auto simp: live_deps_def)

lemma live_deps_image:
  "(a, b) \<in> set (live_deps p) \<Longrightarrow> a \<in> en_id ` set (pl_nodes p)"
  "(a, b) \<in> set (live_deps p) \<Longrightarrow> b \<in> en_id ` set (pl_nodes p)"
  using live_deps_ids by fastforce+

text \<open>Emitting an available node moves the tables and the ready list to the next stage.\<close>

definition closed :: "'j plan \<Rightarrow> node_id set \<Rightarrow> bool" where
  "closed p D \<longleftrightarrow> (\<forall>(a, b)\<in>set (live_deps p). b \<in> D \<longrightarrow> a \<in> D)"

lemma closed_insert: "closed p D \<Longrightarrow> x \<in> avail p D \<Longrightarrow> closed p (insert x D)"
  by (auto simp: closed_def avail_def)

lemma relax_stage:
  assumes clo: "closed p D" and x: "x \<in> avail p D" and ready: "x # ready = sorted_list_of_set (avail p D)"
  shows "relax (sort (kids_of p x)) (ind_of p D, ready) =
           Some (ind_of p (insert x D), sorted_list_of_set (avail p (insert x D)))"
proof -
  have xD: "x \<notin> D" and x0: "deg p D x = 0" using x by (auto simp: avail_deg)
  have set_r: "set (x # ready) = avail p D" and srt: "sorted (x # ready)" "distinct (x # ready)"
    unfolding ready by simp_all
  have cnt: "count_list (sort (kids_of p x)) i = count_list (kids_of p x) i" for i
    by (metis count_mset mset_sort)
  have self: "x \<notin> set (kids_of p x)" using x0 xD by (auto simp: deg_0_iff kids_of_iff)
  have dom: "deg p D i = deg p (insert x D) i + count_list (kids_of p x) i" for i
    using deg_insert [OF xD] .
  have c0: "count_list (kids_of p x) i = 0" if "i \<notin> set (plan_ids p)" for i
    using that live_deps_ids [of x i p] by (simp add: count_list_0_iff kids_of_iff) blast
  have "\<exists>ready'. relax (sort (kids_of p x)) (ind_of p D, ready) =
          Some (\<lambda>i. map_option (\<lambda>d. d - count_list (sort (kids_of p x)) i) (ind_of p D i), ready')
        \<and> sorted ready' \<and> distinct ready'
        \<and> set ready' = set ready \<union>
            {i \<in> set (sort (kids_of p x)). ind_of p D i = Some (count_list (sort (kids_of p x)) i)}"
  proof (rule relax_spec)
    show "count_list (sort (kids_of p x)) i \<le> the (ind_of p D i)" for i
      using dom [of i] c0 [of i] by (auto simp: cnt ind_of_def)
    show "set (sort (kids_of p x)) \<subseteq> dom (ind_of p D)"
      by (auto simp: kids_of_iff ind_of_def dest: live_deps_image split: if_splits)
    show "ind_of p D i = Some 0" if "i \<in> set ready" for i
      using that set_r by (auto simp: avail_deg ind_of_def)
  qed (use srt in auto)
  then obtain ready' where r: "relax (sort (kids_of p x)) (ind_of p D, ready) =
          Some (\<lambda>i. map_option (\<lambda>d. d - count_list (kids_of p x) i) (ind_of p D i), ready')"
      "sorted ready'" "distinct ready'"
      and set_r': "set ready' = set ready \<union>
            {i \<in> set (kids_of p x). ind_of p D i = Some (count_list (kids_of p x) i)}"
    by (auto simp: cnt)
  have "(\<lambda>i. map_option (\<lambda>d. d - count_list (kids_of p x) i) (ind_of p D i)) = ind_of p (insert x D)"
    using dom by (auto simp: ind_of_def fun_eq_iff)
  moreover have "set ready' = avail p (insert x D)"
  proof -
    have "set ready = avail p D - {x}" using set_r srt by auto
    moreover have "{i \<in> set (kids_of p x). ind_of p D i = Some (count_list (kids_of p x) i)} =
                   {i \<in> set (plan_ids p). i \<in> set (kids_of p x) \<and> deg p (insert x D) i = 0}"
      using dom by (auto simp: ind_of_def kids_of_iff dest: live_deps_image split: if_splits)
    moreover have "i \<notin> D" if "i \<in> set (kids_of p x)" "deg p (insert x D) i = 0" for i
      using that clo xD by (auto simp: closed_def kids_of_iff)
    ultimately show ?thesis using set_r' dom self
      by (auto simp: avail_deg count_list_0_iff)
  qed
  ultimately show ?thesis using r by (simp add: sorted_distinct_set_unique)
qed

definition stage :: "'j plan \<Rightarrow> node_id list \<Rightarrow> bool" where
  "stage p xs \<longleftrightarrow> greedy_order p xs \<and> closed p (set xs) \<and> distinct xs \<and> set xs \<subseteq> set (plan_ids p)"

lemma stage_Nil: "stage p []"
  by (simp add: stage_def greedy_order_def closed_def)

lemma stage_snoc:
  assumes "stage p xs" "avail p (set xs) \<noteq> {}" "x = Min (avail p (set xs))"
  shows "stage p (xs @ [x])" "x \<in> avail p (set xs)"
proof -
  show x: "x \<in> avail p (set xs)" using assms by simp
  have "greedy_order p (xs @ [x])"
    using assms by (auto simp: stage_def greedy_order_def nth_append less_Suc_eq)
  then show "stage p (xs @ [x])"
    using assms(1) x closed_insert [of p "set xs" x] by (auto simp: stage_def avail_def)
qed

abbreviation children_of :: "'j plan \<Rightarrow> adjacency" where
  "children_of p \<equiv> \<lambda>a. if kids_of p a = [] then None else Some (kids_of p a)"

lemma kahn_spec:
  assumes "stage p order" "card (set (plan_ids p)) \<le> fuel + length order"
  shows "\<exists>res. kahn fuel (children_of p) (ind_of p (set order))
                  (sorted_list_of_set (avail p (set order))) order = Some res
               \<and> stage p res \<and> avail p (set res) = {}"
  using assms
proof (induction fuel arbitrary: order)
  case 0
  have "card (set order) = length order" using 0 by (simp add: stage_def distinct_card)
  then have "set order = set (plan_ids p)"
    using 0 by (intro card_seteq) (auto simp: stage_def)
  then have "avail p (set order) = {}" by (auto simp: avail_def)
  then show ?case using 0 by simp
next
  case (Suc fuel)
  show ?case
  proof (cases "sorted_list_of_set (avail p (set order))")
    case Nil
    then show ?thesis using Suc.prems by simp
  next
    case (Cons x ready)
    have ne: "avail p (set order) \<noteq> {}" using Cons by auto
    have x: "x = Min (avail p (set order))"
      using Cons sorted_list_of_set_nonempty [OF finite_avail ne] by simp
    note st = stage_snoc [OF Suc.prems(1) ne x]
    have rel: "relax (sort (kids_of p x)) (ind_of p (set order), ready) =
                 Some (ind_of p (insert x (set order)), sorted_list_of_set (avail p (insert x (set order))))"
      using Suc.prems(1) st(2) Cons by (intro relax_stage) (auto simp: stage_def)
    have "kahn (Suc fuel) (children_of p) (ind_of p (set order)) (x # ready) order =
          kahn fuel (children_of p) (ind_of p (set (order @ [x])))
            (sorted_list_of_set (avail p (set (order @ [x])))) (order @ [x])"
      using rel by auto
    then show ?thesis
      using Suc.IH [OF st(1)] Suc.prems(2) Cons by simp
  qed
qed

lemma initial_ready_eq: "initial_ready p (ind_of p {}) = sorted_list_of_set (avail p {})"
proof -
  have "sorted (initial_ready p (ind_of p {}))" "distinct (initial_ready p (ind_of p {}))"
    by (simp_all add: initial_ready_def)
  moreover have "set (initial_ready p (ind_of p {})) = avail p {}"
    by (auto simp: initial_ready_def ind_of_def avail_deg)
  ultimately show ?thesis by (simp add: sorted_distinct_set_unique)
qed

text \<open>The loop neither underflows nor runs out of fuel, and it stops at a greedy order.\<close>

lemma kahn_run: "\<exists>res. topo_run p = Some res \<and> stage p res \<and> avail p (set res) = {}"
proof -
  have "card (set (plan_ids p)) \<le> length (pl_nodes p)"
    using card_length [of "plan_ids p"] by simp
  then show ?thesis
    using kahn_spec [OF stage_Nil, of p "length (pl_nodes p)"]
    by (simp add: topo_run_def topo_tables_eq initial_ready_eq)
qed

section \<open>Consequences: soundness, completeness, leastness\<close>

lemma stage_topological:
  assumes "stage p xs" "set xs = set (plan_ids p)"
  shows "topological p xs"
proof -
  have "i < j" if ij: "i < length xs" "j < length xs" "(xs ! i, xs ! j) \<in> set (live_deps p)" for i j
  proof -
    have "xs ! j \<in> avail p (set (take j xs))"
      using assms(1) ij(2) by (metis Min_in finite_avail greedy_order_def stage_def)
    then have "xs ! i \<in> set (take j xs)" using ij(3) by (simp add: avail_def)
    then obtain k where "k < j" "k < length xs" "xs ! k = xs ! i" by (auto simp: in_set_conv_nth)
    then show "i < j" using assms(1) ij(1) by (metis nth_eq_iff_index_eq stage_def)
  qed
  then show ?thesis using assms by (simp add: topological_def stage_def)
qed

lemma topo_order_cases:
  obtains res where "stage p res" "avail p (set res) = {}"
    "topo_order p = (if distinct (plan_ids p) \<and> set res = set (plan_ids p) then Some res else None)"
proof -
  obtain res where r: "topo_run p = Some res" "stage p res" "avail p (set res) = {}"
    using kahn_run by blast
  have "length res = length (plan_ids p) \<longleftrightarrow> distinct (plan_ids p) \<and> set res = set (plan_ids p)"
    if "distinct res" "set res \<subseteq> set (plan_ids p)"
  proof -
    have le: "card (set (plan_ids p)) \<le> length (plan_ids p)" by (rule card_length)
    have "card (set res) = length res" using that(1) by (rule distinct_card)
    moreover have "card (set res) \<le> card (set (plan_ids p))" using that(2) by (simp add: card_mono)
    ultimately show ?thesis
      using le that(2) card_seteq [of "set (plan_ids p)" "set res"]
      by (metis List.finite_set card_distinct distinct_card le_antisym order_refl)
  qed
  then show thesis using r by (intro that [of res]) (auto simp: topo_order_def stage_def)
qed

lemma topo_order_SomeD:
  assumes "topo_order p = Some xs"
  shows "stage p xs" "set xs = set (plan_ids p)" "distinct (plan_ids p)" "topological p xs"
  using assms topo_order_cases [of p] stage_topological
  by (metis option.distinct(1) option.inject)+

lemma topological_acyclic:
  assumes "topological p xs" shows "acyclic (set (live_deps p))"
proof -
  define pos where "pos a = (THE i. i < length xs \<and> xs ! i = a)" for a
  have pos: "pos (xs ! i) = i" if "i < length xs" for i
    using that assms unfolding pos_def topological_def by (intro the_equality) (auto simp: nth_eq_iff_index_eq)
  have "(a, b) \<in> measure pos" if ab: "(a, b) \<in> set (live_deps p)" for a b
  proof -
    have "a \<in> set xs" "b \<in> set xs" using live_deps_ids [OF ab] assms by (auto simp: topological_def)
    then obtain i j where "i < length xs" "j < length xs" "a = xs ! i" "b = xs ! j"
      by (metis in_set_conv_nth)
    then show ?thesis using ab assms pos by (auto simp: topological_def)
  qed
  then have "set (live_deps p) \<subseteq> measure pos" by auto
  then show ?thesis by (meson acyclic_subset wf_acyclic wf_measure)
qed

lemma avail_nonempty:
  assumes "acyclic (set (live_deps p))" "closed p D" "x \<in> set (plan_ids p) - D"
  shows "avail p D \<noteq> {}"
proof -
  have "wf (set (live_deps p))" using assms(1) by (simp add: finite_acyclic_wf)
  then obtain z where z: "z \<in> set (plan_ids p) - D"
      "\<And>y. (y, z) \<in> set (live_deps p) \<Longrightarrow> y \<notin> set (plan_ids p) - D"
    using assms(3) by (metis wfE_min)
  then have "z \<in> avail p D" by (auto simp: avail_def dest: live_deps_image)
  then show ?thesis by blast
qed

lemma topo_order_Some_iff:
  "topo_order p \<noteq> None \<longleftrightarrow> distinct (plan_ids p) \<and> acyclic (set (live_deps p))"
proof
  assume "topo_order p \<noteq> None"
  then show "distinct (plan_ids p) \<and> acyclic (set (live_deps p))"
    using topo_order_SomeD topological_acyclic by blast
next
  assume a: "distinct (plan_ids p) \<and> acyclic (set (live_deps p))"
  obtain res where r: "stage p res" "avail p (set res) = {}"
    "topo_order p = (if distinct (plan_ids p) \<and> set res = set (plan_ids p) then Some res else None)"
    by (rule topo_order_cases)
  have "set (plan_ids p) \<subseteq> set res"
    using r(1,2) a avail_nonempty [of p "set res"] by (auto simp: stage_def)
  then show "topo_order p \<noteq> None" using r a by (auto simp: stage_def)
qed

text \<open>A greedy order that is complete is the lexicographically least topological order.\<close>

lemma topological_avail:
  assumes "topological p ys" "k < length ys"
  shows "ys ! k \<in> avail p (set (take k ys))"
proof -
  have "ys ! k \<notin> set (take k ys)"
    using assms by (auto simp: topological_def in_set_conv_nth nth_eq_iff_index_eq)
  moreover have "a \<in> set (take k ys)" if a: "(a, ys ! k) \<in> set (live_deps p)" for a
  proof -
    have "a \<in> set ys" using live_deps_ids [OF a] assms(1) by (simp add: topological_def)
    then obtain i where i: "i < length ys" "ys ! i = a" by (metis in_set_conv_nth)
    then have "i < k" using a assms by (auto simp: topological_def)
    then show ?thesis using i by (auto simp: in_set_conv_nth)
  qed
  moreover have "ys ! k \<in> set (plan_ids p)" using assms by (auto simp: topological_def)
  ultimately show ?thesis by (simp add: avail_def)
qed

lemma greedy_least:
  assumes "greedy_order p xs" "topological p ys" "length xs = length ys"
  shows "xs \<le> ys"
proof (cases "xs = ys")
  case False
  define k where "k = (LEAST k. k < length xs \<and> xs ! k \<noteq> ys ! k)"
  have ex: "\<exists>k. k < length xs \<and> xs ! k \<noteq> ys ! k" using False assms(3) by (auto simp: list_eq_iff_nth_eq)
  have k: "k < length xs" "xs ! k \<noteq> ys ! k" using LeastI_ex [OF ex] by (auto simp: k_def)
  have "xs ! i = ys ! i" if "i < k" for i
    using not_less_Least [of i "\<lambda>k. k < length xs \<and> xs ! k \<noteq> ys ! k"] that k(1)
    by (simp add: k_def [symmetric])
  then have tk: "take k xs = take k ys" using k(1) assms(3) by (intro nth_equalityI) auto
  have "xs ! k = Min (avail p (set (take k ys)))"
    using assms(1) k(1) tk by (simp add: greedy_order_def)
  moreover have "ys ! k \<in> avail p (set (take k ys))"
    using topological_avail assms(2,3) k(1) by simp
  ultimately have "xs ! k < ys ! k" using k(2) by (simp add: order.not_eq_order_implies_strict)
  moreover have "xs = take k xs @ xs ! k # drop (Suc k) xs"
    using k(1) by (rule id_take_nth_drop)
  moreover have "ys = take k xs @ ys ! k # drop (Suc k) ys"
    unfolding tk using k(1) assms(3) by (intro id_take_nth_drop) simp
  ultimately have "(xs, ys) \<in> lexord {(u, v). u < v}"
    unfolding lexord_def by blast
  then have "xs < ys" by (simp add: list_less_def)
  then show ?thesis by simp
qed simp

lemma topological_length: "topological p xs \<Longrightarrow> distinct (plan_ids p) \<Longrightarrow> length xs = length (plan_ids p)"
  by (metis distinct_card topological_def)

lemma topo_order_least:
  assumes "topo_order p = Some xs" "topological p ys" shows "xs \<le> ys"
proof -
  note d = topo_order_SomeD [OF assms(1)]
  have "length xs = length ys" using d assms(2) by (simp add: topological_length)
  moreover have "greedy_order p xs" using d(1) by (simp add: stage_def)
  ultimately show ?thesis using assms(2) by (intro greedy_least)
qed

section \<open>Validation\<close>

lemma first_duplicate_None_iff: "first_duplicate xs = None \<longleftrightarrow> distinct xs"
  by (induction xs) auto

lemma first_dangling_None_iff:
  "first_dangling p es = None \<longleftrightarrow> (\<forall>(a, b)\<in>set es. a \<in> set (plan_ids p) \<and> b \<in> set (plan_ids p))"
proof -
  have "plan_node p i = None \<longleftrightarrow> i \<notin> set (plan_ids p)" for i by (rule plan_node_None_iff)
  then show ?thesis by (induction es) (auto split: if_splits)
qed

definition wf_plan :: "'j plan \<Rightarrow> bool" where
  "wf_plan p \<longleftrightarrow> distinct (plan_ids p) \<and> set (pl_deps p) \<subseteq> set (plan_ids p) \<times> set (plan_ids p)
     \<and> acyclic (set (pl_deps p))"

lemma live_deps_id:
  "set (pl_deps p) \<subseteq> set (plan_ids p) \<times> set (plan_ids p) \<Longrightarrow> live_deps p = pl_deps p"
  by (auto simp: live_deps_def filter_id_conv)

lemma validate_wf: "validate p = Inr () \<longleftrightarrow> wf_plan p"
proof (cases "distinct (plan_ids p) \<and> set (pl_deps p) \<subseteq> set (plan_ids p) \<times> set (plan_ids p)")
  case True
  then have "first_dangling p (pl_deps p) = None" "first_duplicate (plan_ids p) = None"
    by (auto simp: first_dangling_None_iff first_duplicate_None_iff)
  then show ?thesis
    using True topo_order_Some_iff [of p] live_deps_id [of p] by (auto simp: validate_def wf_plan_def)
next
  case False
  have "validate p \<noteq> Inr ()"
  proof
    assume "validate p = Inr ()"
    then have "first_duplicate (plan_ids p) = None" "first_dangling p (pl_deps p) = None"
      by (auto simp: validate_def split: option.splits if_splits)
    then show False using False by (auto simp: first_duplicate_None_iff first_dangling_None_iff)
  qed
  then show ?thesis using False by (auto simp: wf_plan_def)
qed

lemma wf_plan_topo: "wf_plan p \<Longrightarrow> \<exists>xs. topo_order p = Some xs"
  using topo_order_Some_iff [of p] live_deps_id [of p] by (auto simp: wf_plan_def)

section \<open>Sequencing and merging\<close>

lemma topological_append:
  assumes xs: "topological p xs" and ys: "topological q ys"
    and dis: "set (plan_ids p) \<inter> set (plan_ids q) = {}"
    and ids: "set (plan_ids r) = set (plan_ids p) \<union> set (plan_ids q)"
    and edges: "set (live_deps r) \<subseteq> set (live_deps p) \<union> set (live_deps q) \<union>
                  set (plan_ids p) \<times> set (plan_ids q)"
  shows "topological r (xs @ ys)"
proof -
  have sx: "set xs = set (plan_ids p)" and sy: "set ys = set (plan_ids q)"
    using xs ys by (simp_all add: topological_def)
  have "i < j" if ij: "i < length (xs @ ys)" "j < length (xs @ ys)"
    and e: "((xs @ ys) ! i, (xs @ ys) ! j) \<in> set (live_deps r)" for i j
  proof (cases "j < length xs")
    case True
    then have b: "(xs @ ys) ! j \<in> set (plan_ids p)" using sx by (metis nth_append nth_mem)
    then have e': "((xs @ ys) ! i, (xs @ ys) ! j) \<in> set (live_deps p)"
      using e edges dis live_deps_ids [of "(xs @ ys) ! i" "(xs @ ys) ! j" q] by blast
    then have "(xs @ ys) ! i \<in> set (plan_ids p)" by (meson live_deps_ids)
    moreover have "(xs @ ys) ! i \<in> set ys" if "\<not> i < length xs"
      using that ij(1) by (auto simp: nth_append)
    ultimately have i: "i < length xs" using dis sy by blast
    then show ?thesis using xs e' True by (simp add: topological_def nth_append)
  next
    case False
    then have b: "(xs @ ys) ! j = ys ! (j - length xs)" "j - length xs < length ys"
      using ij by (auto simp: nth_append)
    show ?thesis
    proof (cases "i < length xs")
      case i: False
      then have a: "(xs @ ys) ! i = ys ! (i - length xs)" "i - length xs < length ys"
        using ij by (auto simp: nth_append)
      have "ys ! (i - length xs) \<in> set (plan_ids q)" using a(2) sy by auto
      then have "(ys ! (i - length xs), ys ! (j - length xs)) \<in> set (live_deps q)"
        using e a b edges dis live_deps_ids [of "ys ! (i - length xs)" "ys ! (j - length xs)" p] by auto
      then have "i - length xs < j - length xs" using ys a(2) b(2) by (auto simp: topological_def)
      then show ?thesis by simp
    qed (use False in simp)
  qed
  moreover have "distinct (xs @ ys)" using xs ys dis by (auto simp: topological_def)
  ultimately show ?thesis using sx sy ids by (simp add: topological_def)
qed

lemma wf_plan_append:
  assumes "wf_plan p" "wf_plan q" and dis: "set (plan_ids p) \<inter> set (plan_ids q) = {}"
    and ids: "plan_ids r = plan_ids p @ plan_ids q"
    and edges: "set (pl_deps r) \<subseteq> set (pl_deps p) \<union> set (pl_deps q) \<union>
                  set (plan_ids p) \<times> set (plan_ids q)"
  shows "wf_plan r"
proof -
  obtain xs ys where xy: "topo_order p = Some xs" "topo_order q = Some ys"
    using wf_plan_topo [OF assms(1)] wf_plan_topo [OF assms(2)] by auto
  have sub: "set (pl_deps r) \<subseteq> set (plan_ids r) \<times> set (plan_ids r)"
  proof -
    have "set (plan_ids r) = set (plan_ids p) \<union> set (plan_ids q)" using ids by simp
    then show ?thesis
      using edges assms(1,2) unfolding wf_plan_def by (blast intro: order_trans)
  qed
  have "topological r (xs @ ys)"
    using topo_order_SomeD(4) [OF xy(1)] topo_order_SomeD(4) [OF xy(2)] dis
  proof (rule topological_append)
    show "set (plan_ids r) = set (plan_ids p) \<union> set (plan_ids q)" using ids by simp
    have "live_deps p = pl_deps p" "live_deps q = pl_deps q" "live_deps r = pl_deps r"
      using assms(1,2) sub live_deps_id unfolding wf_plan_def by blast+
    then show "set (live_deps r) \<subseteq> set (live_deps p) \<union> set (live_deps q) \<union>
                 set (plan_ids p) \<times> set (plan_ids q)" using edges by simp
  qed
  then have "acyclic (set (pl_deps r))" using topological_acyclic live_deps_id [OF sub] by metis
  then show ?thesis using assms(1,2) dis ids sub by (auto simp: wf_plan_def)
qed

lemma wf_plan_merge:
  "wf_plan p \<Longrightarrow> wf_plan q \<Longrightarrow> set (plan_ids p) \<inter> set (plan_ids q) = {} \<Longrightarrow> wf_plan (plan_merge p q)"
  by (rule wf_plan_append) (auto simp: plan_merge_def)

lemma sink_root_ids:
  "i \<in> set (sink_ids p) \<longleftrightarrow> i \<in> set (plan_ids p) \<and> i \<notin> fst ` set (pl_deps p)"
  "i \<in> set (root_ids p) \<longleftrightarrow> i \<in> set (plan_ids p) \<and> i \<notin> snd ` set (pl_deps p)"
  by (force simp: sink_ids_def root_ids_def list_ex_iff)+

lemma wf_plan_then:
  assumes "wf_plan p" "wf_plan q" "set (plan_ids p) \<inter> set (plan_ids q) = {}"
  shows "wf_plan (plan_then p q)"
proof (rule wf_plan_append [OF assms])
  have "set (List.product (sink_ids p) (root_ids q)) \<subseteq> set (plan_ids p) \<times> set (plan_ids q)"
    by (auto simp del: set_map simp: sink_root_ids)
  then show "set (pl_deps (plan_then p q)) \<subseteq> set (pl_deps p) \<union> set (pl_deps q) \<union>
               set (plan_ids p) \<times> set (plan_ids q)"
    unfolding plan_then_def by auto
qed (simp add: plan_then_def)

text \<open>In a valid plan every node reaches a sink and is reached from a root.\<close>

lemma reaches_sink:
  assumes "wf_plan p" "a \<in> set (plan_ids p)"
  shows "\<exists>s\<in>set (sink_ids p). (a, s) \<in> (set (pl_deps p))\<^sup>*"
proof -
  have "wf ((set (pl_deps p))\<inverse>)" using assms(1) by (simp add: wf_plan_def finite_acyclic_wf_converse)
  then show ?thesis using assms(2)
  proof (induction a rule: wf_induct_rule)
    case (less a)
    show ?case
    proof (cases "a \<in> set (sink_ids p)")
      case False
      then obtain b where b: "(a, b) \<in> set (pl_deps p)" using less.prems sink_root_ids(1) [of a p] by force
      then have "b \<in> set (plan_ids p)" using assms(1) unfolding wf_plan_def by blast
      then show ?thesis using less.IH [of b] b by (meson converse_rtrancl_into_rtrancl converse_iff)
    qed blast
  qed
qed

lemma reached_from_root:
  assumes "wf_plan p" "b \<in> set (plan_ids p)"
  shows "\<exists>r\<in>set (root_ids p). (r, b) \<in> (set (pl_deps p))\<^sup>*"
proof -
  have "wf (set (pl_deps p))" using assms(1) by (simp add: wf_plan_def finite_acyclic_wf)
  then show ?thesis using assms(2)
  proof (induction b rule: wf_induct_rule)
    case (less b)
    show ?case
    proof (cases "b \<in> set (root_ids p)")
      case False
      then obtain a where a: "(a, b) \<in> set (pl_deps p)" using less.prems sink_root_ids(2) [of b p] by force
      then have "a \<in> set (plan_ids p)" using assms(1) unfolding wf_plan_def by blast
      then show ?thesis using less.IH [of a] a by (meson rtrancl_into_rtrancl)
    qed blast
  qed
qed

lemma then_edges: 
  assumes "wf_plan p" "wf_plan q" "a \<in> set (plan_ids p)" "b \<in> set (plan_ids q)"
  shows "(a, b) \<in> (set (pl_deps (plan_then p q)))\<^sup>+"
proof -
  let ?E = "set (pl_deps (plan_then p q))"
  obtain s r where s: "s \<in> set (sink_ids p)" "(a, s) \<in> (set (pl_deps p))\<^sup>*"
    and r: "r \<in> set (root_ids q)" "(r, b) \<in> (set (pl_deps q))\<^sup>*"
    using reaches_sink [OF assms(1,3)] reached_from_root [OF assms(2,4)] by blast
  have "set (pl_deps p) \<subseteq> ?E" "set (pl_deps q) \<subseteq> ?E" "(s, r) \<in> ?E"
    using s(1) r(1) by (auto simp: plan_then_def)
  then have "(a, s) \<in> ?E\<^sup>*" "(s, r) \<in> ?E" "(r, b) \<in> ?E\<^sup>*"
    using s(2) r(2) rtrancl_mono by blast+
  then show ?thesis by (meson rtrancl_into_trancl1 trancl_rtrancl_trancl)
qed

text \<open>A topological order lists the ancestors of a node before it.\<close>

definition before :: "'a list \<Rightarrow> 'a \<Rightarrow> 'a \<Rightarrow> bool" where
  "before xs a b \<longleftrightarrow> (\<exists>i j. i < j \<and> j < length xs \<and> xs ! i = a \<and> xs ! j = b)"

lemma before_trans: "distinct xs \<Longrightarrow> before xs a b \<Longrightarrow> before xs b c \<Longrightarrow> before xs a c"
  unfolding before_def by (metis dual_order.strict_trans nth_eq_iff_index_eq)

lemma topological_edge_before:
  assumes top: "topological p xs" and e: "(a, b) \<in> set (live_deps p)"
  shows "before xs a b"
proof -
  have "a \<in> set xs" "b \<in> set xs" using live_deps_ids [OF e] top by (auto simp: topological_def)
  then obtain i j where ij: "i < length xs" "j < length xs" "xs ! i = a" "xs ! j = b"
    by (metis in_set_conv_nth)
  then have "i < j" using top e by (auto simp: topological_def)
  then show ?thesis using ij by (auto simp: before_def)
qed

lemma topological_before:
  assumes "topological p xs" "(a, b) \<in> (set (live_deps p))\<^sup>+"
  shows "before xs a b"
  using assms(2)
proof (induction rule: trancl_induct)
  case (base b)
  show ?case by (rule topological_edge_before [OF assms(1) base])
next
  case (step b c)
  have "distinct xs" using assms(1) by (simp add: topological_def)
  then show ?case
    using step.IH topological_edge_before [OF assms(1) step.hyps(2)] by (rule before_trans)
qed

lemma wf_live_deps: "wf_plan p \<Longrightarrow> live_deps p = pl_deps p"
  by (simp add: wf_plan_def live_deps_id)

section \<open>The contract the plan walkers rely on\<close>

text \<open>
  \<open>preview\<close>, \<open>commit\<close> and the interpreter call \<open>topo_order\<close> and rely on this and nothing else
  about it.
\<close>

locale topo_contract =
  fixes order_of :: "'j plan \<Rightarrow> node_id list option"
  assumes order_topological: "order_of p = Some xs \<Longrightarrow> topological p xs \<and> distinct (plan_ids p)"
    and order_total: "distinct (plan_ids p) \<Longrightarrow> acyclic (set (live_deps p)) \<Longrightarrow> order_of p \<noteq> None"
begin

lemma order_distinct: "order_of p = Some xs \<Longrightarrow> distinct xs"
  using order_topological by (auto simp: topological_def)

lemma order_set: "order_of p = Some xs \<Longrightarrow> set xs = set (plan_ids p)"
  using order_topological by (auto simp: topological_def)

lemma order_before: "order_of p = Some xs \<Longrightarrow> (a, b) \<in> (set (live_deps p))\<^sup>+ \<Longrightarrow> before xs a b"
  using order_topological topological_before by blast

lemma order_split:
  assumes "order_of p = Some (xs @ c # ys)" "(a, c) \<in> set (live_deps p)"
  shows "a \<in> set xs"
proof -
  have "before (xs @ c # ys) a c" using assms by (intro order_before) auto
  then obtain i j where ij: "i < j" "j < length (xs @ c # ys)" "(xs @ c # ys) ! i = a"
      "(xs @ c # ys) ! j = c" by (auto simp: before_def)
  have "j = length xs"
    using ij(2,4) order_distinct [OF assms(1)] nth_eq_iff_index_eq [of "xs @ c # ys" j "length xs"] by simp
  then show ?thesis using ij by (auto simp: nth_append)
qed

lemma order_node:
  assumes "order_of p = Some xs" "i \<in> set xs" shows "\<exists>n. plan_node p i = Some n"
  using assms order_set plan_node_Some_ex by metis

lemma wf_ordered: "wf_plan p \<Longrightarrow> \<exists>xs. order_of p = Some xs"
  using order_total [of p] wf_live_deps [of p] by (auto simp: wf_plan_def)

end

interpretation topo: topo_contract topo_order
proof unfold_locales
  show "topological p xs \<and> distinct (plan_ids p)" if "topo_order p = Some xs" for p xs
    using that by (auto dest: topo_order_SomeD)
  show "topo_order p \<noteq> None" if "distinct (plan_ids p)" "acyclic (set (live_deps p))" for p
    using that topo_order_Some_iff by blast
qed

section \<open>Properties\<close>

text \<open>C1: every order \<open>topo_order\<close> returns lists each node of the plan exactly once, every parent
  before its children, and it is the lexicographically least list that does: the order
  depends on the ids and edges only, not on the order they were inserted in.\<close>

theorem topo_order_sound_least:
  assumes "topo_order p = Some xs"
  shows "distinct xs \<and> set xs = set (plan_ids p)
    \<and> (\<forall>a b. (a, b) \<in> (set (live_deps p))\<^sup>+ \<longrightarrow> before xs a b)
    \<and> (\<forall>ys. topological p ys \<longrightarrow> xs \<le> ys)"
  using assms topo.order_distinct topo.order_set topo.order_before topo_order_least by metis

theorem topo_order_sound_least_witness:
  "before [1, 2, 0, 3] (2 :: node_id) 0"
proof -
  have t: "topo_order demo_plan = Some [1, 2, 0, 3]" by code_simp
  have "(2, 0) \<in> (set (live_deps demo_plan))\<^sup>+" by (rule r_into_trancl) code_simp
  then show ?thesis using topo_order_sound_least [OF t] by blast
qed

text \<open>C2: \<open>topo_order\<close> answers \<open>Some\<close> exactly when the ids are distinct and the edges between
  nodes of the plan are acyclic; its loop never underflows an in-degree, and the number of
  nodes is enough fuel for it (\<open>topo_run\<close> has a result for every plan).\<close>

theorem topo_order_complete:
  "(topo_order p \<noteq> None \<longleftrightarrow> distinct (plan_ids p) \<and> acyclic (set (live_deps p)))
   \<and> (\<exists>res. topo_run p = Some res)"
  using topo_order_Some_iff kahn_run by blast

text \<open>\<open>Plan::validate\<close> accepts exactly the plans with distinct ids, edges between nodes of the
  plan, and no dependency cycle.\<close>

theorem validate_iff:
  "validate p = Inr () \<longleftrightarrow>
     distinct (plan_ids p) \<and> (\<forall>(a, b)\<in>set (pl_deps p). a \<in> set (plan_ids p) \<and> b \<in> set (plan_ids p))
     \<and> acyclic (set (pl_deps p))"
  by (auto simp: validate_wf wf_plan_def)

theorem validate_iff_witness:
  "validate demo_plan = Inr () \<and> acyclic (set (pl_deps demo_plan))"
proof -
  have "validate demo_plan = Inr ()" by code_simp
  then show ?thesis using validate_iff [of demo_plan] by blast
qed

text \<open>Sequencing two valid plans with disjoint ids gives a valid plan whose order runs every
  effect of the first plan before every effect of the second.\<close>

theorem then_sequences:
  assumes "validate p = Inr ()" "validate q = Inr ()"
    and "set (plan_ids p) \<inter> set (plan_ids q) = {}"
  shows "validate (plan_then p q) = Inr () \<and>
    (\<exists>xs. topo_order (plan_then p q) = Some xs \<and>
       (\<forall>a\<in>set (plan_ids p). \<forall>b\<in>set (plan_ids q). before xs a b))"
proof -
  have wf: "wf_plan (plan_then p q)" using assms wf_plan_then by (simp add: validate_wf)
  obtain xs where "topo_order (plan_then p q) = Some xs" using topo.wf_ordered [OF wf] by blast
  moreover have "before xs a b" if "a \<in> set (plan_ids p)" "b \<in> set (plan_ids q)" for a b
    using topo.order_before [OF calculation] then_edges [OF _ _ that] assms(1,2) wf_live_deps [OF wf]
    by (simp add: validate_wf)
  ultimately show ?thesis using wf by (auto simp: validate_wf)
qed

theorem then_sequences_witness:
  "validate (plan_then demo_plan demo_leaf) = Inr ()"
proof -
  have "validate demo_plan = Inr ()" "validate demo_leaf = Inr ()"
    "set (plan_ids demo_plan) \<inter> set (plan_ids demo_leaf) = {}" by code_simp+
  from then_sequences [OF this] show ?thesis by blast
qed

end
