(* ===== verification/Plan_Commit.thy ===== *)
theory Plan_Commit
  imports Plan_Topo
begin

text \<open>
  \<open>PREVIEW\<close> and \<open>COMMIT\<close> of a plan, \<open>crates/plan/src/{preview,apply}.rs\<close>.

  A \<open>PlanApplier\<close> is a state-passing function: its state type \<open>'s\<close> and
  \<open>'s \<Rightarrow> 'j effect_node \<Rightarrow> 's \<times> (apply_error + applied_effect)\<close>. The \<open>on_applied\<close> closure is
  a function on a state \<open>'l\<close> of its own. \<open>commit\<close> threads both through the walk.
  \<open>commit_inv\<close> is the invariant of the walk after a prefix of the order; the properties at
  the end read it off at the whole order.
\<close>

section \<open>Preview\<close>

record preview_row =
  pr_id :: node_id
  pr_verb :: string
  pr_target :: target
  pr_affected :: affected
  pr_irreversible :: bool
  pr_selector :: "name list option"

record plan_preview =
  pv_rows :: "preview_row list"
  pv_irreversible :: "node_id list"
  pv_total_affected :: affected
  pv_is_pure :: bool

definition verb_label :: "'j effect_node \<Rightarrow> string" where
  "verb_label n = (case en_kind n of KCall proc \<Rightarrow> ''CALL '' @ proc | other \<Rightarrow> kind_label other)"

definition preview_row_of :: "'j effect_node \<Rightarrow> preview_row" where
  "preview_row_of n =
     \<lparr>pr_id = en_id n, pr_verb = verb_label n, pr_target = en_target n,
      pr_affected = en_est_affected n, pr_irreversible = en_irreversible n,
      pr_selector = map_option (\<lambda>s. map col_name (columns (rb_schema s))) (en_selector n)\<rparr>"

definition preview_step ::
  "'j plan \<Rightarrow> node_id \<Rightarrow> preview_row list \<times> node_id list \<times> affected
     \<Rightarrow> preview_row list \<times> node_id list \<times> affected" where
  "preview_step p i acc =
     (case plan_node p i of
        None \<Rightarrow> acc
      | Some n \<Rightarrow>
          (case acc of (rows, irr, tot) \<Rightarrow>
             (rows @ [preview_row_of n],
              (if en_irreversible n then irr @ [en_id n] else irr),
              affected_combine tot (en_est_affected n))))"

definition preview :: "'j plan \<Rightarrow> plan_preview" where
  "preview p =
     (let order = (case topo_order p of Some xs \<Rightarrow> xs | None \<Rightarrow> map en_id (pl_nodes p)) in
      case fold (preview_step p) order ([], [], Exact 0) of
        (rows, irr, tot) \<Rightarrow>
          \<lparr>pv_rows = rows, pv_irreversible = irr, pv_total_affected = tot,
           pv_is_pure = (pl_nodes p = [])\<rparr>)"

section \<open>Commit\<close>

record applied_effect =
  ae_id :: node_id
  ae_affected :: u64

record apply_error =
  aerr_id :: node_id
  aerr_reason :: string

datatype skip_reason = DependencyFailed node_id

record commit_report =
  cr_applied :: "applied_effect list"
  cr_skipped :: "(node_id \<times> skip_reason) list"
  cr_failed :: "apply_error option"

definition commit_report_default :: commit_report where
  "commit_report_default = \<lparr>cr_applied = [], cr_skipped = [], cr_failed = None\<rparr>"

definition is_complete :: "commit_report \<Rightarrow> bool" where
  "is_complete r = (cr_failed r = None \<and> cr_skipped r = [])"

type_synonym ('s, 'j) applier = "'s \<Rightarrow> 'j effect_node \<Rightarrow> 's \<times> (apply_error + applied_effect)"

record ('s, 'l) commit_state =
  cs_applier :: 's
  cs_hook :: 'l
  cs_tainted :: "node_id list"
  cs_report :: commit_report

definition failed_parent :: "'j plan \<Rightarrow> node_id list \<Rightarrow> node_id \<Rightarrow> node_id option" where
  "failed_parent p tainted i =
     find (\<lambda>parent. parent \<in> set tainted) (map fst (filter (\<lambda>(_, child). child = i) (pl_deps p)))"

definition commit_step ::
  "'j plan \<Rightarrow> ('s, 'j) applier \<Rightarrow> ('l \<Rightarrow> applied_effect \<Rightarrow> 'l) \<Rightarrow> node_id
     \<Rightarrow> ('s, 'l) commit_state \<Rightarrow> ('s, 'l) commit_state" where
  "commit_step p apply_fn on_applied i st =
     (case plan_node p i of
        None \<Rightarrow> st
      | Some n \<Rightarrow>
          (case failed_parent p (cs_tainted st) i of
             Some parent \<Rightarrow>
               st\<lparr>cs_tainted := cs_tainted st @ [i],
                  cs_report := (cs_report st)\<lparr>cr_skipped :=
                    cr_skipped (cs_report st) @ [(i, DependencyFailed parent)]\<rparr>\<rparr>
           | None \<Rightarrow>
               (case apply_fn (cs_applier st) n of
                  (s', Inr eff) \<Rightarrow>
                    st\<lparr>cs_applier := s', cs_hook := on_applied (cs_hook st) eff,
                       cs_report := (cs_report st)\<lparr>cr_applied :=
                         cr_applied (cs_report st) @ [eff]\<rparr>\<rparr>
                | (s', Inl err) \<Rightarrow>
                    st\<lparr>cs_applier := s', cs_tainted := cs_tainted st @ [i],
                       cs_report := (cs_report st)\<lparr>cr_failed :=
                         (case cr_failed (cs_report st) of None \<Rightarrow> Some err | Some e \<Rightarrow> Some e)\<rparr>\<rparr>)))"

definition commit_init :: "'s \<Rightarrow> 'l \<Rightarrow> ('s, 'l) commit_state" where
  "commit_init s l =
     \<lparr>cs_applier = s, cs_hook = l, cs_tainted = [], cs_report = commit_report_default\<rparr>"

definition commit ::
  "'j plan \<Rightarrow> ('s, 'j) applier \<Rightarrow> ('l \<Rightarrow> applied_effect \<Rightarrow> 'l) \<Rightarrow> 's \<Rightarrow> 'l
     \<Rightarrow> 's \<times> 'l \<times> commit_report" where
  "commit p apply_fn on_applied s l =
     (case topo_order p of
        None \<Rightarrow> (s, l, commit_report_default)
      | Some order \<Rightarrow>
          (let st = fold (commit_step p apply_fn on_applied) order (commit_init s l)
           in (cs_applier st, cs_hook st, cs_report st)))"

section \<open>The recording applier\<close>

record recording_applier =
  ra_applied :: "node_id list"
  ra_fail_on :: "node_id list"

definition recording_new :: recording_applier where
  "recording_new = \<lparr>ra_applied = [], ra_fail_on = []\<rparr>"

definition failing_on :: "recording_applier \<Rightarrow> node_id \<Rightarrow> recording_applier" where
  "failing_on r i = r\<lparr>ra_fail_on := ra_fail_on r @ [i]\<rparr>"

definition recording_apply :: "(recording_applier, 'j) applier" where
  "recording_apply r n =
     (let r' = r\<lparr>ra_applied := ra_applied r @ [en_id n]\<rparr> in
      if en_id n \<in> set (ra_fail_on r')
      then (r', Inl \<lparr>aerr_id = en_id n, aerr_reason = ''configured failure''\<rparr>)
      else (r', Inr \<lparr>ae_id = en_id n,
                     ae_affected = (case en_est_affected n of
                        Exact k \<Rightarrow> k | AtMost k \<Rightarrow> k | AffectedUnknown \<Rightarrow> 0)\<rparr>))"

section \<open>The preview fold\<close>

lemma preview_fold:
  assumes "\<And>i. i \<in> set xs \<Longrightarrow> plan_node p i \<noteq> None"
  shows "fold (preview_step p) xs (rows, irr, tot) =
    (rows @ map (\<lambda>i. preview_row_of (the (plan_node p i))) xs,
     irr @ filter (\<lambda>i. en_irreversible (the (plan_node p i))) xs,
     fold (\<lambda>i t. affected_combine t (en_est_affected (the (plan_node p i)))) xs tot)"
  using assms
proof (induction xs arbitrary: rows irr tot)
  case (Cons i xs)
  obtain n where n: "plan_node p i = Some n" using Cons.prems [of i] by auto
  then have "en_id n = i" by (auto dest: plan_node_SomeD)
  then show ?case using Cons n by (simp add: preview_step_def)
qed simp

lemma fold_combine_comp:
  "fold (\<lambda>i t. affected_combine t (g i)) xs t = affected_combine t (fold (\<lambda>i t. affected_combine t (g i)) xs (Exact 0))"
proof (induction xs arbitrary: t)
  case (Cons x xs)
  then show ?case by (metis affected_combine_0(1) affected_combine_assoc fold_simps(2))
qed simp

lemma affected_combine_right_commute:
  "affected_combine (affected_combine t a) b = affected_combine (affected_combine t b) a"
  by (metis affected_combine_assoc affected_combine_commute)

lemma fold_combine_perm:
  assumes "mset xs = mset ys"
  shows "fold (\<lambda>i t. affected_combine t (g i)) xs t = fold (\<lambda>i t. affected_combine t (g i)) ys t"
  using assms
  by (rule fold_permuted_eq [where P = "\<lambda>_. True"])
     (simp_all, rule affected_combine_right_commute)

lemma plan_node_of_mem:
  "distinct (plan_ids p) \<Longrightarrow> n \<in> set (pl_nodes p) \<Longrightarrow> plan_node p (en_id n) = Some n"
  by (simp add: plan_node_def find_distinct_key)

section \<open>The invariant of the commit walk\<close>

definition honest_applier :: "('s, 'j) applier \<Rightarrow> bool" where
  "honest_applier apply_fn \<longleftrightarrow> (\<forall>s n s' e. apply_fn s n = (s', Inr e) \<longrightarrow> ae_id e = en_id n)"

abbreviation applied_ids :: "commit_report \<Rightarrow> node_id list" where
  "applied_ids r \<equiv> map ae_id (cr_applied r)"

abbreviation skipped_ids :: "commit_report \<Rightarrow> node_id list" where
  "skipped_ids r \<equiv> map fst (cr_skipped r)"

definition walk_inv ::
  "'j plan \<Rightarrow> node_id list \<Rightarrow> node_id list \<Rightarrow> node_id set \<Rightarrow> node_id list \<Rightarrow> bool \<Rightarrow> bool" where
  "walk_inv p ys A T K no_failure \<longleftrightarrow>
     A = filter (\<lambda>i. i \<notin> T) ys \<and> T \<subseteq> set ys
     \<and> K = filter (\<lambda>i. i \<in> set K) ys \<and> set K \<subseteq> T
     \<and> (\<forall>i\<in>set ys - T. \<forall>a. (a, i) \<in> set (pl_deps p) \<longrightarrow> a \<notin> T)
     \<and> (\<forall>i\<in>set K. \<exists>a. (a, i) \<in> set (pl_deps p) \<and> a \<in> T)
     \<and> (no_failure \<longleftrightarrow> T = {})"

definition commit_inv :: "'j plan \<Rightarrow> node_id list \<Rightarrow> ('s, 'l) commit_state \<Rightarrow> bool" where
  "commit_inv p ys st \<longleftrightarrow>
     walk_inv p ys (applied_ids (cs_report st)) (set (cs_tainted st)) (skipped_ids (cs_report st))
       (cr_failed (cs_report st) = None)"

lemma walk_invD:
  assumes "walk_inv p ys A T K no_failure"
  shows "A = filter (\<lambda>i. i \<notin> T) ys" "T \<subseteq> set ys" "K = filter (\<lambda>i. i \<in> set K) ys" "set K \<subseteq> T"
    and "i \<in> set ys \<Longrightarrow> i \<notin> T \<Longrightarrow> (a, i) \<in> set (pl_deps p) \<Longrightarrow> a \<notin> T"
    and "i \<in> set K \<Longrightarrow> \<exists>a. (a, i) \<in> set (pl_deps p) \<and> a \<in> T"
    and "no_failure \<longleftrightarrow> T = {}"
  using assms unfolding walk_inv_def by blast+

lemma filter_insert_other:
  "i \<notin> set ys \<Longrightarrow> filter (\<lambda>j. j \<noteq> i \<and> P j) ys = filter P ys"
  "i \<notin> set ys \<Longrightarrow> filter (\<lambda>j. j = i \<or> P j) ys = filter P ys"
  by (auto intro!: filter_cong)

lemma walk_inv_skip:
  assumes "walk_inv p ys A T K f" "i \<notin> set ys" "(a, i) \<in> set (pl_deps p)" "a \<in> T"
    and "\<And>c. (i, c) \<in> set (pl_deps p) \<Longrightarrow> c \<notin> set ys"
  shows "walk_inv p (ys @ [i]) A (insert i T) (K @ [i]) f"
  using assms unfolding walk_inv_def by (auto simp: filter_insert_other)

lemma walk_inv_ok:
  assumes "walk_inv p ys A T K f" "i \<notin> set ys" "\<And>a. (a, i) \<in> set (pl_deps p) \<Longrightarrow> a \<notin> T"
  shows "walk_inv p (ys @ [i]) (A @ [i]) T K f"
proof -
  have "i \<notin> T" "i \<notin> set K" using assms(1,2) by (auto simp: walk_inv_def)
  then show ?thesis using assms unfolding walk_inv_def by auto
qed

lemma walk_inv_err:
  assumes "walk_inv p ys A T K f" "i \<notin> set ys" "\<And>c. (i, c) \<in> set (pl_deps p) \<Longrightarrow> c \<notin> set ys"
  shows "walk_inv p (ys @ [i]) A (insert i T) K False"
proof -
  have "i \<notin> T" "i \<notin> set K" using assms(1,2) by (auto simp: walk_inv_def)
  then show ?thesis using assms unfolding walk_inv_def by (auto simp: filter_insert_other)
qed

lemma failed_parent_None:
  "failed_parent p T i = None \<longleftrightarrow> (\<forall>a. (a, i) \<in> set (pl_deps p) \<longrightarrow> a \<notin> set T)"
  by (auto simp: failed_parent_def find_None_iff_all)

lemma failed_parent_Some:
  "failed_parent p T i = Some a \<Longrightarrow> (a, i) \<in> set (pl_deps p) \<and> a \<in> set T"
  by (auto simp: failed_parent_def dest!: find_SomeD)

lemma commit_inv_step:
  assumes "honest_applier apply_fn" "commit_inv p ys st" "plan_node p i = Some n" "i \<notin> set ys"
    and parents: "\<And>c. (i, c) \<in> set (pl_deps p) \<Longrightarrow> c \<notin> insert i (set ys)"
  shows "commit_inv p (ys @ [i]) (commit_step p apply_fn on_applied i st)"
proof -
  have n: "en_id n = i" using assms(3) by (auto dest: plan_node_SomeD)
  consider (skip) a where "failed_parent p (cs_tainted st) i = Some a"
    | (ok) s' e where "failed_parent p (cs_tainted st) i = None" "apply_fn (cs_applier st) n = (s', Inr e)"
    | (err) s' e where "failed_parent p (cs_tainted st) i = None" "apply_fn (cs_applier st) n = (s', Inl e)"
    by (metis not_None_eq obj_sumE surj_pair)
  then show ?thesis
  proof cases
    case skip
    then show ?thesis
      using assms(2,4) parents failed_parent_Some [OF skip]
      by (auto simp: commit_inv_def commit_step_def assms(3) intro!: walk_inv_skip)
  next
    case ok
    have "ae_id e = i" using assms(1) ok(2) n by (auto simp: honest_applier_def)
    moreover have "walk_inv p (ys @ [i]) (applied_ids (cs_report st) @ [i]) (set (cs_tainted st))
        (skipped_ids (cs_report st)) (cr_failed (cs_report st) = None)"
      using assms(2,4) ok(1) unfolding commit_inv_def failed_parent_None by (intro walk_inv_ok) auto
    ultimately show ?thesis
      using ok by (simp add: commit_inv_def commit_step_def assms(3))
  next
    case err
    have "walk_inv p (ys @ [i]) (applied_ids (cs_report st)) (insert i (set (cs_tainted st)))
            (skipped_ids (cs_report st)) False"
      using assms(2,4) parents unfolding commit_inv_def by (intro walk_inv_err) auto
    then show ?thesis
      using err by (simp add: commit_inv_def commit_step_def assms(3) split: option.splits)
  qed
qed

lemma commit_inv_prefix:
  assumes order: "topo_order p = Some (ys @ zs)" and honest: "honest_applier apply_fn"
    and deps: "set (pl_deps p) \<subseteq> set (plan_ids p) \<times> set (plan_ids p)"
  shows "commit_inv p ys (fold (commit_step p apply_fn on_applied) ys (commit_init s l))"
  using order
proof (induction ys arbitrary: zs rule: rev_induct)
  case Nil
  show ?case by (simp add: commit_inv_def walk_inv_def commit_init_def commit_report_default_def)
next
  case (snoc i ys)
  have ord: "topo_order p = Some (ys @ i # zs)" using snoc.prems by simp
  obtain n where n: "plan_node p i = Some n" using topo.order_node [OF ord, of i] by auto
  have dist: "distinct (ys @ i # zs)" by (rule topo.order_distinct [OF ord])
  have later: "c \<notin> insert i (set ys)" if c: "(i, c) \<in> set (pl_deps p)" for c
  proof
    assume "c \<in> insert i (set ys)"
    then obtain us vs where uv: "ys @ [i] = us @ c # vs"
      by (metis insert_iff list.set_intros(1) set_append split_list Un_iff in_set_conv_decomp)
    then have "topo_order p = Some (us @ c # (vs @ zs))" using snoc.prems by simp
    then have "i \<in> set us" using topo.order_split c live_deps_id [OF deps] by metis
    moreover have "distinct (us @ c # vs)" using dist uv by (metis append.assoc append_Cons append_Nil distinct_append)
    moreover have "i = last (us @ c # vs)" using uv by (metis last_snoc)
    ultimately show False by (auto split: if_splits)
  qed
  show ?case
    using commit_inv_step [OF honest snoc.IH [OF ord] n _ later] dist by simp
qed

lemma commit_inv_final:
  assumes "topo_order p = Some xs" "honest_applier apply_fn"
    "set (pl_deps p) \<subseteq> set (plan_ids p) \<times> set (plan_ids p)"
    "commit p apply_fn on_applied s l = (s', l', r)"
  shows "\<exists>T. walk_inv p xs (applied_ids r) T (skipped_ids r) (cr_failed r = None)"
  using commit_inv_prefix [of p xs "[]" apply_fn on_applied s l] assms
  by (auto simp: commit_def commit_inv_def Let_def)

lemma taint_trancl:
  assumes "walk_inv p xs A T K f" "(a, b) \<in> (set (pl_deps p))\<^sup>+" "a \<in> T" "b \<in> set xs"
    "set (pl_deps p) \<subseteq> set xs \<times> set xs"
  shows "b \<in> T"
  using assms(2,4)
proof (induction rule: trancl_induct)
  case (base b)
  then show ?case using walk_invD(5) [OF assms(1)] assms(3) by blast
next
  case (step b c)
  have "b \<in> set xs" using step.hyps(2) assms(5) by auto
  then have "b \<in> T" using step.IH by blast
  then show ?case using walk_invD(5) [OF assms(1) step.prems] step.hyps(2) by blast
qed

text \<open>A tainted node that was not skipped was attempted and failed; every skipped node has one
  such ancestor.\<close>

lemma skipped_has_failed_ancestor:
  assumes inv: "walk_inv p xs A T K f" and wf: "wf (set (pl_deps p))" and b: "b \<in> set K"
  shows "\<exists>a\<in>T - set K. (a, b) \<in> (set (pl_deps p))\<^sup>+"
  using wf b
proof (induction b rule: wf_induct_rule)
  case (less b)
  obtain a where a: "(a, b) \<in> set (pl_deps p)" "a \<in> T"
    using walk_invD(6) [OF inv less.prems] by blast
  then show ?case using less.IH [of a] by (cases "a \<in> set K") (blast intro: trancl.intros)+
qed

lemma commit_hook:
  "commit p apply_fn on_applied s l = (s', l', r) \<Longrightarrow> l' = foldl on_applied l (cr_applied r)"
proof -
  have step: "cs_hook (commit_step p apply_fn on_applied i st) =
      foldl on_applied l (cr_applied (cs_report (commit_step p apply_fn on_applied i st)))"
    if "cs_hook st = foldl on_applied l (cr_applied (cs_report st))" for i st
    using that by (auto simp: commit_step_def split: option.splits prod.splits sum.splits)
  have "cs_hook (fold (commit_step p apply_fn on_applied) xs st) =
      foldl on_applied l (cr_applied (cs_report (fold (commit_step p apply_fn on_applied) xs st)))"
    if "cs_hook st = foldl on_applied l (cr_applied (cs_report st))" for xs st
    using that step by (induction xs arbitrary: st) auto
  from this [of "commit_init s l"] show
    "commit p apply_fn on_applied s l = (s', l', r) \<Longrightarrow> l' = foldl on_applied l (cr_applied r)"
    by (auto simp: commit_def commit_init_def commit_report_default_def Let_def split: option.splits)
qed

section \<open>The recording applier, in closed form\<close>

definition hit :: "'j plan \<Rightarrow> node_id set \<Rightarrow> node_id \<Rightarrow> bool" where
  "hit p F i \<longleftrightarrow> (\<exists>a\<in>F. (a, i) \<in> (set (pl_deps p))\<^sup>+)"

lemma hit_parent:
  "hit p F i \<longleftrightarrow> (\<exists>a. (a, i) \<in> set (pl_deps p) \<and> (a \<in> F \<or> hit p F a))"
  unfolding hit_def by (meson trancl.intros tranclE)

definition recording_inv ::
  "'j plan \<Rightarrow> recording_applier \<Rightarrow> node_id list \<Rightarrow> (recording_applier, 'l) commit_state \<Rightarrow> bool" where
  "recording_inv p r0 ys st \<longleftrightarrow>
     set (cs_tainted st) = {i \<in> set ys. i \<in> set (ra_fail_on r0) \<or> hit p (set (ra_fail_on r0)) i}
     \<and> cs_applier st = r0\<lparr>ra_applied := ra_applied r0 @ filter (\<lambda>i. \<not> hit p (set (ra_fail_on r0)) i) ys\<rparr>
     \<and> skipped_ids (cs_report st) = filter (hit p (set (ra_fail_on r0))) ys"

lemma recording_step:
  assumes inv: "recording_inv p r0 ys st" and n: "plan_node p i = Some n"
    and par: "\<And>a. (a, i) \<in> set (pl_deps p) \<Longrightarrow> a \<in> set ys"
  shows "recording_inv p r0 (ys @ [i]) (commit_step p recording_apply on_applied i st)"
proof -
  let ?F = "set (ra_fail_on r0)"
  have ni: "en_id n = i" using n by (auto dest: plan_node_SomeD)
  have taint: "set (cs_tainted st) = {i \<in> set ys. i \<in> ?F \<or> hit p ?F i}"
    and app: "cs_applier st = r0\<lparr>ra_applied := ra_applied r0 @ filter (\<lambda>i. \<not> hit p ?F i) ys\<rparr>"
    and skip: "skipped_ids (cs_report st) = filter (hit p ?F) ys"
    using inv by (simp_all add: recording_inv_def)
  have snoc: "{j \<in> set (ys @ [i]). P j} = (if P i then insert i {j \<in> set ys. P j} else {j \<in> set ys. P j})"
    for P by auto
  show ?thesis
  proof (cases "failed_parent p (cs_tainted st) i")
    case None
    have "\<not> hit p ?F i"
      using None taint par unfolding hit_parent [of p ?F i] failed_parent_None by auto
    then show ?thesis
      unfolding recording_inv_def snoc
      by (simp add: commit_step_def None n recording_apply_def Let_def ni taint app skip)
  next
    case (Some a)
    then have "hit p ?F i"
      using failed_parent_Some [OF Some] taint unfolding hit_parent [of p ?F i] by auto
    then show ?thesis
      unfolding recording_inv_def snoc by (simp add: commit_step_def Some n taint app skip)
  qed
qed

lemma recording_prefix:
  assumes order: "topo_order p = Some (ys @ zs)"
    and deps: "set (pl_deps p) \<subseteq> set (plan_ids p) \<times> set (plan_ids p)"
  shows "recording_inv p r0 ys (fold (commit_step p recording_apply on_applied) ys (commit_init r0 l))"
  using order
proof (induction ys arbitrary: zs rule: rev_induct)
  case Nil
  show ?case by (simp add: recording_inv_def commit_init_def commit_report_default_def)
next
  case (snoc i ys)
  have ord: "topo_order p = Some (ys @ i # zs)" using snoc.prems by simp
  obtain n where n: "plan_node p i = Some n" using topo.order_node [OF ord, of i] by auto
  have par: "a \<in> set ys" if "(a, i) \<in> set (pl_deps p)" for a
    using topo.order_split [OF ord] live_deps_id [OF deps] that by simp
  show ?case using recording_step [OF snoc.IH [OF ord] n par] by simp
qed

section \<open>Properties\<close>

lemma honest_recording: "honest_applier recording_apply"
  by (auto simp: honest_applier_def recording_apply_def Let_def split: if_splits)



text \<open>Committing a valid plan with the recording applier calls it on exactly the nodes with
  no failing ancestor, in plan order, and skips exactly the nodes with one.\<close>

theorem commit_recording:
  assumes "validate p = Inr ()" "topo_order p = Some xs"
    and "commit p recording_apply on_applied r0 l = (r1, l', r)"
  shows "ra_applied r1 = ra_applied r0 @ filter (\<lambda>i. \<not> hit p (set (ra_fail_on r0)) i) xs
    \<and> map fst (cr_skipped r) = filter (hit p (set (ra_fail_on r0))) xs"
proof -
  have deps: "set (pl_deps p) \<subseteq> set (plan_ids p) \<times> set (plan_ids p)"
    using assms(1) by (simp add: validate_wf wf_plan_def)
  show ?thesis
    using recording_prefix [OF _ deps, of xs "[]" r0 on_applied l] assms(2,3)
    by (auto simp: commit_def Let_def recording_inv_def)
qed

theorem commit_recording_witness:
  "\<exists>r1 l' r. commit demo_plan recording_apply (\<lambda>l e. l @ [e]) (failing_on recording_new 2) [] = (r1, l', r)
     \<and> ra_applied r1 = [1, 2] \<and> map fst (cr_skipped r) = [0, 3]
     \<and> map fst (cr_skipped r) = filter (hit demo_plan {2}) [1, 2, 0, 3]"
proof -
  have v: "validate demo_plan = Inr ()" and t: "topo_order demo_plan = Some [1, 2, 0, 3]" by code_simp+
  let ?c = "commit demo_plan recording_apply (\<lambda>l e. l @ [e]) (failing_on recording_new 2) []"
  have run: "ra_applied (fst ?c) = [1, 2] \<and> map fst (cr_skipped (snd (snd ?c))) = [0, 3]" by code_simp
  have "?c = (fst ?c, fst (snd ?c), snd (snd ?c))" by simp
  from commit_recording [OF v t this] run show ?thesis
    by (simp add: failing_on_def recording_new_def) (metis prod.collapse)
qed

text \<open>The preview of a valid plan has one row per node, in plan order; it flags exactly the
  irreversible nodes; and its total is the combination of all nodes' estimates, whatever the
  order they are taken in.\<close>

theorem preview_faithful:
  assumes "validate p = Inr ()"
  shows "\<exists>xs. topo_order p = Some xs
    \<and> pv_rows (preview p) = map (\<lambda>i. preview_row_of (the (plan_node p i))) xs
    \<and> map pr_id (pv_rows (preview p)) = xs
    \<and> set (pv_irreversible (preview p)) = en_id ` {n \<in> set (pl_nodes p). en_irreversible n}
    \<and> pv_total_affected (preview p) =
        fold (\<lambda>n t. affected_combine t (en_est_affected n)) (pl_nodes p) (Exact 0)"
proof -
  have wf: "wf_plan p" using assms by (simp add: validate_wf)
  obtain xs where xs: "topo_order p = Some xs" using topo.wf_ordered [OF wf] by blast
  have node: "plan_node p i \<noteq> None" if "i \<in> set xs" for i
    using topo.order_node [OF xs that] by auto
  have dist: "distinct (plan_ids p)" using wf by (simp add: wf_plan_def)
  have ids: "set xs = set (plan_ids p)" by (rule topo.order_set [OF xs])
  have look: "plan_node p (en_id n) = Some n" if "n \<in> set (pl_nodes p)" for n
    by (rule plan_node_of_mem [OF dist that])
  let ?g = "\<lambda>i. en_est_affected (the (plan_node p i))"
  have "mset xs = mset (plan_ids p)"
    using topo.order_distinct [OF xs] dist ids by (metis set_eq_iff_mset_eq_distinct)
  then have "fold (\<lambda>i t. affected_combine t (?g i)) xs (Exact 0) =
             fold (\<lambda>i t. affected_combine t (?g i)) (plan_ids p) (Exact 0)"
    by (rule fold_combine_perm)
  also have "\<dots> = fold (\<lambda>n t. affected_combine t (en_est_affected n)) (pl_nodes p) (Exact 0)"
    unfolding fold_map by (rule fold_cong) (simp_all add: look fun_eq_iff)
  finally have tot: "fold (\<lambda>i t. affected_combine t (?g i)) xs (Exact 0) = \<dots>" .
  have irr: "set (filter (\<lambda>i. en_irreversible (the (plan_node p i))) xs) =
        en_id ` {n \<in> set (pl_nodes p). en_irreversible n}"
    using ids look by force
  have ids_rows: "map pr_id (map (\<lambda>i. preview_row_of (the (plan_node p i))) xs) = xs"
    using node by (auto simp: preview_row_of_def plan_node_SomeD intro!: map_idI)
  show ?thesis
    using xs tot irr ids_rows preview_fold [OF node, of xs "[]" "[]" "Exact 0"]
    by (simp add: preview_def)
qed

theorem preview_faithful_witness:
  "pv_total_affected (preview demo_plan) = AffectedUnknown \<and> map pr_id (pv_rows (preview demo_plan)) = [1, 2, 0, 3]"
proof -
  have v: "validate demo_plan = Inr ()" and t: "topo_order demo_plan = Some [1, 2, 0, 3]" by code_simp+
  from preview_faithful [OF v] t have "map pr_id (pv_rows (preview demo_plan)) = [1, 2, 0, 3]" by auto
  moreover have "pv_total_affected (preview demo_plan) = AffectedUnknown" by code_simp
  ultimately show ?thesis by simp
qed

text \<open>A plan with a dependency cycle is not committed at all, yet its report counts as
  complete: \<open>is_complete\<close> holds although no node was applied.\<close>

theorem commit_cyclic_reports_complete:
  assumes "topo_order p = None"
  shows "commit p apply_fn on_applied s l = (s, l, commit_report_default)
    \<and> is_complete (snd (snd (commit p apply_fn on_applied s l)))
    \<and> cr_applied (snd (snd (commit p apply_fn on_applied s l))) = []"
  using assms by (simp add: commit_def is_complete_def commit_report_default_def)

theorem commit_cyclic_reports_complete_witness:
  "is_complete (snd (snd (commit (plan_depends_on demo_plan 2 0) recording_apply (\<lambda>l e. l @ [e]) recording_new [])))"
proof -
  have "topo_order (plan_depends_on demo_plan 2 0) = None" by code_simp
  then show ?thesis by (rule commit_cyclic_reports_complete [THEN conjunct2, THEN conjunct1])
qed

end
