(* ===== verification/Path_Glob.thy ===== *)
theory Path_Glob
  imports Qfs_Prelude
begin

text \<open>
  The contract of a segment glob over paths. The repository implements it twice, in
  \<open>crates/runtime/src/caps.rs\<close> (capability scopes) and in
  \<open>crates/server/src/policy/model.rs\<close> (policy scopes), with the comment that a scope means
  the same thing at both enforcement layers. \<open>segment_glob\<close> is that meaning as a
  specification; both implementations interpret it.

  \<open>*\<close> matches one segment, \<open>**\<close> the rest of the path whatever follows it in the glob, any
  other segment itself; a glob without \<open>**\<close> matches paths of its own length only; the empty
  glob matches every path.
\<close>

section \<open>The meaning of a glob\<close>

definition seg_matches :: "string \<Rightarrow> string \<Rightarrow> bool" where
  "seg_matches g n \<longleftrightarrow> g = ''*'' \<or> g = n"

definition glob_prefix :: "nat \<Rightarrow> string list \<Rightarrow> string list \<Rightarrow> bool" where
  "glob_prefix k glob node \<longleftrightarrow> k \<le> length node \<and> (\<forall>i<k. seg_matches (glob ! i) (node ! i))"

definition glob_spec :: "string list \<Rightarrow> string list \<Rightarrow> bool" where
  "glob_spec glob node \<longleftrightarrow>
     glob = []
     \<or> (\<exists>k<length glob. glob ! k = ''**'' \<and> glob_prefix k glob node)
     \<or> (length glob = length node \<and> glob_prefix (length glob) glob node)"

lemma glob_prefix_Suc:
  "glob_prefix (Suc k) (g # gs) (n # ns) \<longleftrightarrow> seg_matches g n \<and> glob_prefix k gs ns"
  by (auto simp: glob_prefix_def less_Suc_eq_0_disj)

lemma glob_prefix_0 [simp]: "glob_prefix 0 gs ns"
  by (simp add: glob_prefix_def)

text \<open>The strict part of the specification, where the empty glob matches the empty path only,
  unfolds segment by segment as the implementations' loops do.\<close>

definition glob_strict :: "string list \<Rightarrow> string list \<Rightarrow> bool" where
  "glob_strict glob node \<longleftrightarrow>
     (\<exists>k<length glob. glob ! k = ''**'' \<and> glob_prefix k glob node)
     \<or> (length glob = length node \<and> glob_prefix (length glob) glob node)"

lemma glob_strict_simps:
  "glob_strict [] ns \<longleftrightarrow> ns = []"
  "glob_strict (''**'' # gs) ns"
  "g \<noteq> ''**'' \<Longrightarrow> \<not> glob_strict (g # gs) []"
  "g \<noteq> ''**'' \<Longrightarrow> glob_strict (g # gs) (n # ns) \<longleftrightarrow> seg_matches g n \<and> glob_strict gs ns"
proof -
  show "glob_strict [] ns \<longleftrightarrow> ns = []" by (auto simp: glob_strict_def)
  show "glob_strict (''**'' # gs) ns"
    unfolding glob_strict_def by (intro disjI1 exI [of _ 0]) simp
  show "\<not> glob_strict (g # gs) []" if "g \<noteq> ''**''"
    using that by (auto simp: glob_strict_def glob_prefix_def less_Suc_eq_0_disj)
  show "glob_strict (g # gs) (n # ns) \<longleftrightarrow> seg_matches g n \<and> glob_strict gs ns" if g: "g \<noteq> ''**''"
  proof -
    have "(\<exists>k<length (g # gs). (g # gs) ! k = ''**'' \<and> glob_prefix k (g # gs) (n # ns)) \<longleftrightarrow>
          (\<exists>k<length gs. gs ! k = ''**'' \<and> seg_matches g n \<and> glob_prefix k gs ns)"
      using g by (simp add: Ex_less_Suc2 glob_prefix_Suc)
    then show ?thesis unfolding glob_strict_def by (auto simp: glob_prefix_Suc)
  qed
qed

lemma glob_strict_depth: "''**'' \<notin> set glob \<Longrightarrow> glob_strict glob node \<Longrightarrow> length node = length glob"
  by (auto simp: glob_strict_def in_set_conv_nth)

lemma glob_strict_literal:
  "''**'' \<notin> set glob \<Longrightarrow> ''*'' \<notin> set glob \<Longrightarrow> glob_strict glob node \<longleftrightarrow> node = glob"
proof (induction glob arbitrary: node)
  case (Cons g gs)
  have g: "g \<noteq> ''**''" "g \<noteq> ''*''" using Cons.prems by auto
  have IH: "glob_strict gs ns \<longleftrightarrow> ns = gs" for ns using Cons.prems by (intro Cons.IH) auto
  show ?case
  proof (cases node)
    case Nil
    then show ?thesis using glob_strict_simps(3) [OF g(1)] by blast
  next
    case (Cons n ns)
    then show ?thesis unfolding Cons glob_strict_simps(4) [OF g(1)] IH seg_matches_def using g(2) by blast
  qed
qed (simp add: glob_strict_simps)

lemma glob_strict_subtree:
  "''**'' \<notin> set pre \<Longrightarrow> ''*'' \<notin> set pre \<Longrightarrow>
   glob_strict (pre @ [''**'']) node \<longleftrightarrow> (\<exists>rest. node = pre @ rest)"
proof (induction pre arbitrary: node)
  case (Cons g gs)
  have g: "g \<noteq> ''**''" "g \<noteq> ''*''" using Cons.prems by auto
  have IH: "glob_strict (gs @ [''**'']) ns \<longleftrightarrow> (\<exists>rest. ns = gs @ rest)" for ns
    using Cons.prems by (intro Cons.IH) auto
  show ?case
  proof (cases node)
    case Nil
    then show ?thesis using glob_strict_simps(3) [OF g(1)] by simp
  next
    case (Cons n ns)
    then show ?thesis
      unfolding Cons append_Cons glob_strict_simps(4) [OF g(1)] IH seg_matches_def using g(2) by blast
  qed
qed (simp add: glob_strict_simps)

section \<open>The contract\<close>

locale segment_glob =
  fixes admits :: "string list \<Rightarrow> string list \<Rightarrow> bool"
  assumes admits_spec: "admits glob node \<longleftrightarrow> glob_spec glob node"
begin

lemma admits_any: "admits [] node"
  by (simp add: admits_spec glob_spec_def)

lemma admits_strict: "glob \<noteq> [] \<Longrightarrow> admits glob node \<longleftrightarrow> glob_strict glob node"
  by (simp add: admits_spec glob_spec_def glob_strict_def)

lemma admits_depth:
  "glob \<noteq> [] \<Longrightarrow> ''**'' \<notin> set glob \<Longrightarrow> admits glob node \<Longrightarrow> length node = length glob"
  by (simp add: admits_strict glob_strict_depth)

lemma admits_literal:
  "glob \<noteq> [] \<Longrightarrow> ''**'' \<notin> set glob \<Longrightarrow> ''*'' \<notin> set glob \<Longrightarrow> admits glob node \<longleftrightarrow> node = glob"
  by (simp add: admits_strict glob_strict_literal)

lemma admits_subtree:
  "''**'' \<notin> set pre \<Longrightarrow> ''*'' \<notin> set pre \<Longrightarrow>
   admits (pre @ [''**'']) node \<longleftrightarrow> (\<exists>rest. node = pre @ rest)"
  by (simp add: admits_strict glob_strict_subtree)

end

end
