(* ===== verification/Runtime_Caps.thy ===== *)
theory Runtime_Caps
  imports Path_Glob Plan_Model
begin

text \<open>
  Capability grants and limits, \<open>crates/runtime/src/caps.rs\<close>: path scopes, the grant set the
  interpreter re-checks before it dispatches an effect, and the concurrency and retry
  settings. The \<open>HashSet\<close> of grants is a set; \<open>usize\<close> limits are naturals.
\<close>

section \<open>Path scopes\<close>

record path_scope =
  ps_segments :: "string list"

definition scope_parse :: "string \<Rightarrow> path_scope" where
  "scope_parse pattern = \<lparr>ps_segments = path_segments pattern\<rparr>"

text \<open>The two-index loop walks glob and path in step.\<close>

fun cap_glob_loop :: "string list \<Rightarrow> string list \<Rightarrow> bool" where
  "cap_glob_loop [] node = (node = [])"
| "cap_glob_loop (g # gs) node =
     (if g = ''**'' then True
      else case node of
             [] \<Rightarrow> False
           | n # ns \<Rightarrow> if g \<noteq> ''*'' \<and> g \<noteq> n then False else cap_glob_loop gs ns)"

definition cap_glob_match :: "string list \<Rightarrow> string list \<Rightarrow> bool" where
  "cap_glob_match glob node = (if glob = [] then True else cap_glob_loop glob node)"

definition scope_matches :: "path_scope \<Rightarrow> string \<Rightarrow> bool" where
  "scope_matches s path = cap_glob_match (ps_segments s) (path_segments path)"

section \<open>Capability sets\<close>

record capability_set =
  cap_grants :: "(driver_id \<times> string \<times> path_scope option) set"
  cap_allow_all :: bool

definition caps_none :: capability_set where
  "caps_none = \<lparr>cap_grants = {}, cap_allow_all = False\<rparr>"

definition caps_allow_all :: capability_set where
  "caps_allow_all = \<lparr>cap_grants = {}, cap_allow_all = True\<rparr>"

definition caps_grant :: "capability_set \<Rightarrow> driver_id \<Rightarrow> effect_kind \<Rightarrow> capability_set" where
  "caps_grant c d k = c\<lparr>cap_grants := insert (d, kind_label k, None) (cap_grants c)\<rparr>"

definition caps_grant_scoped ::
  "capability_set \<Rightarrow> driver_id \<Rightarrow> effect_kind \<Rightarrow> path_scope \<Rightarrow> capability_set" where
  "caps_grant_scoped c d k s = c\<lparr>cap_grants := insert (d, kind_label k, Some s) (cap_grants c)\<rparr>"

definition caps_allows :: "capability_set \<Rightarrow> target \<Rightarrow> effect_kind \<Rightarrow> bool" where
  "caps_allows c t k =
     (if cap_allow_all c then True
      else \<exists>(d, v, scope) \<in> cap_grants c.
             d = tgt_driver t \<and> v = kind_label k \<and>
             (case scope of None \<Rightarrow> True | Some s \<Rightarrow> scope_matches s (tgt_path t)))"

section \<open>Limits and retries\<close>

record concurrency_limits =
  lim_global :: nat
  lim_per_driver :: nat

definition limits_new :: "nat \<Rightarrow> nat \<Rightarrow> concurrency_limits" where
  "limits_new g d = \<lparr>lim_global = max g 1, lim_per_driver = max d 1\<rparr>"

definition limits_default :: concurrency_limits where
  "limits_default = limits_new 8 4"

record retry_policy =
  rp_max_attempts :: u32
  rp_timeout_millis :: "u64 option"

definition retry_new :: "u32 \<Rightarrow> u64 option \<Rightarrow> retry_policy" where
  "retry_new n t = \<lparr>rp_max_attempts = max n 1, rp_timeout_millis = t\<rparr>"

definition retry_default :: retry_policy where
  "retry_default = retry_new 3 None"

section \<open>The glob contract\<close>

lemma cap_glob_loop_strict: "cap_glob_loop glob node \<longleftrightarrow> glob_strict glob node"
proof (induction glob node rule: cap_glob_loop.induct)
  case (1 node)
  then show ?case by (simp add: glob_strict_simps)
next
  case (2 g gs node)
  then show ?case
    by (cases "g = ''**''"; cases node) (auto simp: glob_strict_simps seg_matches_def)
qed

interpretation cap_glob: segment_glob cap_glob_match
  by unfold_locales (auto simp: cap_glob_match_def cap_glob_loop_strict glob_spec_def glob_strict_def)

lemma caps_allows_cases:
  "caps_allows c t k \<longleftrightarrow> cap_allow_all c
     \<or> (tgt_driver t, kind_label k, None) \<in> cap_grants c
     \<or> (\<exists>s. (tgt_driver t, kind_label k, Some s) \<in> cap_grants c \<and> scope_matches s (tgt_path t))"
proof -
  have "(case scope of None \<Rightarrow> True | Some s \<Rightarrow> scope_matches s pth) \<longleftrightarrow>
        scope = None \<or> (\<exists>s. scope = Some s \<and> scope_matches s pth)" for scope pth
    by (cases scope) auto
  then show ?thesis unfolding caps_allows_def by (simp add: Bex_def split_paired_Ex) blast
qed

section \<open>Properties\<close>

text \<open>Grants are additive and least-privilege: a set built from nothing with one scoped grant
  admits exactly the effects of that driver and verb whose path the scope's glob matches, and
  granting more never takes a permission away.\<close>

theorem caps_scoped_exact:
  "(caps_allows (caps_grant_scoped caps_none d k (scope_parse g)) t k' \<longleftrightarrow>
      tgt_driver t = d \<and> kind_label k' = kind_label k
      \<and> glob_spec (path_segments g) (path_segments (tgt_path t)))
   \<and> (caps_allows c t k' \<longrightarrow> caps_allows (caps_grant c d k) t k' \<and> caps_allows (caps_grant_scoped c d k s) t k')
   \<and> \<not> caps_allows caps_none t k'"
  by (auto simp: caps_allows_cases caps_grant_def caps_grant_scoped_def caps_none_def scope_matches_def
      scope_parse_def cap_glob.admits_spec)

theorem caps_scoped_exact_witness:
  "caps_allows (caps_grant_scoped caps_none ''sql'' KInsert (scope_parse ''/sql/*/*''))
     \<lparr>tgt_driver = ''sql'', tgt_path = ''/sql/shop/items''\<rparr> KInsert
   \<and> caps_allows (caps_grant (caps_grant_scoped caps_none ''sql'' KInsert (scope_parse ''/sql/*/*'')) ''x'' KRead)
     \<lparr>tgt_driver = ''sql'', tgt_path = ''/sql/shop/items''\<rparr> KInsert
   \<and> \<not> caps_allows (caps_grant_scoped caps_none ''sql'' KInsert (scope_parse ''/sql/*/*''))
     \<lparr>tgt_driver = ''sql'', tgt_path = ''/sql/shop''\<rparr> KInsert"
proof -
  let ?c = "caps_grant_scoped caps_none ''sql'' KInsert (scope_parse ''/sql/*/*'')"
  have "caps_allows ?c \<lparr>tgt_driver = ''sql'', tgt_path = ''/sql/shop/items''\<rparr> KInsert"
    "\<not> caps_allows ?c \<lparr>tgt_driver = ''sql'', tgt_path = ''/sql/shop''\<rparr> KInsert" by code_simp+
  then show ?thesis using caps_scoped_exact by blast
qed

end
