(* ===== verification/Runtime_Batch.thy ===== *)
theory Runtime_Batch
  imports Runtime_Caps
begin

text \<open>
  Runtime errors, ledger entries and auto-batching, \<open>crates/runtime/src/{error,outcome,driver,
  batch}.rs\<close>. \<open>Duration\<close> is a number of nanoseconds. \<open>GroupKey\<close> derives its order from its
  fields; it is a datatype here, an instance of \<open>linorder\<close> in the same order. The
  \<open>BTreeMap<GroupKey, BatchGroup>\<close> of \<open>coalesce\<close> is the list of its groups in key order.
\<close>

section \<open>Errors and the ledger\<close>

datatype effect_error =
    Retryable string | Terminal string | CapabilityDenied driver_id string string
  | TimedOut u64 | Conflict string | SandboxEscape string

fun effect_error_code :: "effect_error \<Rightarrow> string" where
  "effect_error_code (Retryable _) = ''retryable''"
| "effect_error_code (Terminal _) = ''terminal''"
| "effect_error_code (CapabilityDenied _ _ _) = ''capability_denied''"
| "effect_error_code (TimedOut _) = ''timed_out''"
| "effect_error_code (Conflict _) = ''conflict''"
| "effect_error_code (SandboxEscape _) = ''sandbox_escape''"

fun is_retryable :: "effect_error \<Rightarrow> bool" where
  "is_retryable (Retryable _) = True"
| "is_retryable (TimedOut _) = True"
| "is_retryable _ = False"

datatype rt_error = InvalidPlan | UnknownNode node_id

record effect_output =
  eo_id :: node_id
  eo_affected :: u64

type_synonym effect_result = "effect_error + effect_output"

datatype leg_status = Applied u64 nat | Failed effect_error nat | Skipped node_id

fun leg_code :: "leg_status \<Rightarrow> string" where
  "leg_code (Applied _ _) = ''applied''"
| "leg_code (Failed _ _) = ''failed''"
| "leg_code (Skipped _) = ''skipped''"

record ledger_entry =
  le_id :: node_id
  le_driver :: driver_id
  le_kind :: effect_kind
  le_irreversible :: bool
  le_status :: leg_status
  le_duration :: nat

fun is_applied :: "leg_status \<Rightarrow> bool" where
  "is_applied (Applied _ _) = True"
| "is_applied _ = False"

fun is_failed :: "leg_status \<Rightarrow> bool" where
  "is_failed (Failed _ _) = True"
| "is_failed _ = False"

fun is_skipped :: "leg_status \<Rightarrow> bool" where
  "is_skipped (Skipped _) = True"
| "is_skipped _ = False"

definition outcome_applied_ids :: "ledger_entry list \<Rightarrow> node_id list" where
  "outcome_applied_ids l = map le_id (filter (\<lambda>e. is_applied (le_status e)) l)"

definition outcome_is_complete :: "ledger_entry list \<Rightarrow> bool" where
  "outcome_is_complete l = list_all (\<lambda>e. is_applied (le_status e)) l"

definition outcome_failed_count :: "ledger_entry list \<Rightarrow> nat" where
  "outcome_failed_count l = length (filter (\<lambda>e. is_failed (le_status e)) l)"

definition outcome_skipped_count :: "ledger_entry list \<Rightarrow> nat" where
  "outcome_skipped_count l = length (filter (\<lambda>e. is_skipped (le_status e)) l)"

section \<open>Batch inputs and groups\<close>

record 'j effect_input =
  ei_id :: node_id
  ei_kind :: effect_kind
  ei_target :: target
  ei_args :: "'j row_batch"
  ei_selector :: "'j row_batch option"
  ei_irreversible :: bool
  ei_est_affected :: affected

definition input_from_node :: "'j effect_node \<Rightarrow> 'j effect_input" where
  "input_from_node n =
     \<lparr>ei_id = en_id n, ei_kind = en_kind n, ei_target = en_target n, ei_args = en_args n,
      ei_selector = en_selector n, ei_irreversible = en_irreversible n,
      ei_est_affected = en_est_affected n\<rparr>"

datatype group_key = GroupKey (gk_driver: driver_id) (gk_kind_label: string)

instantiation group_key :: linorder
begin

definition less_eq_group_key :: "group_key \<Rightarrow> group_key \<Rightarrow> bool" where
  "less_eq_group_key a b \<longleftrightarrow>
     gk_driver a < gk_driver b \<or> gk_driver a = gk_driver b \<and> gk_kind_label a \<le> gk_kind_label b"

definition less_group_key :: "group_key \<Rightarrow> group_key \<Rightarrow> bool" where
  "less_group_key a b \<longleftrightarrow>
     gk_driver a < gk_driver b \<or> gk_driver a = gk_driver b \<and> gk_kind_label a < gk_kind_label b"

instance
proof
  fix x y z :: group_key
  show "x < y \<longleftrightarrow> x \<le> y \<and> \<not> y \<le> x" by (auto simp: less_group_key_def less_eq_group_key_def)
  show "x \<le> x" by (simp add: less_eq_group_key_def)
  show "x \<le> y \<Longrightarrow> y \<le> z \<Longrightarrow> x \<le> z" unfolding less_eq_group_key_def by (metis order.strict_trans order.trans)
  show "x \<le> y \<Longrightarrow> y \<le> x \<Longrightarrow> x = y"
    unfolding less_eq_group_key_def by (metis group_key.expand order.antisym order.asym)
  show "x \<le> y \<or> y \<le> x" unfolding less_eq_group_key_def by (metis linear neqE)
qed

end

definition group_key_of :: "'j effect_node \<Rightarrow> group_key" where
  "group_key_of n =
     GroupKey (tgt_driver (en_target n))
       (case en_kind n of KCall proc \<Rightarrow> ''CALL:'' @ proc | other \<Rightarrow> kind_label other)"

record 'j batch_group =
  bg_key :: group_key
  bg_kind :: effect_kind
  bg_inputs :: "'j effect_input list"

definition group_ids :: "'j batch_group \<Rightarrow> node_id list" where
  "group_ids g = map ei_id (bg_inputs g)"

text \<open>\<open>entry(key).or_insert_with(..)\<close> followed by the push.\<close>

fun group_insert :: "'j effect_node \<Rightarrow> 'j batch_group list \<Rightarrow> 'j batch_group list" where
  "group_insert n [] =
     [\<lparr>bg_key = group_key_of n, bg_kind = en_kind n, bg_inputs = [input_from_node n]\<rparr>]"
| "group_insert n (g # gs) =
     (if group_key_of n = bg_key g then g\<lparr>bg_inputs := bg_inputs g @ [input_from_node n]\<rparr> # gs
      else if group_key_of n < bg_key g
      then \<lparr>bg_key = group_key_of n, bg_kind = en_kind n, bg_inputs = [input_from_node n]\<rparr> # g # gs
      else g # group_insert n gs)"

definition coalesce :: "'j effect_node list \<Rightarrow> 'j batch_group list" where
  "coalesce nodes =
     map (\<lambda>g. g\<lparr>bg_inputs := sort_key ei_id (bg_inputs g)\<rparr>) (fold group_insert nodes [])"

section \<open>Coalescing partitions the ready set\<close>

lemma server_label_node_inj: "server_label_node a @ x = server_label_node b @ y \<Longrightarrow> hd x = CHR ''_'' \<Longrightarrow>
   hd y = CHR ''_'' \<Longrightarrow> x \<noteq> [] \<Longrightarrow> y \<noteq> [] \<Longrightarrow> a = b"
  by (cases a; cases b) auto

lemma server_op_label_inj: "server_op_label a = server_op_label b \<Longrightarrow> a = b"
  by (cases a; cases b) auto

text \<open>The label part of the key determines the effect kind.\<close>

lemma key_kind: "group_key_of m = group_key_of n \<Longrightarrow> en_kind m = en_kind n"
proof -
  assume eq: "group_key_of m = group_key_of n"
  have server: "a = b \<and> c = d"
    if "server_label_node a @ CHR ''_'' # server_op_label c = server_label_node b @ CHR ''_'' # server_op_label d"
    for a b c d
  proof -
    have "a = b" by (rule server_label_node_inj [OF that]) simp_all
    then show ?thesis using that server_op_label_inj by simp
  qed
  show ?thesis
    using eq by (cases "en_kind m"; cases "en_kind n") (auto simp: group_key_of_def dest!: server)
qed

definition groups_ok :: "'j effect_node list \<Rightarrow> 'j batch_group list \<Rightarrow> bool" where
  "groups_ok ns gs \<longleftrightarrow>
     sorted_wrt (<) (map bg_key gs)
     \<and> mset (concat (map bg_inputs gs)) = mset (map input_from_node ns)
     \<and> (\<forall>g\<in>set gs. bg_inputs g \<noteq> [] \<and> (\<forall>i\<in>set (bg_inputs g). \<exists>n\<in>set ns. i = input_from_node n
           \<and> group_key_of n = bg_key g \<and> en_kind n = bg_kind g))"

lemma group_insert_keys:
  "set (map bg_key (group_insert n gs)) = insert (group_key_of n) (set (map bg_key gs))"
  by (induction gs) auto

lemma group_insert_mset:
  "mset (concat (map bg_inputs (group_insert n gs))) =
     add_mset (input_from_node n) (mset (concat (map bg_inputs gs)))"
  by (induction gs) auto

lemma group_insert_sorted:
  "sorted_wrt (<) (map bg_key gs) \<Longrightarrow> sorted_wrt (<) (map bg_key (group_insert n gs))"
proof (induction gs)
  case (Cons g gs)
  have "bg_key g < k" if "k \<in> set (map bg_key (group_insert n gs))" "bg_key g < group_key_of n" for k
    using that Cons.prems unfolding group_insert_keys by auto
  then show ?case using Cons by (auto intro: order.strict_trans)
qed simp

lemma group_insert_members:
  assumes "groups_ok ns gs" "g \<in> set (group_insert n gs)"
  shows "bg_inputs g \<noteq> [] \<and> (\<forall>i\<in>set (bg_inputs g). \<exists>m\<in>set (ns @ [n]). i = input_from_node m
           \<and> group_key_of m = bg_key g \<and> en_kind m = bg_kind g)"
proof -
  have kind: "en_kind n = bg_kind h" if "h \<in> set gs" "group_key_of n = bg_key h" for h
  proof -
    have h: "bg_inputs h \<noteq> []" "\<forall>i\<in>set (bg_inputs h). \<exists>m\<in>set ns. i = input_from_node m
        \<and> group_key_of m = bg_key h \<and> en_kind m = bg_kind h"
      using assms(1) that(1) unfolding groups_ok_def by blast+
    have "hd (bg_inputs h) \<in> set (bg_inputs h)" using h(1) by simp
    then obtain m where "m \<in> set ns" "group_key_of m = bg_key h" "en_kind m = bg_kind h" using h(2) by blast
    then show ?thesis using key_kind [of n m] that(2) by simp
  qed
  have "g \<in> set gs \<or> g = \<lparr>bg_key = group_key_of n, bg_kind = en_kind n, bg_inputs = [input_from_node n]\<rparr>
      \<or> (\<exists>h\<in>set gs. group_key_of n = bg_key h \<and> g = h\<lparr>bg_inputs := bg_inputs h @ [input_from_node n]\<rparr>)"
    using assms(2) by (induction gs) (auto split: if_splits)
  then consider "g \<in> set gs"
    | "g = \<lparr>bg_key = group_key_of n, bg_kind = en_kind n, bg_inputs = [input_from_node n]\<rparr>"
    | h where "h \<in> set gs" "group_key_of n = bg_key h" "g = h\<lparr>bg_inputs := bg_inputs h @ [input_from_node n]\<rparr>"
    by blast
  then show ?thesis
  proof cases
    case 1
    then show ?thesis using assms(1) by (auto simp: groups_ok_def)
  next
    case 2
    then show ?thesis by simp
  next
    case 3
    have "\<forall>i\<in>set (bg_inputs h). \<exists>m\<in>set ns. i = input_from_node m \<and> group_key_of m = bg_key h \<and> en_kind m = bg_kind h"
      using assms(1) 3(1) unfolding groups_ok_def by blast
    then show ?thesis using 3 kind [OF 3(1,2)] by auto
  qed
qed

lemma groups_ok_insert: "groups_ok ns gs \<Longrightarrow> groups_ok (ns @ [n]) (group_insert n gs)"
  using group_insert_members [of ns gs _ n] group_insert_sorted [of gs n] group_insert_mset [of n gs]
  unfolding groups_ok_def by simp

lemma groups_ok_fold: "groups_ok ms gs \<Longrightarrow> groups_ok (ms @ ns) (fold group_insert ns gs)"
proof (induction ns arbitrary: ms gs)
  case (Cons n ns)
  then show ?case using Cons.IH [OF groups_ok_insert [OF Cons.prems, of n]] by simp
qed simp

lemma coalesce_ok:
  fixes ns :: "'j effect_node list"
  shows "groups_ok ns (coalesce ns)" "\<forall>g\<in>set (coalesce ns). sorted (group_ids g)"
proof -
  have "groups_ok ns (fold group_insert ns [])"
    using groups_ok_fold [of "[]" "[]" ns] by (simp add: groups_ok_def)
  moreover have "mset (concat (map (\<lambda>g. sort_key ei_id (bg_inputs g)) gs)) = mset (concat (map bg_inputs gs))"
    for gs :: "'j batch_group list" by (induction gs) simp_all
  moreover have "sort_key ei_id xs = [] \<longleftrightarrow> xs = []" for xs :: "'j effect_input list"
    by (metis mset_sort mset_zero_iff)
  ultimately show "groups_ok ns (coalesce ns)"
    unfolding groups_ok_def coalesce_def by (simp add: comp_def)
  show "\<forall>g\<in>set (coalesce ns). sorted (group_ids g)"
    by (auto simp: coalesce_def group_ids_def)
qed

section \<open>Properties\<close>

text \<open>Coalescing is a partition of the ready nodes: the inputs of the groups are exactly the
  inputs of the nodes, each once; every group is for one driver and one effect kind; there is
  at most one group per key, in key order, and the ids of a group ascend.\<close>

theorem coalesce_partitions:
  "mset (concat (map bg_inputs (coalesce ns))) = mset (map input_from_node ns)
   \<and> (\<forall>g\<in>set (coalesce ns). bg_inputs g \<noteq> [] \<and> sorted (group_ids g)
        \<and> (\<forall>i\<in>set (bg_inputs g). ei_kind i = bg_kind g \<and> tgt_driver (ei_target i) = gk_driver (bg_key g)))
   \<and> sorted_wrt (<) (map bg_key (coalesce ns))"
proof -
  have "ei_kind i = bg_kind g \<and> tgt_driver (ei_target i) = gk_driver (bg_key g)"
    if "g \<in> set (coalesce ns)" "i \<in> set (bg_inputs g)" for g i
  proof -
    from coalesce_ok(1) [of ns] have "\<forall>g\<in>set (coalesce ns). bg_inputs g \<noteq> []
        \<and> (\<forall>i\<in>set (bg_inputs g). \<exists>n\<in>set ns. i = input_from_node n
             \<and> group_key_of n = bg_key g \<and> en_kind n = bg_kind g)"
      unfolding groups_ok_def by (elim conjE)
    from bspec [OF bspec [OF this that(1), THEN conjunct2] that(2)]
    obtain n where "i = input_from_node n" "group_key_of n = bg_key g" "en_kind n = bg_kind g"
      by (elim bexE conjE)
    moreover have "gk_driver (group_key_of n) = tgt_driver (en_target n)" by (simp add: group_key_of_def)
    ultimately show ?thesis by (simp add: input_from_node_def)
  qed
  moreover note coalesce_ok(2) [of ns]
  moreover have "mset (concat (map bg_inputs (coalesce ns))) = mset (map input_from_node ns)"
    "sorted_wrt (<) (map bg_key (coalesce ns))" "\<forall>g\<in>set (coalesce ns). bg_inputs g \<noteq> []"
    using coalesce_ok(1) [of ns] unfolding groups_ok_def by blast+
  ultimately show ?thesis by blast
qed

theorem coalesce_partitions_witness:
  "mset (concat (map bg_inputs (coalesce (pl_nodes demo_plan)))) = mset (map input_from_node (pl_nodes demo_plan))
   \<and> sorted_wrt (<) (map bg_key (coalesce (pl_nodes demo_plan)))"
  using coalesce_partitions [of "pl_nodes demo_plan"] by blast

end
