(* ===== verification/Runtime_Group.thy ===== *)
theory Runtime_Group
  imports Runtime_Batch
begin

text \<open>
  Dispatching one batch group, \<open>run_group\<close> of \<open>crates/runtime/src/interpreter.rs\<close>: the
  bounded retry loop over the legs of a group.

  A driver is arbitrary: \<open>'j batch_driver\<close> gives for each attempt the vector of results it
  returns and whether the deadline passes first (looked at only when a timeout is
  configured). Without a timeout the code waits for the driver for ever; the model is of calls
  that return. The attempt counter, a \<open>u32\<close> that never exceeds \<open>max_attempts\<close>
  (\<open>attempt_loop_spec\<close>), is a natural number. The function also returns the list of
  dispatched batches, as slots of the group: the trace of driver calls the properties count.
\<close>

section \<open>The code\<close>

type_synonym 'j batch_driver = "nat \<Rightarrow> effect_kind \<Rightarrow> 'j effect_input list \<Rightarrow> bool \<Rightarrow> effect_result list \<times> bool"

definition normalise_len :: "effect_result list \<Rightarrow> 'j effect_input list \<Rightarrow> effect_result list" where
  "normalise_len results batch =
     (if length results = length batch then results
      else take (length batch) results
           @ replicate (length batch - length results)
               (Inl (Terminal ''driver returned fewer results than inputs'')))"

definition dispatch_with_timeout ::
  "'j batch_driver \<Rightarrow> nat \<Rightarrow> 'j batch_group \<Rightarrow> 'j effect_input list \<Rightarrow> bool \<Rightarrow> retry_policy
     \<Rightarrow> effect_result list" where
  "dispatch_with_timeout drv attempt g batch last_attempt retry =
     (case drv attempt (bg_kind g) batch last_attempt of (results, late) \<Rightarrow>
        (case rp_timeout_millis retry of
           Some ms \<Rightarrow> if late then map (\<lambda>_. Inl (TimedOut ms)) batch
                      else normalise_len results batch
         | None \<Rightarrow> normalise_len results batch))"

record slots =
  sl_outcomes :: "nat \<rightharpoonup> effect_result"
  sl_attempts :: "nat \<Rightarrow> nat"
  sl_next :: "nat list"

definition retries :: "'j effect_input \<Rightarrow> bool \<Rightarrow> effect_result \<Rightarrow> bool" where
  "retries input last_attempt res =
     (case res of
        Inl e \<Rightarrow> is_retryable e \<and> \<not> ei_irreversible input \<and> \<not> last_attempt
      | Inr _ \<Rightarrow> False)"

definition slot_step ::
  "'j effect_input list \<Rightarrow> nat \<Rightarrow> bool \<Rightarrow> nat \<times> effect_result \<Rightarrow> slots \<Rightarrow> slots" where
  "slot_step inputs attempt last_attempt sr s =
     (case sr of (slot, res) \<Rightarrow>
        let s' = s\<lparr>sl_attempts := (sl_attempts s)(slot := attempt)\<rparr> in
        if retries (inputs ! slot) last_attempt res
        then s'\<lparr>sl_next := sl_next s' @ [slot]\<rparr>
        else s'\<lparr>sl_outcomes := (sl_outcomes s')(slot \<mapsto> res)\<rparr>)"

definition attempt_once ::
  "'j batch_group \<Rightarrow> 'j batch_driver \<Rightarrow> retry_policy \<Rightarrow> nat \<Rightarrow> nat list \<Rightarrow> slots \<Rightarrow> slots" where
  "attempt_once g drv retry attempt pending s =
     (let last_attempt = (unat (rp_max_attempts retry) \<le> attempt);
          batch = map (\<lambda>i. bg_inputs g ! i) pending;
          results = dispatch_with_timeout drv attempt g batch last_attempt retry
      in fold (slot_step (bg_inputs g) attempt last_attempt) (zip pending results) (s\<lparr>sl_next := []\<rparr>))"

lemma slot_fold_next_last:
  "sl_next (fold (slot_step inputs attempt True) srs s) = sl_next s"
  by (induction srs arbitrary: s)
     (auto simp: slot_step_def retries_def Let_def split: prod.splits sum.splits)

lemma attempt_once_last:
  "unat (rp_max_attempts retry) \<le> attempt \<Longrightarrow> sl_next (attempt_once g drv retry attempt pending s) = []"
  by (simp add: attempt_once_def Let_def slot_fold_next_last)

function attempt_loop ::
  "'j batch_group \<Rightarrow> 'j batch_driver \<Rightarrow> retry_policy \<Rightarrow> nat \<Rightarrow> nat list \<Rightarrow> slots \<Rightarrow> nat list list
     \<Rightarrow> slots \<times> nat list list" where
  "attempt_loop g drv retry attempt pending s calls =
     (if pending = [] then (s, calls)
      else (let s' = attempt_once g drv retry (attempt + 1) pending s
            in attempt_loop g drv retry (attempt + 1) (sl_next s') s' (calls @ [pending])))"
  by pat_completeness auto

termination attempt_loop
proof (relation "measure (\<lambda>(g, drv, retry, attempt, pending, s, calls).
    if pending = [] then 0 else Suc (unat (rp_max_attempts retry) - attempt))", goal_cases)
  case (2 g drv retry attempt pending s calls s')
  then have "unat (rp_max_attempts retry) \<le> attempt + 1 \<Longrightarrow> sl_next s' = []"
    using attempt_once_last by blast
  then show ?case using 2 by (cases "unat (rp_max_attempts retry) \<le> attempt + 1") auto
qed simp

declare attempt_loop.simps [simp del]

definition applied_entry ::
  "'j batch_group \<Rightarrow> 'j effect_input \<Rightarrow> u64 \<Rightarrow> nat \<Rightarrow> nat \<Rightarrow> ledger_entry" where
  "applied_entry g input n attempts duration =
     \<lparr>le_id = ei_id input, le_driver = gk_driver (bg_key g), le_kind = ei_kind input,
      le_irreversible = ei_irreversible input, le_status = Applied n attempts, le_duration = duration\<rparr>"

definition failed_entry ::
  "'j batch_group \<Rightarrow> 'j effect_input \<Rightarrow> effect_error \<Rightarrow> nat \<Rightarrow> nat \<Rightarrow> ledger_entry" where
  "failed_entry g input e attempts duration =
     \<lparr>le_id = ei_id input, le_driver = gk_driver (bg_key g), le_kind = ei_kind input,
      le_irreversible = ei_irreversible input, le_status = Failed e attempts, le_duration = duration\<rparr>"

definition slots_init :: slots where
  "slots_init = \<lparr>sl_outcomes = Map.empty, sl_attempts = (\<lambda>_. 0), sl_next = []\<rparr>"

definition slot_entry :: "'j batch_group \<Rightarrow> slots \<Rightarrow> nat \<Rightarrow> nat \<Rightarrow> ledger_entry \<times> bool" where
  "slot_entry g s elapsed i =
     (let n = max (sl_attempts s i) 1; input = bg_inputs g ! i in
      case sl_outcomes s i of
        Some (Inr out) \<Rightarrow> (applied_entry g input (eo_affected out) n elapsed, True)
      | Some (Inl err) \<Rightarrow> (failed_entry g input err n elapsed, False)
      | None \<Rightarrow> (failed_entry g input (Terminal ''driver returned no result for effect'') n elapsed, False))"

definition run_group ::
  "'j batch_group \<Rightarrow> 'j batch_driver option \<Rightarrow> retry_policy \<Rightarrow> nat
     \<Rightarrow> (ledger_entry \<times> bool) list \<times> nat list list" where
  "run_group g driver retry elapsed =
     (case driver of
        None \<Rightarrow>
          (map (\<lambda>input. (failed_entry g input
                   (Terminal (''no driver registered for `'' @ gk_driver (bg_key g) @ ''`'')) 1 elapsed, False))
             (bg_inputs g), [])
      | Some drv \<Rightarrow>
          (case attempt_loop g drv retry 0 [0..<length (bg_inputs g)] slots_init [] of
             (s, calls) \<Rightarrow> (map (slot_entry g s elapsed) [0..<length (bg_inputs g)], calls)))"

section \<open>The retry loop\<close>

lemma dispatch_length: "length (dispatch_with_timeout drv a g batch l retry) = length batch"
  by (auto simp: dispatch_with_timeout_def normalise_len_def split: prod.splits option.splits)

lemma slot_fold:
  assumes "distinct (map fst srs)"
  shows "sl_next (fold (slot_step inputs a l) srs s) =
           sl_next s @ map fst (filter (\<lambda>(i, r). retries (inputs ! i) l r) srs)"
    "sl_attempts (fold (slot_step inputs a l) srs s) i =
       (if i \<in> fst ` set srs then a else sl_attempts s i)"
    "sl_outcomes (fold (slot_step inputs a l) srs s) i =
       (case map_of srs i of
          Some r \<Rightarrow> if retries (inputs ! i) l r then sl_outcomes s i else Some r
        | None \<Rightarrow> sl_outcomes s i)"
  using assms
proof (induction srs arbitrary: s)
  case (Cons sr srs)
  obtain j r where sr: "sr = (j, r)" by (cases sr)
  { case 1 then show ?case using Cons.IH(1) by (simp add: sr slot_step_def Let_def) }
  { case 2 then show ?case using Cons.IH(2) by (simp add: sr slot_step_def Let_def) }
  { case 3
    then have "map_of srs j = None" by (auto simp: sr map_of_eq_None_iff)
    then show ?case using Cons.IH(3) 3 by (auto simp: sr slot_step_def Let_def split: option.splits) }
qed simp_all

text \<open>\<open>slot_done\<close> is what holds of a leg once it is pinned: how often it was dispatched, and why
  it stopped.\<close>

definition slot_done :: "'j batch_group \<Rightarrow> nat \<Rightarrow> nat \<Rightarrow> slots \<Rightarrow> nat list list \<Rightarrow> bool" where
  "slot_done g bound i s calls \<longleftrightarrow>
     count_list (concat calls) i = sl_attempts s i \<and> 1 \<le> sl_attempts s i \<and> sl_attempts s i \<le> max 1 bound
     \<and> (ei_irreversible (bg_inputs g ! i) \<longrightarrow> sl_attempts s i = 1)
     \<and> (\<exists>r. sl_outcomes s i = Some r \<and>
          (\<forall>e. r = Inl e \<longrightarrow> is_retryable e \<longrightarrow> \<not> ei_irreversible (bg_inputs g ! i) \<longrightarrow>
               sl_attempts s i = max 1 bound))"

definition loop_inv ::
  "'j batch_group \<Rightarrow> nat \<Rightarrow> nat \<Rightarrow> nat list \<Rightarrow> slots \<Rightarrow> nat list list \<Rightarrow> bool" where
  "loop_inv g bound a pending s calls \<longleftrightarrow>
     distinct pending \<and> set pending \<subseteq> {..<length (bg_inputs g)}
     \<and> (\<forall>i\<in>set pending. count_list (concat calls) i = a \<and> (ei_irreversible (bg_inputs g ! i) \<longrightarrow> a = 0))
     \<and> (pending \<noteq> [] \<longrightarrow> a < max 1 bound)
     \<and> (\<forall>i<length (bg_inputs g). i \<notin> set pending \<longrightarrow> slot_done g bound i s calls)
     \<and> set (concat calls) \<subseteq> {..<length (bg_inputs g)}"

lemma count_list_distinct: "distinct xs \<Longrightarrow> count_list xs i = (if i \<in> set xs then 1 else 0)"
  by (induction xs) auto

lemma attempt_once_inv:
  fixes drv :: "'j batch_driver"
  assumes inv: "loop_inv g bound a pending s calls" and b: "bound = unat (rp_max_attempts retry)"
    and ne: "pending \<noteq> []"
  defines "s' \<equiv> attempt_once g drv retry (a + 1) pending s"
  shows "loop_inv g bound (a + 1) (sl_next s') s' (calls @ [pending])"
proof -
  define l where "l \<longleftrightarrow> bound \<le> a + 1"
  define res where "res = dispatch_with_timeout drv (a + 1) g (map (\<lambda>i. bg_inputs g ! i) pending) l retry"
  have len: "length res = length pending" by (simp add: res_def dispatch_length)
  have fst_zip: "map fst (zip pending res) = pending" using len by simp
  have s': "s' = fold (slot_step (bg_inputs g) (a + 1) l) (zip pending res) (s\<lparr>sl_next := []\<rparr>)"
    by (simp add: s'_def attempt_once_def Let_def res_def l_def b)
  have dist: "distinct pending" using inv by (simp add: loop_inv_def)
  then have dz: "distinct (map fst (zip pending res))" using fst_zip by simp
  note sf = slot_fold [OF dz, of "bg_inputs g" "a + 1" l "s\<lparr>sl_next := []\<rparr>", folded s']
  have mem: "fst ` set (zip pending res) = set pending" using fst_zip by (metis list.set_map)
  have next_sub: "set (sl_next s') \<subseteq> set pending" "distinct (sl_next s')"
    using mem dz by (auto simp: sf(1) distinct_map_filter)
  have nxt: "i \<in> set (sl_next s') \<longleftrightarrow> (\<exists>r. map_of (zip pending res) i = Some r \<and> retries (bg_inputs g ! i) l r)" for i
    using dz by (force simp: sf(1))
  have ab: "a < max 1 bound" using inv ne by (simp add: loop_inv_def)
  have cnt: "count_list (concat (calls @ [pending])) i =
      count_list (concat calls) i + (if i \<in> set pending then 1 else 0)" for i
    using dist by (simp add: count_list_distinct)
  have done_new: "slot_done g bound i s' (calls @ [pending])"
    if i: "i \<in> set pending" "i \<notin> set (sl_next s')" for i
  proof -
    have "map_of (zip pending res) i \<noteq> None" using i(1) mem by (simp add: map_of_eq_None_iff)
    then obtain r where r: "map_of (zip pending res) i = Some r" by blast
    then have nr: "\<not> retries (bg_inputs g ! i) l r" using i(2) nxt by blast
    have at: "sl_attempts s' i = a + 1" using i(1) mem sf(2) by simp
    have out: "sl_outcomes s' i = Some r" using r nr sf(3) by simp
    have c: "count_list (concat calls) i = a" "ei_irreversible (bg_inputs g ! i) \<longrightarrow> a = 0"
      using inv i(1) by (auto simp: loop_inv_def)
    have "a + 1 = max 1 bound" if "r = Inl e" "is_retryable e" "\<not> ei_irreversible (bg_inputs g ! i)" for e
      using nr that ab by (auto simp: retries_def l_def)
    then show ?thesis
      unfolding slot_done_def cnt using at out c i(1) ab by auto
  qed
  have done_old: "slot_done g bound i s' (calls @ [pending])"
    if i: "i < length (bg_inputs g)" "i \<notin> set pending" for i
  proof -
    have "map_of (zip pending res) i = None" using i(2) mem by (simp add: map_of_eq_None_iff)
    then have "sl_attempts s' i = sl_attempts s i" "sl_outcomes s' i = sl_outcomes s i"
      using i(2) mem sf(2,3) by simp_all
    moreover have "slot_done g bound i s calls" using inv i by (simp add: loop_inv_def)
    ultimately show ?thesis unfolding slot_done_def cnt using i(2) by simp
  qed
  have "count_list (concat (calls @ [pending])) i = a + 1 \<and> \<not> ei_irreversible (bg_inputs g ! i)
      \<and> a + 1 < max 1 bound" if i: "i \<in> set (sl_next s')" for i
  proof -
    obtain r where "retries (bg_inputs g ! i) l r" using iffD1 [OF nxt i] by auto
    then have nl: "\<not> l" "\<not> ei_irreversible (bg_inputs g ! i)"
      by (cases r; simp add: retries_def)+
    have ip: "i \<in> set pending" using i next_sub(1) by blast
    have "count_list (concat calls) i = a" using inv ip unfolding loop_inv_def by blast
    then have "count_list (concat (calls @ [pending])) i = a + 1" using cnt ip by simp
    then show ?thesis using nl by (simp add: l_def)
  qed
  moreover have "a + 1 < max 1 bound" if "sl_next s' \<noteq> []"
    using calculation [of "hd (sl_next s')"] that by simp
  moreover have "set pending \<subseteq> {..<length (bg_inputs g)}" "set (concat calls) \<subseteq> {..<length (bg_inputs g)}"
    using inv by (auto simp: loop_inv_def)
  ultimately show ?thesis
    using next_sub done_new done_old unfolding loop_inv_def by (simp add: subset_iff) blast
qed

lemma attempt_loop_inv:
  assumes "loop_inv g (unat (rp_max_attempts retry)) a pending s calls"
    "attempt_loop g drv retry a pending s calls = (s', calls')"
  shows "\<exists>a'. loop_inv g (unat (rp_max_attempts retry)) a' [] s' calls'"
  using assms
proof (induction g drv retry a pending s calls rule: attempt_loop.induct)
  case (1 g drv retry a pending s calls)
  show ?case
  proof (cases "pending = []")
    case True
    then show ?thesis using 1(2,3) by (subst (asm) attempt_loop.simps) auto
  next
    case False
    let ?s = "attempt_once g drv retry (a + 1) pending s"
    have "attempt_loop g drv retry (a + 1) (sl_next ?s) ?s (calls @ [pending]) = (s', calls')"
      using 1(3) False by (subst (asm) attempt_loop.simps) (simp add: Let_def)
    then show ?thesis using 1(1) [OF False refl attempt_once_inv [OF 1(2) refl False]] by blast
  qed
qed

lemma attempt_loop_spec:
  assumes "attempt_loop g drv retry 0 [0..<length (bg_inputs g)] slots_init [] = (s, calls)"
  shows "\<forall>i<length (bg_inputs g). slot_done g (unat (rp_max_attempts retry)) i s calls"
    "set (concat calls) \<subseteq> {..<length (bg_inputs g)}"
proof -
  have "loop_inv g (unat (rp_max_attempts retry)) 0 [0..<length (bg_inputs g)] slots_init []"
    by (auto simp: loop_inv_def)
  from attempt_loop_inv [OF this assms]
  show "\<forall>i<length (bg_inputs g). slot_done g (unat (rp_max_attempts retry)) i s calls"
    "set (concat calls) \<subseteq> {..<length (bg_inputs g)}" by (auto simp: loop_inv_def)
qed

section \<open>What a group reports\<close>

fun leg_attempts :: "leg_status \<Rightarrow> nat" where
  "leg_attempts (Applied _ n) = n"
| "leg_attempts (Failed _ n) = n"
| "leg_attempts (Skipped _) = 0"

definition entry_ok ::
  "'j batch_group \<Rightarrow> nat \<Rightarrow> 'j effect_input \<Rightarrow> ledger_entry \<times> bool \<Rightarrow> nat \<Rightarrow> bool" where
  "entry_ok g bound input eb n \<longleftrightarrow>
     (case eb of (e, ok) \<Rightarrow>
       le_id e = ei_id input \<and> le_driver e = gk_driver (bg_key g) \<and> le_kind e = ei_kind input
       \<and> le_irreversible e = ei_irreversible input
       \<and> (if ok then is_applied (le_status e) else is_failed (le_status e))
       \<and> n \<le> leg_attempts (le_status e)
       \<and> 1 \<le> leg_attempts (le_status e) \<and> leg_attempts (le_status e) \<le> max 1 bound
       \<and> (ei_irreversible input \<longrightarrow> leg_attempts (le_status e) = 1)
       \<and> (\<forall>x k. le_status e = Applied x k \<longrightarrow> n = k))"

lemma slot_entry_ok:
  assumes "slot_done g bound i s calls"
  shows "entry_ok g bound (bg_inputs g ! i) (slot_entry g s elapsed i) (count_list (concat calls) i)"
proof -
  obtain r where r: "sl_outcomes s i = Some r" and n: "count_list (concat calls) i = sl_attempts s i"
    "1 \<le> sl_attempts s i" "sl_attempts s i \<le> max 1 bound"
    "ei_irreversible (bg_inputs g ! i) \<longrightarrow> sl_attempts s i = 1"
    using assms by (auto simp: slot_done_def)
  then show ?thesis
    by (cases r) (simp_all add: slot_entry_def entry_ok_def applied_entry_def failed_entry_def Let_def max_def)
qed

lemma run_group_spec:
  assumes "run_group g d retry elapsed = (res, calls)"
  shows "length res = length (bg_inputs g)" "set (concat calls) \<subseteq> {..<length (bg_inputs g)}"
    and "\<forall>k<length (bg_inputs g). entry_ok g (unat (rp_max_attempts retry)) (bg_inputs g ! k) (res ! k)
           (count_list (concat calls) k)"
proof -
  have "length res = length (bg_inputs g) \<and> set (concat calls) \<subseteq> {..<length (bg_inputs g)}
    \<and> (\<forall>k<length (bg_inputs g). entry_ok g (unat (rp_max_attempts retry)) (bg_inputs g ! k) (res ! k)
           (count_list (concat calls) k))"
  proof (cases d)
    case None
    then show ?thesis
      using assms by (auto simp: run_group_def entry_ok_def failed_entry_def)
  next
    case (Some drv)
    obtain s cs where loop: "attempt_loop g drv retry 0 [0..<length (bg_inputs g)] slots_init [] = (s, cs)"
      by (cases "attempt_loop g drv retry 0 [0..<length (bg_inputs g)] slots_init []")
    then have "res = map (slot_entry g s elapsed) [0..<length (bg_inputs g)]" "calls = cs"
      using assms Some by (auto simp: run_group_def)
    moreover have "entry_ok g (unat (rp_max_attempts retry)) (bg_inputs g ! k)
        (slot_entry g s elapsed k) (count_list (concat cs) k)" if "k < length (bg_inputs g)" for k
      using attempt_loop_spec(1) [OF loop] that slot_entry_ok by blast
    ultimately show ?thesis using attempt_loop_spec(2) [OF loop] by auto
  qed
  then show "length res = length (bg_inputs g)" "set (concat calls) \<subseteq> {..<length (bg_inputs g)}"
    "\<forall>k<length (bg_inputs g). entry_ok g (unat (rp_max_attempts retry)) (bg_inputs g ! k) (res ! k)
           (count_list (concat calls) k)" by blast+
qed

section \<open>Properties\<close>

text \<open>The retry contract of a group with a driver, whatever the driver answers: one entry per
  input, in order; each input is dispatched at least once and at most \<open>max_attempts\<close> times,
  an irreversible one exactly once, and the ledger records that number; a reversible input
  that ends in a retryable error has used up all its attempts.\<close>

theorem run_group_retries:
  assumes "run_group g (Some drv) retry elapsed = (res, calls)"
  shows "map (le_id \<circ> fst) res = group_ids g
    \<and> (\<forall>k<length (bg_inputs g).
        leg_attempts (le_status (fst (res ! k))) = count_list (concat calls) k
        \<and> 1 \<le> count_list (concat calls) k
        \<and> count_list (concat calls) k \<le> max 1 (unat (rp_max_attempts retry))
        \<and> (ei_irreversible (bg_inputs g ! k) \<longrightarrow> count_list (concat calls) k = 1)
        \<and> (\<forall>err n. le_status (fst (res ! k)) = Failed err n \<longrightarrow> is_retryable err \<longrightarrow>
             \<not> ei_irreversible (bg_inputs g ! k) \<longrightarrow>
             count_list (concat calls) k = max 1 (unat (rp_max_attempts retry))))"
proof -
  obtain s where loop: "attempt_loop g drv retry 0 [0..<length (bg_inputs g)] slots_init [] = (s, calls)"
    and res: "res = map (slot_entry g s elapsed) [0..<length (bg_inputs g)]"
    using assms by (auto simp: run_group_def split: prod.splits)
  have ids: "le_id (fst (slot_entry g s elapsed k)) = ei_id (bg_inputs g ! k)" for k
    by (simp add: slot_entry_def applied_entry_def failed_entry_def Let_def split: option.splits sum.splits)
  have leg: "leg_attempts (le_status (fst (slot_entry g s elapsed k))) = sl_attempts s k"
    "le_status (fst (slot_entry g s elapsed k)) = Failed err n \<Longrightarrow> sl_outcomes s k = Some (Inl err)"
    if "slot_done g bound k s calls" for k bound err n
    using that by (auto simp: slot_done_def slot_entry_def applied_entry_def failed_entry_def Let_def
        split: option.splits sum.splits)
  have "map (le_id \<circ> fst) res = group_ids g"
    by (rule nth_equalityI) (simp_all add: res ids group_ids_def)
  moreover have "leg_attempts (le_status (fst (res ! k))) = count_list (concat calls) k
        \<and> 1 \<le> count_list (concat calls) k
        \<and> count_list (concat calls) k \<le> max 1 (unat (rp_max_attempts retry))
        \<and> (ei_irreversible (bg_inputs g ! k) \<longrightarrow> count_list (concat calls) k = 1)
        \<and> (\<forall>err n. le_status (fst (res ! k)) = Failed err n \<longrightarrow> is_retryable err \<longrightarrow>
             \<not> ei_irreversible (bg_inputs g ! k) \<longrightarrow>
             count_list (concat calls) k = max 1 (unat (rp_max_attempts retry)))"
    if k: "k < length (bg_inputs g)" for k
  proof -
    have pin: "slot_done g (unat (rp_max_attempts retry)) k s calls"
      using attempt_loop_spec(1) [OF loop] k by blast
    have nth: "res ! k = slot_entry g s elapsed k" using k by (simp add: res)
    show ?thesis unfolding nth leg(1) [OF pin] using leg(2) [OF pin] pin by (auto simp: slot_done_def)
  qed
  ultimately show ?thesis by blast
qed

theorem run_group_retries_witness:
  "let g = \<lparr>bg_key = GroupKey ''db'' ''UPDATE'', bg_kind = KUpdate, bg_inputs = [input_from_node (node_new 0 KUpdate demo_target :: unit effect_node)]\<rparr>;
       rc = run_group g (Some (\<lambda>_ _ _ _. ([Inl (Retryable ''busy'')], False))) retry_default 0
   in leg_attempts (le_status (fst (fst rc ! 0))) = 3 \<and> snd rc = [[0], [0], [0]]"
proof -
  let ?g = "\<lparr>bg_key = GroupKey ''db'' ''UPDATE'', bg_kind = KUpdate, bg_inputs = [input_from_node (node_new 0 KUpdate demo_target :: unit effect_node)]\<rparr>"
  let ?d = "\<lambda>_ _ _ _. ([Inl (Retryable ''busy'')], False)"
  have run: "run_group ?g (Some ?d) retry_default 0 =
      ([(failed_entry ?g (input_from_node (node_new 0 KUpdate demo_target :: unit effect_node)) (Retryable ''busy'') 3 0, False)], [[0], [0], [0]])"
    by code_simp
  show ?thesis using run_group_retries [OF run] run by (simp add: Let_def failed_entry_def)
qed

end
