(* ===== verification/Runtime_Frontier.thy ===== *)
theory Runtime_Frontier
  imports Plan_Topo
begin

text \<open>
  The incremental scheduler, \<open>crates/runtime/src/schedule.rs\<close>.

  A \<open>BTreeMap\<close> is a map together with the sorted list of its keys (\<open>fr_keys\<close>, the node ids,
  which never change after construction); a \<open>BTreeSet\<close> is a set. \<open>frontier_inv\<close> relates a
  frontier to its plan: the remaining in-degree of a node is the number of edges from
  unsettled parents, nodes in flight have only applied parents, and taint is exactly failure or
  skipping. Every operation preserves it.
\<close>

section \<open>The code\<close>

record frontier =
  fr_keys :: "node_id list"
  fr_indegree :: indegrees
  fr_children :: adjacency
  fr_dispatched :: "node_id set"
  fr_settled :: "node_id set"
  fr_tainted :: "node_id set"
  fr_total :: nat

datatype ready = Run node_id | Skip node_id node_id

definition frontier_new :: "'j plan \<Rightarrow> frontier option" where
  "frontier_new p =
     (case topo_order p of
        None \<Rightarrow> None
      | Some _ \<Rightarrow>
          Some \<lparr>fr_keys = sort (remdups (plan_ids p)),
                fr_indegree = fst (topo_tables p), fr_children = snd (topo_tables p),
                fr_dispatched = {}, fr_settled = {}, fr_tainted = {},
                fr_total = length (pl_nodes p)\<rparr>)"

definition tainting_parent :: "frontier \<Rightarrow> node_id \<Rightarrow> node_id option" where
  "tainting_parent f i =
     find (\<lambda>parent. parent \<in> fr_tainted f)
       (filter (\<lambda>parent. case fr_children f parent of Some kids \<Rightarrow> i \<in> set kids | None \<Rightarrow> False)
               (fr_keys f))"

definition relax_one :: "node_id \<Rightarrow> indegrees \<Rightarrow> indegrees" where
  "relax_one child ind = (case ind child of Some d \<Rightarrow> ind(child \<mapsto> d - 1) | None \<Rightarrow> ind)"

definition relax_children :: "frontier \<Rightarrow> node_id \<Rightarrow> frontier" where
  "relax_children f i =
     (case fr_children f i of
        Some kids \<Rightarrow> f\<lparr>fr_indegree := fold relax_one kids (fr_indegree f)\<rparr>
      | None \<Rightarrow> f)"

definition ready_step :: "node_id \<Rightarrow> frontier \<times> ready list \<Rightarrow> frontier \<times> ready list" where
  "ready_step i s =
     (case s of (f, out) \<Rightarrow>
        (case tainting_parent f i of
           Some cause \<Rightarrow>
             (relax_children (f\<lparr>fr_settled := insert i (fr_settled f),
                                fr_tainted := insert i (fr_tainted f)\<rparr>) i,
              out @ [Skip i cause])
         | None \<Rightarrow> (f\<lparr>fr_dispatched := insert i (fr_dispatched f)\<rparr>, out @ [Run i])))"

definition ready_ids :: "frontier \<Rightarrow> node_id list" where
  "ready_ids f =
     filter (\<lambda>i. fr_indegree f i = Some 0 \<and> i \<notin> fr_dispatched f \<and> i \<notin> fr_settled f) (fr_keys f)"

definition frontier_ready :: "frontier \<Rightarrow> frontier \<times> ready list" where
  "frontier_ready f = fold ready_step (ready_ids f) (f, [])"

definition frontier_complete :: "frontier \<Rightarrow> node_id \<Rightarrow> frontier" where
  "frontier_complete f i =
     (if i \<in> fr_settled f then f
      else relax_children (f\<lparr>fr_settled := insert i (fr_settled f),
                             fr_dispatched := fr_dispatched f - {i}\<rparr>) i)"

definition frontier_fail :: "frontier \<Rightarrow> node_id \<Rightarrow> frontier" where
  "frontier_fail f i =
     (if i \<in> fr_settled f then f
      else relax_children (f\<lparr>fr_settled := insert i (fr_settled f),
                             fr_dispatched := fr_dispatched f - {i},
                             fr_tainted := insert i (fr_tainted f)\<rparr>) i)"

definition frontier_is_done :: "frontier \<Rightarrow> bool" where
  "frontier_is_done f = (card (fr_settled f) = fr_total f)"

section \<open>Relaxing in-degrees\<close>

lemma fold_relax_one:
  "fold relax_one ks ind = (\<lambda>i. map_option (\<lambda>d. d - count_list ks i) (ind i))"
proof (induction ks arbitrary: ind)
  case (Cons c ks)
  have "map_option (\<lambda>d. d - count_list ks i) (relax_one c ind i) =
        map_option (\<lambda>d. d - count_list (c # ks) i) (ind i)" for i
    by (auto simp: relax_one_def split: option.splits)
  then show ?case using Cons by (simp add: fun_eq_iff)
qed (simp add: fun_eq_iff map_option_idI)

lemma settle_indegree:
  assumes "x \<notin> D"
  shows "fold relax_one (kids_of p x) (ind_of p D) = ind_of p (insert x D)"
  using deg_insert [OF assms, of p] by (auto simp: fold_relax_one ind_of_def fun_eq_iff)

section \<open>The invariant\<close>

text \<open>\<open>S\<close> settled, \<open>D\<close> in flight, \<open>T\<close> failed or skipped.\<close>

definition sched_inv :: "'j plan \<Rightarrow> node_id set \<Rightarrow> node_id set \<Rightarrow> node_id set \<Rightarrow> bool" where
  "sched_inv p D S T \<longleftrightarrow>
     S \<subseteq> set (plan_ids p) \<and> D \<subseteq> set (plan_ids p) \<and> D \<inter> S = {} \<and> T \<subseteq> S
     \<and> (\<forall>a b. (a, b) \<in> set (live_deps p) \<longrightarrow> b \<in> S \<longrightarrow> a \<in> S)
     \<and> (\<forall>a b. (a, b) \<in> set (live_deps p) \<longrightarrow> b \<in> D \<union> (S - T) \<longrightarrow> a \<in> S - T)"

definition frontier_inv :: "'j plan \<Rightarrow> frontier \<Rightarrow> bool" where
  "frontier_inv p f \<longleftrightarrow>
     fr_keys f = sort (remdups (plan_ids p)) \<and> fr_indegree f = ind_of p (fr_settled f)
     \<and> fr_children f = children_of p \<and> fr_total f = length (pl_nodes p)
     \<and> distinct (plan_ids p) \<and> acyclic (set (live_deps p))
     \<and> sched_inv p (fr_dispatched f) (fr_settled f) (fr_tainted f)"

lemma frontier_new_inv:
  assumes "frontier_new p = Some f"
  shows "frontier_inv p f \<and> fr_dispatched f = {} \<and> fr_settled f = {} \<and> fr_tainted f = {}"
proof -
  have "topo_order p \<noteq> None" using assms by (auto simp: frontier_new_def split: option.splits)
  then have "distinct (plan_ids p) \<and> acyclic (set (live_deps p))" by (simp only: topo_order_Some_iff)
  then show ?thesis
    using assms by (auto simp: frontier_new_def frontier_inv_def sched_inv_def topo_tables_eq
        split: option.splits)
qed

lemma frontier_new_Some_iff:
  "(\<exists>f. frontier_new p = Some f) \<longleftrightarrow> (\<exists>xs. topo_order p = Some xs)"
  by (auto simp: frontier_new_def split: option.splits)

lemma kids_of_nonempty: "(a, i) \<in> set (live_deps p) \<Longrightarrow> kids_of p a \<noteq> []"
  using kids_of_iff [of i p a] by auto

lemma tainting_parent_None:
  "frontier_inv p f \<Longrightarrow> tainting_parent f i = None \<longleftrightarrow>
     (\<forall>a. (a, i) \<in> set (live_deps p) \<longrightarrow> a \<notin> fr_tainted f)"
  using kids_of_nonempty [of _ i p] live_deps_image(1) [of _ i p]
  by (auto simp: tainting_parent_def frontier_inv_def find_None_iff_all kids_of_iff
      split: if_splits option.splits)

lemma tainting_parent_Some:
  "frontier_inv p f \<Longrightarrow> tainting_parent f i = Some a \<Longrightarrow> (a, i) \<in> set (live_deps p) \<and> a \<in> fr_tainted f"
  by (auto simp: tainting_parent_def frontier_inv_def kids_of_iff
      dest!: find_SomeD split: if_splits option.splits)

lemma relax_children_eq:
  assumes "fr_children f = children_of p" "fr_indegree f = ind_of p D" "i \<notin> D"
  shows "relax_children f i = f\<lparr>fr_indegree := ind_of p (insert i D)\<rparr>"
  using assms settle_indegree [OF assms(3), of p]
  by (cases "kids_of p i = []") (auto simp: relax_children_def)

lemma ready_ids_iff:
  "frontier_inv p f \<Longrightarrow> i \<in> set (ready_ids f) \<longleftrightarrow>
     i \<in> avail p (fr_settled f) \<and> i \<notin> fr_dispatched f"
  by (auto simp: ready_ids_def frontier_inv_def avail_deg ind_of_def)

lemma frontier_complete_inv:
  assumes inv: "frontier_inv p f" and i: "i \<in> fr_dispatched f"
  shows "frontier_inv p (frontier_complete f i)"
    "fr_settled (frontier_complete f i) = insert i (fr_settled f)"
    "fr_dispatched (frontier_complete f i) = fr_dispatched f - {i}"
    "fr_tainted (frontier_complete f i) = fr_tainted f"
proof -
  have ni: "i \<notin> fr_settled f" using inv i by (auto simp: frontier_inv_def sched_inv_def)
  have eq: "frontier_complete f i = f\<lparr>fr_settled := insert i (fr_settled f),
      fr_dispatched := fr_dispatched f - {i}, fr_indegree := ind_of p (insert i (fr_settled f))\<rparr>"
    unfolding frontier_complete_def using ni inv
    by (subst relax_children_eq [where p = p and D = "fr_settled f"]) (auto simp: frontier_inv_def)
  show "frontier_inv p (frontier_complete f i)"
    using inv i unfolding eq frontier_inv_def sched_inv_def by auto
qed (use inv i in \<open>auto simp: frontier_complete_def relax_children_def frontier_inv_def sched_inv_def\<close>)

lemma frontier_fail_inv:
  assumes inv: "frontier_inv p f" and i: "i \<in> fr_dispatched f"
  shows "frontier_inv p (frontier_fail f i)"
    "fr_settled (frontier_fail f i) = insert i (fr_settled f)"
    "fr_dispatched (frontier_fail f i) = fr_dispatched f - {i}"
    "fr_tainted (frontier_fail f i) = insert i (fr_tainted f)"
proof -
  have ni: "i \<notin> fr_settled f" using inv i by (auto simp: frontier_inv_def sched_inv_def)
  have eq: "frontier_fail f i = f\<lparr>fr_settled := insert i (fr_settled f),
      fr_dispatched := fr_dispatched f - {i}, fr_tainted := insert i (fr_tainted f),
      fr_indegree := ind_of p (insert i (fr_settled f))\<rparr>"
    unfolding frontier_fail_def using ni inv
    by (subst relax_children_eq [where p = p and D = "fr_settled f"]) (auto simp: frontier_inv_def)
  have "(a, b) \<in> set (live_deps p) \<Longrightarrow> b \<in> fr_dispatched f \<union> (fr_settled f - fr_tainted f) \<Longrightarrow> a \<noteq> i"
    for a b using inv ni by (auto simp: frontier_inv_def sched_inv_def)
  then show "frontier_inv p (frontier_fail f i)"
    using inv i unfolding eq frontier_inv_def sched_inv_def by auto
qed (use inv i in \<open>auto simp: frontier_fail_def relax_children_def frontier_inv_def sched_inv_def\<close>)

section \<open>The ready set\<close>

lemma ready_step_run:
  assumes inv: "frontier_inv p f" and i: "i \<in> avail p (fr_settled f)" and n: "tainting_parent f i = None"
  shows "ready_step i (f, out) = (f\<lparr>fr_dispatched := insert i (fr_dispatched f)\<rparr>, out @ [Run i])"
    "frontier_inv p (f\<lparr>fr_dispatched := insert i (fr_dispatched f)\<rparr>)"
proof -
  show "ready_step i (f, out) = (f\<lparr>fr_dispatched := insert i (fr_dispatched f)\<rparr>, out @ [Run i])"
    using n by (simp add: ready_step_def)
  have "(a, i) \<in> set (live_deps p) \<Longrightarrow> a \<in> fr_settled f - fr_tainted f" for a
    using i n inv tainting_parent_None [OF inv] by (auto simp: avail_def)
  then show "frontier_inv p (f\<lparr>fr_dispatched := insert i (fr_dispatched f)\<rparr>)"
    using inv i by (auto simp: frontier_inv_def sched_inv_def avail_def)
qed

lemma ready_step_skip:
  assumes inv: "frontier_inv p f" and i: "i \<in> avail p (fr_settled f)" "i \<notin> fr_dispatched f"
    and c: "tainting_parent f i = Some c"
  defines "f' \<equiv> f\<lparr>fr_settled := insert i (fr_settled f), fr_tainted := insert i (fr_tainted f),
                  fr_indegree := ind_of p (insert i (fr_settled f))\<rparr>"
  shows "ready_step i (f, out) = (f', out @ [Skip i c])" "frontier_inv p f'"
proof -
  have ni: "i \<notin> fr_settled f" using i by (simp add: avail_def)
  show "ready_step i (f, out) = (f', out @ [Skip i c])"
    unfolding f'_def using c ni inv
    by (simp add: ready_step_def) (subst relax_children_eq [where p = p and D = "fr_settled f"],
        auto simp: frontier_inv_def)
  have "(a, b) \<in> set (live_deps p) \<Longrightarrow> b \<in> fr_dispatched f \<union> (fr_settled f - fr_tainted f) \<Longrightarrow> a \<noteq> i"
    for a b using inv ni by (auto simp: frontier_inv_def sched_inv_def)
  then show "frontier_inv p f'"
    using inv i unfolding f'_def frontier_inv_def sched_inv_def avail_def by auto
qed

fun ready_id :: "ready \<Rightarrow> node_id" where
  "ready_id (Run i) = i"
| "ready_id (Skip i _) = i"

definition runs :: "ready list \<Rightarrow> node_id set" where
  "runs out = {i. Run i \<in> set out}"

definition skips :: "ready list \<Rightarrow> node_id set" where
  "skips out = {i. \<exists>c. Skip i c \<in> set out}"

lemma runs_skips_simps [simp]:
  "runs [] = {}" "skips [] = {}"
  "runs (out @ [Run i]) = insert i (runs out)" "skips (out @ [Run i]) = skips out"
  "runs (out @ [Skip i c]) = runs out" "skips (out @ [Skip i c]) = insert i (skips out)"
  by (auto simp: runs_def skips_def)

definition ready_post :: "'j plan \<Rightarrow> frontier \<Rightarrow> node_id list \<Rightarrow> ready list \<Rightarrow> frontier \<Rightarrow> bool" where
  "ready_post p f ids new f' \<longleftrightarrow>
     map ready_id new = ids
     \<and> fr_dispatched f' = fr_dispatched f \<union> runs new
     \<and> fr_settled f' = fr_settled f \<union> skips new \<and> fr_tainted f' = fr_tainted f \<union> skips new
     \<and> (\<forall>i c. Skip i c \<in> set new \<longrightarrow> (c, i) \<in> set (live_deps p) \<and> c \<in> fr_tainted f')"

lemma runs_skips_Cons:
  "runs (Run i # new) = insert i (runs new)" "skips (Run i # new) = skips new"
  "runs (Skip i c # new) = runs new" "skips (Skip i c # new) = insert i (skips new)"
  by (auto simp: runs_def skips_def)

lemma ready_fold:
  assumes "frontier_inv p f" "distinct ids"
    "\<And>i. i \<in> set ids \<Longrightarrow> i \<in> avail p (fr_settled f) \<and> i \<notin> fr_dispatched f"
    "fold ready_step ids (f, out) = (f', out')"
  shows "frontier_inv p f' \<and> (\<exists>new. out' = out @ new \<and> ready_post p f ids new f')"
  using assms
proof (induction ids arbitrary: f out)
  case Nil
  then show ?case by (auto simp: ready_post_def)
next
  case (Cons i ids)
  have i: "i \<in> avail p (fr_settled f)" "i \<notin> fr_dispatched f" using Cons.prems(3) by auto
  have dis: "distinct ids" using Cons.prems(2) by simp
  have rest: "j \<in> avail p (fr_settled f) \<and> j \<notin> fr_dispatched f \<and> j \<noteq> i" if "j \<in> set ids" for j
    using Cons.prems(2) Cons.prems(3) [of j] that by auto
  show ?case
  proof (cases "tainting_parent f i")
    case None
    note st = ready_step_run [OF Cons.prems(1) i(1) None]
    have fl: "fold ready_step ids (f\<lparr>fr_dispatched := insert i (fr_dispatched f)\<rparr>, out @ [Run i]) = (f', out')"
      using Cons.prems(4) st(1) by simp
    have "frontier_inv p f' \<and> (\<exists>new. out' = (out @ [Run i]) @ new
        \<and> ready_post p (f\<lparr>fr_dispatched := insert i (fr_dispatched f)\<rparr>) ids new f')"
      by (rule Cons.IH [OF st(2) dis _ fl]) (use rest in simp)
    then obtain new where new: "frontier_inv p f'" "out' = (out @ [Run i]) @ new"
        "ready_post p (f\<lparr>fr_dispatched := insert i (fr_dispatched f)\<rparr>) ids new f'"
      by blast
    have "ready_post p f (i # ids) (Run i # new) f'"
      using new(3) by (auto simp: ready_post_def runs_skips_Cons)
    then show ?thesis using new(1,2) by auto
  next
    case (Some c)
    define g where "g = f\<lparr>fr_settled := insert i (fr_settled f), fr_tainted := insert i (fr_tainted f),
                  fr_indegree := ind_of p (insert i (fr_settled f))\<rparr>"
    note st = ready_step_skip [OF Cons.prems(1) i Some, folded g_def]
    have fl: "fold ready_step ids (g, out @ [Skip i c]) = (f', out')"
      using Cons.prems(4) st(1) by simp
    have "frontier_inv p f' \<and> (\<exists>new. out' = (out @ [Skip i c]) @ new \<and> ready_post p g ids new f')"
      by (rule Cons.IH [OF st(2) dis _ fl]) (use rest in \<open>auto simp: g_def avail_def\<close>)
    then obtain new where new: "frontier_inv p f'" "out' = (out @ [Skip i c]) @ new"
        "ready_post p g ids new f'"
      by blast
    have "c \<in> fr_tainted f'" "(c, i) \<in> set (live_deps p)"
      using tainting_parent_Some [OF Cons.prems(1) Some] new(3) by (auto simp: ready_post_def g_def)
    then have "ready_post p f (i # ids) (Skip i c # new) f'"
      using new(3) by (auto simp: ready_post_def runs_skips_Cons g_def)
    then show ?thesis using new(1,2) by auto
  qed
qed

lemma frontier_ready_spec:
  assumes "frontier_inv p f" "frontier_ready f = (f', out)"
  shows "frontier_inv p f'" "map ready_id out = ready_ids f"
    "fr_dispatched f' = fr_dispatched f \<union> runs out"
    "fr_settled f' = fr_settled f \<union> skips out" "fr_tainted f' = fr_tainted f \<union> skips out"
    "Skip i c \<in> set out \<Longrightarrow> (c, i) \<in> set (live_deps p) \<and> c \<in> fr_tainted f'"
    "distinct (map ready_id out)"
proof -
  have d: "distinct (ready_ids f)" using assms(1) by (auto simp: ready_ids_def frontier_inv_def)
  note r = ready_fold [OF assms(1) d _ assms(2) [unfolded frontier_ready_def]]
  show "frontier_inv p f'" "map ready_id out = ready_ids f"
    "fr_dispatched f' = fr_dispatched f \<union> runs out"
    "fr_settled f' = fr_settled f \<union> skips out" "fr_tainted f' = fr_tainted f \<union> skips out"
    "Skip i c \<in> set out \<Longrightarrow> (c, i) \<in> set (live_deps p) \<and> c \<in> fr_tainted f'"
    "distinct (map ready_id out)"
    using r ready_ids_iff [OF assms(1)] d by (auto simp: ready_post_def)
qed

text \<open>As long as some node is unsettled and nothing is in flight, the ready set is not empty.\<close>

lemma ready_progress:
  assumes inv: "frontier_inv p f" and d: "fr_dispatched f = {}" and nd: "\<not> frontier_is_done f"
  shows "ready_ids f \<noteq> []"
proof -
  have S: "fr_settled f \<subseteq> set (plan_ids p)" "distinct (plan_ids p)"
    "closed p (fr_settled f)" "acyclic (set (live_deps p))"
    using inv by (auto simp: frontier_inv_def sched_inv_def closed_def)
  have "fr_settled f \<noteq> set (plan_ids p)"
    using nd inv S(2) distinct_card [OF S(2)] by (auto simp: frontier_is_done_def frontier_inv_def)
  then obtain x where "x \<in> set (plan_ids p) - fr_settled f" using S(1) by blast
  then have "avail p (fr_settled f) \<noteq> {}" using avail_nonempty S(3,4) by blast
  then show ?thesis using ready_ids_iff [OF inv] d by fastforce
qed

lemma done_iff:
  "frontier_inv p f \<Longrightarrow> frontier_is_done f \<longleftrightarrow> fr_settled f = set (plan_ids p)"
proof -
  assume inv: "frontier_inv p f"
  then have S: "fr_settled f \<subseteq> set (plan_ids p)" "distinct (plan_ids p)" "fr_total f = length (plan_ids p)"
    by (auto simp: frontier_inv_def sched_inv_def)
  have "card (set (plan_ids p)) = fr_total f" using S(2,3) by (simp only: distinct_card)
  then show ?thesis using card_subset_eq [OF finite_set S(1)] unfolding frontier_is_done_def by metis
qed

section \<open>The contract the interpreter relies on\<close>

text \<open>
  A scheduler over the nodes \<open>ids\<close> and edges \<open>deps\<close> of a plan: the views \<open>disp\<close> (in flight),
  \<open>setl\<close> (settled) and \<open>tnt\<close> (failed or skipped), and what \<open>ready\<close>, \<open>complete\<close> and \<open>fail\<close> do to
  them.
\<close>

locale scheduler =
  fixes ids :: "node_id set" and deps :: "(node_id \<times> node_id) set"
    and inv :: "'f \<Rightarrow> bool" and disp setl tnt :: "'f \<Rightarrow> node_id set"
    and ready :: "'f \<Rightarrow> 'f \<times> ready list" and complete fail :: "'f \<Rightarrow> node_id \<Rightarrow> 'f"
    and finished :: "'f \<Rightarrow> bool"
  assumes inv_views: "inv f \<Longrightarrow> setl f \<subseteq> ids \<and> disp f \<subseteq> ids \<and> disp f \<inter> setl f = {} \<and> tnt f \<subseteq> setl f"
    and inv_parents: "inv f \<Longrightarrow> (a, b) \<in> deps \<Longrightarrow> b \<in> disp f \<union> (setl f - tnt f) \<Longrightarrow> a \<in> setl f - tnt f"
    and finished_iff: "inv f \<Longrightarrow> finished f \<longleftrightarrow> setl f = ids"
    and ready_inv: "inv f \<Longrightarrow> ready f = (f', out) \<Longrightarrow> inv f' \<and> distinct (map ready_id out)
        \<and> disp f' = disp f \<union> runs out \<and> setl f' = setl f \<union> skips out \<and> tnt f' = tnt f \<union> skips out"
    and ready_fresh: "inv f \<Longrightarrow> ready f = (f', out) \<Longrightarrow> r \<in> set out \<Longrightarrow> ready_id r \<in> ids - setl f - disp f"
    and ready_cause: "inv f \<Longrightarrow> ready f = (f', out) \<Longrightarrow> Skip i c \<in> set out \<Longrightarrow> (c, i) \<in> deps \<and> c \<in> tnt f'"
    and ready_some: "inv f \<Longrightarrow> disp f = {} \<Longrightarrow> \<not> finished f \<Longrightarrow> ready f = (f', out) \<Longrightarrow> out \<noteq> []"
    and complete_law: "inv f \<Longrightarrow> i \<in> disp f \<Longrightarrow> inv (complete f i) \<and> setl (complete f i) = insert i (setl f)
        \<and> disp (complete f i) = disp f - {i} \<and> tnt (complete f i) = tnt f"
    and fail_law: "inv f \<Longrightarrow> i \<in> disp f \<Longrightarrow> inv (fail f i) \<and> setl (fail f i) = insert i (setl f)
        \<and> disp (fail f i) = disp f - {i} \<and> tnt (fail f i) = insert i (tnt f)"
begin

lemma ancestors_applied:
  assumes "inv f" "(a, b) \<in> deps\<^sup>+" "b \<in> disp f \<union> (setl f - tnt f)"
  shows "a \<in> setl f - tnt f"
  using assms(2,3)
proof (induction rule: converse_trancl_induct)
  case (base y)
  then show ?case using inv_parents [OF assms(1)] by blast
next
  case (step y z)
  then show ?case using inv_parents [OF assms(1) step.hyps(1)] by blast
qed

lemma runs_not_skips:
  assumes "inv f" "ready f = (f', out)" shows "runs out \<inter> skips out = {}" "runs out \<inter> (setl f \<union> disp f) = {}"
proof -
  have "distinct (map ready_id out)" using ready_inv [OF assms] by blast
  then have inj: "inj_on ready_id (set out)" by (simp add: distinct_map)
  have "\<not> (Run i \<in> set out \<and> Skip i c \<in> set out)" for i c
    using inj_onD [OF inj, of "Run i" "Skip i c"] by auto
  then show "runs out \<inter> skips out = {}" unfolding runs_def skips_def by blast
  show "runs out \<inter> (setl f \<union> disp f) = {}"
  proof -
    have "i \<notin> setl f \<and> i \<notin> disp f" if "Run i \<in> set out" for i
      using ready_fresh [OF assms that] by simp
    then show ?thesis unfolding runs_def by blast
  qed
qed

lemma skipped_unapplied:
  assumes "inv f" "ready f = (f', out)" shows "setl f' - tnt f' = setl f - tnt f"
proof -
  have "i \<notin> setl f" if "Skip i c \<in> set out" for i c using ready_fresh [OF assms that] by simp
  then have "skips out \<inter> setl f = {}" unfolding skips_def by blast
  moreover have "setl f' = setl f \<union> skips out" "tnt f' = tnt f \<union> skips out"
    using ready_inv [OF assms] by blast+
  moreover have "tnt f \<subseteq> setl f" using inv_views [OF assms(1)] by blast
  ultimately show ?thesis by blast
qed

end

interpretation frontier: scheduler "set (plan_ids p)" "set (live_deps p)" "frontier_inv p"
  fr_dispatched fr_settled fr_tainted frontier_ready frontier_complete frontier_fail frontier_is_done
  for p :: "'j plan"
proof (unfold_locales, goal_cases)
  case (1 f) then show ?case by (auto simp: frontier_inv_def sched_inv_def)
next
  case (2 f a b) then show ?case unfolding frontier_inv_def sched_inv_def by blast
next
  case (3 f) then show ?case by (rule done_iff)
next
  case (4 f f' out) then show ?case using frontier_ready_spec [OF 4] by blast
next
  case (5 f f' out r)
  then have "ready_id r \<in> set (ready_ids f)" using frontier_ready_spec(2) [OF 5(1,2)] by (metis image_eqI list.set_map)
  then show ?case using ready_ids_iff [OF 5(1)] by (auto simp: avail_def)
next
  case (6 f f' out i c) then show ?case using frontier_ready_spec(6) [OF 6] by simp
next
  case (7 f f' out) then show ?case using ready_progress frontier_ready_spec(2) [OF 7(1,4)] by fastforce
next
  case (8 f i) then show ?case using frontier_complete_inv [OF 8] by simp
next
  case (9 f i) then show ?case using frontier_fail_inv [OF 9] by simp
qed

end
