(* ===== verification/Runtime_Interp.thy ===== *)
theory Runtime_Interp
  imports Runtime_Group Runtime_Frontier
begin

text \<open>
  The plan interpreter, \<open>crates/runtime/src/interpreter.rs\<close>: \<open>preview\<close> and \<open>commit\<close>.

  \<open>commit\<close> is asynchronous. One iteration of its loop is deterministic up to the await
  (\<open>commit_pass\<close>: surface the ready set, deny what the capabilities do not allow, coalesce,
  admit groups while a global permit is free); the await then delivers the results of some group
  in flight. \<open>interp_step\<close> is that iteration as a relation: any group in flight may finish
  next, with any behaviour of its driver, in any time. \<open>interp_run\<close> relates a plan to the
  outcomes of its complete runs. The global semaphore is the number of groups in flight; the
  per-driver semaphores only delay a group and are left out. \<open>HashMap<NodeId, LedgerEntry>\<close> is a
  map. \<open>is_calls\<close> is a ghost: the driver calls made so far, as lists of node ids.
\<close>

section \<open>Ledger entries\<close>

definition skip_entry :: "'j plan \<Rightarrow> node_id \<Rightarrow> node_id \<Rightarrow> ledger_entry" where
  "skip_entry p i cause =
     (case plan_node p i of
        Some n \<Rightarrow> \<lparr>le_id = i, le_driver = tgt_driver (en_target n), le_kind = en_kind n,
                    le_irreversible = en_irreversible n, le_status = Skipped cause, le_duration = 0\<rparr>
      | None \<Rightarrow> \<lparr>le_id = i, le_driver = '''', le_kind = KRead, le_irreversible = False,
                  le_status = Skipped cause, le_duration = 0\<rparr>)"

definition denied_entry :: "'j effect_node \<Rightarrow> ledger_entry" where
  "denied_entry n =
     \<lparr>le_id = en_id n, le_driver = tgt_driver (en_target n), le_kind = en_kind n,
      le_irreversible = en_irreversible n,
      le_status = Failed (CapabilityDenied (tgt_driver (en_target n)) (kind_label (en_kind n))
                            (tgt_path (en_target n))) 0,
      le_duration = 0\<rparr>"

definition preview_entry :: "'j effect_node \<Rightarrow> ledger_entry" where
  "preview_entry n =
     \<lparr>le_id = en_id n, le_driver = tgt_driver (en_target n), le_kind = en_kind n,
      le_irreversible = en_irreversible n, le_status = Applied 0 0, le_duration = 0\<rparr>"

definition assemble :: "node_id list \<Rightarrow> (node_id \<rightharpoonup> ledger_entry) \<Rightarrow> ledger_entry list" where
  "assemble order by_id = List.map_filter by_id order"

section \<open>Preview\<close>

fun preview_ready ::
  "'j plan \<Rightarrow> capability_set \<Rightarrow> ready list \<Rightarrow> frontier \<times> (node_id \<rightharpoonup> ledger_entry)
     \<Rightarrow> rt_error + frontier \<times> (node_id \<rightharpoonup> ledger_entry)" where
  "preview_ready p caps [] s = Inr s"
| "preview_ready p caps (Skip i cause # rs) (f, led) =
     preview_ready p caps rs (f, led(i \<mapsto> skip_entry p i cause))"
| "preview_ready p caps (Run i # rs) (f, led) =
     (case plan_node p i of
        None \<Rightarrow> Inl (UnknownNode i)
      | Some n \<Rightarrow>
          if caps_allows caps (en_target n) (en_kind n)
          then preview_ready p caps rs (frontier_complete f i, led(i \<mapsto> preview_entry n))
          else preview_ready p caps rs (frontier_fail f i, led(i \<mapsto> denied_entry n)))"

text \<open>The loop settles at least one node per round; one round more finds nothing ready.\<close>

fun preview_loop ::
  "nat \<Rightarrow> 'j plan \<Rightarrow> capability_set \<Rightarrow> frontier \<times> (node_id \<rightharpoonup> ledger_entry)
     \<Rightarrow> (rt_error + (node_id \<rightharpoonup> ledger_entry)) option" where
  "preview_loop 0 p caps s = None"
| "preview_loop (Suc fuel) p caps (f, led) =
     (case frontier_ready f of (f', out) \<Rightarrow>
        if out = [] then Some (Inr led)
        else (case preview_ready p caps out (f', led) of
                Inl e \<Rightarrow> Some (Inl e)
              | Inr s \<Rightarrow> preview_loop fuel p caps s))"

definition interp_preview :: "'j plan \<Rightarrow> capability_set \<Rightarrow> (rt_error + ledger_entry list) option" where
  "interp_preview p caps =
     (case topo_order p of
        None \<Rightarrow> Some (Inl InvalidPlan)
      | Some order \<Rightarrow>
          (case frontier_new p of
             None \<Rightarrow> Some (Inl InvalidPlan)
           | Some f \<Rightarrow>
               (case preview_loop (length (pl_nodes p) + 1) p caps (f, Map.empty) of
                  None \<Rightarrow> None
                | Some (Inl e) \<Rightarrow> Some (Inl e)
                | Some (Inr led) \<Rightarrow> Some (Inr (assemble order led)))))"

section \<open>Commit: one pass of the loop\<close>

record 'j interp_state =
  is_frontier :: frontier
  is_ledger :: "node_id \<rightharpoonup> ledger_entry"
  is_queue :: "'j batch_group list"
  is_flight :: "'j batch_group list"
  is_calls :: "node_id list list"

definition surface_step ::
  "'j plan \<Rightarrow> ready \<Rightarrow> (node_id \<rightharpoonup> ledger_entry) \<times> 'j effect_node list
     \<Rightarrow> (node_id \<rightharpoonup> ledger_entry) \<times> 'j effect_node list" where
  "surface_step p r s =
     (case s of (led, run_nodes) \<Rightarrow>
        (case r of
           Skip i cause \<Rightarrow> (led(i \<mapsto> skip_entry p i cause), run_nodes)
         | Run i \<Rightarrow> (case plan_node p i of Some n \<Rightarrow> (led, run_nodes @ [n]) | None \<Rightarrow> (led, run_nodes))))"

definition deny_step ::
  "capability_set \<Rightarrow> 'j effect_node
     \<Rightarrow> frontier \<times> (node_id \<rightharpoonup> ledger_entry) \<times> 'j effect_node list \<times> bool
     \<Rightarrow> frontier \<times> (node_id \<rightharpoonup> ledger_entry) \<times> 'j effect_node list \<times> bool" where
  "deny_step caps n s =
     (case s of (f, led, runnable, progressed) \<Rightarrow>
        if caps_allows caps (en_target n) (en_kind n) then (f, led, runnable @ [n], progressed)
        else (frontier_fail f (en_id n), led(en_id n \<mapsto> denied_entry n), runnable, True))"

fun admit :: "nat \<Rightarrow> 'j batch_group list \<Rightarrow> 'j batch_group list
    \<Rightarrow> 'j batch_group list \<times> 'j batch_group list" where
  "admit permits [] flight = ([], flight)"
| "admit permits (g # queue) flight =
     (if length flight < permits then admit permits queue (flight @ [g]) else (g # queue, flight))"

definition commit_pass ::
  "'j plan \<Rightarrow> capability_set \<Rightarrow> concurrency_limits \<Rightarrow> 'j interp_state \<Rightarrow> 'j interp_state \<times> bool" where
  "commit_pass p caps lim st =
     (case frontier_ready (is_frontier st) of (f1, out) \<Rightarrow>
      case fold (surface_step p) out (is_ledger st, []) of (led1, run_nodes) \<Rightarrow>
      case fold (deny_step caps) run_nodes (f1, led1, [], out \<noteq> []) of (f2, led2, runnable, progressed) \<Rightarrow>
      let groups = coalesce runnable in
      case admit (lim_global lim) (is_queue st @ groups) (is_flight st) of (queue, flight) \<Rightarrow>
        (st\<lparr>is_frontier := f2, is_ledger := led2, is_queue := queue, is_flight := flight\<rparr>,
         progressed \<or> groups \<noteq> []))"

definition fold_result :: "ledger_entry \<times> bool \<Rightarrow> 'j interp_state \<Rightarrow> 'j interp_state" where
  "fold_result eb st =
     (case eb of (entry, ok) \<Rightarrow>
        st\<lparr>is_ledger := (is_ledger st)(le_id entry \<mapsto> entry),
           is_frontier := (if ok then frontier_complete (is_frontier st) (le_id entry)
                           else frontier_fail (is_frontier st) (le_id entry))\<rparr>)"

definition absorb ::
  "nat \<Rightarrow> (ledger_entry \<times> bool) list \<times> nat list list \<Rightarrow> 'j interp_state \<Rightarrow> 'j interp_state" where
  "absorb k rc st =
     (let g = is_flight st ! k in
      fold fold_result (fst rc)
        (st\<lparr>is_flight := take k (is_flight st) @ drop (Suc k) (is_flight st),
            is_calls := is_calls st @ map (map (\<lambda>i. ei_id (bg_inputs g ! i))) (snd rc)\<rparr>))"

section \<open>Commit: the loop\<close>

definition loop_finished :: "'j interp_state \<Rightarrow> bool" where
  "loop_finished st \<longleftrightarrow> frontier_is_done (is_frontier st) \<and> is_flight st = [] \<and> is_queue st = []"

definition loop_stuck :: "'j interp_state \<Rightarrow> bool \<Rightarrow> bool" where
  "loop_stuck st progressed \<longleftrightarrow> is_flight st = [] \<and> \<not> (progressed \<or> is_queue st \<noteq> [])"

inductive interp_step ::
  "'j plan \<Rightarrow> capability_set \<Rightarrow> concurrency_limits \<Rightarrow> driver_id set \<Rightarrow> retry_policy
     \<Rightarrow> 'j interp_state \<Rightarrow> 'j interp_state \<Rightarrow> bool"
  for p caps lim regs retry where
  spin: "commit_pass p caps lim st = (st1, progressed) \<Longrightarrow> \<not> loop_finished st1 \<Longrightarrow>
     is_flight st1 = [] \<Longrightarrow> progressed \<or> is_queue st1 \<noteq> [] \<Longrightarrow>
     interp_step p caps lim regs retry st st1"
| await: "commit_pass p caps lim st = (st1, progressed) \<Longrightarrow> \<not> loop_finished st1 \<Longrightarrow>
     k < length (is_flight st1) \<Longrightarrow>
     rc = run_group (is_flight st1 ! k)
            (if gk_driver (bg_key (is_flight st1 ! k)) \<in> regs then Some drv else None) retry elapsed \<Longrightarrow>
     interp_step p caps lim regs retry st (absorb k rc st1)"

definition interp_init :: "frontier \<Rightarrow> 'j interp_state" where
  "interp_init f = \<lparr>is_frontier = f, is_ledger = Map.empty, is_queue = [], is_flight = [], is_calls = []\<rparr>"

inductive interp_run ::
  "'j plan \<Rightarrow> capability_set \<Rightarrow> concurrency_limits \<Rightarrow> driver_id set \<Rightarrow> retry_policy
     \<Rightarrow> rt_error + ledger_entry list \<Rightarrow> node_id list list \<Rightarrow> bool"
  for p caps lim regs retry where
  invalid: "topo_order p = None \<or> frontier_new p = None \<Longrightarrow>
     interp_run p caps lim regs retry (Inl InvalidPlan) []"
| exit: "topo_order p = Some order \<Longrightarrow> frontier_new p = Some f \<Longrightarrow>
     (interp_step p caps lim regs retry)\<^sup>*\<^sup>* (interp_init f) st \<Longrightarrow>
     commit_pass p caps lim st = (st1, progressed) \<Longrightarrow>
     loop_finished st1 \<or> loop_stuck st1 progressed \<Longrightarrow>
     interp_run p caps lim regs retry (Inr (assemble order (is_ledger st1))) (is_calls st1)"

inductive_cases interp_stepE: "interp_step p caps lim regs retry st st'"
inductive_cases interp_runE: "interp_run p caps lim regs retry res calls"

end
