(* ===== verification/Runtime_Interp_Inv.thy ===== *)
theory Runtime_Interp_Inv
  imports Runtime_Interp
begin

text \<open>
  The invariant of the interpreter's loop and its preservation by every iteration, whichever
  group finishes next and whatever its driver answers.

  \<open>entry_inv\<close> is what a ledger entry guarantees; \<open>walk_ok\<close> ties the frontier, the ledger, the
  groups queued or in flight and the ghost trace of driver calls together. \<open>R\<close> holds the nodes
  the current pass has surfaced and not yet put in a group, \<open>U\<close> the nodes of the group whose
  results are being folded in.
\<close>

section \<open>The invariant\<close>

definition calls_of :: "node_id list list \<Rightarrow> node_id \<Rightarrow> nat" where
  "calls_of calls i = count_list (concat calls) i"

definition applied_set :: "frontier \<Rightarrow> node_id set" where
  "applied_set f = fr_settled f - fr_tainted f"

definition entry_matches :: "'j plan \<Rightarrow> node_id \<Rightarrow> ledger_entry \<Rightarrow> bool" where
  "entry_matches p i e \<longleftrightarrow>
     (\<exists>n. plan_node p i = Some n \<and> le_id e = i \<and> le_driver e = tgt_driver (en_target n)
        \<and> le_kind e = en_kind n \<and> le_irreversible e = en_irreversible n)"

definition node_allowed :: "'j plan \<Rightarrow> capability_set \<Rightarrow> node_id \<Rightarrow> bool" where
  "node_allowed p caps i \<longleftrightarrow>
     (\<exists>n. plan_node p i = Some n \<and> caps_allows caps (en_target n) (en_kind n))"

definition status_inv ::
  "'j plan \<Rightarrow> capability_set \<Rightarrow> nat \<Rightarrow> frontier \<Rightarrow> node_id list list \<Rightarrow> node_id \<Rightarrow> ledger_entry \<Rightarrow> bool" where
  "status_inv p caps bound f calls i e \<longleftrightarrow>
     (case le_status e of
        Applied x k \<Rightarrow> i \<notin> fr_tainted f \<and> node_allowed p caps i \<and> calls_of calls i = k
      | Failed err k \<Rightarrow> i \<in> fr_tainted f \<and> calls_of calls i \<le> k
          \<and> (node_allowed p caps i \<longleftrightarrow> k \<noteq> 0)
          \<and> (\<forall>a. (a, i) \<in> set (live_deps p) \<longrightarrow> a \<in> applied_set f)
      | Skipped c \<Rightarrow> i \<in> fr_tainted f \<and> calls_of calls i = 0
          \<and> (c, i) \<in> set (live_deps p) \<and> c \<in> fr_tainted f)
     \<and> leg_attempts (le_status e) \<le> max 1 bound
     \<and> (le_irreversible e \<longrightarrow> leg_attempts (le_status e) \<le> 1)"

definition entry_inv ::
  "'j plan \<Rightarrow> capability_set \<Rightarrow> nat \<Rightarrow> frontier \<Rightarrow> node_id list list \<Rightarrow> node_id \<Rightarrow> ledger_entry \<Rightarrow> bool" where
  "entry_inv p caps bound f calls i e \<longleftrightarrow> entry_matches p i e \<and> status_inv p caps bound f calls i e"

definition group_inv :: "'j plan \<Rightarrow> capability_set \<Rightarrow> 'j batch_group \<Rightarrow> bool" where
  "group_inv p caps g \<longleftrightarrow>
     bg_inputs g \<noteq> [] \<and> (\<forall>i\<in>set (bg_inputs g). \<exists>n. plan_node p (en_id n) = Some n \<and> i = input_from_node n
        \<and> group_key_of n = bg_key g \<and> caps_allows caps (en_target n) (en_kind n))"

abbreviation groups_ids :: "'j batch_group list \<Rightarrow> node_id list" where
  "groups_ids gs \<equiv> concat (map group_ids gs)"

definition walk_ok ::
  "'j plan \<Rightarrow> capability_set \<Rightarrow> nat \<Rightarrow> node_id set \<Rightarrow> node_id set \<Rightarrow> frontier
     \<Rightarrow> (node_id \<rightharpoonup> ledger_entry) \<Rightarrow> 'j batch_group list \<Rightarrow> node_id list list \<Rightarrow> bool" where
  "walk_ok p caps bound R U f led gs calls \<longleftrightarrow>
     frontier_inv p f \<and> dom led = fr_settled f
     \<and> (\<forall>i e. led i = Some e \<longrightarrow> entry_inv p caps bound f calls i e)
     \<and> distinct (groups_ids gs) \<and> R \<inter> set (groups_ids gs) = {}
     \<and> R \<union> set (groups_ids gs) = fr_dispatched f
     \<and> (\<forall>g\<in>set gs. group_inv p caps g)
     \<and> (\<forall>i. i \<notin> fr_settled f \<longrightarrow> i \<notin> U \<longrightarrow> calls_of calls i = 0)"

section \<open>Entries survive later steps\<close>

lemma entry_inv_mono:
  assumes "entry_inv p caps bound f calls i e" "i \<in> fr_settled f"
    and "applied_set f \<subseteq> applied_set f'" "fr_tainted f \<subseteq> fr_tainted f'"
    and "i \<in> fr_tainted f' \<Longrightarrow> i \<in> fr_tainted f" "calls_of calls' i = calls_of calls i"
  shows "entry_inv p caps bound f' calls' i e"
  using assms unfolding entry_inv_def status_inv_def
  by (cases "le_status e") auto

lemma walk_ok_settle:
  assumes ok: "walk_ok p caps bound R U f led gs calls" and i: "i \<in> R"
    and f': "frontier_inv p f'" "fr_settled f' = insert i (fr_settled f)"
      "fr_dispatched f' = fr_dispatched f - {i}"
      "fr_tainted f' = fr_tainted f \<or> fr_tainted f' = insert i (fr_tainted f)"
    and e: "entry_inv p caps bound f' calls i e"
  shows "walk_ok p caps bound (R - {i}) (U - {i}) f' (led(i \<mapsto> e)) gs calls"
proof -
  have inv: "frontier_inv p f" and iD: "i \<in> fr_dispatched f" using ok i by (auto simp: walk_ok_def)
  have disj: "i \<notin> fr_settled f" "fr_tainted f \<subseteq> fr_settled f"
    using frontier.inv_views [OF inv] iD by auto
  have "entry_inv p caps bound f' calls j e'" if "led j = Some e'" for j e'
  proof (rule entry_inv_mono [where f = f and calls = calls])
    show "entry_inv p caps bound f calls j e'" "j \<in> fr_settled f"
      using ok that by (auto simp: walk_ok_def)
    then have "j \<noteq> i" using disj by blast
    then show "j \<in> fr_tainted f' \<Longrightarrow> j \<in> fr_tainted f" using f'(4) by auto
    show "applied_set f \<subseteq> applied_set f'" "fr_tainted f \<subseteq> fr_tainted f'"
      using f' disj by (auto simp: applied_set_def)
  qed simp
  then show ?thesis
    using ok i f' e disj unfolding walk_ok_def by auto
qed

lemma walk_ok_complete:
  assumes "walk_ok p caps bound R U f led gs calls" "i \<in> R"
    and "entry_inv p caps bound (frontier_complete f i) calls i e"
  shows "walk_ok p caps bound (R - {i}) (U - {i}) (frontier_complete f i) (led(i \<mapsto> e)) gs calls"
proof -
  have "frontier_inv p f" "i \<in> fr_dispatched f" using assms by (auto simp: walk_ok_def)
  from frontier.complete_law [OF this] show ?thesis
    using assms by (intro walk_ok_settle) auto
qed

lemma walk_ok_fail:
  assumes "walk_ok p caps bound R U f led gs calls" "i \<in> R"
    and "entry_inv p caps bound (frontier_fail f i) calls i e"
  shows "walk_ok p caps bound (R - {i}) (U - {i}) (frontier_fail f i) (led(i \<mapsto> e)) gs calls"
proof -
  have "frontier_inv p f" "i \<in> fr_dispatched f" using assms by (auto simp: walk_ok_def)
  from frontier.fail_law [OF this] show ?thesis
    using assms by (intro walk_ok_settle) auto
qed

section \<open>The ready set\<close>

definition run_ids :: "ready list \<Rightarrow> node_id list" where
  "run_ids out = map ready_id (filter (\<lambda>r. r = Run (ready_id r)) out)"

lemma run_ids_simps [simp]:
  "run_ids [] = []" "run_ids (Run i # out) = i # run_ids out" "run_ids (Skip i c # out) = run_ids out"
  by (simp_all add: run_ids_def)

lemma set_run_ids: "set (run_ids out) = runs out"
proof (induction out)
  case (Cons r out)
  then show ?case by (cases r) (simp_all add: runs_skips_Cons)
qed simp

lemma distinct_run_ids: "distinct (map ready_id out) \<Longrightarrow> distinct (run_ids out)"
  unfolding run_ids_def by (simp add: distinct_map_filter)

lemma surface_step_simps:
  "surface_step p (Skip i c) (led, ns) = (led(i \<mapsto> skip_entry p i c), ns)"
  "plan_node p i = Some n \<Longrightarrow> surface_step p (Run i) (led, ns) = (led, ns @ [n])"
  by (simp_all add: surface_step_def)

lemma surface_fold:
  assumes "distinct (map ready_id out)" "\<And>i. i \<in> runs out \<Longrightarrow> plan_node p i \<noteq> None"
    "fold (surface_step p) out (led, ns) = (led', ns')"
  shows "ns' = ns @ map (\<lambda>i. the (plan_node p i)) (run_ids out)
    \<and> (\<forall>i c. Skip i c \<in> set out \<longrightarrow> led' i = Some (skip_entry p i c))
    \<and> (\<forall>i. i \<notin> skips out \<longrightarrow> led' i = led i)"
  using assms
proof (induction out arbitrary: led ns)
  case (Cons r out)
  have dist: "distinct (map ready_id out)" using Cons.prems(1) by simp
  show ?case
  proof (cases r)
    case (Run i)
    then obtain n where n: "plan_node p i = Some n"
      using Cons.prems(2) [of i] by (auto simp: runs_skips_Cons)
    have "fold (surface_step p) out (led, ns @ [n]) = (led', ns')"
      using Cons.prems(3) Run n by (simp add: surface_step_simps)
    from Cons.IH [OF dist _ this] Cons.prems(2) Run n show ?thesis
      by (auto simp: runs_skips_Cons)
  next
    case (Skip i c)
    have "fold (surface_step p) out (led(i \<mapsto> skip_entry p i c), ns) = (led', ns')"
      using Cons.prems(3) Skip by (simp add: surface_step_simps)
    from Cons.IH [OF dist _ this] Cons.prems(2) Skip
    have ih: "ns' = ns @ map (\<lambda>i. the (plan_node p i)) (run_ids out)"
      "\<forall>i c. Skip i c \<in> set out \<longrightarrow> led' i = Some (skip_entry p i c)"
      "\<forall>j. j \<notin> skips out \<longrightarrow> led' j = (led(i \<mapsto> skip_entry p i c)) j"
      by (auto simp: runs_skips_Cons)
    have "i \<notin> ready_id ` set out" using Cons.prems(1) Skip by simp
    then have "i \<notin> skips out" by (force simp: skips_def)
    then have "led' i = Some (skip_entry p i c)" using ih(3) by simp
    then show ?thesis using ih Skip by (auto simp: runs_skips_Cons)
  qed
qed simp

lemma skip_entry_inv:
  assumes "plan_node p i = Some n" "i \<in> fr_tainted f" "calls_of calls i = 0"
    "(c, i) \<in> set (live_deps p)" "c \<in> fr_tainted f"
  shows "entry_inv p caps bound f calls i (skip_entry p i c)"
  using assms by (simp add: entry_inv_def entry_matches_def status_inv_def skip_entry_def)

lemma walk_ok_ready:
  assumes ok: "walk_ok p caps bound {} {} f led gs calls" and r: "frontier_ready f = (f1, out)"
    and s: "fold (surface_step p) out (led, []) = (led1, run_nodes)"
  shows "walk_ok p caps bound (runs out) {} f1 led1 gs calls"
    "run_nodes = map (\<lambda>i. the (plan_node p i)) (run_ids out)" "distinct (run_ids out)"
    "\<forall>i\<in>runs out. plan_node p i \<noteq> None"
proof -
  have inv: "frontier_inv p f" and dom: "dom led = fr_settled f"
    and disp: "set (groups_ids gs) = fr_dispatched f"
    using ok by (auto simp: walk_ok_def)
  note spec = frontier.ready_inv [OF inv r]
  have fresh: "ready_id x \<in> set (plan_ids p) - fr_settled f - fr_dispatched f" if "x \<in> set out" for x
    by (rule frontier.ready_fresh [OF inv r that])
  have runs_fresh: "i \<in> set (plan_ids p) - fr_settled f - fr_dispatched f" if "i \<in> runs out" for i
    using fresh [of "Run i"] that by (simp add: runs_def)
  have skips_fresh: "i \<in> set (plan_ids p) - fr_settled f - fr_dispatched f" if "i \<in> skips out" for i
    using fresh that by (force simp: skips_def)
  show nodes: "\<forall>i\<in>runs out. plan_node p i \<noteq> None"
    using runs_fresh plan_node_None_iff by blast
  have dist: "distinct (map ready_id out)" using spec by blast
  note sf = surface_fold [OF dist _ s]
  show "distinct (run_ids out)" by (rule distinct_run_ids [OF dist])
  show "run_nodes = map (\<lambda>i. the (plan_node p i)) (run_ids out)" using sf nodes by auto
  have led_skip: "Skip i c \<in> set out \<Longrightarrow> led1 i = Some (skip_entry p i c)" for i c using sf nodes by blast
  have led_keep: "i \<notin> skips out \<Longrightarrow> led1 i = led i" for i using sf nodes by blast
  have T: "fr_tainted f \<subseteq> fr_settled f" using frontier.inv_views [OF inv] by blast
  have entries: "entry_inv p caps bound f1 calls i e" if "led1 i = Some e" for i e
  proof (cases "i \<in> skips out")
    case True
    then obtain c where c: "Skip i c \<in> set out" by (auto simp: skips_def)
    obtain n where "plan_node p i = Some n"
      using skips_fresh [OF True] plan_node_Some_ex [of i p] by blast
    moreover have "calls_of calls i = 0" using ok skips_fresh [OF True] by (simp add: walk_ok_def)
    ultimately show ?thesis
      using led_skip [OF c] that frontier.ready_cause [OF inv r c] spec True
      by (auto intro!: skip_entry_inv)
  next
    case False
    then have "led i = Some e" using that led_keep by simp
    then have "entry_inv p caps bound f calls i e" "i \<in> fr_settled f" using ok by (auto simp: walk_ok_def)
    then show ?thesis
    proof (rule entry_inv_mono)
      show "applied_set f \<subseteq> applied_set f1"
        using frontier.skipped_unapplied [OF inv r] by (simp add: applied_set_def)
      show "i \<in> fr_tainted f1 \<Longrightarrow> i \<in> fr_tainted f" using spec False by blast
    qed (use spec in auto)
  qed
  have "dom led1 = fr_settled f1"
  proof -
    have "i \<in> dom led1 \<longleftrightarrow> i \<in> dom led \<or> i \<in> skips out" for i
      using led_skip led_keep by (cases "i \<in> skips out") (auto simp: skips_def)
    then show ?thesis using dom spec by blast
  qed
  moreover have "runs out \<inter> set (groups_ids gs) = {}" using runs_fresh disp by blast
  moreover have "runs out \<union> set (groups_ids gs) = fr_dispatched f1" using spec disp by blast
  moreover have "i \<notin> fr_settled f1 \<Longrightarrow> calls_of calls i = 0" for i using ok spec by (auto simp: walk_ok_def)
  ultimately show "walk_ok p caps bound (runs out) {} f1 led1 gs calls"
    using ok spec entries unfolding walk_ok_def by blast
qed

section \<open>Denials and admission\<close>

lemma denied_entry_inv:
  assumes inv: "frontier_inv p f" and i: "i \<in> fr_dispatched f" and n: "plan_node p i = Some n"
    and d: "\<not> caps_allows caps (en_target n) (en_kind n)" and c: "calls_of calls i = 0"
  shows "entry_inv p caps bound (frontier_fail f i) calls i (denied_entry n)"
proof -
  have ni: "en_id n = i" using n by (auto dest: plan_node_SomeD)
  have fl: "fr_tainted (frontier_fail f i) = insert i (fr_tainted f)"
    "fr_settled (frontier_fail f i) = insert i (fr_settled f)"
    using frontier.fail_law [OF inv i] by auto
  have "i \<notin> fr_settled f" using frontier.inv_views [OF inv] i by blast
  then have "applied_set (frontier_fail f i) = applied_set f" using fl by (auto simp: applied_set_def)
  moreover have "a \<in> applied_set f" if "(a, i) \<in> set (live_deps p)" for a
    using frontier.inv_parents [OF inv that] i by (simp add: applied_set_def)
  ultimately show ?thesis
    using n ni d c fl by (simp add: entry_inv_def entry_matches_def status_inv_def denied_entry_def node_allowed_def)
qed

definition denied_ids :: "capability_set \<Rightarrow> 'j effect_node list \<Rightarrow> node_id set" where
  "denied_ids caps ns = en_id ` {n \<in> set ns. \<not> caps_allows caps (en_target n) (en_kind n)}"

lemma deny_step_simps:
  "caps_allows caps (en_target n) (en_kind n) \<Longrightarrow>
     deny_step caps n (f, led, runnable, b) = (f, led, runnable @ [n], b)"
  "\<not> caps_allows caps (en_target n) (en_kind n) \<Longrightarrow>
     deny_step caps n (f, led, runnable, b) =
       (frontier_fail f (en_id n), led(en_id n \<mapsto> denied_entry n), runnable, True)"
  by (simp_all add: deny_step_def)

lemma deny_fold:
  assumes "walk_ok p caps bound (set (map en_id (rb @ ns))) {} f led gs calls"
    "distinct (map en_id (rb @ ns))" "\<forall>n\<in>set (rb @ ns). plan_node p (en_id n) = Some n"
    "fold (deny_step caps) ns (f, led, rb, b) = (f', led', rb', b')"
  shows "walk_ok p caps bound (set (map en_id rb')) {} f' led' gs calls
    \<and> rb' = rb @ filter (\<lambda>n. caps_allows caps (en_target n) (en_kind n)) ns
    \<and> fr_settled f' = fr_settled f \<union> denied_ids caps ns
    \<and> (b' \<longleftrightarrow> b \<or> denied_ids caps ns \<noteq> {})"
  using assms
proof (induction ns arbitrary: f led rb b)
  case Nil
  then show ?case by (auto simp: denied_ids_def)
next
  case (Cons n ns)
  show ?case
  proof (cases "caps_allows caps (en_target n) (en_kind n)")
    case True
    let ?P = "\<lambda>n. caps_allows caps (en_target n) (en_kind n)"
    have fl: "fold (deny_step caps) ns (f, led, rb @ [n], b) = (f', led', rb', b')"
      using Cons.prems(4) True by (simp add: deny_step_simps)
    have dids: "denied_ids caps (n # ns) = denied_ids caps ns"
      using True by (auto simp: denied_ids_def)
    have e1: "rb @ n # ns = (rb @ [n]) @ ns" by simp
    have e2: "(rb @ [n]) @ filter ?P ns = rb @ filter ?P (n # ns)" using True by simp
    note ih = Cons.IH [OF Cons.prems(1,2,3) [unfolded e1] fl]
    then have "rb' = rb @ filter ?P (n # ns)" unfolding e2 by blast
    with ih show ?thesis unfolding dids by blast
  next
    case False
    let ?i = "en_id n" and ?R = "set (map en_id (rb @ n # ns))"
    have fl: "fold (deny_step caps) ns (frontier_fail f ?i, led(?i \<mapsto> denied_entry n), rb, True) = (f', led', rb', b')"
      using Cons.prems(4) False by (simp add: deny_step_simps)
    have iR: "?i \<in> ?R" by simp
    have inv: "frontier_inv p f" and iD: "?i \<in> fr_dispatched f"
      using Cons.prems(1) unfolding walk_ok_def by auto
    have c0: "calls_of calls ?i = 0"
      using Cons.prems(1) frontier.inv_views [OF inv] iD unfolding walk_ok_def by blast
    have "entry_inv p caps bound (frontier_fail f ?i) calls ?i (denied_entry n)"
      using Cons.prems(3) False c0 by (intro denied_entry_inv [OF inv iD]) auto
    from walk_ok_fail [OF Cons.prems(1) iR this]
    have "walk_ok p caps bound (?R - {?i}) {} (frontier_fail f ?i) (led(?i \<mapsto> denied_entry n)) gs calls"
      by simp
    moreover have "?R - {?i} = set (map en_id (rb @ ns))" using Cons.prems(2) by auto
    ultimately have w: "walk_ok p caps bound (set (map en_id (rb @ ns))) {} (frontier_fail f ?i)
        (led(?i \<mapsto> denied_entry n)) gs calls" by simp
    have dids: "denied_ids caps (n # ns) = insert ?i (denied_ids caps ns)"
      using False by (auto simp: denied_ids_def)
    have fs: "fr_settled (frontier_fail f ?i) = insert ?i (fr_settled f)"
      using frontier.fail_law [OF inv iD] by blast
    have "distinct (map en_id (rb @ ns))" "\<forall>n\<in>set (rb @ ns). plan_node p (en_id n) = Some n"
      using Cons.prems(2,3) by simp_all
    note ih = Cons.IH [OF w this fl]
    have flt: "filter (\<lambda>n. caps_allows caps (en_target n) (en_kind n)) (n # ns) =
        filter (\<lambda>n. caps_allows caps (en_target n) (en_kind n)) ns" using False by simp
    show ?thesis using ih unfolding dids fs flt by blast
  qed
qed

lemma groups_ids_inputs: "groups_ids gs = map ei_id (concat (map bg_inputs gs))"
  by (simp add: group_ids_def [abs_def] map_concat comp_def)

lemma coalesce_ids: "mset (groups_ids (coalesce ns)) = mset (map en_id ns)"
proof -
  have "mset (concat (map bg_inputs (coalesce ns))) = mset (map input_from_node ns)"
    using coalesce_ok(1) [of ns] by (simp add: groups_ok_def)
  then have "mset (map ei_id (concat (map bg_inputs (coalesce ns)))) = mset (map ei_id (map input_from_node ns))"
    by (simp only: mset_map)
  also have "map ei_id (map input_from_node ns) = map en_id ns" by (simp add: input_from_node_def)
  finally show ?thesis by (simp only: groups_ids_inputs)
qed

lemma walk_ok_coalesce:
  assumes ok: "walk_ok p caps bound (set (map en_id ns)) U f led gs calls"
    and d: "distinct (map en_id ns)" and n: "\<forall>n\<in>set ns. plan_node p (en_id n) = Some n
        \<and> caps_allows caps (en_target n) (en_kind n)"
  shows "walk_ok p caps bound {} U f led (gs @ coalesce ns) calls"
proof -
  have ids: "set (groups_ids (coalesce ns)) = set (map en_id ns)" "distinct (groups_ids (coalesce ns))"
    using mset_eq_setD [OF coalesce_ids] mset_eq_imp_distinct_iff [OF coalesce_ids [of ns]] d by auto
  have "group_inv p caps g" if "g \<in> set (coalesce ns)" for g
    using coalesce_ok(1) [of ns] that n unfolding groups_ok_def group_inv_def by blast
  then show ?thesis using ok ids unfolding walk_ok_def by auto
qed

lemma walk_ok_perm:
  assumes "walk_ok p caps bound R U f led gs calls" "mset gs = mset gs'"
  shows "walk_ok p caps bound R U f led gs' calls"
proof -
  have "mset (groups_ids hs) = \<Sum>\<^sub># (image_mset (\<lambda>g. mset (group_ids g)) (mset hs))"
    for hs :: "'a batch_group list" by (induction hs) auto
  then have "mset (groups_ids gs) = mset (groups_ids gs')" using assms(2) by simp
  then have "distinct (groups_ids gs) = distinct (groups_ids gs')" "set (groups_ids gs) = set (groups_ids gs')"
    by (rule mset_eq_imp_distinct_iff, rule mset_eq_setD)
  moreover have "set gs = set gs'" using assms(2) by (rule mset_eq_setD)
  ultimately show ?thesis using assms(1) unfolding walk_ok_def by simp
qed

lemma admit_spec:
  assumes "admit permits queue flight = (queue', flight')"
  shows "mset (queue' @ flight') = mset (queue @ flight)"
    "length flight \<le> permits \<Longrightarrow> length flight' \<le> permits"
    "queue' \<noteq> [] \<Longrightarrow> permits \<le> length flight'"
    "length flight \<le> length flight'"
  using assms by (induction permits queue flight rule: admit.induct) (auto split: if_splits)

section \<open>One pass\<close>

definition interp_inv ::
  "'j plan \<Rightarrow> capability_set \<Rightarrow> concurrency_limits \<Rightarrow> nat \<Rightarrow> 'j interp_state \<Rightarrow> bool" where
  "interp_inv p caps lim bound st \<longleftrightarrow>
     walk_ok p caps bound {} {} (is_frontier st) (is_ledger st) (is_queue st @ is_flight st) (is_calls st)
     \<and> length (is_flight st) \<le> lim_global lim"

lemma commit_pass_spec:
  assumes inv: "interp_inv p caps lim bound st" and pass: "commit_pass p caps lim st = (st1, progressed)"
    and lim: "0 < lim_global lim"
  shows "interp_inv p caps lim bound st1"
    and "fr_settled (is_frontier st) \<subseteq> fr_settled (is_frontier st1)"
    and "is_flight st1 = [] \<Longrightarrow> is_queue st1 = [] \<and> fr_dispatched (is_frontier st1) = {}
           \<and> (progressed \<longleftrightarrow> fr_settled (is_frontier st) \<noteq> fr_settled (is_frontier st1))
           \<and> (progressed \<or> frontier_is_done (is_frontier st1))"
    and "is_calls st1 = is_calls st"
proof -
  let ?f = "is_frontier st" and ?gs = "is_queue st @ is_flight st" and ?calls = "is_calls st"
  obtain f1 out where r: "frontier_ready ?f = (f1, out)" by (cases "frontier_ready ?f")
  obtain led1 ns where s: "fold (surface_step p) out (is_ledger st, []) = (led1, ns)"
    by (cases "fold (surface_step p) out (is_ledger st, [])")
  obtain f2 led2 rb b where d: "fold (deny_step caps) ns (f1, led1, [], out \<noteq> []) = (f2, led2, rb, b)"
    by (cases "fold (deny_step caps) ns (f1, led1, [], out \<noteq> [])")
  obtain q fl where a: "admit (lim_global lim) (is_queue st @ coalesce rb) (is_flight st) = (q, fl)"
    by (cases "admit (lim_global lim) (is_queue st @ coalesce rb) (is_flight st)")
  have st1: "st1 = st\<lparr>is_frontier := f2, is_ledger := led2, is_queue := q, is_flight := fl\<rparr>"
    and pr: "progressed \<longleftrightarrow> b \<or> coalesce rb \<noteq> []"
    using pass r s d a by (auto simp: commit_pass_def Let_def)
  have ok0: "walk_ok p caps bound {} {} ?f (is_ledger st) ?gs ?calls" and l0: "length (is_flight st) \<le> lim_global lim"
    using inv by (auto simp: interp_inv_def)
  have finv: "frontier_inv p ?f" using ok0 by (simp add: walk_ok_def)
  note ready = walk_ok_ready [OF ok0 r s]
  have nodes: "\<forall>n\<in>set ns. plan_node p (en_id n) = Some n" and ids: "map en_id ns = run_ids out"
    using ready(2,4) by (auto simp: set_run_ids [symmetric] plan_node_SomeD intro!: map_idI)
  have w0: "walk_ok p caps bound (set (map en_id ([] @ ns))) {} f1 led1 ?gs ?calls"
    using ready(1) by (simp only: append_Nil ids set_run_ids)
  have d0: "distinct (map en_id ([] @ ns))" "\<forall>n\<in>set ([] @ ns). plan_node p (en_id n) = Some n"
    using ids ready(3) nodes by simp_all
  have deny: "walk_ok p caps bound (set (map en_id rb)) {} f2 led2 ?gs ?calls"
    "rb = filter (\<lambda>n. caps_allows caps (en_target n) (en_kind n)) ns"
    "fr_settled f2 = fr_settled f1 \<union> denied_ids caps ns"
    "b \<longleftrightarrow> out \<noteq> [] \<or> denied_ids caps ns \<noteq> {}"
    using deny_fold [OF w0 d0 d] unfolding append_Nil by blast+
  have "distinct (map en_id ns)" using ids ready(3) by simp
  then have drb: "distinct (map en_id rb)" unfolding deny(2) by (rule distinct_map_filter)
  have nrb: "\<forall>n\<in>set rb. plan_node p (en_id n) = Some n \<and> caps_allows caps (en_target n) (en_kind n)"
    using nodes unfolding deny(2) by simp
  have ok2: "walk_ok p caps bound {} {} f2 led2 (?gs @ coalesce rb) ?calls"
    by (rule walk_ok_coalesce [OF deny(1) drb nrb])
  note adm = admit_spec [OF a]
  have "mset (?gs @ coalesce rb) = mset (q @ fl)" using adm(1) by simp
  then have ok3: "walk_ok p caps bound {} {} f2 led2 (q @ fl) ?calls" by (rule walk_ok_perm [OF ok2])
  then show "interp_inv p caps lim bound st1" using adm(2) l0 by (simp add: st1 interp_inv_def)
  have S1: "fr_settled f1 = fr_settled ?f \<union> skips out" using frontier.ready_inv [OF finv r] by blast
  then show sub: "fr_settled ?f \<subseteq> fr_settled (is_frontier st1)" using deny(3) by (auto simp: st1)
  show "is_calls st1 = ?calls" by (simp add: st1)
  assume "is_flight st1 = []"
  then have fl: "fl = []" by (simp add: st1)
  then have q: "q = []" using adm(3) lim by fastforce
  have disp: "fr_dispatched f2 = {}" using ok3 fl q by (simp add: walk_ok_def)
  have all: "?gs @ coalesce rb = []" using adm(1) fl q by simp
  then have rb: "coalesce rb = []" "rb = []" using coalesce_ids [of rb] by auto
  have "denied_ids caps ns = set (map en_id ns)"
  proof -
    have "\<forall>n\<in>set ns. \<not> caps_allows caps (en_target n) (en_kind n)"
      using deny(2) rb(2) by (metis filter_empty_conv)
    then show ?thesis by (auto simp: denied_ids_def)
  qed
  then have "denied_ids caps ns = runs out" by (simp only: ids set_run_ids)
  then have S2: "fr_settled f2 = fr_settled ?f \<union> ready_id ` set out"
  proof -
    have "ready_id ` set out = runs out \<union> skips out"
    proof (induction out)
      case (Cons r out)
      then show ?case by (cases r) (simp_all add: runs_skips_Cons)
    qed simp
    then show ?thesis using deny(3) S1 \<open>denied_ids caps ns = runs out\<close> by auto
  qed
  have prog: "progressed \<longleftrightarrow> out \<noteq> []"
    using pr deny(4) rb \<open>denied_ids caps ns = runs out\<close> by (auto simp: runs_def)
  have "ready_id r \<notin> fr_settled ?f" if "r \<in> set out" for r using frontier.ready_fresh [OF finv r that] by blast
  then have "progressed \<longleftrightarrow> fr_settled ?f \<noteq> fr_settled (is_frontier st1)"
    using prog S2 by (cases out) (auto simp: st1)
  moreover have "progressed \<or> frontier_is_done (is_frontier st1)"
  proof (rule disjCI)
    assume "\<not> frontier_is_done (is_frontier st1)"
    have "fr_dispatched ?f = {}" using ok0 all by (simp add: walk_ok_def)
    moreover have "\<not> frontier_is_done ?f \<or> fr_settled ?f = set (plan_ids p)"
      using frontier.finished_iff [OF finv] by blast
    moreover have inv2: "frontier_inv p f2" using ok3 by (simp add: walk_ok_def)
    moreover have "fr_settled ?f \<noteq> set (plan_ids p)"
      using sub frontier.inv_views [OF inv2] frontier.finished_iff [OF inv2]
        \<open>\<not> frontier_is_done (is_frontier st1)\<close> by (auto simp: st1)
    ultimately show progressed using frontier.ready_some [OF finv _ _ r] prog by blast
  qed
  ultimately show "is_queue st1 = [] \<and> fr_dispatched (is_frontier st1) = {}
           \<and> (progressed \<longleftrightarrow> fr_settled (is_frontier st) \<noteq> fr_settled (is_frontier st1))
           \<and> (progressed \<or> frontier_is_done (is_frontier st1))"
    using q disp by (simp add: st1)
qed

end
