(* ===== verification/Runtime_Commit.thy ===== *)
theory Runtime_Commit
  imports Runtime_Interp_Inv Plan_Commit
begin

text \<open>
  What the interpreter's commit guarantees, for every interleaving of group completions and
  every behaviour of the drivers: the invariant at every iteration, termination of the loop
  (every iteration settles a node), and the properties of the ledger it returns.
\<close>

section \<open>Folding in the results of a group\<close>

definition member_ok ::
  "'j plan \<Rightarrow> capability_set \<Rightarrow> nat \<Rightarrow> 'j batch_group \<Rightarrow> node_id list list
     \<Rightarrow> 'j effect_input \<Rightarrow> ledger_entry \<times> bool \<Rightarrow> bool" where
  "member_ok p caps bound g calls input eb \<longleftrightarrow>
     entry_ok g bound input eb (calls_of calls (ei_id input))
     \<and> (\<exists>n. plan_node p (en_id n) = Some n \<and> input = input_from_node n
          \<and> group_key_of n = bg_key g \<and> caps_allows caps (en_target n) (en_kind n))"

lemma member_entry_inv:
  assumes m: "member_ok p caps bound g calls input (e, ok)" and inv: "frontier_inv p f"
    and i: "ei_id input \<in> fr_dispatched f"
  shows "le_id e = ei_id input"
    "entry_inv p caps bound (if ok then frontier_complete f (ei_id input) else frontier_fail f (ei_id input))
       calls (ei_id input) e"
proof -
  let ?i = "ei_id input"
  obtain n where n: "plan_node p (en_id n) = Some n" "input = input_from_node n"
    "group_key_of n = bg_key g" "caps_allows caps (en_target n) (en_kind n)"
    and e: "entry_ok g bound input (e, ok) (calls_of calls ?i)"
    using m unfolding member_ok_def by blast
  have ei: "?i = en_id n" "ei_kind input = en_kind n" "ei_irreversible input = en_irreversible n"
    using n(2) by (simp_all add: input_from_node_def)
  have drv: "gk_driver (bg_key g) = tgt_driver (en_target n)"
    using n(3) by (auto simp: group_key_of_def dest: sym)
  show "le_id e = ?i" using e by (simp add: entry_ok_def)
  have match: "entry_matches p ?i e"
    using e n(1) ei drv by (auto simp: entry_matches_def entry_ok_def)
  have ni: "?i \<notin> fr_settled f" "fr_tainted f \<subseteq> fr_settled f" using frontier.inv_views [OF inv] i by auto
  have allowed: "node_allowed p caps ?i" using n(1,4) ei by (auto simp: node_allowed_def)
  show "entry_inv p caps bound (if ok then frontier_complete f ?i else frontier_fail f ?i) calls ?i e"
  proof (cases ok)
    case True
    then have "is_applied (le_status e)" using e by (simp add: entry_ok_def)
    then obtain x k where "le_status e = Applied x k" by (cases "le_status e") auto
    then have "status_inv p caps bound (frontier_complete f ?i) calls ?i e"
      using e True allowed ni frontier.complete_law [OF inv i]
      by (auto simp: status_inv_def entry_ok_def)
    then show ?thesis using match True by (simp add: entry_inv_def)
  next
    case False
    then have "is_failed (le_status e)" using e by (simp add: entry_ok_def)
    then obtain x k where "le_status e = Failed x k" by (cases "le_status e") auto
    moreover have "applied_set (frontier_fail f ?i) = applied_set f"
      using frontier.fail_law [OF inv i] ni by (auto simp: applied_set_def)
    moreover have "a \<in> applied_set f" if "(a, ?i) \<in> set (live_deps p)" for a
      using frontier.inv_parents [OF inv that] i by (simp add: applied_set_def)
    ultimately have "status_inv p caps bound (frontier_fail f ?i) calls ?i e"
      using e False allowed frontier.fail_law [OF inv i]
      by (auto simp: status_inv_def entry_ok_def)
    then show ?thesis using match False by (simp add: entry_inv_def)
  qed
qed

lemma fold_result_sel:
  "is_queue (fold fold_result rs st) = is_queue st" "is_flight (fold fold_result rs st) = is_flight st"
  "is_calls (fold fold_result rs st) = is_calls st"
  by (induction rs arbitrary: st) (auto simp: fold_result_def split: prod.splits)

lemma absorb_fold:
  assumes "list_all2 (member_ok p caps bound g calls) ins rs" "distinct (map ei_id ins)"
    and "walk_ok p caps bound (set (map ei_id ins)) (set (map ei_id ins)) (is_frontier st) (is_ledger st) gs calls"
  shows "walk_ok p caps bound {} {} (is_frontier (fold fold_result rs st)) (is_ledger (fold fold_result rs st)) gs calls
    \<and> fr_settled (is_frontier (fold fold_result rs st)) = fr_settled (is_frontier st) \<union> set (map ei_id ins)"
  using assms
proof (induction ins rs arbitrary: st rule: list_all2_induct)
  case Nil
  then show ?case by simp
next
  case (Cons input ins eb rs)
  obtain e ok where eb: "eb = (e, ok)" by (cases eb)
  let ?i = "ei_id input" and ?f = "is_frontier st" and ?R = "set (map ei_id (input # ins))"
  let ?f' = "if ok then frontier_complete ?f ?i else frontier_fail ?f ?i"
  have inv: "frontier_inv p ?f" and iD: "?i \<in> fr_dispatched ?f" and iR: "?i \<in> ?R"
    using Cons.prems(2) unfolding walk_ok_def by auto
  note ent = member_entry_inv [OF Cons.hyps(1) [unfolded eb] inv iD]
  have st': "fold_result eb st = st\<lparr>is_ledger := (is_ledger st)(?i \<mapsto> e), is_frontier := ?f'\<rparr>"
    by (simp add: fold_result_def eb ent(1))
  have R: "?R - {?i} = set (map ei_id ins)" using Cons.prems(1) by auto
  have "walk_ok p caps bound (?R - {?i}) (?R - {?i}) ?f' ((is_ledger st)(?i \<mapsto> e)) gs calls"
    using walk_ok_complete [OF Cons.prems(2) iR] walk_ok_fail [OF Cons.prems(2) iR] ent(2)
    by (cases ok) simp_all
  then have w: "walk_ok p caps bound (set (map ei_id ins)) (set (map ei_id ins))
      (is_frontier (fold_result eb st)) (is_ledger (fold_result eb st)) gs calls"
    unfolding R by (simp add: st')
  have "fr_settled ?f' = insert ?i (fr_settled ?f)"
    using frontier.complete_law [OF inv iD] frontier.fail_law [OF inv iD] by simp
  then show ?case using Cons.IH [OF _ w] Cons.prems(1) by (simp add: st')
qed

lemma count_list_map_inj:
  assumes "inj_on f A" "set xs \<subseteq> A" "x \<in> A"
  shows "count_list (map f xs) (f x) = count_list xs x"
  using assms(2)
proof (induction xs)
  case (Cons y xs)
  have "f y = f x \<longleftrightarrow> y = x" using assms(1,3) Cons.prems by (auto simp: inj_on_def)
  then show ?case using Cons by simp
qed simp

text \<open>A node is dispatched only after every call for its parents.\<close>

definition calls_ordered :: "'j plan \<Rightarrow> node_id list list \<Rightarrow> bool" where
  "calls_ordered p calls \<longleftrightarrow>
     (\<forall>k<length calls. \<forall>b\<in>set (calls ! k). \<forall>a. (a, b) \<in> set (live_deps p) \<longrightarrow>
        (\<forall>j<length calls. k \<le> j \<longrightarrow> a \<notin> set (calls ! j)))"

lemma calls_ordered_append:
  assumes "calls_ordered p calls"
    and old: "\<And>b a. b \<in> set (concat calls) \<Longrightarrow> (a, b) \<in> set (live_deps p) \<Longrightarrow> a \<notin> set (concat new)"
    and new: "\<And>b a. b \<in> set (concat new) \<Longrightarrow> (a, b) \<in> set (live_deps p) \<Longrightarrow> a \<notin> set (concat new)"
  shows "calls_ordered p (calls @ new)"
  unfolding calls_ordered_def
proof (intro allI ballI impI)
  fix k b a j
  assume k: "k < length (calls @ new)" and b: "b \<in> set ((calls @ new) ! k)"
    and ab: "(a, b) \<in> set (live_deps p)" and j: "j < length (calls @ new)" "k \<le> j"
  show "a \<notin> set ((calls @ new) ! j)"
  proof (cases "j < length calls")
    case True
    then have "k < length calls" using j(2) by simp
    then have "b \<in> set (calls ! k)" using b by (simp add: nth_append)
    then have "a \<notin> set (calls ! j)"
      using assms(1) ab True j(2) \<open>k < length calls\<close> unfolding calls_ordered_def by blast
    then show ?thesis using True by (simp add: nth_append)
  next
    case False
    then have "(calls @ new) ! j \<in> set new" using j by (simp add: nth_append)
    then have "set ((calls @ new) ! j) \<subseteq> set (concat new)" by auto
    moreover have "b \<in> set (concat calls) \<or> b \<in> set (concat new)"
      using b nth_mem [OF k] by auto
    ultimately show ?thesis using old new ab by blast
  qed
qed

lemma absorb_inv:
  assumes inv: "interp_inv p caps lim (unat (rp_max_attempts retry)) st" and k: "k < length (is_flight st)"
    and rc: "rc = run_group (is_flight st ! k) d retry elapsed"
  shows "interp_inv p caps lim (unat (rp_max_attempts retry)) (absorb k rc st)"
    "fr_settled (is_frontier (absorb k rc st)) =
       fr_settled (is_frontier st) \<union> set (group_ids (is_flight st ! k))"
    "is_queue (absorb k rc st) = is_queue st"
    "length (is_flight (absorb k rc st)) < length (is_flight st)"
    "set (group_ids (is_flight st ! k)) \<noteq> {}"
    "set (group_ids (is_flight st ! k)) \<inter> fr_settled (is_frontier st) = {}"
    "calls_ordered p (is_calls st) \<Longrightarrow> calls_ordered p (is_calls (absorb k rc st))"
proof -
  define bound where "bound = unat (rp_max_attempts retry)"
  define g where "g = is_flight st ! k"
  obtain res css where rcs: "run_group g d retry elapsed = (res, css)" by (cases "run_group g d retry elapsed")
  then have rce: "rc = (res, css)" using rc by (simp add: g_def)
  let ?ins = "bg_inputs g" and ?f = "is_frontier st" and ?calls = "is_calls st"
  let ?rest = "take k (is_flight st) @ drop (Suc k) (is_flight st)"
  let ?new = "map (map (\<lambda>i. ei_id (?ins ! i))) css"
  let ?gs = "is_queue st @ ?rest"
  note spec = run_group_spec [OF rcs, folded bound_def]
  have len: "length res = length ?ins" by (rule spec(1))
  have "is_flight st = take k (is_flight st) @ g # drop (Suc k) (is_flight st)"
    using k unfolding g_def by (rule id_take_nth_drop)
  then have "mset (is_queue st @ is_flight st) = mset (g # ?gs)"
    by (metis (no_types, lifting) mset_append mset.simps(2) union_mset_add_mset_right append_Cons)
  then have ok: "walk_ok p caps bound {} {} ?f (is_ledger st) (g # ?gs) ?calls"
    using inv walk_ok_perm unfolding interp_inv_def bound_def by blast
  have finv: "frontier_inv p ?f" using ok by (simp add: walk_ok_def)
  have gi: "group_inv p caps g" and dist: "distinct (group_ids g)"
    and disj: "set (group_ids g) \<inter> set (groups_ids ?gs) = {}"
    and disp: "fr_dispatched ?f = set (group_ids g) \<union> set (groups_ids ?gs)"
    using ok by (auto simp: walk_ok_def)
  have gids: "group_ids g = map ei_id ?ins" by (simp add: group_ids_def)
  have inj: "inj_on (\<lambda>i. ei_id (?ins ! i)) {..<length ?ins}"
    using dist unfolding gids by (auto simp: inj_on_def distinct_conv_nth)
  have new_sub: "set (concat ?new) \<subseteq> set (group_ids g)"
    using spec(2) unfolding gids by auto
  have unsettled: "i \<notin> fr_settled ?f" if "i \<in> set (group_ids g)" for i
    using that disp frontier.inv_views [OF finv] by blast
  have cnt: "calls_of (?calls @ ?new) i = calls_of ?calls i + count_list (concat ?new) i" for i
    by (simp add: calls_of_def)
  have cnt_other: "calls_of (?calls @ ?new) i = calls_of ?calls i" if "i \<notin> set (group_ids g)" for i
    using that new_sub cnt by (auto simp: count_list_0_iff)
  have cnt_member: "calls_of (?calls @ ?new) (ei_id (?ins ! j)) = count_list (concat css) j" if "j < length ?ins" for j
  proof -
    have "ei_id (?ins ! j) \<in> set (group_ids g)" using that by (simp add: gids)
    then have "calls_of ?calls (ei_id (?ins ! j)) = 0" using ok unsettled by (simp add: walk_ok_def)
    moreover have "concat ?new = map (\<lambda>i. ei_id (?ins ! i)) (concat css)" by (simp add: map_concat)
    ultimately show ?thesis using cnt count_list_map_inj [OF inj spec(2), of j] that by simp
  qed
  have members: "list_all2 (member_ok p caps bound g (?calls @ ?new)) ?ins res"
    unfolding list_all2_conv_all_nth
  proof (intro conjI allI impI)
    fix j assume j: "j < length ?ins"
    have "\<exists>n. plan_node p (en_id n) = Some n \<and> ?ins ! j = input_from_node n
          \<and> group_key_of n = bg_key g \<and> caps_allows caps (en_target n) (en_kind n)"
      using gi j by (simp add: group_inv_def)
    then show "member_ok p caps bound g (?calls @ ?new) (?ins ! j) (res ! j)"
      using spec(3) j cnt_member [OF j] by (simp add: member_ok_def)
  qed (simp add: len)
  have "entry_inv p caps bound ?f (?calls @ ?new) i e" if "is_ledger st i = Some e" for i e
  proof -
    have ent: "entry_inv p caps bound ?f ?calls i e" "i \<in> fr_settled ?f" using ok that by (auto simp: walk_ok_def)
    then have "i \<notin> set (group_ids g)" using unsettled by blast
    then show ?thesis by (intro entry_inv_mono [OF ent]) (simp_all add: cnt_other)
  qed
  then have w: "walk_ok p caps bound (set (map ei_id ?ins)) (set (map ei_id ?ins)) ?f (is_ledger st) ?gs (?calls @ ?new)"
    using ok disj disp cnt_other unfolding walk_ok_def gids by auto
  define st0 where "st0 = st\<lparr>is_flight := ?rest, is_calls := ?calls @ ?new\<rparr>"
  have ab: "absorb k rc st = fold fold_result res st0"
    by (simp add: absorb_def Let_def rce st0_def g_def)
  have "walk_ok p caps bound (set (map ei_id ?ins)) (set (map ei_id ?ins)) (is_frontier st0) (is_ledger st0) ?gs (?calls @ ?new)"
    using w by (simp add: st0_def)
  note fin = absorb_fold [OF members dist [unfolded gids] this]
  have sel: "is_queue (absorb k rc st) = is_queue st" "is_flight (absorb k rc st) = ?rest"
    "is_calls (absorb k rc st) = ?calls @ ?new"
    by (simp_all add: ab fold_result_sel st0_def)
  show "is_queue (absorb k rc st) = is_queue st" by (rule sel(1))
  show "set (group_ids (is_flight st ! k)) \<noteq> {}" using gi by (simp add: g_def [symmetric] gids group_inv_def)
  show "set (group_ids (is_flight st ! k)) \<inter> fr_settled ?f = {}" using unsettled by (auto simp: g_def)
  show "calls_ordered p (is_calls (absorb k rc st))" if ord: "calls_ordered p ?calls"
    unfolding sel
  proof (rule calls_ordered_append [OF ord])
    fix a b assume b: "b \<in> set (concat ?calls)" and ab: "(a, b) \<in> set (live_deps p)"
    then have "calls_of ?calls b \<noteq> 0" by (simp add: calls_of_def count_list_0_iff)
    then have "b \<in> fr_settled ?f" using ok by (auto simp: walk_ok_def)
    then have "a \<in> fr_settled ?f" using finv ab by (auto simp: frontier_inv_def sched_inv_def)
    then show "a \<notin> set (concat ?new)" using new_sub unsettled by blast
  next
    fix a b assume b: "b \<in> set (concat ?new)" and ab: "(a, b) \<in> set (live_deps p)"
    then have "b \<in> fr_dispatched ?f" using new_sub disp by blast
    then have "a \<in> fr_settled ?f" using frontier.inv_parents [OF finv ab] by blast
    then show "a \<notin> set (concat ?new)" using new_sub unsettled by blast
  qed
  show "length (is_flight (absorb k rc st)) < length (is_flight st)" unfolding sel(2) using k by simp
  moreover have "length (is_flight st) \<le> lim_global lim" using inv by (simp add: interp_inv_def)
  ultimately show "interp_inv p caps lim (unat (rp_max_attempts retry)) (absorb k rc st)"
    using fin unfolding interp_inv_def sel bound_def [symmetric] unfolding ab by simp
  show "fr_settled (is_frontier (absorb k rc st)) = fr_settled ?f \<union> set (group_ids (is_flight st ! k))"
    using fin unfolding ab g_def [symmetric] gids by (simp add: st0_def)
qed

section \<open>Steps\<close>

definition settled_count :: "'j interp_state \<Rightarrow> nat" where
  "settled_count st = card (fr_settled (is_frontier st))"

lemma interp_inv_frontier: "interp_inv p caps lim bound st \<Longrightarrow> frontier_inv p (is_frontier st)"
  by (simp add: interp_inv_def walk_ok_def)

lemma settled_finite: "frontier_inv p f \<Longrightarrow> finite (fr_settled f)"
  using frontier.inv_views [of p f] finite_subset by blast

lemma settled_count_le: "interp_inv p caps lim bound st \<Longrightarrow> settled_count st \<le> length (pl_nodes p)"
  using frontier.inv_views [OF interp_inv_frontier, of p caps lim bound st]
    card_mono [of "set (plan_ids p)" "fr_settled (is_frontier st)"] card_length [of "plan_ids p"]
  by (simp add: settled_count_def)

lemma interp_step_inv:
  assumes step: "interp_step p caps lim regs retry st st'"
    and inv: "interp_inv p caps lim (unat (rp_max_attempts retry)) st" and lim: "0 < lim_global lim"
  shows "interp_inv p caps lim (unat (rp_max_attempts retry)) st'"
    "settled_count st < settled_count st'"
    "calls_ordered p (is_calls st) \<Longrightarrow> calls_ordered p (is_calls st')"
proof -
  have "interp_inv p caps lim (unat (rp_max_attempts retry)) st' \<and>
    fr_settled (is_frontier st) \<subset> fr_settled (is_frontier st') \<and>
    (calls_ordered p (is_calls st) \<longrightarrow> calls_ordered p (is_calls st'))"
    using step
  proof cases
    case (spin progressed)
    note ps = commit_pass_spec [OF inv spin(1) lim]
    have "is_queue st' = []" "progressed \<longleftrightarrow> fr_settled (is_frontier st) \<noteq> fr_settled (is_frontier st')"
      using ps(3) spin(3) by blast+
    then show ?thesis using ps(1,2,4) spin(4) by auto
  next
    case (await st1 progressed k rc drv elapsed)
    note ps = commit_pass_spec [OF inv await(2) lim]
    note ab = absorb_inv [OF ps(1) await(4) await(5)]
    have "fr_settled (is_frontier st) \<subset> fr_settled (is_frontier st')"
    proof -
      define i where "i = hd (group_ids (is_flight st1 ! k))"
      have i: "i \<in> set (group_ids (is_flight st1 ! k))" using ab(5) by (simp add: i_def)
      then have "i \<notin> fr_settled (is_frontier st1)" using ab(6) by auto
      then have "i \<notin> fr_settled (is_frontier st)" using ps(2) by auto
      then show ?thesis unfolding await(1) ab(2) using ps(2) i by auto
    qed
    moreover have "interp_inv p caps lim (unat (rp_max_attempts retry)) st'"
      unfolding await(1) by (rule ab(1))
    moreover have "calls_ordered p (is_calls st) \<longrightarrow> calls_ordered p (is_calls st')"
      unfolding await(1) using ab(7) ps(4) by simp
    ultimately show ?thesis by simp
  qed
  then have r: "interp_inv p caps lim (unat (rp_max_attempts retry)) st'"
    "fr_settled (is_frontier st) \<subset> fr_settled (is_frontier st')"
    "calls_ordered p (is_calls st) \<longrightarrow> calls_ordered p (is_calls st')" by blast+
  show "interp_inv p caps lim (unat (rp_max_attempts retry)) st'" by (rule r(1))
  show "settled_count st < settled_count st'"
    unfolding settled_count_def
    by (rule psubset_card_mono [OF settled_finite [OF interp_inv_frontier [OF r(1)]] r(2)])
  show "calls_ordered p (is_calls st) \<Longrightarrow> calls_ordered p (is_calls st')" using r(3) by blast
qed

lemma interp_init_inv:
  assumes "frontier_new p = Some f"
  shows "interp_inv p caps lim bound (interp_init f)" "calls_ordered p (is_calls (interp_init f))"
  using frontier_new_inv [OF assms]
  by (auto simp: interp_inv_def walk_ok_def interp_init_def calls_of_def calls_ordered_def)

lemma interp_steps_inv:
  assumes "(interp_step p caps lim regs retry ^^ n) st st'"
    "interp_inv p caps lim (unat (rp_max_attempts retry)) st" "calls_ordered p (is_calls st)" "0 < lim_global lim"
  shows "interp_inv p caps lim (unat (rp_max_attempts retry)) st' \<and> calls_ordered p (is_calls st')
    \<and> settled_count st + n \<le> settled_count st'"
  using assms(1)
proof (induction n arbitrary: st')
  case (Suc n)
  then obtain s where s: "(interp_step p caps lim regs retry ^^ n) st s" "interp_step p caps lim regs retry s st'"
    by auto
  then show ?case using Suc.IH [OF s(1)] interp_step_inv [OF s(2)] assms(4) by fastforce
qed (use assms in simp)

text \<open>The loop never stops early, and unless it is finished it has a next iteration.\<close>

lemma interp_not_stuck:
  assumes inv: "interp_inv p caps lim bound st" and lim: "0 < lim_global lim"
    and pass: "commit_pass p caps lim st = (st1, progressed)"
  shows "loop_stuck st1 progressed \<Longrightarrow> loop_finished st1"
    "\<not> loop_finished st1 \<Longrightarrow> \<exists>st'. interp_step p caps lim regs retry st st'"
proof -
  note ps = commit_pass_spec [OF inv pass lim]
  show "loop_finished st1" if "loop_stuck st1 progressed"
    using ps(3) that by (auto simp: loop_stuck_def loop_finished_def)
  show "\<exists>st'. interp_step p caps lim regs retry st st'" if nf: "\<not> loop_finished st1"
  proof (cases "is_flight st1 = []")
    case True
    then have "progressed" using ps(3) nf by (auto simp: loop_finished_def)
    then show ?thesis using interp_step.spin [OF pass nf True] by blast
  next
    case False
    then have "0 < length (is_flight st1)" by simp
    from interp_step.await [OF pass nf this refl] show ?thesis by blast
  qed
qed

section \<open>Complete runs\<close>

lemma interp_run_final:
  assumes run: "interp_run p caps lim regs retry (Inr ledger) calls" and lim: "0 < lim_global lim"
  obtains order st where "topo_order p = Some order" "ledger = map (\<lambda>i. the (is_ledger st i)) order"
    "calls = is_calls st" "interp_inv p caps lim (unat (rp_max_attempts retry)) st"
    "fr_settled (is_frontier st) = set order" "calls_ordered p calls" "map le_id ledger = order"
proof -
  from run show thesis
  proof (cases rule: interp_run.cases)
    case (exit order f st st1 progressed)
    obtain n where n: "(interp_step p caps lim regs retry ^^ n) (interp_init f) st"
      using exit(5) by (auto simp: rtranclp_power)
    note inv = interp_steps_inv [OF n interp_init_inv [OF exit(4)] lim]
    then have inv_st: "interp_inv p caps lim (unat (rp_max_attempts retry)) st" by blast
    note ps = commit_pass_spec [OF inv_st exit(6) lim]
    have fin: "loop_finished st1" using exit(7) interp_not_stuck(1) [OF inv_st lim exit(6)] by blast
    have settled: "fr_settled (is_frontier st1) = set order"
      using fin done_iff [OF interp_inv_frontier [OF ps(1)]] topo.order_set [OF exit(3)]
      by (simp add: loop_finished_def)
    have dom: "dom (is_ledger st1) = set order"
      and ent: "\<And>i e. is_ledger st1 i = Some e \<Longrightarrow> entry_matches p i e"
      using ps(1) settled by (auto simp: interp_inv_def walk_ok_def entry_inv_def)
    have led: "ledger = map (\<lambda>i. the (is_ledger st1 i)) order"
      using exit(1) dom map_filter_dom [of order "is_ledger st1"] by (simp add: assemble_def)
    have "le_id (the (is_ledger st1 i)) = i" if "i \<in> set order" for i
    proof -
      have "i \<in> dom (is_ledger st1)" using that dom by simp
      then obtain e where "is_ledger st1 i = Some e" by blast
      then show ?thesis using ent by (auto simp: entry_matches_def)
    qed
    then have ids: "map le_id ledger = order" unfolding led by (simp add: map_idI)
    have "calls_ordered p calls" using inv exit(2) ps(4) by simp
    from that [OF exit(3) led exit(2) ps(1) settled this ids] show thesis .
  qed
qed

lemma final_entry:
  assumes "interp_inv p caps lim bound st" "fr_settled (is_frontier st) = set order"
    "ledger = map (\<lambda>i. the (is_ledger st i)) order" "e \<in> set ledger"
  shows "entry_inv p caps bound (is_frontier st) (is_calls st) (le_id e) e" "le_id e \<in> set order"
proof -
  obtain i where i: "i \<in> set order" "e = the (is_ledger st i)" using assms(3,4) by auto
  have dom: "dom (is_ledger st) = set order" using assms(1,2) by (simp add: interp_inv_def walk_ok_def)
  then have "i \<in> dom (is_ledger st)" using i(1) by simp
  then have "is_ledger st i = Some e" using i(2) by (auto simp: dom_def)
  then have "entry_inv p caps bound (is_frontier st) (is_calls st) i e"
    using assms(1) by (simp add: interp_inv_def walk_ok_def)
  moreover from this have "le_id e = i" by (auto simp: entry_inv_def entry_matches_def)
  ultimately show "entry_inv p caps bound (is_frontier st) (is_calls st) (le_id e) e" "le_id e \<in> set order"
    using i by simp_all
qed

lemma final_applied:
  assumes inv: "interp_inv p caps lim bound st" and S: "fr_settled (is_frontier st) = set order"
    and led: "ledger = map (\<lambda>i. the (is_ledger st i)) order" and ids: "map le_id ledger = order"
  shows "set (outcome_applied_ids ledger) = applied_set (is_frontier st)"
proof -
  have stat: "is_applied (le_status e) \<longleftrightarrow> le_id e \<notin> fr_tainted (is_frontier st)" if "e \<in> set ledger" for e
    using final_entry(1) [OF inv S led that] by (cases "le_status e") (auto simp: entry_inv_def status_inv_def)
  have "set order = le_id ` set ledger" using ids by (metis list.set_map)
  then show ?thesis using stat S by (auto simp: outcome_applied_ids_def applied_set_def)
qed

lemma interp_run_exists:
  assumes "interp_inv p caps lim (unat (rp_max_attempts retry)) st" "0 < lim_global lim"
  shows "\<exists>st' st1 progressed. (interp_step p caps lim regs retry)\<^sup>*\<^sup>* st st'
    \<and> commit_pass p caps lim st' = (st1, progressed) \<and> loop_finished st1"
  using assms(1)
proof (induction "length (pl_nodes p) - settled_count st" arbitrary: st rule: less_induct)
  case less
  obtain st1 progressed where pass: "commit_pass p caps lim st = (st1, progressed)"
    by (cases "commit_pass p caps lim st")
  show ?case
  proof (cases "loop_finished st1")
    case False
    obtain st2 where step: "interp_step p caps lim regs retry st st2"
      using interp_not_stuck(2) [OF less.prems assms(2) pass False] by blast
    note si = interp_step_inv [OF step less.prems assms(2)]
    have "length (pl_nodes p) - settled_count st2 < length (pl_nodes p) - settled_count st"
      using si(2) settled_count_le [OF si(1)] by simp
    from less.hyps [OF this si(1)] step show ?thesis by (meson converse_rtranclp_into_rtranclp)
  qed (use pass in blast)
qed

lemma interp_run_total:
  assumes "frontier_new p = Some f" "0 < lim_global lim"
  shows "\<exists>ledger calls. interp_run p caps lim regs retry (Inr ledger) calls"
proof -
  obtain st' st1 progressed where "(interp_step p caps lim regs retry)\<^sup>*\<^sup>* (interp_init f) st'"
    "commit_pass p caps lim st' = (st1, progressed)" "loop_finished st1"
    using interp_run_exists [OF interp_init_inv(1) [OF assms(1)] assms(2)] by blast
  moreover obtain order where "topo_order p = Some order"
    using frontier_new_Some_iff [of p] assms(1) by auto
  ultimately show ?thesis using interp_run.exit [OF _ assms(1)] by blast
qed

lemma demo_frontier: "frontier_new demo_plan \<noteq> None" "topo_order demo_plan = Some [1, 2, 0, 3]"
proof -
  show t: "topo_order demo_plan = Some [1, 2, 0, 3]" by code_simp
  then show "frontier_new demo_plan \<noteq> None" by (simp add: frontier_new_def)
qed

section \<open>Properties\<close>

text \<open>C4: the ledger of a committed plan, whatever the interleaving and the drivers: one entry per
  node in plan order; an applied node has all its ancestors applied; a failed node had all its
  ancestors applied; a skipped node names an unapplied parent.\<close>

theorem interp_commit_ledger:
  assumes "interp_run p caps lim regs retry (Inr ledger) calls" and "0 < lim_global lim"
  shows "(\<exists>order. topo_order p = Some order \<and> map le_id ledger = order)
    \<and> (\<forall>e\<in>set ledger. \<forall>a. (a, le_id e) \<in> (set (live_deps p))\<^sup>+ \<longrightarrow>
          \<not> is_skipped (le_status e) \<longrightarrow> a \<in> set (outcome_applied_ids ledger))
    \<and> (\<forall>e\<in>set ledger. \<forall>c. le_status e = Skipped c \<longrightarrow>
          (c, le_id e) \<in> set (live_deps p) \<and> c \<notin> set (outcome_applied_ids ledger))"
proof -
  obtain order st where r: "topo_order p = Some order" "ledger = map (\<lambda>i. the (is_ledger st i)) order"
    "calls = is_calls st" "interp_inv p caps lim (unat (rp_max_attempts retry)) st"
    "fr_settled (is_frontier st) = set order" "calls_ordered p calls" "map le_id ledger = order"
    by (rule interp_run_final [OF assms])
  note A = final_applied [OF r(4,5,2,7)]
  have inv: "frontier_inv p (is_frontier st)" by (rule interp_inv_frontier [OF r(4)])
  have anc: "a \<in> applied_set (is_frontier st)"
    if e: "e \<in> set ledger" and tc: "(a, le_id e) \<in> (set (live_deps p))\<^sup>+"
      and ns: "\<not> is_skipped (le_status e)" for e a
  proof -
    note fe = final_entry [OF r(4,5,2) e]
    have par: "b \<in> applied_set (is_frontier st)" if b: "(b, le_id e) \<in> set (live_deps p)" for b
    proof (cases "le_status e")
      case (Applied x k)
      then have "le_id e \<in> applied_set (is_frontier st)"
        using fe r(5) by (simp add: entry_inv_def status_inv_def applied_set_def)
      then show ?thesis using frontier.inv_parents [OF inv b] by (simp add: applied_set_def)
    next
      case (Failed x k)
      then show ?thesis using fe b by (simp add: entry_inv_def status_inv_def)
    qed (use ns in simp)
    from tc obtain b where b: "(b, le_id e) \<in> set (live_deps p)" "a = b \<or> (a, b) \<in> (set (live_deps p))\<^sup>+"
      by (metis tranclD2 rtranclD)
    show ?thesis
      using b par [OF b(1)] frontier.ancestors_applied [OF inv] by (auto simp: applied_set_def)
  qed
  have "(c, le_id e) \<in> set (live_deps p) \<and> c \<notin> applied_set (is_frontier st)"
    if "e \<in> set ledger" "le_status e = Skipped c" for e c
    using final_entry [OF r(4,5,2) that(1)] that(2)
    by (simp add: entry_inv_def status_inv_def applied_set_def)
  then show ?thesis using anc r(1,7) unfolding A by blast
qed

theorem interp_commit_ledger_witness:
  "\<exists>ledger calls. interp_run demo_plan caps_allow_all limits_default {''db''} retry_default (Inr ledger) calls
     \<and> map le_id ledger = [1, 2, 0, 3]"
proof -
  obtain f where "frontier_new demo_plan = Some f" using demo_frontier(1) by auto
  moreover have lim: "0 < lim_global limits_default" by code_simp
  ultimately obtain ledger calls where
    r: "interp_run demo_plan caps_allow_all limits_default {''db''} retry_default (Inr ledger) calls"
    using interp_run_total by blast
  from interp_commit_ledger [OF r lim] have "map le_id ledger = [1, 2, 0, 3]" using demo_frontier(2) by auto
  then show ?thesis using r by (intro exI conjI)
qed

text \<open>C5: how often the drivers are called in a commit: a node is dispatched at most
  \<open>max_attempts\<close> times, an irreversible one at most once, a skipped or denied one never, an
  applied one as often as its ledger entry says; and no call for a node precedes the last call
  for one of its parents.\<close>

theorem interp_commit_dispatch:
  assumes "interp_run p caps lim regs retry (Inr ledger) calls" and "0 < lim_global lim"
  shows "(\<forall>e\<in>set ledger.
      count_list (concat calls) (le_id e) \<le> max 1 (unat (rp_max_attempts retry))
      \<and> (le_irreversible e \<longrightarrow> count_list (concat calls) (le_id e) \<le> 1)
      \<and> (\<forall>c. le_status e = Skipped c \<longrightarrow> count_list (concat calls) (le_id e) = 0)
      \<and> (\<forall>x k. le_status e = Applied x k \<longrightarrow> count_list (concat calls) (le_id e) = k)
      \<and> (\<not> node_allowed p caps (le_id e) \<longrightarrow> count_list (concat calls) (le_id e) = 0
            \<and> \<not> is_applied (le_status e)))
    \<and> calls_ordered p calls"
proof -
  obtain order st where r: "topo_order p = Some order" "ledger = map (\<lambda>i. the (is_ledger st i)) order"
    "calls = is_calls st" "interp_inv p caps lim (unat (rp_max_attempts retry)) st"
    "fr_settled (is_frontier st) = set order" "calls_ordered p calls" "map le_id ledger = order"
    by (rule interp_run_final [OF assms])
  have "count_list (concat calls) (le_id e) \<le> leg_attempts (le_status e)
      \<and> leg_attempts (le_status e) \<le> max 1 (unat (rp_max_attempts retry))
      \<and> (le_irreversible e \<longrightarrow> leg_attempts (le_status e) \<le> 1)
      \<and> (\<forall>c. le_status e = Skipped c \<longrightarrow> count_list (concat calls) (le_id e) = 0)
      \<and> (\<forall>x k. le_status e = Applied x k \<longrightarrow> count_list (concat calls) (le_id e) = k)
      \<and> (\<not> node_allowed p caps (le_id e) \<longrightarrow> count_list (concat calls) (le_id e) = 0
            \<and> \<not> is_applied (le_status e))" if "e \<in> set ledger" for e
    using final_entry(1) [OF r(4,5,2) that] r(3)
    by (cases "le_status e") (auto simp: entry_inv_def status_inv_def calls_of_def)
  then show ?thesis using r(6) by (meson order.trans)
qed

theorem interp_commit_dispatch_witness:
  "\<exists>ledger calls. interp_run demo_plan caps_allow_all limits_default {''db''} retry_default (Inr ledger) calls
     \<and> (\<forall>e\<in>set ledger. count_list (concat calls) (le_id e) \<le> 3)"
proof -
  obtain f where "frontier_new demo_plan = Some f" using demo_frontier(1) by auto
  moreover have lim: "0 < lim_global limits_default" by code_simp
  ultimately obtain ledger calls where
    r: "interp_run demo_plan caps_allow_all limits_default {''db''} retry_default (Inr ledger) calls"
    using interp_run_total by blast
  have "unat (rp_max_attempts retry_default) = 3" by code_simp
  then have "\<forall>e\<in>set ledger. count_list (concat calls) (le_id e) \<le> 3"
    using interp_commit_dispatch [OF r lim] by auto
  then show ?thesis using r by (intro exI conjI)
qed



end
