(* ===== verification/Runtime_Preview.thy ===== *)
theory Runtime_Preview
  imports Runtime_Commit
begin

text \<open>
  The interpreter's dry run, \<open>Interpreter::preview\<close>: its loop ends within one round per node,
  and its ledger says of every node what a commit with obliging drivers would do.
\<close>

section \<open>One round\<close>

definition preview_frontier :: "'j plan \<Rightarrow> capability_set \<Rightarrow> node_id \<Rightarrow> frontier \<Rightarrow> frontier" where
  "preview_frontier p caps i f =
     (let n = the (plan_node p i) in
      if caps_allows caps (en_target n) (en_kind n) then frontier_complete f i else frontier_fail f i)"

definition preview_run_entry :: "'j plan \<Rightarrow> capability_set \<Rightarrow> node_id \<Rightarrow> ledger_entry" where
  "preview_run_entry p caps i =
     (let n = the (plan_node p i) in
      if caps_allows caps (en_target n) (en_kind n) then preview_entry n else denied_entry n)"

definition record_runs ::
  "'j plan \<Rightarrow> capability_set \<Rightarrow> node_id list \<Rightarrow> (node_id \<rightharpoonup> ledger_entry) \<Rightarrow> (node_id \<rightharpoonup> ledger_entry)" where
  "record_runs p caps xs led = fold (\<lambda>i l. l(i \<mapsto> preview_run_entry p caps i)) xs led"

lemma record_runs_simps [simp]:
  "record_runs p caps [] led = led"
  "record_runs p caps (i # xs) led = record_runs p caps xs (led(i \<mapsto> preview_run_entry p caps i))"
  by (simp_all add: record_runs_def)

lemma record_runs_skip:
  "j \<notin> set xs \<Longrightarrow> record_runs p caps xs (led(j \<mapsto> e)) = (record_runs p caps xs led)(j \<mapsto> e)"
proof (induction xs arbitrary: led)
  case (Cons i xs)
  have j: "j \<noteq> i" "j \<notin> set xs" using Cons.prems by auto
  show ?case unfolding record_runs_simps fun_upd_twist [OF j(1)] Cons.IH [OF j(2)] by (rule refl)
qed simp

lemma preview_ready_Run:
  assumes "plan_node p i = Some n"
  shows "preview_ready p caps (Run i # rs) (f, led) =
    preview_ready p caps rs (preview_frontier p caps i f, led(i \<mapsto> preview_run_entry p caps i))"
  using assms by (simp add: preview_frontier_def preview_run_entry_def)

text \<open>Skips and runs of a round concern different nodes, so the skips may be recorded first.\<close>

lemma surface_fst_upd:
  "i \<notin> ready_id ` set out \<Longrightarrow>
   fst (fold (surface_step p) out (led(i \<mapsto> e), ns)) = (fst (fold (surface_step p) out (led, ms)))(i \<mapsto> e)"
proof (induction out arbitrary: led ns ms)
  case (Cons r out)
  have i: "i \<noteq> ready_id r" "i \<notin> ready_id ` set out" using Cons.prems by auto
  show ?case
  proof (cases r)
    case (Run j)
    have "fst (surface_step p r (l, xs)) = l" for l xs
      by (simp add: surface_step_def Run split: option.splits)
    then obtain ys zs where "surface_step p r (led(i \<mapsto> e), ns) = (led(i \<mapsto> e), ys)"
      "surface_step p r (led, ms) = (led, zs)" by (metis prod.collapse)
    then show ?thesis unfolding fold_simps comp_apply by (simp only: Cons.IH [OF i(2)])
  next
    case (Skip j c)
    have "i \<noteq> j" using i(1) Skip by simp
    show ?thesis
      unfolding fold_simps comp_apply Skip surface_step_simps fun_upd_twist [OF \<open>i \<noteq> j\<close>] by (rule Cons.IH [OF i(2)])
  qed
qed simp

lemma preview_ready_eq:
  assumes "distinct (map ready_id out)" "\<And>i. i \<in> runs out \<Longrightarrow> plan_node p i \<noteq> None"
  shows "preview_ready p caps out (f, led) =
    Inr (fold (preview_frontier p caps) (run_ids out) f,
         record_runs p caps (run_ids out) (fst (fold (surface_step p) out (led, ns))))"
  using assms
proof (induction out arbitrary: f led ns)
  case (Cons r out)
  have dist: "distinct (map ready_id out)" using Cons.prems(1) by simp
  have nodes: "plan_node p i \<noteq> None" if "i \<in> runs out" for i
    using Cons.prems(2) [of i] that by (cases r) (auto simp: runs_skips_Cons)
  have ih: "preview_ready p caps out (g, l) =
      Inr (fold (preview_frontier p caps) (run_ids out) g,
           record_runs p caps (run_ids out) (fst (fold (surface_step p) out (l, ms))))" for g l ms
    by (rule Cons.IH [OF dist]) (rule nodes)
  show ?case
  proof (cases r)
    case (Skip i c)
    show ?thesis
      unfolding Skip preview_ready.simps ih [of f _ ns] fold_simps comp_apply surface_step_simps
      by simp
  next
    case (Run i)
    then obtain n where n: "plan_node p i = Some n" using Cons.prems(2) [of i] by (auto simp: runs_skips_Cons)
    have i: "i \<notin> ready_id ` set out" using Cons.prems(1) Run by simp
    have s: "fold (surface_step p) (Run i # out) (led, ns) = fold (surface_step p) out (led, ns @ [n])"
      by (simp add: surface_step_simps(2) [OF n])
    have x: "run_ids (Run i # out) = i # run_ids out" by simp
    show ?thesis
      unfolding Run preview_ready_Run [OF n] ih [of _ _ "ns @ [n]"] s x
        surface_fst_upd [OF i, of p led _ _ "ns @ [n]"] record_runs_simps
      by simp
  qed
qed simp

lemma preview_entry_inv:
  assumes inv: "frontier_inv p f" and i: "i \<in> fr_dispatched f" and n: "plan_node p i = Some n"
    and a: "caps_allows caps (en_target n) (en_kind n)"
  shows "entry_inv p caps bound (frontier_complete f i) [] i (preview_entry n)"
proof -
  have "en_id n = i" using n by (auto dest: plan_node_SomeD)
  moreover have "i \<notin> fr_tainted (frontier_complete f i)"
    using frontier.complete_law [OF inv i] frontier.inv_views [OF inv] i by auto
  ultimately show ?thesis
    using n a by (simp add: entry_inv_def entry_matches_def status_inv_def preview_entry_def
        node_allowed_def calls_of_def)
qed

lemma preview_runs_ok:
  assumes "walk_ok p caps bound (set is) {} f led [] []" "distinct is" "\<forall>i\<in>set is. plan_node p i \<noteq> None"
    "f' = fold (preview_frontier p caps) is f" "led' = record_runs p caps is led"
  shows "walk_ok p caps bound {} {} f' led' [] [] \<and> fr_settled f' = fr_settled f \<union> set is"
  using assms
proof (induction "is" arbitrary: f led)
  case (Cons i "is")
  obtain n where n: "plan_node p i = Some n" using Cons.prems(3) by auto
  have inv: "frontier_inv p f" and iD: "i \<in> fr_dispatched f" and iR: "i \<in> set (i # is)"
    using Cons.prems(1) unfolding walk_ok_def by auto
  have R: "set (i # is) - {i} = set is" using Cons.prems(2) by auto
  have dist: "distinct is" and nodes: "\<forall>i\<in>set is. plan_node p i \<noteq> None" using Cons.prems by auto
  have c0: "calls_of [] i = 0" by (simp add: calls_of_def)
  show ?case
  proof (cases "caps_allows caps (en_target n) (en_kind n)")
    case True
    have one: "preview_frontier p caps i f = frontier_complete f i" "preview_run_entry p caps i = preview_entry n"
      using n True by (simp_all add: preview_frontier_def preview_run_entry_def)
    have w: "walk_ok p caps bound (set is) {} (frontier_complete f i) (led(i \<mapsto> preview_entry n)) [] []"
      using walk_ok_complete [OF Cons.prems(1) iR preview_entry_inv [OF inv iD n True]] unfolding R by simp
    have "f' = fold (preview_frontier p caps) is (frontier_complete f i)"
      "led' = record_runs p caps is (led(i \<mapsto> preview_entry n))"
      using Cons.prems(4,5) by (simp_all add: one)
    from Cons.IH [OF w dist nodes this] show ?thesis using frontier.complete_law [OF inv iD] by (elim conjE, intro conjI) auto
  next
    case False
    have one: "preview_frontier p caps i f = frontier_fail f i" "preview_run_entry p caps i = denied_entry n"
      using n False by (simp_all add: preview_frontier_def preview_run_entry_def)
    have w: "walk_ok p caps bound (set is) {} (frontier_fail f i) (led(i \<mapsto> denied_entry n)) [] []"
      using walk_ok_fail [OF Cons.prems(1) iR denied_entry_inv [OF inv iD n False c0]] unfolding R by simp
    have "f' = fold (preview_frontier p caps) is (frontier_fail f i)"
      "led' = record_runs p caps is (led(i \<mapsto> denied_entry n))"
      using Cons.prems(4,5) by (simp_all add: one)
    from Cons.IH [OF w dist nodes this] show ?thesis using frontier.fail_law [OF inv iD] by (elim conjE, intro conjI) auto
  qed
qed simp

section \<open>The loop\<close>

lemma preview_loop_spec:
  assumes "walk_ok p caps bound {} {} f led [] []" "length (pl_nodes p) < fuel + card (fr_settled f)"
  shows "\<exists>led' f'. preview_loop fuel p caps (f, led) = Some (Inr led')
    \<and> walk_ok p caps bound {} {} f' led' [] [] \<and> frontier_is_done f'"
  using assms
proof (induction fuel arbitrary: f led)
  case 0
  have inv: "frontier_inv p f" using 0(1) by (simp add: walk_ok_def)
  have "card (fr_settled f) \<le> card (set (plan_ids p))"
    using frontier.inv_views [OF inv] by (intro card_mono) auto
  also have "\<dots> \<le> length (pl_nodes p)" using card_length [of "plan_ids p"] by simp
  finally show ?case using 0(2) by simp
next
  case (Suc fuel)
  have inv: "frontier_inv p f" and disp: "fr_dispatched f = {}" using Suc.prems(1) by (auto simp: walk_ok_def)
  obtain f1 out where r: "frontier_ready f = (f1, out)" by (cases "frontier_ready f")
  obtain led1 ns where s: "fold (surface_step p) out (led, []) = (led1, ns)"
    by (cases "fold (surface_step p) out (led, [])")
  note ready = walk_ok_ready [OF Suc.prems(1) r s]
  note spec = frontier.ready_inv [OF inv r]
  show ?case
  proof (cases "out = []")
    case True
    then have "frontier_is_done f" using frontier.ready_some [OF inv disp _ r] by blast
    then show ?thesis using True r Suc.prems(1) by auto
  next
    case False
    define f2 where "f2 = fold (preview_frontier p caps) (run_ids out) f1"
    define led2 where "led2 = record_runs p caps (run_ids out) led1"
    have nodes: "\<forall>i\<in>set (run_ids out). plan_node p i \<noteq> None" using ready(4) by (simp add: set_run_ids)
    have w1: "walk_ok p caps bound (set (run_ids out)) {} f1 led1 [] []" using ready(1) by (simp add: set_run_ids)
    note w2 = preview_runs_ok [OF w1 ready(3) nodes f2_def led2_def]
    have "preview_ready p caps out (f1, led) = Inr (f2, led2)"
      using preview_ready_eq [of out p caps f1 led "[]"] spec ready(4) s by (simp add: f2_def led2_def)
    then have step: "preview_loop (Suc fuel) p caps (f, led) = preview_loop fuel p caps (f2, led2)"
      using False r by simp
    have S: "fr_settled f2 = fr_settled f \<union> (skips out \<union> runs out)" using w2 spec by (auto simp: set_run_ids)
    have ids: "skips out \<union> runs out = ready_id ` set out"
    proof (induction out)
      case (Cons r out)
      then show ?case by (cases r) (auto simp: runs_skips_Cons)
    qed simp
    have "ready_id (hd out) \<in> ready_id ` set out" using False by simp
    moreover have "ready_id (hd out) \<notin> fr_settled f" using frontier.ready_fresh [OF inv r, of "hd out"] False by simp
    ultimately have "fr_settled f \<subset> fr_settled f2" unfolding S ids by blast
    moreover have "finite (fr_settled f2)" using w2 settled_finite by (auto simp: walk_ok_def)
    ultimately have "card (fr_settled f) < card (fr_settled f2)" by (rule psubset_card_mono [rotated])
    then have "length (pl_nodes p) < fuel + card (fr_settled f2)" using Suc.prems(2) by simp
    then show ?thesis using Suc.IH w2 step by simp
  qed
qed

text \<open>No preview entry records an attempt.\<close>

definition no_attempts :: "(node_id \<rightharpoonup> ledger_entry) \<Rightarrow> bool" where
  "no_attempts led \<longleftrightarrow> (\<forall>i e. led i = Some e \<longrightarrow> leg_attempts (le_status e) = 0)"

lemma no_attempts_upd [simp]:
  "no_attempts led \<Longrightarrow> leg_attempts (le_status e) = 0 \<Longrightarrow> no_attempts (led(i \<mapsto> e))"
  by (simp add: no_attempts_def)

lemma entry_no_attempts [simp]:
  "leg_attempts (le_status (skip_entry p i c)) = 0" "leg_attempts (le_status (denied_entry n)) = 0"
  "leg_attempts (le_status (preview_entry n)) = 0"
  by (simp_all add: skip_entry_def denied_entry_def preview_entry_def split: option.splits)

lemma preview_ready_no_attempts:
  "preview_ready p caps out (f, led) = Inr (f', led') \<Longrightarrow> no_attempts led \<Longrightarrow> no_attempts led'"
  by (induction p caps out "(f, led)" arbitrary: f led rule: preview_ready.induct)
     (auto split: option.splits if_splits simp del: fun_upd_apply)

lemma preview_loop_no_attempts:
  "preview_loop fuel p caps (f, led) = Some (Inr led') \<Longrightarrow> no_attempts led \<Longrightarrow> no_attempts led'"
proof (induction fuel arbitrary: f led)
  case (Suc fuel)
  obtain f1 out where r: "frontier_ready f = (f1, out)" by (cases "frontier_ready f")
  show ?case
  proof (cases "out = []")
    case False
    then obtain g l where "preview_ready p caps out (f1, led) = Inr (g, l)"
      "preview_loop fuel p caps (g, l) = Some (Inr led')"
      using Suc.prems(1) r by (auto split: sum.splits)
    then show ?thesis using Suc.IH preview_ready_no_attempts Suc.prems(2) by blast
  qed (use Suc.prems r in simp)
qed simp

text \<open>A preview walks the same scheduler as a commit: its final state satisfies the same invariant.\<close>

lemma preview_final:
  assumes order: "topo_order p = Some order" and f: "frontier_new p = Some f"
  obtains shown st where "interp_preview p caps = Some (Inr shown)"
    "interp_inv p caps \<lparr>lim_global = 0, lim_per_driver = 0\<rparr> 1 (st :: 'j interp_state)"
    "fr_settled (is_frontier st) = set order" "shown = map (\<lambda>i. the (is_ledger st i)) order"
    "map le_id shown = order" "is_calls st = []" "\<forall>e\<in>set shown. leg_attempts (le_status e) = 0"
proof -
  have w0: "walk_ok p caps 1 {} {} f Map.empty [] []"
    using frontier_new_inv [OF f] by (simp add: walk_ok_def calls_of_def)
  have "\<exists>led f'. preview_loop (length (pl_nodes p) + 1) p caps (f, Map.empty) = Some (Inr led)
      \<and> walk_ok p caps 1 {} {} f' led [] [] \<and> frontier_is_done f'"
    by (rule preview_loop_spec [OF w0]) simp
  then obtain led f' where l: "preview_loop (length (pl_nodes p) + 1) p caps (f, Map.empty) = Some (Inr led)"
    and w: "walk_ok p caps 1 {} {} f' led [] []" "frontier_is_done f'" by blast
  have inv': "frontier_inv p f'" using w by (simp add: walk_ok_def)
  have S': "fr_settled f' = set order" using done_iff [OF inv'] w(2) topo.order_set [OF order] by simp
  define st :: "'j interp_state" where "st = interp_init f'\<lparr>is_ledger := led\<rparr>"
  have dom: "dom led = set order" using w(1) S' by (simp add: walk_ok_def)
  define shown where "shown = map (\<lambda>i. the (led i)) order"
  have led: "led i = Some (the (led i))" if "i \<in> set order" for i
    using that dom by (metis domIff option.collapse)
  have "entry_inv p caps 1 f' [] i (the (led i))" if "i \<in> set order" for i
    using w(1) led [OF that] by (simp add: walk_ok_def)
  then have ids: "map le_id shown = order"
    unfolding shown_def map_map by (intro map_idI) (auto simp: entry_inv_def entry_matches_def)
  have "\<forall>e\<in>set shown. leg_attempts (le_status e) = 0"
    using preview_loop_no_attempts [OF l] led by (auto simp: shown_def no_attempts_def)
  moreover have "interp_preview p caps = Some (Inr shown)"
    using order f l map_filter_dom [of order led] dom by (simp add: interp_preview_def assemble_def shown_def)
  moreover have "interp_inv p caps \<lparr>lim_global = 0, lim_per_driver = 0\<rparr> 1 st"
    "fr_settled (is_frontier st) = set order" "shown = map (\<lambda>i. the (is_ledger st i)) order" "is_calls st = []"
    using w(1) S' by (simp_all add: st_def interp_inv_def interp_init_def shown_def)
  ultimately show thesis using that ids by blast
qed

section \<open>Properties\<close>

text \<open>A preview never runs out of its loop's rounds and has an entry for every node of a plan
  with an order; and it is honest about the commit: a node any commit of the plan applies, under
  the same capabilities, is shown as applied by the preview.\<close>

theorem interp_preview_covers_commit:
  assumes "interp_run p caps lim regs retry (Inr ledger) calls" and "0 < lim_global lim"
  shows "\<exists>shown. interp_preview p caps = Some (Inr shown) \<and> map le_id shown = map le_id ledger
    \<and> set (outcome_applied_ids ledger) \<subseteq> set (outcome_applied_ids shown)"
proof -
  obtain order st where r: "topo_order p = Some order" "ledger = map (\<lambda>i. the (is_ledger st i)) order"
    "calls = is_calls st" "interp_inv p caps lim (unat (rp_max_attempts retry)) st"
    "fr_settled (is_frontier st) = set order" "calls_ordered p calls" "map le_id ledger = order"
    by (rule interp_run_final [OF assms])
  obtain f where f: "frontier_new p = Some f" using frontier_new_Some_iff [of p] r(1) by auto
  obtain shown pst where q: "interp_preview p caps = Some (Inr shown)"
    "interp_inv p caps \<lparr>lim_global = 0, lim_per_driver = 0\<rparr> 1 pst"
    "fr_settled (is_frontier pst) = set order" "shown = map (\<lambda>i. the (is_ledger pst i)) order"
    "map le_id shown = order" "is_calls pst = []" "\<forall>e\<in>set shown. leg_attempts (le_status e) = 0"
    by (rule preview_final [OF r(1) f])
  note A = final_applied [OF r(4,5,2,7)] and PA = final_applied [OF q(2,3,4,5)]
  have inv: "frontier_inv p (is_frontier st)" by (rule interp_inv_frontier [OF r(4)])
  have wf: "wf (set (live_deps p))" using inv by (simp add: frontier_inv_def finite_acyclic_wf)
  have "i \<in> applied_set (is_frontier pst)" if "i \<in> applied_set (is_frontier st)" for i
    using wf that
  proof (induction i rule: wf_induct_rule)
    case (less i)
    have par: "a \<in> applied_set (is_frontier pst)" if "(a, i) \<in> set (live_deps p)" for a
      using less.IH [OF that] frontier.inv_parents [OF inv that] less.prems by (auto simp: applied_set_def)
    have iS: "i \<in> set order" using less.prems r(5) by (simp add: applied_set_def)
    then obtain e e' where e: "e \<in> set ledger" "le_id e = i" and e': "e' \<in> set shown" "le_id e' = i"
      using r(7) q(5) by (metis image_iff list.set_map)
    have "node_allowed p caps i"
      using final_entry(1) [OF r(4,5,2) e(1)] less.prems e(2)
      by (cases "le_status e") (auto simp: entry_inv_def status_inv_def applied_set_def)
    moreover have "entry_inv p caps 1 (is_frontier pst) [] i e'"
      using final_entry(1) [OF q(2,3,4) e'(1)] e'(2) q(6) by simp
    moreover have "leg_attempts (le_status e') = 0" using e'(1) q(7) by blast
    ultimately show ?case
      using par iS q(3)
      by (cases "le_status e'") (auto simp: entry_inv_def status_inv_def applied_set_def calls_of_def)
  qed
  then have "set (outcome_applied_ids ledger) \<subseteq> set (outcome_applied_ids shown)" unfolding A PA by blast
  then show ?thesis using q(1,5) r(7) by simp
qed

theorem interp_preview_covers_commit_witness:
  "\<exists>ledger calls shown. interp_run demo_plan caps_allow_all limits_default {''db''} retry_default (Inr ledger) calls
     \<and> interp_preview demo_plan caps_allow_all = Some (Inr shown) \<and> map le_id shown = map le_id ledger"
proof -
  obtain f where "frontier_new demo_plan = Some f" using demo_frontier(1) by auto
  moreover have lim: "0 < lim_global limits_default" by code_simp
  ultimately obtain ledger calls where
    r: "interp_run demo_plan caps_allow_all limits_default {''db''} retry_default (Inr ledger) calls"
    using interp_run_total by blast
  from interp_preview_covers_commit [OF r lim] obtain shown where
    "interp_preview demo_plan caps_allow_all = Some (Inr shown)" "map le_id shown = map le_id ledger" by blast
  then show ?thesis using r by (intro exI conjI)
qed

end
