(* ===== verification/Policy_Model.thy ===== *)
theory Policy_Model
  imports Path_Glob Plan_Model Text_Util
begin

text \<open>
  The policy vocabulary, \<open>crates/server/src/policy/model.rs\<close>: verbs and verb sets, driver globs,
  subjects, realm-scoped path globs, conditions, rules and policies; and \<open>Realm\<close> of
  \<open>crates/core/src/registry.rs\<close>. A verb set is its \<open>u8\<close> mask. The role graph is in
  \<open>Policy_Roles\<close>, the enforcer in \<open>Policy_Enforce\<close>.
\<close>

section \<open>Verbs and verb sets\<close>

datatype verb = VSelect | VInsert | VUpsert | VUpdate | VRemove | VCall

definition verb_all :: "verb list" where
  "verb_all = [VSelect, VInsert, VUpsert, VUpdate, VRemove, VCall]"

fun verb_label_of :: "verb \<Rightarrow> string" where
  "verb_label_of VSelect = ''SELECT''"
| "verb_label_of VInsert = ''INSERT''"
| "verb_label_of VUpsert = ''UPSERT''"
| "verb_label_of VUpdate = ''UPDATE''"
| "verb_label_of VRemove = ''REMOVE''"
| "verb_label_of VCall = ''CALL''"

definition verb_from_label :: "string \<Rightarrow> verb option" where
  "verb_from_label w =
     (if w = ''SELECT'' then Some VSelect
      else if w = ''INSERT'' then Some VInsert
      else if w = ''UPSERT'' then Some VUpsert
      else if w = ''UPDATE'' then Some VUpdate
      else if w = ''REMOVE'' then Some VRemove
      else if w = ''CALL'' then Some VCall
      else None)"

fun verb_bit :: "verb \<Rightarrow> u8" where
  "verb_bit VSelect = 1"
| "verb_bit VInsert = 2"
| "verb_bit VUpsert = 4"
| "verb_bit VUpdate = 8"
| "verb_bit VRemove = 16"
| "verb_bit VCall = 32"

fun is_irreversible_class :: "verb \<Rightarrow> bool" where
  "is_irreversible_class VRemove = True"
| "is_irreversible_class VCall = True"
| "is_irreversible_class _ = False"

datatype effectivity = Allow | Deny

fun effectivity_label :: "effectivity \<Rightarrow> string" where
  "effectivity_label Allow = ''ALLOW''"
| "effectivity_label Deny = ''DENY''"

definition effectivity_from_label :: "string \<Rightarrow> effectivity option" where
  "effectivity_from_label w =
     (if w = ''ALLOW'' then Some Allow else if w = ''DENY'' then Some Deny else None)"

datatype verb_set = VerbSet (vs_bits: u8)

definition verbs_empty :: verb_set where
  "verbs_empty = VerbSet 0"

definition verbs_from :: "verb list \<Rightarrow> verb_set" where
  "verbs_from vs = VerbSet (fold (\<lambda>v bits. or bits (verb_bit v)) vs 0)"

definition verbs_all :: verb_set where
  "verbs_all = VerbSet (fold (\<lambda>v bits. or bits (verb_bit v)) verb_all 0)"

definition verbs_one :: "verb \<Rightarrow> verb_set" where
  "verbs_one v = VerbSet (verb_bit v)"

definition verbs_with :: "verb_set \<Rightarrow> verb \<Rightarrow> verb_set" where
  "verbs_with s v = VerbSet (or (vs_bits s) (verb_bit v))"

definition verbs_contains :: "verb_set \<Rightarrow> verb \<Rightarrow> bool" where
  "verbs_contains s v \<longleftrightarrow> and (vs_bits s) (verb_bit v) \<noteq> 0"

definition verbs_is_empty :: "verb_set \<Rightarrow> bool" where
  "verbs_is_empty s \<longleftrightarrow> vs_bits s = 0"

definition verbs_is_all :: "verb_set \<Rightarrow> bool" where
  "verbs_is_all s \<longleftrightarrow> s = verbs_all"

definition verbs_list :: "verb_set \<Rightarrow> verb list" where
  "verbs_list s = filter (verbs_contains s) verb_all"

section \<open>Driver globs\<close>

datatype driver_glob = DriverGlob (dg_raw: string)

definition glob_any :: driver_glob where
  "glob_any = DriverGlob []"

definition glob_is_any :: "driver_glob \<Rightarrow> bool" where
  "glob_is_any g \<longleftrightarrow> dg_raw g = []"

definition trim_slashes :: "string \<Rightarrow> string" where
  "trim_slashes s = dropWhile (\<lambda>c. c = CHR ''/'') s"

definition driver_glob_matches :: "driver_glob \<Rightarrow> driver_id \<Rightarrow> string \<Rightarrow> bool" where
  "driver_glob_matches g driver path =
     (if glob_is_any g then True
      else
        (let path_segs = split_char CHR ''/'' (trim_slashes path);
             glob_segs = split_char CHR ''/'' (trim_slashes (dg_raw g));
             head = (case path_segs of
                       s # _ \<Rightarrow> if s \<noteq> [] then path_segs else [driver]
                     | [] \<Rightarrow> [driver])
         in if length head < length glob_segs then False
            else list_all (\<lambda>(g, p). g = ''*'' \<or> g = p) (zip glob_segs head)))"

section \<open>Subjects\<close>

datatype subject = Anyone | SUser string | SRole string | SGroup string | SAgent string

fun subject_is_anyone :: "subject \<Rightarrow> bool" where
  "subject_is_anyone Anyone = True"
| "subject_is_anyone _ = False"

fun subject_label :: "subject \<Rightarrow> string" where
  "subject_label Anyone = ''anyone''"
| "subject_label (SUser u) = ''user:'' @ u"
| "subject_label (SRole r) = ''role:'' @ r"
| "subject_label (SGroup g) = ''group:'' @ g"
| "subject_label (SAgent a) = ''agent:'' @ a"

definition subject_from_label :: "string \<Rightarrow> subject option" where
  "subject_from_label w =
     (if w = ''anyone'' then Some Anyone
      else case split_once CHR '':'' w of
             None \<Rightarrow> None
           | Some (kind, name) \<Rightarrow>
               if name = [] then None
               else if kind = ''user'' then Some (SUser name)
               else if kind = ''role'' then Some (SRole name)
               else if kind = ''group'' then Some (SGroup name)
               else if kind = ''agent'' then Some (SAgent name)
               else None)"

section \<open>Realms and scope globs\<close>

datatype realm = Members | Projects | Hosts | Directories | Me | Sys

definition realm_from_segment :: "string \<Rightarrow> realm option" where
  "realm_from_segment s =
     (if s = ''members'' then Some Members
      else if s = ''projects'' then Some Projects
      else if s = ''hosts'' then Some Hosts
      else if s = ''directories'' then Some Directories
      else if s = ''me'' then Some Me
      else if s = ''sys'' then Some Sys
      else None)"

fun realm_str :: "realm \<Rightarrow> string" where
  "realm_str Members = ''members''"
| "realm_str Projects = ''projects''"
| "realm_str Hosts = ''hosts''"
| "realm_str Directories = ''directories''"
| "realm_str Me = ''me''"
| "realm_str Sys = ''sys''"

datatype scope_glob = ScopeGlob (sg_pattern: string)

definition scope_glob_parse :: "string \<Rightarrow> scope_glob option" where
  "scope_glob_parse path =
     (let segs = path_segments (trim_slashes path)
      in if segs = [] then None else Some (ScopeGlob (CHR ''/'' # join_with ''/'' segs)))"

definition scope_peel :: "string \<Rightarrow> realm \<times> string list" where
  "scope_peel path =
     (case path_segments (trim_slashes path) of
        [] \<Rightarrow> (Me, [])
      | first # segs \<Rightarrow>
          (case realm_from_segment first of
             Some r \<Rightarrow> (r, segs)
           | None \<Rightarrow> (Me, first # segs)))"

definition scope_realm :: "scope_glob \<Rightarrow> realm" where
  "scope_realm g = fst (scope_peel (sg_pattern g))"

fun policy_glob_loop :: "string list \<Rightarrow> string list \<Rightarrow> bool" where
  "policy_glob_loop [] node = (node = [])"
| "policy_glob_loop (g # gs) node =
     (if g = ''**'' then True
      else case node of
             [] \<Rightarrow> False
           | n # ns \<Rightarrow> if g \<noteq> ''*'' \<and> g \<noteq> n then False else policy_glob_loop gs ns)"

definition policy_glob_match :: "string list \<Rightarrow> string list \<Rightarrow> bool" where
  "policy_glob_match glob node = (if glob = [] then True else policy_glob_loop glob node)"

definition scope_matches_path :: "scope_glob \<Rightarrow> string \<Rightarrow> bool" where
  "scope_matches_path g path =
     (case scope_peel (sg_pattern g) of (glob_realm, glob_segs) \<Rightarrow>
      case scope_peel path of (node_realm, node_segs) \<Rightarrow>
        if glob_realm \<noteq> node_realm then False else policy_glob_match glob_segs node_segs)"

section \<open>Conditions, rules, policies\<close>

datatype condition = Always | MemberOf string

fun member_of_ref :: "condition \<Rightarrow> string option" where
  "member_of_ref Always = None"
| "member_of_ref (MemberOf dir) = Some dir"

text \<open>The quote of the rendered call, \<open>member_of('...')\<close>, is the character of code 39.\<close>

definition quote_char :: char where
  "quote_char = char_of (39 :: nat)"

fun condition_label :: "condition \<Rightarrow> string option" where
  "condition_label Always = None"
| "condition_label (MemberOf dir) = Some (''member_of('' @ [quote_char] @ dir @ [quote_char] @ '')'')"

record rule =
  ru_effect :: effectivity
  ru_verbs :: verb_set
  ru_driver :: driver_glob
  ru_all_token :: bool
  ru_subject :: subject
  ru_scope :: "scope_glob option"
  ru_condition :: condition

definition rule_new :: "effectivity \<Rightarrow> verb_set \<Rightarrow> driver_glob \<Rightarrow> rule" where
  "rule_new e vs g =
     \<lparr>ru_effect = e, ru_verbs = vs, ru_driver = g, ru_all_token = False, ru_subject = Anyone,
      ru_scope = None, ru_condition = Always\<rparr>"

definition rule_allow :: "verb_set \<Rightarrow> driver_glob \<Rightarrow> rule" where
  "rule_allow vs g = rule_new Allow vs g"

definition rule_deny :: "verb_set \<Rightarrow> driver_glob \<Rightarrow> rule" where
  "rule_deny vs g = rule_new Deny vs g"

definition rule_as_all_token :: "rule \<Rightarrow> rule" where
  "rule_as_all_token r = r\<lparr>ru_all_token := True\<rparr>"

definition rule_for_subject :: "rule \<Rightarrow> subject \<Rightarrow> rule" where
  "rule_for_subject r s = r\<lparr>ru_subject := s\<rparr>"

definition rule_scoped :: "rule \<Rightarrow> scope_glob \<Rightarrow> rule" where
  "rule_scoped r g = r\<lparr>ru_scope := Some g\<rparr>"

definition rule_when :: "rule \<Rightarrow> condition \<Rightarrow> rule" where
  "rule_when r c = r\<lparr>ru_condition := c\<rparr>"

definition rule_matches :: "rule \<Rightarrow> verb \<Rightarrow> driver_id \<Rightarrow> string \<Rightarrow> bool" where
  "rule_matches r v driver path =
     (if \<not> driver_glob_matches (ru_driver r) driver path then False
      else if \<not> verbs_contains (ru_verbs r) v then False
      else if ru_effect r = Allow \<and> ru_all_token r \<and> is_irreversible_class v then False
      else True)"

record policy =
  po_name :: string
  po_rules :: "rule list"
  po_default :: effectivity

definition policy_default :: policy where
  "policy_default = \<lparr>po_name = [], po_rules = [], po_default = Deny\<rparr>"

definition policy_new :: "string \<Rightarrow> policy" where
  "policy_new n = policy_default\<lparr>po_name := n\<rparr>"

definition policy_with_rule :: "policy \<Rightarrow> rule \<Rightarrow> policy" where
  "policy_with_rule p r = p\<lparr>po_rules := po_rules p @ [r]\<rparr>"

section \<open>Facts\<close>

lemma policy_glob_loop_strict: "policy_glob_loop glob node \<longleftrightarrow> glob_strict glob node"
proof (induction glob node rule: policy_glob_loop.induct)
  case (1 node)
  then show ?case by (simp add: glob_strict_simps)
next
  case (2 g gs node)
  then show ?case
    by (cases "g = ''**''"; cases node) (auto simp: glob_strict_simps seg_matches_def)
qed

interpretation policy_glob: segment_glob policy_glob_match
  by unfold_locales (auto simp: policy_glob_match_def policy_glob_loop_strict glob_spec_def glob_strict_def)

lemma verb_bit_disjoint: "and (verb_bit a) (verb_bit b) \<noteq> 0 \<longleftrightarrow> a = b"
  by (cases a; cases b) simp_all

lemma and_or_nonzero: "and (or a b) c \<noteq> 0 \<longleftrightarrow> and a c \<noteq> 0 \<or> and b c \<noteq> 0" for a b c :: u8
  unfolding bit.conj_disj_distrib2 or_eq_0_iff by blast

lemma verbs_contains_with [simp]: "verbs_contains (verbs_with s v) w \<longleftrightarrow> verbs_contains s w \<or> v = w"
  unfolding verbs_contains_def verbs_with_def verb_set.sel and_or_nonzero verb_bit_disjoint by (rule refl)

lemma verbs_contains_fold:
  "and (fold (\<lambda>v bits. or bits (verb_bit v)) vs bits) (verb_bit w) \<noteq> 0 \<longleftrightarrow>
   and bits (verb_bit w) \<noteq> 0 \<or> w \<in> set vs"
proof (induction vs arbitrary: bits)
  case (Cons v vs)
  show ?case unfolding fold_simps comp_apply Cons.IH and_or_nonzero verb_bit_disjoint by auto
qed simp

lemma verbs_contains_simps [simp]:
  "verbs_contains (verbs_from vs) w \<longleftrightarrow> w \<in> set vs"
  "verbs_contains (verbs_one v) w \<longleftrightarrow> v = w"
  "\<not> verbs_contains verbs_empty w"
  by (simp_all add: verbs_contains_def verbs_from_def verbs_contains_fold verbs_one_def
      verb_bit_disjoint verbs_empty_def)

lemma verbs_contains_all [simp]: "verbs_contains verbs_all w"
  by (cases w) (simp_all add: verbs_contains_def verbs_all_def verbs_contains_fold verb_all_def)

lemma verb_label_roundtrip [simp]: "verb_from_label (verb_label_of v) = Some v"
  by (cases v) (simp_all add: verb_from_label_def)

lemma verb_from_label_SomeD: "verb_from_label w = Some v \<Longrightarrow> w = verb_label_of v"
  by (auto simp: verb_from_label_def split: if_splits)

lemma effectivity_roundtrip [simp]: "effectivity_from_label (effectivity_label e) = Some e"
  by (cases e) (simp_all add: effectivity_from_label_def)

lemma realm_roundtrip [simp]: "realm_from_segment (realm_str r) = Some r"
  by (cases r) (simp_all add: realm_from_segment_def)

lemma bit_verbs_fold:
  "bit (fold (\<lambda>v bits. or bits (verb_bit v)) vs bits) n \<longleftrightarrow> bit bits n \<or> (\<exists>v\<in>set vs. bit (verb_bit v) n)"
proof (induction vs arbitrary: bits)
  case (Cons v vs)
  show ?case unfolding fold_simps comp_apply Cons.IH bit_or_iff by auto
qed simp

lemma verbs_from_cong: "set vs = set ws \<Longrightarrow> verbs_from vs = verbs_from ws"
  by (auto simp: verbs_from_def bit_verbs_fold intro!: bit_eqI)

text \<open>On the masks the constructors build, a verb set is determined by its verbs.\<close>

definition verbs_ok :: "verb_set \<Rightarrow> bool" where
  "verbs_ok s \<longleftrightarrow> s \<in> range verbs_from"

lemma verbs_ok_simps [simp]:
  "verbs_ok (verbs_from vs)" "verbs_ok (verbs_one v)" "verbs_ok verbs_all" "verbs_ok verbs_empty"
  "verbs_ok s \<Longrightarrow> verbs_ok (verbs_with s v)"
proof -
  show "verbs_ok (verbs_from vs)" by (simp add: verbs_ok_def)
  have "verbs_one v = verbs_from [v]" by (simp add: verbs_one_def verbs_from_def)
  then show "verbs_ok (verbs_one v)" by (simp add: verbs_ok_def)
  have "verbs_all = verbs_from verb_all" by (simp add: verbs_all_def verbs_from_def)
  then show "verbs_ok verbs_all" by (simp add: verbs_ok_def)
  have "verbs_empty = verbs_from []" by (simp add: verbs_empty_def verbs_from_def)
  then show "verbs_ok verbs_empty" by (simp add: verbs_ok_def)
  have "verbs_with (verbs_from ws) v = verbs_from (ws @ [v])" for ws
    by (simp add: verbs_with_def verbs_from_def)
  then show "verbs_ok s \<Longrightarrow> verbs_ok (verbs_with s v)" by (auto simp: verbs_ok_def)
qed

lemma verb_all_complete [simp]: "v \<in> set verb_all"
  by (cases v) (simp_all add: verb_all_def)

lemma verbs_from_list: "verbs_ok s \<Longrightarrow> verbs_from (verbs_list s) = s"
  by (auto simp: verbs_ok_def verbs_list_def intro!: verbs_from_cong)

lemma set_verbs_list [simp]: "set (verbs_list s) = {v. verbs_contains s v}"
  by (auto simp: verbs_list_def)

lemma subject_roundtrip:
  assumes "case s of Anyone \<Rightarrow> True | SUser n \<Rightarrow> n \<noteq> [] | SRole n \<Rightarrow> n \<noteq> [] | SGroup n \<Rightarrow> n \<noteq> [] | SAgent n \<Rightarrow> n \<noteq> []"
  shows "subject_from_label (subject_label s) = Some s"
  using assms by (cases s) (simp_all add: subject_from_label_def)

end
