(* ===== verification/Policy_Roles.thy ===== *)
theory Policy_Roles
  imports Policy_Model "HOL-Library.AList"
begin

text \<open>
  Role inheritance, \<open>RoleGraph\<close> of \<open>crates/server/src/policy/model.rs\<close>. The \<open>BTreeMap\<close> of
  parents is an association list, its \<open>BTreeSet\<close> values are ascending lists, and a set of
  roles is a set. \<open>expand_loop\<close> is the worklist loop; the stack is kept top first.
\<close>

section \<open>The code\<close>

type_synonym role_graph = "(string \<times> string list) list"

definition role_graph_new :: role_graph where
  "role_graph_new = []"

definition role_inherits :: "role_graph \<Rightarrow> string \<Rightarrow> string \<Rightarrow> role_graph" where
  "role_inherits g role parent =
     (if role \<noteq> parent then AList.map_default role [parent] (insort_insert parent) g else g)"

definition role_parents :: "role_graph \<Rightarrow> string \<Rightarrow> string list" where
  "role_parents g role = (case map_of g role of Some ps \<Rightarrow> ps | None \<Rightarrow> [])"

definition push_parents :: "string list \<Rightarrow> string set \<Rightarrow> string list \<Rightarrow> string list" where
  "push_parents ps out stack = fold (\<lambda>p st. if p \<notin> out then p # st else st) ps stack"

definition graph_roles :: "role_graph \<Rightarrow> string set" where
  "graph_roles g = \<Union> (set ` snd ` set g)"

lemma set_push_parents: "set (push_parents ps out stack) = set stack \<union> (set ps - out)"
  unfolding push_parents_def by (induction ps arbitrary: stack) auto

lemma role_parents_subset: "set (role_parents g role) \<subseteq> graph_roles g"
proof (cases "map_of g role")
  case (Some ps)
  then have "(role, ps) \<in> set g" by (rule map_of_SomeD)
  then show ?thesis using Some by (force simp: role_parents_def graph_roles_def)
qed (simp add: role_parents_def)

function expand_loop :: "role_graph \<Rightarrow> string list \<Rightarrow> string set \<Rightarrow> string set" where
  "expand_loop g [] out = out"
| "expand_loop g (role # stack) out =
     (if role \<in> out then expand_loop g stack out
      else expand_loop g (push_parents (role_parents g role) (insert role out) stack) (insert role out))"
  by pat_completeness auto

text \<open>A new role leaves the finite set of roles still to come; a repeated one shortens the stack.\<close>

termination expand_loop
proof (relation "inv_image (less_than <*lex*> less_than)
    (\<lambda>(g, stack, out). (card ((set stack \<union> graph_roles g) - out), length stack))", goal_cases)
  case 1
  then show ?case by (intro wf_inv_image wf_lex_prod wf_less_than)
next
  case (2 g role stack out)
  have "(set (role # stack) \<union> graph_roles g) - out = (set stack \<union> graph_roles g) - out" using 2 by auto
  then show ?case by simp
next
  case (3 g role stack out)
  let ?st = "push_parents (role_parents g role) (insert role out) stack"
  have "(set ?st \<union> graph_roles g) - insert role out \<subseteq> (set (role # stack) \<union> graph_roles g) - out - {role}"
    using role_parents_subset [of g role] by (auto simp: set_push_parents)
  moreover have "role \<in> (set (role # stack) \<union> graph_roles g) - out" using 3 by simp
  moreover have "finite ((set (role # stack) \<union> graph_roles g) - out)" by (simp add: graph_roles_def)
  ultimately have "card ((set ?st \<union> graph_roles g) - insert role out)
      < card ((set (role # stack) \<union> graph_roles g) - out)"
    by (intro psubset_card_mono) blast+
  then show ?case by simp
qed

definition role_expand :: "role_graph \<Rightarrow> string set \<Rightarrow> string set" where
  "role_expand g roles = expand_loop g (rev (sorted_list_of_set roles)) {}"

section \<open>The worklist computes the closure\<close>

definition role_edges :: "role_graph \<Rightarrow> (string \<times> string) set" where
  "role_edges g = {(a, b). b \<in> set (role_parents g a)}"

lemma expand_loop_closure:
  assumes "\<And>x y. x \<in> out \<Longrightarrow> (x, y) \<in> role_edges g \<Longrightarrow> y \<in> out \<union> set stack"
  shows "expand_loop g stack out = (role_edges g)\<^sup>* `` (out \<union> set stack)"
  using assms
proof (induction g stack out rule: expand_loop.induct)
  case (1 g out)
  have "y \<in> out" if "(x, y) \<in> (role_edges g)\<^sup>*" "x \<in> out" for x y
    using that by (induction rule: rtrancl_induct) (use 1 in auto)
  then show ?case by auto
next
  case (2 g role stack out)
  show ?case
  proof (cases "role \<in> out")
    case True
    then have "out \<union> set (role # stack) = out \<union> set stack" by auto
    then show ?thesis using 2(1) [OF True] 2(3) True by simp
  next
    case False
    let ?out = "insert role out" and ?st = "push_parents (role_parents g role) (insert role out) stack"
    have inv: "y \<in> ?out \<union> set ?st" if "x \<in> ?out" "(x, y) \<in> role_edges g" for x y
      using that 2(3) [of x y] by (auto simp: set_push_parents role_edges_def)
    have "(role_edges g)\<^sup>* `` (?out \<union> set ?st) = (role_edges g)\<^sup>* `` (out \<union> set (role # stack))"
    proof
      have "set ?st \<subseteq> (role_edges g)\<^sup>* `` (out \<union> set (role # stack))"
        by (auto simp: set_push_parents role_edges_def)
      then have "?out \<union> set ?st \<subseteq> (role_edges g)\<^sup>* `` (out \<union> set (role # stack))" by auto
      then have "(role_edges g)\<^sup>* `` (?out \<union> set ?st)
          \<subseteq> (role_edges g)\<^sup>* `` (role_edges g)\<^sup>* `` (out \<union> set (role # stack))"
        by (rule Image_mono [OF subset_refl])
      then show "(role_edges g)\<^sup>* `` (?out \<union> set ?st) \<subseteq> (role_edges g)\<^sup>* `` (out \<union> set (role # stack))"
        by (simp flip: relcomp_Image)
      have "out \<union> set (role # stack) \<subseteq> ?out \<union> set ?st" by (auto simp: set_push_parents)
      then show "(role_edges g)\<^sup>* `` (out \<union> set (role # stack)) \<subseteq> (role_edges g)\<^sup>* `` (?out \<union> set ?st)" by blast
    qed
    then show ?thesis using 2(2) [OF False inv] False by simp
  qed
qed

lemma role_expand_closure: "finite roles \<Longrightarrow> role_expand g roles = (role_edges g)\<^sup>* `` roles"
  unfolding role_expand_def using expand_loop_closure [of "{}"] by simp

lemma map_of_map_default:
  "map_of (AList.map_default k v f al) =
     (map_of al)(k \<mapsto> case map_of al k of Some w \<Rightarrow> f w | None \<Rightarrow> v)"
  by (induction al) (auto split: option.splits)

lemma role_edges_inherits:
  "role_edges (role_inherits g r p) = role_edges g \<union> (if r \<noteq> p then {(r, p)} else {})"
  by (auto simp: role_inherits_def role_edges_def role_parents_def map_of_map_default
      set_insort_insert split: option.splits if_splits)

section \<open>Properties\<close>

text \<open>Expansion is the reflexive transitive closure of inheritance, for cyclic graphs too; so
  declaring one more inheritance, or granting one more role, never takes a role away.\<close>

theorem role_expand_additive:
  assumes "finite roles" and "finite added"
  shows "role_expand g roles = (role_edges g)\<^sup>* `` roles
    \<and> role_expand g roles \<subseteq> role_expand (role_inherits g r p) (roles \<union> added)"
proof -
  have "(role_edges g)\<^sup>* \<subseteq> (role_edges (role_inherits g r p))\<^sup>*"
    unfolding role_edges_inherits by (rule rtrancl_mono) blast
  then have "(role_edges g)\<^sup>* `` roles \<subseteq> (role_edges (role_inherits g r p))\<^sup>* `` (roles \<union> added)" by blast
  then show ?thesis using assms by (simp add: role_expand_closure)
qed

theorem role_expand_additive_witness:
  "role_expand (role_inherits (role_inherits role_graph_new ''a'' ''b'') ''b'' ''a'') {''a''} = {''a'', ''b''}
   \<and> role_expand (role_inherits role_graph_new ''a'' ''b'') {''a''}
       \<subseteq> role_expand (role_inherits (role_inherits role_graph_new ''a'' ''b'') ''b'' ''a'') ({''a''} \<union> {})"
proof -
  have "finite {''a''}" "finite ({} :: string set)" by simp_all
  from role_expand_additive [OF this, of "role_inherits role_graph_new ''a'' ''b''" "''b''" "''a''"]
  have "role_expand (role_inherits role_graph_new ''a'' ''b'') {''a''}
       \<subseteq> role_expand (role_inherits (role_inherits role_graph_new ''a'' ''b'') ''b'' ''a'') ({''a''} \<union> {})" by blast
  moreover have "role_expand (role_inherits (role_inherits role_graph_new ''a'' ''b'') ''b'' ''a'') {''a''} = {''a'', ''b''}"
    by code_simp
  ultimately show ?thesis by blast
qed

end
