(* ===== verification/Policy_Enforce.thy ===== *)
theory Policy_Enforce
  imports Policy_Roles
begin

text \<open>
  The decision context and the pure enforcer, \<open>crates/server/src/policy/{context,enforce}.rs\<close>.
  \<open>BTreeSet\<close>s are sets; the membership resolver, a trait object, is any function. The wording
  of \<open>deny_reason\<close> is left out. \<open>effect_walk\<close> is what the two faces of the enforcer share:
  the walk over a plan's nodes and the walk over the targets of a read.
\<close>

section \<open>Decision contexts\<close>

record decision_context =
  dc_user :: "string option"
  dc_agent :: "string option"
  dc_roles :: "string set"
  dc_groups :: "string set"
  dc_memberships :: "string set"

definition ctx_anonymous :: decision_context where
  "ctx_anonymous =
     \<lparr>dc_user = None, dc_agent = None, dc_roles = {}, dc_groups = {}, dc_memberships = {}\<rparr>"

definition ctx_for_user :: "string \<Rightarrow> decision_context" where
  "ctx_for_user u = ctx_anonymous\<lparr>dc_user := Some u\<rparr>"

definition ctx_for_agent :: "string \<Rightarrow> decision_context" where
  "ctx_for_agent a = ctx_anonymous\<lparr>dc_agent := Some a\<rparr>"

definition ctx_with_roles :: "decision_context \<Rightarrow> string list \<Rightarrow> role_graph \<Rightarrow> decision_context" where
  "ctx_with_roles c roles g = c\<lparr>dc_roles := role_expand g (set roles)\<rparr>"

definition ctx_with_groups :: "decision_context \<Rightarrow> string list \<Rightarrow> decision_context" where
  "ctx_with_groups c groups = c\<lparr>dc_groups := set groups\<rparr>"

definition ctx_with_membership :: "decision_context \<Rightarrow> string \<Rightarrow> decision_context" where
  "ctx_with_membership c dir = c\<lparr>dc_memberships := insert dir (dc_memberships c)\<rparr>"

fun satisfies_subject :: "decision_context \<Rightarrow> subject \<Rightarrow> bool" where
  "satisfies_subject c Anyone = True"
| "satisfies_subject c (SUser u) = (dc_user c = Some u)"
| "satisfies_subject c (SRole r) = (r \<in> dc_roles c)"
| "satisfies_subject c (SGroup g) = (g \<in> dc_groups c)"
| "satisfies_subject c (SAgent a) = (dc_agent c = Some a)"

fun satisfies_condition :: "decision_context \<Rightarrow> condition \<Rightarrow> bool" where
  "satisfies_condition c Always = True"
| "satisfies_condition c (MemberOf dir) = (dir \<in> dc_memberships c)"

definition resolve_rule ::
  "(string option \<Rightarrow> string \<Rightarrow> bool) \<Rightarrow> string option \<Rightarrow> rule \<Rightarrow> decision_context \<Rightarrow> decision_context" where
  "resolve_rule is_member actor r c =
     (case member_of_ref (ru_condition r) of
        Some dir \<Rightarrow>
          if dir \<notin> dc_memberships c \<and> is_member actor dir
          then c\<lparr>dc_memberships := insert dir (dc_memberships c)\<rparr> else c
      | None \<Rightarrow> c)"

definition resolve_memberships ::
  "decision_context \<Rightarrow> policy \<Rightarrow> (string option \<Rightarrow> string \<Rightarrow> bool) \<Rightarrow> decision_context" where
  "resolve_memberships c p is_member = fold (resolve_rule is_member (dc_user c)) (po_rules p) c"

section \<open>Decisions\<close>

datatype policy_decision =
    DAllow
  | DDeny (dd_node: u32) (dd_verb: verb) (dd_driver: driver_id) (dd_rule: "nat option")
      (dd_held: "nat option") (dd_detail: "string option")

fun decision_is_allow :: "policy_decision \<Rightarrow> bool" where
  "decision_is_allow DAllow = True"
| "decision_is_allow _ = False"

record read_target =
  rt_driver :: driver_id
  rt_path :: string

datatype effect_class = ECRead | ECVerb verb | ECUnknown

fun verb_of_op :: "server_write_op \<Rightarrow> verb" where
  "verb_of_op OpInsert = VInsert"
| "verb_of_op OpUpsert = VUpsert"
| "verb_of_op OpUpdate = VUpdate"
| "verb_of_op OpRemove = VRemove"

fun classify_effect :: "effect_kind \<Rightarrow> effect_class" where
  "classify_effect KRead = ECRead"
| "classify_effect KList = ECRead"
| "classify_effect KInsert = ECVerb VInsert"
| "classify_effect KUpsert = ECVerb VUpsert"
| "classify_effect KUpdate = ECVerb VUpdate"
| "classify_effect KRemove = ECVerb VRemove"
| "classify_effect (KCall _) = ECVerb VCall"
| "classify_effect (KServerConfigWrite _ op) = ECVerb (verb_of_op op)"

definition verb_for_effect :: "effect_kind \<Rightarrow> verb option" where
  "verb_for_effect k = (case classify_effect k of ECVerb v \<Rightarrow> Some v | _ \<Rightarrow> None)"

definition rule_matches_in_context ::
  "rule \<Rightarrow> verb \<Rightarrow> driver_id \<Rightarrow> string \<Rightarrow> decision_context \<Rightarrow> bool" where
  "rule_matches_in_context r v driver path c \<longleftrightarrow>
     rule_matches r v driver path \<and> satisfies_subject c (ru_subject r)
     \<and> (case ru_scope r of None \<Rightarrow> True | Some s \<Rightarrow> scope_matches_path s path)
     \<and> satisfies_condition c (ru_condition r)"

text \<open>The loop's \<open>if let Some(label)\<close> on a failed condition falls through to the next rule.\<close>

fun near_miss_axis ::
  "rule list \<Rightarrow> verb \<Rightarrow> driver_id \<Rightarrow> string \<Rightarrow> decision_context \<Rightarrow> string option" where
  "near_miss_axis [] v driver path c = None"
| "near_miss_axis (r # rs) v driver path c =
     (if \<not> rule_matches r v driver path then near_miss_axis rs v driver path c
      else if \<not> satisfies_subject c (ru_subject r)
      then Some (case dc_agent c of
                   Some a \<Rightarrow> ''subject (agent:'' @ a @ '' has no matching grant)''
                 | None \<Rightarrow> ''actor'')
      else (case (case ru_scope r of
                    Some s \<Rightarrow> if \<not> scope_matches_path s path then Some (''scope '' @ sg_pattern s) else None
                  | None \<Rightarrow> None) of
              Some d \<Rightarrow> Some d
            | None \<Rightarrow>
                (case (if \<not> satisfies_condition c (ru_condition r) then condition_label (ru_condition r) else None) of
                   Some label \<Rightarrow> Some label
                 | None \<Rightarrow> near_miss_axis rs v driver path c)))"

definition decide_effect ::
  "policy \<Rightarrow> u32 \<Rightarrow> verb \<Rightarrow> driver_id \<Rightarrow> string \<Rightarrow> decision_context \<Rightarrow> policy_decision option" where
  "decide_effect p node v driver path c =
     (let decided = map_option (\<lambda>i. (ru_effect (po_rules p ! i), Some i))
                      (position (\<lambda>r. rule_matches_in_context r v driver path c) (po_rules p));
          (effect, rule) = (case decided of Some d \<Rightarrow> d | None \<Rightarrow> (po_default p, None))
      in if effect \<noteq> Deny then None
         else
           (let held = (if rule = None \<and> is_irreversible_class v
                        then position (\<lambda>r. ru_effect r = Allow \<and> ru_all_token r \<and> verbs_contains (ru_verbs r) v
                                           \<and> driver_glob_matches (ru_driver r) driver path) (po_rules p)
                        else None);
                detail = (if rule = None \<and> held = None
                          then near_miss_axis (po_rules p) v driver path c else None)
            in Some (DDeny node v driver rule held detail)))"

section \<open>The two walks\<close>

definition node_verdict :: "policy \<Rightarrow> decision_context \<Rightarrow> 'j effect_node \<Rightarrow> policy_decision option" where
  "node_verdict p c n =
     (case classify_effect (en_kind n) of
        ECRead \<Rightarrow> None
      | ECVerb v \<Rightarrow> decide_effect p (en_id n) v (tgt_driver (en_target n)) (tgt_path (en_target n)) c
      | ECUnknown \<Rightarrow> Some (DDeny (en_id n) VCall (tgt_driver (en_target n)) None None None))"

fun evaluate_nodes :: "policy \<Rightarrow> 'j effect_node list \<Rightarrow> decision_context \<Rightarrow> policy_decision" where
  "evaluate_nodes p [] c = DAllow"
| "evaluate_nodes p (n # ns) c =
     (case node_verdict p c n of Some d \<Rightarrow> d | None \<Rightarrow> evaluate_nodes p ns c)"

definition evaluate_with_context :: "policy \<Rightarrow> 'j plan \<Rightarrow> decision_context \<Rightarrow> policy_decision" where
  "evaluate_with_context p pl c = evaluate_nodes p (pl_nodes pl) c"

definition evaluate :: "policy \<Rightarrow> 'j plan \<Rightarrow> policy_decision" where
  "evaluate p pl = evaluate_with_context p pl ctx_anonymous"

text \<open>\<open>u32::try_from(idx).unwrap_or(u32::MAX)\<close>.\<close>

definition index_u32 :: "nat \<Rightarrow> u32" where
  "index_u32 i = (if int i < 4294967296 then of_nat i else - 1)"

definition read_verdict :: "policy \<Rightarrow> decision_context \<Rightarrow> nat \<Rightarrow> read_target \<Rightarrow> policy_decision option" where
  "read_verdict p c i t = decide_effect p (index_u32 i) VSelect (rt_driver t) (rt_path t) c"

fun evaluate_reads_from :: "policy \<Rightarrow> nat \<Rightarrow> read_target list \<Rightarrow> decision_context \<Rightarrow> policy_decision" where
  "evaluate_reads_from p i [] c = DAllow"
| "evaluate_reads_from p i (t # ts) c =
     (case read_verdict p c i t of Some d \<Rightarrow> d | None \<Rightarrow> evaluate_reads_from p (Suc i) ts c)"

definition evaluate_reads_with_context ::
  "policy \<Rightarrow> read_target list \<Rightarrow> decision_context \<Rightarrow> policy_decision" where
  "evaluate_reads_with_context p reads c = evaluate_reads_from p 0 reads c"

section \<open>What a walk promises\<close>

locale effect_walk =
  fixes verdict :: "nat \<Rightarrow> 'x \<Rightarrow> policy_decision option"
    and walk :: "nat \<Rightarrow> 'x list \<Rightarrow> policy_decision"
  assumes walk_Nil: "walk k [] = DAllow"
    and walk_Cons: "walk k (x # xs) = (case verdict k x of Some d \<Rightarrow> d | None \<Rightarrow> walk (Suc k) xs)"
    and verdict_denies: "verdict k x = Some d \<Longrightarrow> d \<noteq> DAllow"
begin

lemma walk_allow_iff: "walk k xs = DAllow \<longleftrightarrow> (\<forall>i<length xs. verdict (k + i) (xs ! i) = None)"
proof (induction xs arbitrary: k)
  case (Cons x xs)
  have "(\<forall>i<length (x # xs). verdict (k + i) ((x # xs) ! i) = None) \<longleftrightarrow>
        verdict k x = None \<and> (\<forall>i<length xs. verdict (Suc k + i) (xs ! i) = None)"
    by (simp add: All_less_Suc2)
  then show ?case
    using Cons.IH [of "Suc k"] verdict_denies [of k x] by (auto simp: walk_Cons split: option.splits)
qed (simp add: walk_Nil)

lemma walk_deny_first:
  "walk k xs \<noteq> DAllow \<Longrightarrow> \<exists>i<length xs. verdict (k + i) (xs ! i) = Some (walk k xs)
     \<and> (\<forall>j<i. verdict (k + j) (xs ! j) = None)"
proof (induction xs arbitrary: k)
  case (Cons x xs)
  show ?case
  proof (cases "verdict k x")
    case None
    then have "walk (Suc k) xs \<noteq> DAllow" using Cons.prems by (simp add: walk_Cons)
    from Cons.IH [OF this] obtain i where "i < length xs"
      "verdict (Suc k + i) (xs ! i) = Some (walk (Suc k) xs)"
      "\<forall>j<i. verdict (Suc k + j) (xs ! j) = None" by blast
    then show ?thesis using None by (intro exI [of _ "Suc i"]) (auto simp: walk_Cons All_less_Suc2)
  next
    case (Some d)
    then show ?thesis by (intro exI [of _ 0]) (simp add: walk_Cons)
  qed
qed (simp add: walk_Nil)

end

lemma decide_effect_denies: "decide_effect p node v driver path c = Some d \<Longrightarrow> d \<noteq> DAllow"
  by (auto simp: decide_effect_def Let_def split: prod.splits if_splits)

lemma node_verdict_denies: "node_verdict p c n = Some d \<Longrightarrow> d \<noteq> DAllow"
  by (auto simp: node_verdict_def dest: decide_effect_denies split: effect_class.splits)

interpretation plan_walk: effect_walk "\<lambda>_. node_verdict p c" "\<lambda>_ ns. evaluate_nodes p ns c" for p c
  by unfold_locales (simp_all add: node_verdict_denies)

interpretation read_walk: effect_walk "read_verdict p c" "\<lambda>k ts. evaluate_reads_from p k ts c" for p c
  by unfold_locales (auto simp: read_verdict_def dest: decide_effect_denies)

section \<open>The first-match semantics\<close>

text \<open>\<open>permitted\<close> is the specification: the first rule that matches in the context decides, the
  policy's default when none does.\<close>

definition permitted :: "policy \<Rightarrow> verb \<Rightarrow> driver_id \<Rightarrow> string \<Rightarrow> decision_context \<Rightarrow> bool" where
  "permitted p v driver path c \<longleftrightarrow>
     (case find (\<lambda>r. rule_matches_in_context r v driver path c) (po_rules p) of
        Some r \<Rightarrow> ru_effect r = Allow
      | None \<Rightarrow> po_default p = Allow)"

lemma find_position:
  "find P xs = (case position P xs of Some i \<Rightarrow> Some (xs ! i) | None \<Rightarrow> None)"
  by (induction xs) (auto split: option.splits)

lemma effectivity_cases: "e \<noteq> Deny \<longleftrightarrow> e = Allow"
  by (cases e) simp_all

lemma decide_effect_permitted: "decide_effect p node v driver path c = None \<longleftrightarrow> permitted p v driver path c"
  by (auto simp: decide_effect_def permitted_def find_position Let_def effectivity_cases
      split: option.splits prod.splits if_splits)

lemma decide_effect_fields:
  "decide_effect p node v driver path c = Some d \<Longrightarrow>
   dd_node d = node \<and> dd_verb d = v \<and> dd_driver d = driver
   \<and> dd_rule d = position (\<lambda>r. rule_matches_in_context r v driver path c) (po_rules p)"
  by (auto simp: decide_effect_def Let_def split: option.splits prod.splits if_splits)

lemma node_verdict_None:
  "node_verdict p c n = None \<longleftrightarrow>
   (\<forall>v. classify_effect (en_kind n) = ECVerb v \<longrightarrow>
        permitted p v (tgt_driver (en_target n)) (tgt_path (en_target n)) c)"
proof -
  have "classify_effect k \<noteq> ECUnknown" for k by (cases k) simp_all
  then show ?thesis by (auto simp: node_verdict_def decide_effect_permitted split: effect_class.splits)
qed

lemma evaluate_allow_iff:
  "evaluate_with_context p pl c = DAllow \<longleftrightarrow> (\<forall>n\<in>set (pl_nodes pl). node_verdict p c n = None)"
  unfolding evaluate_with_context_def plan_walk.walk_allow_iff all_set_conv_all_nth by (rule refl)

lemma reads_allow_iff:
  "evaluate_reads_with_context p ts c = DAllow \<longleftrightarrow>
     (\<forall>t\<in>set ts. permitted p VSelect (rt_driver t) (rt_path t) c)"
  unfolding evaluate_reads_with_context_def read_walk.walk_allow_iff all_set_conv_all_nth
  by (simp add: read_verdict_def decide_effect_permitted)

lemma permitted_allow_only:
  assumes "\<forall>r\<in>set (po_rules p). ru_effect r = Allow" "po_default p = Deny"
  shows "permitted p v driver path c \<longleftrightarrow> (\<exists>r\<in>set (po_rules p). rule_matches_in_context r v driver path c)"
  using assms by (auto simp: permitted_def find_None_iff split: option.splits dest: find_SomeD)

lemma anonymous_least:
  assumes "rule_matches_in_context r v driver path ctx_anonymous"
  shows "rule_matches_in_context r v driver path c"
proof -
  have "ru_subject r = Anyone"
    using assms by (cases "ru_subject r") (auto simp: rule_matches_in_context_def ctx_anonymous_def)
  moreover have "ru_condition r = Always"
    using assms by (cases "ru_condition r") (auto simp: rule_matches_in_context_def ctx_anonymous_def)
  ultimately show ?thesis using assms by (simp add: rule_matches_in_context_def)
qed

lemma evaluate_deny_first:
  assumes "evaluate_with_context p pl c = DDeny node v driver ri held detail"
  obtains i where "i < length (pl_nodes pl)" "node = en_id (pl_nodes pl ! i)"
    "classify_effect (en_kind (pl_nodes pl ! i)) = ECVerb v" "driver = tgt_driver (en_target (pl_nodes pl ! i))"
    "\<not> permitted p v driver (tgt_path (en_target (pl_nodes pl ! i))) c"
    "ri = position (\<lambda>r. rule_matches_in_context r v driver (tgt_path (en_target (pl_nodes pl ! i))) c) (po_rules p)"
    "\<forall>j<i. node_verdict p c (pl_nodes pl ! j) = None"
proof -
  have "evaluate_nodes p (pl_nodes pl) c \<noteq> DAllow" using assms by (simp add: evaluate_with_context_def)
  from plan_walk.walk_deny_first [OF this] assms obtain i where
    i: "i < length (pl_nodes pl)" "node_verdict p c (pl_nodes pl ! i) = Some (DDeny node v driver ri held detail)"
      "\<forall>j<i. node_verdict p c (pl_nodes pl ! j) = None"
    by (auto simp: evaluate_with_context_def)
  let ?n = "pl_nodes pl ! i"
  have "classify_effect k \<noteq> ECUnknown" for k by (cases k) simp_all
  then obtain w where w: "classify_effect (en_kind ?n) = ECVerb w"
    "decide_effect p (en_id ?n) w (tgt_driver (en_target ?n)) (tgt_path (en_target ?n)) c
       = Some (DDeny node v driver ri held detail)"
    using i(2) by (auto simp: node_verdict_def split: effect_class.splits)
  have "\<not> permitted p w (tgt_driver (en_target ?n)) (tgt_path (en_target ?n)) c"
    using w(2) decide_effect_permitted [of p "en_id ?n" w _ _ c] by (metis option.discI)
  with that [OF i(1)] i(3) w(1) decide_effect_fields [OF w(2)] show thesis by simp
qed

section \<open>Properties\<close>


definition demo_policy :: policy where
  "demo_policy = policy_with_rule (policy_with_rule (policy_new ''p'')
     (rule_for_subject (rule_deny (verbs_one VInsert) glob_any) (SRole ''intern'')))
     (rule_as_all_token (rule_allow verbs_all glob_any))"


text \<open>C8: least privilege of the closed default: with only \<open>ALLOW\<close> rules and the \<open>DENY\<close> default, what
  the anonymous context may do everybody may; a context that is not an agent gets nothing
  from rules for agents; and if every \<open>ALLOW\<close> is the broad \<open>ALL\<close> token, no plan with a removal
  or a call passes in any context.\<close>

theorem policy_least_privilege:
  assumes "\<forall>r\<in>set (po_rules p). ru_effect r = Allow" and "po_default p = Deny"
  shows "(evaluate p pl = DAllow \<longrightarrow> evaluate_with_context p pl c = DAllow)
    \<and> (dc_agent c = None \<longrightarrow> (evaluate_with_context p pl c = DAllow \<longleftrightarrow>
         evaluate_with_context (p\<lparr>po_rules := filter (\<lambda>r. \<forall>a. ru_subject r \<noteq> SAgent a) (po_rules p)\<rparr>) pl c = DAllow))
    \<and> ((\<forall>r\<in>set (po_rules p). ru_all_token r) \<longrightarrow>
         (\<exists>n\<in>set (pl_nodes pl). classify_effect (en_kind n) \<in> {ECVerb VRemove, ECVerb VCall}) \<longrightarrow>
         evaluate_with_context p pl c \<noteq> DAllow)"
proof (intro conjI impI)
  note perm = permitted_allow_only [OF assms]
  show "evaluate_with_context p pl c = DAllow" if "evaluate p pl = DAllow"
    using that anonymous_least unfolding evaluate_def evaluate_allow_iff node_verdict_None perm by blast
  let ?q = "p\<lparr>po_rules := filter (\<lambda>r. \<forall>a. ru_subject r \<noteq> SAgent a) (po_rules p)\<rparr>"
  have q: "permitted ?q v d path c \<longleftrightarrow> (\<exists>r\<in>set (po_rules ?q). rule_matches_in_context r v d path c)" for v d path
    using assms by (intro permitted_allow_only) auto
  show "evaluate_with_context p pl c = DAllow \<longleftrightarrow> evaluate_with_context ?q pl c = DAllow" if "dc_agent c = None"
  proof -
    have "rule_matches_in_context r v d path c \<Longrightarrow> ru_subject r \<noteq> SAgent a" for r v d path a
      using that by (auto simp: rule_matches_in_context_def)
    then have "permitted p v d path c \<longleftrightarrow> permitted ?q v d path c" for v d path
      unfolding perm q by auto
    then show ?thesis unfolding evaluate_allow_iff node_verdict_None by simp
  qed
  assume all: "\<forall>r\<in>set (po_rules p). ru_all_token r"
    and n: "\<exists>n\<in>set (pl_nodes pl). classify_effect (en_kind n) \<in> {ECVerb VRemove, ECVerb VCall}"
  have "\<not> rule_matches_in_context r v d path c" if "r \<in> set (po_rules p)" "v \<in> {VRemove, VCall}" for r v d path
    using all assms(1) that by (auto simp: rule_matches_in_context_def rule_matches_def)
  then have "\<not> permitted p v d path c" if "v \<in> {VRemove, VCall}" for v d path
    unfolding perm using that by blast
  then show "evaluate_with_context p pl c \<noteq> DAllow"
    using n unfolding evaluate_allow_iff node_verdict_None by blast
qed

theorem policy_least_privilege_witness:
  "evaluate_with_context (policy_with_rule (policy_new ''p'') (rule_as_all_token (rule_allow verbs_all glob_any)))
     demo_plan (ctx_for_user ''alice'') \<noteq> DAllow"
proof -
  let ?p = "policy_with_rule (policy_new ''p'') (rule_as_all_token (rule_allow verbs_all glob_any))"
  have r: "po_rules ?p = [rule_as_all_token (rule_allow verbs_all glob_any)]"
    by (simp add: policy_with_rule_def policy_new_def policy_default_def)
  have "\<forall>r\<in>set (po_rules ?p). ru_effect r = Allow" "\<forall>r\<in>set (po_rules ?p). ru_all_token r" "po_default ?p = Deny"
    unfolding r by (simp_all add: rule_as_all_token_def rule_allow_def rule_new_def policy_with_rule_def
        policy_new_def policy_default_def)
  moreover have "\<exists>n\<in>set (pl_nodes demo_plan). classify_effect (en_kind n) \<in> {ECVerb VRemove, ECVerb VCall}"
    by (simp add: demo_plan_def node_new_def)
  ultimately show ?thesis using policy_least_privilege by blast
qed

text \<open>One vocabulary for reads and writes: a read passes exactly if \<open>SELECT\<close> is permitted on each of
  its targets, by the same rules in the same order; and a verb of the write face permitted
  there is refused here only for lack of a \<open>SELECT\<close>: two targets pass together exactly if each does.\<close>

theorem reads_first_match:
  "(evaluate_reads_with_context p ts c = DAllow \<longleftrightarrow>
      (\<forall>t\<in>set ts. permitted p VSelect (rt_driver t) (rt_path t) c))
   \<and> (evaluate_reads_with_context p (ts @ us) c = DAllow \<longleftrightarrow>
        evaluate_reads_with_context p ts c = DAllow \<and> evaluate_reads_with_context p us c = DAllow)"
  unfolding reads_allow_iff by auto

theorem reads_first_match_witness:
  "\<not> permitted (policy_with_rule (policy_new ''m'') (rule_allow (verbs_one VSelect) (DriverGlob ''mail'')))
     VSelect ''sql'' ''/sql/shop/orders'' ctx_anonymous"
proof -
  let ?p = "policy_with_rule (policy_new ''m'') (rule_allow (verbs_one VSelect) (DriverGlob ''mail''))"
  have "evaluate_reads_with_context ?p [\<lparr>rt_driver = ''sql'', rt_path = ''/sql/shop/orders''\<rparr>] ctx_anonymous \<noteq> DAllow"
    by code_simp
  then show ?thesis using reads_first_match [of ?p "[\<lparr>rt_driver = ''sql'', rt_path = ''/sql/shop/orders''\<rparr>]" ctx_anonymous]
    by simp
qed

end
