(* ===== verification/Policy_Text.thy ===== *)
theory Policy_Text
  imports Policy_Enforce
begin

text \<open>
  Policies as text, \<open>crates/server/src/policy/grammar.rs\<close>: building a policy from the parsed
  \<open>CREATE POLICY\<close>, printing a rule to its stored string, and reading stored strings back. Of the
  parser's expressions \<open>policy_expr\<close> keeps the shapes \<open>condition_from_expr\<close> tells apart; the
  others are \<open>PEOther\<close>.
\<close>

section \<open>From the parsed statement\<close>

datatype 'o policy_expr = PEFn string "'o policy_expr list" | PEStr string | PEOther 'o

record subject_ast =
  sa_kind :: string
  sa_name :: string

record 'o rule_ast =
  ra_allow :: bool
  ra_verbs :: "string list"
  ra_all_token :: bool
  ra_driver :: "string option"
  ra_subject :: "subject_ast option"
  ra_scope :: "string option"
  ra_condition :: "'o policy_expr option"

definition subject_from_ast :: "subject_ast \<Rightarrow> string + subject" where
  "subject_from_ast a =
     (let kind = ascii_lower (sa_kind a) in
      if kind = ''user'' then Inr (SUser (sa_name a))
      else if kind = ''role'' then Inr (SRole (sa_name a))
      else if kind = ''group'' then Inr (SGroup (sa_name a))
      else if kind = ''agent'' then Inr (SAgent (sa_name a))
      else Inl (''unknown policy subject kind `'' @ kind @ ''`''))"

definition condition_from_expr :: "'o policy_expr \<Rightarrow> string + condition" where
  "condition_from_expr e =
     (case e of
        PEFn f args \<Rightarrow>
          if \<not> eq_ignore_case f ''member_of''
          then Inl (''unsupported policy condition function `'' @ f @ ''`'')
          else (case args of
                  [PEStr dir] \<Rightarrow> Inr (MemberOf dir)
                | _ \<Rightarrow> Inl ''member_of(...) takes one string directory ref argument'')
      | _ \<Rightarrow> Inl (''policy WHERE condition must be a `member_of('' @ [quote_char]
                  @ ''/directories/...'' @ [quote_char] @ '')` call''))"

fun verbs_from_ast :: "string list \<Rightarrow> string + verb list" where
  "verbs_from_ast [] = Inr []"
| "verbs_from_ast (t # ts) =
     (case verb_from_label t of
        None \<Rightarrow> Inl (''unknown policy verb `'' @ t @ ''`'')
      | Some v \<Rightarrow> map_sum id (\<lambda>vs. v # vs) (verbs_from_ast ts))"

definition rule_from_ast :: "'o rule_ast \<Rightarrow> string + rule" where
  "rule_from_ast a =
     (case (if ra_all_token a then Inr verbs_all
            else map_sum id verbs_from (verbs_from_ast (ra_verbs a))) of
        Inl e \<Rightarrow> Inl e
      | Inr vs \<Rightarrow>
        (case (case ra_subject a of Some s \<Rightarrow> subject_from_ast s | None \<Rightarrow> Inr Anyone) of
           Inl e \<Rightarrow> Inl e
         | Inr subj \<Rightarrow>
           (case (case ra_scope a of
                    Some raw \<Rightarrow> (case scope_glob_parse raw of
                                   Some g \<Rightarrow> Inr (Some g)
                                 | None \<Rightarrow> Inl (''malformed policy scope path `'' @ raw @ ''`''))
                  | None \<Rightarrow> Inr None) of
              Inl e \<Rightarrow> Inl e
            | Inr sc \<Rightarrow>
              (case (case ra_condition a of Some ex \<Rightarrow> condition_from_expr ex | None \<Rightarrow> Inr Always) of
                 Inl e \<Rightarrow> Inl e
               | Inr cond \<Rightarrow>
                   Inr \<lparr>ru_effect = (if ra_allow a then Allow else Deny), ru_verbs = vs,
                        ru_driver = (case ra_driver a of Some d \<Rightarrow> DriverGlob d | None \<Rightarrow> glob_any),
                        ru_all_token = ra_all_token a, ru_subject = subj, ru_scope = sc,
                        ru_condition = cond\<rparr>))))"

fun policy_push_asts :: "'o rule_ast list \<Rightarrow> policy \<Rightarrow> string + policy" where
  "policy_push_asts [] p = Inr p"
| "policy_push_asts (a # as) p =
     (case rule_from_ast a of Inl e \<Rightarrow> Inl e | Inr r \<Rightarrow> policy_push_asts as (policy_with_rule p r))"

definition policy_from_ddl :: "string \<Rightarrow> 'o rule_ast list \<Rightarrow> string + policy" where
  "policy_from_ddl name asts = policy_push_asts asts (policy_new name)"

section \<open>Stored rule strings\<close>

definition rule_to_string :: "rule \<Rightarrow> string" where
  "rule_to_string r =
     (let verbs = (if ru_all_token r then ''ALL''
                   else join_with '','' (map verb_label_of (verbs_list (ru_verbs r))));
          s = effectivity_label (ru_effect r) @ '' '' @ verbs;
          s = (if \<not> glob_is_any (ru_driver r) then s @ '' ON '' @ dg_raw (ru_driver r) else s);
          s = (if \<not> subject_is_anyone (ru_subject r) then s @ '' FOR '' @ subject_label (ru_subject r) else s);
          s = (case ru_scope r of Some g \<Rightarrow> s @ '' AT '' @ sg_pattern g | None \<Rightarrow> s)
      in (case condition_label (ru_condition r) of Some c \<Rightarrow> s @ '' WHERE '' @ c | None \<Rightarrow> s))"

definition policy_to_rule_strings :: "policy \<Rightarrow> string list" where
  "policy_to_rule_strings p = map rule_to_string (po_rules p)"

definition condition_from_canonical :: "string \<Rightarrow> condition option" where
  "condition_from_canonical tok =
     (case strip_prefix (''member_of('' @ [quote_char]) tok of
        None \<Rightarrow> None
      | Some rest \<Rightarrow>
          (case strip_suffix (quote_char # '')'') rest of
             None \<Rightarrow> None
           | Some inner \<Rightarrow> if inner = [] then None else Some (MemberOf inner)))"

fun parse_verb_tokens :: "string list \<Rightarrow> verb list option" where
  "parse_verb_tokens [] = Some []"
| "parse_verb_tokens (t # ts) =
     (case verb_from_label t of
        None \<Rightarrow> None
      | Some v \<Rightarrow> map_option (\<lambda>vs. v # vs) (parse_verb_tokens ts))"

fun parse_clauses :: "string list \<Rightarrow> rule \<Rightarrow> rule option" where
  "parse_clauses [] r = Some r"
| "parse_clauses [clause] r = None"
| "parse_clauses (clause # tok # ts) r =
     (if clause = ''ON'' then parse_clauses ts (r\<lparr>ru_driver := DriverGlob tok\<rparr>)
      else if clause = ''FOR''
      then (case subject_from_label tok of
              Some s \<Rightarrow> parse_clauses ts (r\<lparr>ru_subject := s\<rparr>) | None \<Rightarrow> None)
      else if clause = ''AT''
      then (case scope_glob_parse tok of
              Some g \<Rightarrow> parse_clauses ts (r\<lparr>ru_scope := Some g\<rparr>) | None \<Rightarrow> None)
      else if clause = ''WHERE''
      then (case condition_from_canonical tok of
              Some c \<Rightarrow> parse_clauses ts (r\<lparr>ru_condition := c\<rparr>) | None \<Rightarrow> None)
      else None)"

definition parse_rule_string :: "string \<Rightarrow> rule option" where
  "parse_rule_string s =
     (case split_ws s of
        effect_tok # verbs_tok # rest \<Rightarrow>
          (case effectivity_from_label effect_tok of
             None \<Rightarrow> None
           | Some e \<Rightarrow>
               (case (if verbs_tok = ''ALL'' then Some (verbs_all, True)
                      else map_option (\<lambda>vs. (verbs_from vs, False))
                             (parse_verb_tokens (split_char CHR '','' verbs_tok))) of
                  None \<Rightarrow> None
                | Some (vs, all_token) \<Rightarrow>
                    parse_clauses rest ((rule_new e vs glob_any)\<lparr>ru_all_token := all_token\<rparr>)))
      | _ \<Rightarrow> None)"

record policy_def =
  pd_name :: string
  pd_handler :: string
  pd_allow :: "string list"

definition policy_from_def :: "policy_def \<Rightarrow> policy" where
  "policy_from_def d =
     fold (\<lambda>s p. case parse_rule_string s of Some r \<Rightarrow> policy_with_rule p r | None \<Rightarrow> p)
       (pd_allow d) (policy_new (pd_name d))"

text \<open>The row a \<open>CREATE POLICY\<close> stores.\<close>

definition policy_row :: "policy \<Rightarrow> string \<Rightarrow> policy_def" where
  "policy_row p handler = \<lparr>pd_name = po_name p, pd_handler = handler, pd_allow = policy_to_rule_strings p\<rparr>"

section \<open>Printing and reading back\<close>

definition token_ok :: "string \<Rightarrow> bool" where
  "token_ok t \<longleftrightarrow> t \<noteq> [] \<and> (\<forall>c\<in>set t. \<not> is_ws c)"

text \<open>A printable rule: built by the constructors, its names without whitespace.\<close>

definition rule_printable :: "rule \<Rightarrow> bool" where
  "rule_printable r \<longleftrightarrow>
     (if ru_all_token r then ru_verbs r = verbs_all else verbs_ok (ru_verbs r) \<and> verbs_list (ru_verbs r) \<noteq> [])
     \<and> (\<forall>c\<in>set (dg_raw (ru_driver r)). \<not> is_ws c)
     \<and> (case ru_subject r of Anyone \<Rightarrow> True | SUser n \<Rightarrow> token_ok n | SRole n \<Rightarrow> token_ok n
          | SGroup n \<Rightarrow> token_ok n | SAgent n \<Rightarrow> token_ok n)
     \<and> (case ru_scope r of None \<Rightarrow> True
          | Some g \<Rightarrow> scope_glob_parse (sg_pattern g) = Some g \<and> token_ok (sg_pattern g))
     \<and> (case ru_condition r of Always \<Rightarrow> True | MemberOf d \<Rightarrow> token_ok d)"

lemma split_ws_clause:
  "token_ok kw \<Longrightarrow> token_ok tok \<Longrightarrow> split_ws (s @ CHR '' '' # kw @ CHR '' '' # tok) = split_ws s @ [kw, tok]"
  by (simp add: split_ws_word token_ok_def)

lemma token_okI [simp]:
  "token_ok ''ON''" "token_ok ''FOR''" "token_ok ''AT''" "token_ok ''WHERE''" "token_ok ''ALL''"
  "token_ok (effectivity_label e)" "token_ok (verb_label_of v)"
  by (cases e; cases v; simp add: token_ok_def is_ws_def)+

lemma token_ok_append: "token_ok a \<Longrightarrow> \<forall>c\<in>set b. \<not> is_ws c \<Longrightarrow> token_ok (a @ b)"
  by (auto simp: token_ok_def)

lemma verbs_token_ok: "vs \<noteq> [] \<Longrightarrow> token_ok (join_with '','' (map verb_label_of vs))"
proof -
  assume "vs \<noteq> []"
  have "set (join_with '','' (map verb_label_of vs)) \<subseteq> {CHR '',''} \<union> \<Union> (set ` set (map verb_label_of vs))"
    using set_join_with [of "'',''" "map verb_label_of vs"] by simp
  moreover have "\<not> is_ws c" if "c \<in> set (verb_label_of v)" for c v
    using token_okI(7) [of v] that by (simp add: token_ok_def)
  moreover have "\<not> is_ws CHR '',''" by (simp add: is_ws_def)
  moreover have "join_with '','' (map verb_label_of vs) \<noteq> []"
  proof (cases vs)
    case (Cons v ws)
    have "verb_label_of v \<noteq> []" by (cases v) simp_all
    then show ?thesis using Cons by (cases ws) simp_all
  qed (use \<open>vs \<noteq> []\<close> in simp)
  ultimately show ?thesis unfolding token_ok_def by auto
qed

lemma parse_verb_tokens_labels: "parse_verb_tokens (map verb_label_of vs) = Some vs"
  by (induction vs) simp_all

lemma verbs_token_not_all: "vs \<noteq> [] \<Longrightarrow> join_with '','' (map verb_label_of vs) \<noteq> ''ALL''"
proof (cases vs)
  case (Cons v ws)
  show ?thesis unfolding Cons by (cases ws; cases v) simp_all
qed simp

lemma condition_roundtrip: "d \<noteq> [] \<Longrightarrow>
  condition_from_canonical (''member_of('' @ [quote_char] @ d @ [quote_char] @ '')'') = Some (MemberOf d)"
proof -
  assume d: "d \<noteq> []"
  have p: "strip_prefix (''member_of('' @ [quote_char]) (''member_of('' @ [quote_char] @ d @ [quote_char] @ '')'')
      = Some (d @ quote_char # '')'')"
    using strip_prefix_append [of "''member_of('' @ [quote_char]" "d @ quote_char # '')''"] by simp
  have s: "strip_suffix (quote_char # '')'') (d @ quote_char # '')'') = Some d"
    by (rule strip_suffix_append)
  show ?thesis using d unfolding condition_from_canonical_def p s by simp
qed

definition verbs_token :: "rule \<Rightarrow> string" where
  "verbs_token r = (if ru_all_token r then ''ALL'' else join_with '','' (map verb_label_of (verbs_list (ru_verbs r))))"

definition clause_tokens :: "rule \<Rightarrow> string list" where
  "clause_tokens r =
     (if glob_is_any (ru_driver r) then [] else [''ON'', dg_raw (ru_driver r)])
     @ (if subject_is_anyone (ru_subject r) then [] else [''FOR'', subject_label (ru_subject r)])
     @ (case ru_scope r of Some g \<Rightarrow> [''AT'', sg_pattern g] | None \<Rightarrow> [])
     @ (case condition_label (ru_condition r) of Some c \<Rightarrow> [''WHERE'', c] | None \<Rightarrow> [])"

lemma printable_tokens:
  assumes "rule_printable r"
  shows "token_ok (verbs_token r)"
    "\<not> glob_is_any (ru_driver r) \<Longrightarrow> token_ok (dg_raw (ru_driver r))"
    "\<not> subject_is_anyone (ru_subject r) \<Longrightarrow> token_ok (subject_label (ru_subject r))"
    "ru_scope r = Some g \<Longrightarrow> token_ok (sg_pattern g)"
    "condition_label (ru_condition r) = Some c \<Longrightarrow> token_ok c"
proof -
  show "token_ok (verbs_token r)"
    using assms by (auto simp: verbs_token_def rule_printable_def intro!: verbs_token_ok split: if_splits)
  show "\<not> glob_is_any (ru_driver r) \<Longrightarrow> token_ok (dg_raw (ru_driver r))"
    using assms by (simp add: rule_printable_def glob_is_any_def token_ok_def)
  have app: "token_ok p \<Longrightarrow> token_ok n \<Longrightarrow> token_ok (p @ n)" for p n by (auto simp: token_ok_def)
  have pre: "token_ok ''user:''" "token_ok ''role:''" "token_ok ''group:''" "token_ok ''agent:''"
    by (simp_all add: token_ok_def is_ws_def)
  show "token_ok (subject_label (ru_subject r))" if "\<not> subject_is_anyone (ru_subject r)"
  proof -
    have "case ru_subject r of Anyone \<Rightarrow> True | SUser n \<Rightarrow> token_ok n | SRole n \<Rightarrow> token_ok n
          | SGroup n \<Rightarrow> token_ok n | SAgent n \<Rightarrow> token_ok n"
      using assms by (simp add: rule_printable_def)
    then show ?thesis using that pre [THEN app] by (cases "ru_subject r") auto
  qed
  show "ru_scope r = Some g \<Longrightarrow> token_ok (sg_pattern g)" using assms by (simp add: rule_printable_def)
  show "token_ok c" if "condition_label (ru_condition r) = Some c"
  proof (cases "ru_condition r")
    case (MemberOf d)
    have "token_ok d" using assms MemberOf by (simp add: rule_printable_def)
    moreover have "token_ok (''member_of('' @ [quote_char])" "token_ok ([quote_char] @ '')'')"
      by (simp_all add: token_ok_def is_ws_def quote_char_def)
    ultimately have "token_ok ((''member_of('' @ [quote_char]) @ d @ [quote_char] @ '')'')" using app by blast
    then show ?thesis using that MemberOf by simp
  qed (use that in simp)
qed

lemma split_rule_string: "rule_printable r \<Longrightarrow>
  split_ws (rule_to_string r) = [effectivity_label (ru_effect r), verbs_token r] @ clause_tokens r"
proof -
  assume ok: "rule_printable r"
  note pt = printable_tokens [OF ok]
  define s0 where "s0 = effectivity_label (ru_effect r) @ '' '' @ verbs_token r"
  define s1 where "s1 = (if \<not> glob_is_any (ru_driver r) then s0 @ '' ON '' @ dg_raw (ru_driver r) else s0)"
  define s2 where "s2 = (if \<not> subject_is_anyone (ru_subject r) then s1 @ '' FOR '' @ subject_label (ru_subject r) else s1)"
  define s3 where "s3 = (case ru_scope r of Some g \<Rightarrow> s2 @ '' AT '' @ sg_pattern g | None \<Rightarrow> s2)"
  have str: "rule_to_string r =
      (case condition_label (ru_condition r) of Some c \<Rightarrow> s3 @ '' WHERE '' @ c | None \<Rightarrow> s3)"
    unfolding rule_to_string_def Let_def s0_def s1_def s2_def s3_def verbs_token_def by (rule refl)
  have "split_ws s0 = [effectivity_label (ru_effect r), verbs_token r]"
    using pt(1) token_okI(6) [of "ru_effect r"] by (simp add: s0_def split_ws_word token_ok_def)
  then have "split_ws s1 = [effectivity_label (ru_effect r), verbs_token r]
      @ (if glob_is_any (ru_driver r) then [] else [''ON'', dg_raw (ru_driver r)])"
    using split_ws_clause [of "''ON''" "dg_raw (ru_driver r)" s0] pt(2) by (simp add: s1_def)
  then have "split_ws s2 = [effectivity_label (ru_effect r), verbs_token r]
      @ (if glob_is_any (ru_driver r) then [] else [''ON'', dg_raw (ru_driver r)])
      @ (if subject_is_anyone (ru_subject r) then [] else [''FOR'', subject_label (ru_subject r)])"
    using split_ws_clause [of "''FOR''" "subject_label (ru_subject r)" s1] pt(3) by (simp add: s2_def)
  then have s3: "split_ws s3 = [effectivity_label (ru_effect r), verbs_token r]
      @ (if glob_is_any (ru_driver r) then [] else [''ON'', dg_raw (ru_driver r)])
      @ (if subject_is_anyone (ru_subject r) then [] else [''FOR'', subject_label (ru_subject r)])
      @ (case ru_scope r of Some g \<Rightarrow> [''AT'', sg_pattern g] | None \<Rightarrow> [])"
    using split_ws_clause [of "''AT''" _ s2] pt(4) by (simp add: s3_def split: option.splits)
  show ?thesis
    unfolding str clause_tokens_def
    using s3 split_ws_clause [of "''WHERE''" _ s3] pt(5) by (simp split: option.splits)
qed

lemma parse_clauses_tokens:
  assumes ok: "rule_printable r"
  shows "parse_clauses (clause_tokens r)
      ((rule_new (ru_effect r) (ru_verbs r) glob_any)\<lparr>ru_all_token := ru_all_token r\<rparr>) = Some r"
proof -
  have subj: "subject_from_label (subject_label (ru_subject r)) = Some (ru_subject r)"
    using ok by (intro subject_roundtrip) (auto simp: rule_printable_def token_ok_def split: subject.splits)
  have sc: "scope_glob_parse (sg_pattern g) = Some g" if "ru_scope r = Some g" for g
    using ok that by (simp add: rule_printable_def)
  have co: "condition_from_canonical c = Some (ru_condition r)" if c: "condition_label (ru_condition r) = Some c" for c
  proof (cases "ru_condition r")
    case (MemberOf d)
    have "d \<noteq> []" using ok MemberOf by (simp add: rule_printable_def token_ok_def)
    from condition_roundtrip [OF this] c MemberOf show ?thesis by simp
  qed (use c in simp)
  have dr: "glob_is_any (ru_driver r) \<Longrightarrow> ru_driver r = glob_any"
    by (cases "ru_driver r") (simp add: glob_is_any_def glob_any_def)
  have an: "subject_is_anyone (ru_subject r) \<Longrightarrow> ru_subject r = Anyone" by (cases "ru_subject r") simp_all
  have al: "condition_label (ru_condition r) = None \<Longrightarrow> ru_condition r = Always" by (cases "ru_condition r") simp_all
  show ?thesis
    unfolding clause_tokens_def
    by (cases "glob_is_any (ru_driver r)"; cases "subject_is_anyone (ru_subject r)"; cases "ru_scope r";
        cases "condition_label (ru_condition r)")
       (simp_all add: rule_new_def subj sc co dr an al glob_is_any_def [of glob_any] glob_any_def [THEN arg_cong, of dg_raw])
qed

lemma rule_string_roundtrip: "rule_printable r \<Longrightarrow> parse_rule_string (rule_to_string r) = Some r"
proof -
  assume ok: "rule_printable r"
  have "(if verbs_token r = ''ALL'' then Some (verbs_all, True)
         else map_option (\<lambda>vs. (verbs_from vs, False)) (parse_verb_tokens (split_char CHR '','' (verbs_token r))))
      = Some (ru_verbs r, ru_all_token r)"
  proof (cases "ru_all_token r")
    case False
    let ?vs = "verbs_list (ru_verbs r)"
    have v: "verbs_ok (ru_verbs r)" "?vs \<noteq> []" using ok False by (simp_all add: rule_printable_def)
    have "CHR '','' \<notin> set (verb_label_of v)" for v by (cases v) simp_all
    then have "split_char CHR '','' (join_with '','' (map verb_label_of ?vs)) = map verb_label_of ?vs"
      using v(2) by (intro split_char_join) auto
    then show ?thesis
      using False verbs_token_not_all [OF v(2)] verbs_from_list [OF v(1)]
      by (simp add: verbs_token_def parse_verb_tokens_labels)
  qed (use ok in \<open>simp add: verbs_token_def rule_printable_def\<close>)
  then show ?thesis
    unfolding parse_rule_string_def split_rule_string [OF ok]
    using parse_clauses_tokens [OF ok] by simp
qed

lemma policy_from_def_rules:
  "policy_from_def d = (policy_new (pd_name d))\<lparr>po_rules := List.map_filter parse_rule_string (pd_allow d)\<rparr>"
proof -
  have "fold (\<lambda>s p. case parse_rule_string s of Some r \<Rightarrow> policy_with_rule p r | None \<Rightarrow> p) ss p =
      p\<lparr>po_rules := po_rules p @ List.map_filter parse_rule_string ss\<rparr>" for ss p
    by (induction ss arbitrary: p) (simp_all add: policy_with_rule_def split: option.splits)
  then show ?thesis by (simp add: policy_from_def_def policy_new_def policy_default_def)
qed

section \<open>Rules from the parser are printable\<close>

lemma split_by_pieces: "w \<in> set (split_by P s) \<Longrightarrow> set w \<subseteq> set s \<and> (\<forall>c\<in>set w. \<not> P c)"
proof (induction s arbitrary: w)
  case (Cons x xs)
  obtain p ps where sp: "split_by P xs = p # ps" by (cases "split_by P xs") simp_all
  have "set p \<subseteq> set xs \<and> (\<forall>c\<in>set p. \<not> P c)" using Cons.IH [of p] sp by simp
  moreover have "set w \<subseteq> set xs \<and> (\<forall>c\<in>set w. \<not> P c)" if "w \<in> set ps" using Cons.IH [of w] sp that by simp
  ultimately show ?case using Cons.prems sp by (auto split: if_splits)
qed simp

lemma path_segments_pieces:
  "w \<in> set (path_segments s) \<Longrightarrow> w \<noteq> [] \<and> CHR ''/'' \<notin> set w \<and> set w \<subseteq> set s"
  using split_by_pieces [of w "\<lambda>x. x = CHR ''/''" s] by (auto simp: path_segments_def split_char_split_by)

lemma path_segments_join:
  "\<forall>w\<in>set ws. w \<noteq> [] \<and> CHR ''/'' \<notin> set w \<Longrightarrow> path_segments (join_with ''/'' ws) = ws"
proof (cases "ws = []")
  case False
  assume "\<forall>w\<in>set ws. w \<noteq> [] \<and> CHR ''/'' \<notin> set w"
  then show ?thesis using False by (simp add: path_segments_def split_char_join filter_id_conv)
qed (simp add: path_segments_def)

lemma trim_slashes_segments: "path_segments (trim_slashes s) = path_segments s"
proof (induction s)
  case (Cons c s)
  then show ?case by (simp add: trim_slashes_def path_segments_def)
qed (simp add: trim_slashes_def)

text \<open>A scope is stored in canonical form, so that it reads back as itself.\<close>

lemma scope_glob_canonical:
  assumes "scope_glob_parse raw = Some g"
  shows "scope_glob_parse (sg_pattern g) = Some g" "set (sg_pattern g) \<subseteq> insert CHR ''/'' (set raw)"
    "sg_pattern g \<noteq> []"
proof -
  let ?ws = "path_segments raw"
  have ne: "?ws \<noteq> []" and g: "g = ScopeGlob (CHR ''/'' # join_with ''/'' ?ws)"
    using assms by (auto simp: scope_glob_parse_def trim_slashes_segments Let_def split: if_splits)
  have "path_segments (sg_pattern g) = path_segments (join_with ''/'' ?ws)"
    by (simp add: g path_segments_def)
  also have "\<dots> = ?ws" using path_segments_pieces by (intro path_segments_join) blast
  finally show "scope_glob_parse (sg_pattern g) = Some g"
    using ne by (simp add: scope_glob_parse_def trim_slashes_segments g)
  have "set (join_with ''/'' ?ws) \<subseteq> {CHR ''/''} \<union> \<Union> (set ` set ?ws)"
    using set_join_with [of "''/''" ?ws] by simp
  moreover have "\<Union> (set ` set ?ws) \<subseteq> set raw" using path_segments_pieces by blast
  ultimately show "set (sg_pattern g) \<subseteq> insert CHR ''/'' (set raw)" by (auto simp: g)
  show "sg_pattern g \<noteq> []" by (simp add: g)
qed

text \<open>What the clauses may contain: a verb, and names without whitespace.\<close>

definition ast_clean :: "'o rule_ast \<Rightarrow> bool" where
  "ast_clean a \<longleftrightarrow> (ra_all_token a \<or> ra_verbs a \<noteq> [])
     \<and> (case ra_driver a of Some d \<Rightarrow> \<forall>c\<in>set d. \<not> is_ws c | None \<Rightarrow> True)
     \<and> (case ra_subject a of Some s \<Rightarrow> token_ok (sa_name s) | None \<Rightarrow> True)
     \<and> (case ra_scope a of Some raw \<Rightarrow> \<forall>c\<in>set raw. \<not> is_ws c | None \<Rightarrow> True)
     \<and> (case ra_condition a of Some (PEFn _ [PEStr d]) \<Rightarrow> token_ok d | _ \<Rightarrow> True)"

lemma verbs_from_ast_nonempty: "verbs_from_ast ts = Inr vs \<Longrightarrow> ts \<noteq> [] \<Longrightarrow> vs \<noteq> []"
  by (cases ts) (auto split: option.splits, case_tac "verbs_from_ast list", auto)

lemma verbs_list_from: "vs \<noteq> [] \<Longrightarrow> verbs_list (verbs_from vs) \<noteq> []"
proof -
  assume "vs \<noteq> []"
  moreover have "set (verbs_list (verbs_from vs)) = set vs" by simp
  ultimately show ?thesis by (metis set_empty)
qed

lemma condition_from_expr_Inr:
  "condition_from_expr e = Inr c \<Longrightarrow> \<exists>f d. e = PEFn f [PEStr d] \<and> c = MemberOf d"
  by (auto simp: condition_from_expr_def split: policy_expr.splits if_splits list.splits)

lemma rule_from_ast_printable:
  assumes r: "rule_from_ast a = Inr r" and ok: "ast_clean a"
  shows "rule_printable r"
proof -
  obtain vs subj sc cond where
    vs: "(if ra_all_token a then Inr verbs_all else map_sum id verbs_from (verbs_from_ast (ra_verbs a))) = Inr vs"
    and subj: "(case ra_subject a of Some s \<Rightarrow> subject_from_ast s | None \<Rightarrow> Inr Anyone) = Inr subj"
    and sc: "(case ra_scope a of
                Some raw \<Rightarrow> (case scope_glob_parse raw of
                               Some g \<Rightarrow> Inr (Some g)
                             | None \<Rightarrow> Inl (''malformed policy scope path `'' @ raw @ ''`''))
              | None \<Rightarrow> Inr None) = Inr sc"
    and cond: "(case ra_condition a of Some ex \<Rightarrow> condition_from_expr ex | None \<Rightarrow> Inr Always) = Inr cond"
    and rr: "r = \<lparr>ru_effect = (if ra_allow a then Allow else Deny), ru_verbs = vs,
                   ru_driver = (case ra_driver a of Some d \<Rightarrow> DriverGlob d | None \<Rightarrow> glob_any),
                   ru_all_token = ra_all_token a, ru_subject = subj, ru_scope = sc, ru_condition = cond\<rparr>"
    using r unfolding rule_from_ast_def by (auto split: sum.splits)
  have "if ra_all_token a then vs = verbs_all else verbs_ok vs \<and> verbs_list vs \<noteq> []"
    using vs ok verbs_from_ast_nonempty verbs_list_from
    by (cases "verbs_from_ast (ra_verbs a)") (auto simp: ast_clean_def split: if_splits)
  moreover have "\<forall>c\<in>set (dg_raw (case ra_driver a of Some d \<Rightarrow> DriverGlob d | None \<Rightarrow> glob_any)). \<not> is_ws c"
    using ok by (auto simp: ast_clean_def glob_any_def split: option.splits)
  moreover have "case subj of Anyone \<Rightarrow> True | SUser n \<Rightarrow> token_ok n | SRole n \<Rightarrow> token_ok n
          | SGroup n \<Rightarrow> token_ok n | SAgent n \<Rightarrow> token_ok n"
    using subj ok by (auto simp: ast_clean_def subject_from_ast_def Let_def split: option.splits if_splits)
  moreover have "case sc of None \<Rightarrow> True
          | Some g \<Rightarrow> scope_glob_parse (sg_pattern g) = Some g \<and> token_ok (sg_pattern g)"
  proof (cases sc)
    case (Some g)
    then obtain raw where raw: "ra_scope a = Some raw" "scope_glob_parse raw = Some g"
      using sc by (auto split: option.splits)
    have "\<forall>c\<in>set raw. \<not> is_ws c" using ok raw(1) by (simp add: ast_clean_def)
    moreover have "\<not> is_ws CHR ''/''" by (simp add: is_ws_def)
    ultimately show ?thesis using scope_glob_canonical [OF raw(2)] Some by (auto simp: token_ok_def)
  qed simp
  moreover have "case cond of Always \<Rightarrow> True | MemberOf d \<Rightarrow> token_ok d"
    using cond ok by (auto simp: ast_clean_def split: option.splits dest!: condition_from_expr_Inr)
  ultimately show ?thesis by (simp add: rr rule_printable_def)
qed

lemma policy_push_asts_printable:
  "policy_push_asts asts p = Inr q \<Longrightarrow> list_all ast_clean asts \<Longrightarrow> list_all rule_printable (po_rules p) \<Longrightarrow>
   list_all rule_printable (po_rules q) \<and> po_name q = po_name p \<and> po_default q = po_default p"
proof (induction asts p rule: policy_push_asts.induct)
  case (2 a as p)
  then show ?case
    using rule_from_ast_printable [of a] by (auto simp: policy_with_rule_def split: sum.splits)
qed simp

text \<open>A policy with a \<open>DENY\<close> rule for the members of a directory whose name has a space.\<close>

definition night_asts :: "unit rule_ast list" where
  "night_asts =
     [\<lparr>ra_allow = False, ra_verbs = [''INSERT''], ra_all_token = False, ra_driver = None, ra_subject = None,
       ra_scope = None, ra_condition = Some (PEFn ''member_of'' [PEStr ''/directories/night shift''])\<rparr>,
      \<lparr>ra_allow = True, ra_verbs = [''INSERT''], ra_all_token = False, ra_driver = None, ra_subject = None,
       ra_scope = None, ra_condition = None\<rparr>]"

section \<open>Properties\<close>


definition demo_rule_ast :: "unit rule_ast" where
  "demo_rule_ast = \<lparr>ra_allow = True, ra_verbs = [''INSERT'', ''REMOVE''], ra_all_token = False,
     ra_driver = Some ''mail'', ra_subject = Some \<lparr>sa_kind = ''Group'', sa_name = ''eng''\<rparr>,
     ra_scope = Some ''me//mail/*'', ra_condition = Some (PEFn ''MEMBER_OF'' [PEStr ''/directories/x''])\<rparr>"


text \<open>Reading a stored policy skips what it cannot read. Skipped \<open>ALLOW\<close> rules only narrow a policy
  with the closed default: what the remaining rules permit the declared ones permit.\<close>

theorem skipped_allow_narrows:
  assumes "po_rules q = filter keep (po_rules p)" and "po_default q = po_default p"
    and "\<forall>r\<in>set (po_rules p). \<not> keep r \<longrightarrow> ru_effect r = Allow"
    and "permitted q v driver path c"
  shows "permitted p v driver path c"
proof -
  have "(case find P (filter keep rs) of Some r \<Rightarrow> ru_effect r = Allow | None \<Rightarrow> d = Allow) \<Longrightarrow>
      (\<forall>r\<in>set rs. \<not> keep r \<longrightarrow> ru_effect r = Allow) \<Longrightarrow>
      (case find P rs of Some r \<Rightarrow> ru_effect r = Allow | None \<Rightarrow> d = Allow)" for P rs d
    by (induction rs) (auto split: if_splits)
  then show ?thesis using assms unfolding permitted_def by metis
qed

theorem skipped_allow_narrows_witness:
  "permitted (policy_with_rule (policy_with_rule (policy_new ''p'') (rule_allow (verbs_one VInsert) glob_any))
       (rule_allow (verbs_one VCall) glob_any)) VInsert ''db'' ''/db'' ctx_anonymous"
proof -
  let ?r = "rule_allow (verbs_one VInsert) glob_any" and ?s = "rule_allow (verbs_one VCall) glob_any"
  let ?p = "policy_with_rule (policy_with_rule (policy_new ''p'') ?r) ?s"
  have "permitted (policy_with_rule (policy_new ''p'') ?r) VInsert ''db'' ''/db'' ctx_anonymous"
    by code_simp
  then show "permitted ?p VInsert ''db'' ''/db'' ctx_anonymous"
    by (intro skipped_allow_narrows [where q = "policy_with_rule (policy_new ''p'') ?r" and keep = "\<lambda>r. r = ?r" and p = ?p])
       (auto simp: policy_with_rule_def policy_new_def policy_default_def rule_allow_def rule_new_def
          verbs_one_def)
qed


end
