(* ===== verification/Policy_Gate.thy ===== *)
theory Policy_Gate
  imports Policy_Text Runtime_Caps
begin

text \<open>
  The callers of the enforcer, \<open>crates/server/src/policy/{gate,shared,audit}.rs\<close>: resolving a
  bound policy, gating a fired plan, the record of a fire, and the gate on the use of a shared
  connection. The policy table, a \<open>BTreeMap\<close>, is a map. The last section compares policy
  scopes with the capability scopes of \<open>crates/runtime/src/caps.rs\<close>.
\<close>

section \<open>The fire path\<close>

definition resolve_policy :: "string option \<Rightarrow> (string \<rightharpoonup> policy_def) \<Rightarrow> policy" where
  "resolve_policy pol table =
     (case pol of
        Some name \<Rightarrow> (case table name of Some d \<Rightarrow> policy_from_def d | None \<Rightarrow> policy_new name)
      | None \<Rightarrow> policy_default)"

record gate_outcome =
  go_decision :: policy_decision
  go_effects :: "string list"

definition effect_summaries :: "'j plan \<Rightarrow> string list" where
  "effect_summaries pl =
     map (\<lambda>n. kind_label (en_kind n) @ '' '' @ tgt_driver (en_target n) @ '':'' @ tgt_path (en_target n))
       (pl_nodes pl)"

definition gate_plan :: "policy \<Rightarrow> 'j plan \<Rightarrow> gate_outcome" where
  "gate_plan p pl = \<lparr>go_decision = evaluate p pl, go_effects = effect_summaries pl\<rparr>"

definition gate_plan_with_context :: "policy \<Rightarrow> 'j plan \<Rightarrow> decision_context \<Rightarrow> gate_outcome" where
  "gate_plan_with_context p pl c = \<lparr>go_decision = evaluate_with_context p pl c, go_effects = effect_summaries pl\<rparr>"

datatype fired_decision = FAllow | FDeny string driver_id "nat option" "string option"

fun fired_from_decision :: "policy_decision \<Rightarrow> fired_decision" where
  "fired_from_decision DAllow = FAllow"
| "fired_from_decision (DDeny _ v driver rule _ detail) = FDeny (verb_label_of v) driver rule detail"

fun fired_is_allow :: "fired_decision \<Rightarrow> bool" where
  "fired_is_allow FAllow = True"
| "fired_is_allow _ = False"

record fired_record =
  fr_handler :: string
  fr_policy :: string
  fr_decision :: fired_decision
  fr_effects :: "string list"
  fr_ts :: i64

definition gate_record :: "gate_outcome \<Rightarrow> string \<Rightarrow> string \<Rightarrow> i64 \<Rightarrow> fired_record" where
  "gate_record g handler pol ts =
     \<lparr>fr_handler = handler, fr_policy = pol, fr_decision = fired_from_decision (go_decision g),
      fr_effects = go_effects g, fr_ts = ts\<rparr>"

definition fired_summary :: "fired_record \<Rightarrow> string" where
  "fired_summary r =
     (let pol = (if fr_policy r = [] then ''-'' else fr_policy r);
          ts = '' ts='' @ show_int (sint (fr_ts r)) in
      case fr_decision r of
        FAllow \<Rightarrow> ''ALLOW handler='' @ fr_handler r @ '' policy='' @ pol @ '' effects=''
                    @ show_nat (length (fr_effects r)) @ ts
      | FDeny v driver rule detail \<Rightarrow>
          ''DENY handler='' @ fr_handler r @ '' policy='' @ pol @ '' verb='' @ v @ '' driver='' @ driver
          @ '' rule='' @ (case rule of Some i \<Rightarrow> show_nat i | None \<Rightarrow> ''default'')
          @ (case detail of Some d \<Rightarrow> '' axis='' @ d | None \<Rightarrow> []) @ ts)"

section \<open>Shared connections\<close>

datatype shared_use = SUAllow | SUDeny string

definition use_covers :: "decision_context \<Rightarrow> string \<Rightarrow> rule \<Rightarrow> bool" where
  "use_covers c conn_scope r \<longleftrightarrow>
     satisfies_subject c (ru_subject r)
     \<and> (case ru_scope r of None \<Rightarrow> True | Some s \<Rightarrow> scope_matches_path s conn_scope)
     \<and> satisfies_condition c (ru_condition r)"

fun use_near_miss :: "rule list \<Rightarrow> decision_context \<Rightarrow> string \<Rightarrow> string option" where
  "use_near_miss [] c conn_scope = None"
| "use_near_miss (r # rs) c conn_scope =
     (if ru_effect r \<noteq> Allow then use_near_miss rs c conn_scope
      else if \<not> satisfies_subject c (ru_subject r) then Some ''a rule's actor scope did not apply''
      else (case (case ru_scope r of
                    Some s \<Rightarrow> if \<not> scope_matches_path s conn_scope
                              then Some (''the granted scope '' @ sg_pattern s @ '' does not cover it'') else None
                  | None \<Rightarrow> None) of
              Some d \<Rightarrow> Some d
            | None \<Rightarrow>
                (case (if \<not> satisfies_condition c (ru_condition r) then condition_label (ru_condition r) else None) of
                   Some label \<Rightarrow> Some (''the condition '' @ label @ '' did not hold'')
                 | None \<Rightarrow> use_near_miss rs c conn_scope)))"

definition evaluate_shared_use :: "policy \<Rightarrow> decision_context \<Rightarrow> string \<Rightarrow> shared_use" where
  "evaluate_shared_use p c conn_scope =
     (case find (use_covers c conn_scope) (po_rules p) of
        Some r \<Rightarrow>
          (case ru_effect r of
             Allow \<Rightarrow> SUAllow
           | Deny \<Rightarrow> SUDeny (''policy denies USE of the shared connection at scope `'' @ conn_scope
                       @ ''` (an explicit DENY rule applies to the actor)''))
      | None \<Rightarrow>
          SUDeny (''policy denies USE of the shared connection at scope `'' @ conn_scope
            @ ''` (default-deny: ''
            @ (case use_near_miss (po_rules p) c conn_scope of
                 Some d \<Rightarrow> d | None \<Rightarrow> ''no rule grants the actor this scope'')
            @ '')''))"

section \<open>Scopes away from realm names\<close>

definition bare_path :: "string \<Rightarrow> bool" where
  "bare_path s \<longleftrightarrow> (case path_segments s of [] \<Rightarrow> True | seg # _ \<Rightarrow> realm_from_segment seg = None)"

lemma scope_peel_bare: "bare_path s \<Longrightarrow> scope_peel s = (Me, path_segments s)"
  by (auto simp: bare_path_def scope_peel_def trim_slashes_segments split: list.splits)

section \<open>Properties\<close>

text \<open>C11: fail closed: without a bound policy, or with a reference to a policy that is not in the table,
  exactly the plans without a policy-bearing effect pass, in every context; the record of a fire
  says allow exactly if the gate did, and lists one summary per node.\<close>

theorem gate_fails_closed:
  assumes "pol = None \<or> pol = Some name \<and> table name = None"
  shows "(go_decision (gate_plan_with_context (resolve_policy pol table) pl c) = DAllow
      \<longleftrightarrow> (\<forall>n\<in>set (pl_nodes pl). verb_for_effect (en_kind n) = None))
    \<and> (let r = gate_record (gate_plan_with_context p pl c) handler bound ts in
        (fired_is_allow (fr_decision r) \<longleftrightarrow> evaluate_with_context p pl c = DAllow)
        \<and> length (fr_effects r) = length (pl_nodes pl))"
proof -
  have r: "po_rules (resolve_policy pol table) = []" "po_default (resolve_policy pol table) = Deny"
    using assms by (auto simp: resolve_policy_def policy_default_def policy_new_def)
  have "\<not> permitted (resolve_policy pol table) v d path c" for v d path
    using r by (simp add: permitted_def)
  moreover have "(\<forall>v. classify_effect k \<noteq> ECVerb v) \<longleftrightarrow> verb_for_effect k = None" for k
    by (auto simp: verb_for_effect_def split: effect_class.splits)
  ultimately have "go_decision (gate_plan_with_context (resolve_policy pol table) pl c) = DAllow
      \<longleftrightarrow> (\<forall>n\<in>set (pl_nodes pl). verb_for_effect (en_kind n) = None)"
    by (simp add: gate_plan_with_context_def evaluate_allow_iff node_verdict_None)
  moreover have "fired_is_allow (fired_from_decision d) \<longleftrightarrow> d = DAllow" for d by (cases d) simp_all
  ultimately show ?thesis
    by (simp add: gate_record_def gate_plan_with_context_def effect_summaries_def)
qed

theorem gate_fails_closed_witness:
  "go_decision (gate_plan_with_context (resolve_policy (Some ''ghost'') Map.empty)
     (plan_leaf (node_new 0 KRead demo_target) :: unit plan) ctx_anonymous) = DAllow
   \<and> go_decision (gate_plan_with_context (resolve_policy (Some ''ghost'') Map.empty)
     (plan_leaf (node_new 0 KInsert demo_target) :: unit plan) ctx_anonymous) \<noteq> DAllow"
proof -
  have h: "Some ''ghost'' = None \<or> Some ''ghost'' = Some ''ghost'' \<and> Map.empty ''ghost'' = None" by simp
  show ?thesis
    using gate_fails_closed [OF h, of "plan_leaf (node_new 0 KRead demo_target) :: unit plan" ctx_anonymous]
      gate_fails_closed [OF h, of "plan_leaf (node_new 0 KInsert demo_target) :: unit plan" ctx_anonymous]
    by (simp add: plan_leaf_def node_new_def verb_for_effect_def)
qed

text \<open>The gate on shared connections, for policies of \<open>ALLOW\<close> rules with the closed default, is coarser
  than every verb: who is permitted any effect at a path may use a connection whose scope is that
  path. With a \<open>DENY\<close> rule it is not: a policy that refuses only removals, before allowing
  inserts, permits the insert and refuses the use.\<close>

theorem shared_use_coarser:
  "((\<forall>r\<in>set (po_rules p). ru_effect r = Allow) \<longrightarrow> po_default p = Deny \<longrightarrow>
      permitted p v driver path c \<longrightarrow> evaluate_shared_use p c path = SUAllow)
   \<and> (let q = policy_with_rule (policy_with_rule (policy_new ''q'') (rule_deny (verbs_one VRemove) glob_any))
                (rule_allow (verbs_one VInsert) glob_any)
      in permitted q VInsert ''db'' ''/projects/acme/db'' ctx_anonymous
         \<and> evaluate_shared_use q ctx_anonymous ''/projects/acme/db'' \<noteq> SUAllow)"
proof -
  have "evaluate_shared_use p c path = SUAllow"
    if allow: "\<forall>r\<in>set (po_rules p). ru_effect r = Allow" and d: "po_default p = Deny"
      and perm: "permitted p v driver path c"
  proof -
    obtain r where r: "r \<in> set (po_rules p)" "rule_matches_in_context r v driver path c"
      using permitted_allow_only [OF allow d] perm by blast
    then have "use_covers c path r" by (simp add: use_covers_def rule_matches_in_context_def)
    then obtain s where "find (use_covers c path) (po_rules p) = Some s"
      using r(1) by (cases "find (use_covers c path) (po_rules p)") (auto simp: find_None_iff)
    moreover from this have "ru_effect s = Allow" using allow by (auto dest: find_SomeD)
    ultimately show ?thesis by (simp add: evaluate_shared_use_def)
  qed
  moreover have "let q = policy_with_rule (policy_with_rule (policy_new ''q'') (rule_deny (verbs_one VRemove) glob_any))
                (rule_allow (verbs_one VInsert) glob_any)
      in permitted q VInsert ''db'' ''/projects/acme/db'' ctx_anonymous
         \<and> evaluate_shared_use q ctx_anonymous ''/projects/acme/db'' \<noteq> SUAllow"
    by code_simp
  ultimately show ?thesis by blast
qed

theorem shared_use_coarser_witness:
  "evaluate_shared_use (policy_with_rule (policy_new ''q'') (rule_allow (verbs_one VInsert) glob_any))
     ctx_anonymous ''/projects/acme/db'' = SUAllow"
proof -
  let ?q = "policy_with_rule (policy_new ''q'') (rule_allow (verbs_one VInsert) glob_any)"
  have "permitted ?q VInsert ''db'' ''/projects/acme/db'' ctx_anonymous" by code_simp
  moreover have "\<forall>r\<in>set (po_rules ?q). ru_effect r = Allow" "po_default ?q = Deny"
    by (simp_all add: policy_with_rule_def policy_new_def policy_default_def rule_allow_def rule_new_def)
  ultimately show ?thesis using shared_use_coarser by blast
qed

text \<open>The two enforcement layers read a glob alike: the segment matchers of capabilities and policies
  are the same function, which implements the glob specification; so away from realm names a policy
  scope and a capability scope with the same text admit the same paths. A scope that names a
  realm differs: it stands for its realm, and covers the bare paths that belong to it.\<close>

theorem scope_globs_agree:
  "cap_glob_match = policy_glob_match
   \<and> policy_glob_match glob node = glob_spec glob node
   \<and> (bare_path g \<longrightarrow> bare_path path \<longrightarrow>
        scope_matches_path (ScopeGlob g) path = scope_matches (scope_parse g) path)
   \<and> scope_matches_path (ScopeGlob ''/me/mail/*'') ''/mail/inbox''
   \<and> \<not> scope_matches (scope_parse ''/me/mail/*'') ''/mail/inbox''"
proof -
  have eq: "cap_glob_match = policy_glob_match"
    by (intro ext) (simp add: cap_glob.admits_spec policy_glob.admits_spec)
  moreover have "scope_matches_path (ScopeGlob g) path = scope_matches (scope_parse g) path"
    if "bare_path g" "bare_path path"
    using that by (simp add: scope_matches_path_def scope_peel_bare scope_matches_def scope_parse_def eq)
  moreover have "scope_matches_path (ScopeGlob ''/me/mail/*'') ''/mail/inbox''"
    "\<not> scope_matches (scope_parse ''/me/mail/*'') ''/mail/inbox''" by code_simp+
  ultimately show ?thesis by (simp add: policy_glob.admits_spec)
qed

theorem scope_globs_agree_witness:
  "scope_matches_path (ScopeGlob ''/sql/**'') ''/sql/shop/items'' = scope_matches (scope_parse ''/sql/**'') ''/sql/shop/items''"
proof -
  have "bare_path ''/sql/**''" "bare_path ''/sql/shop/items''" by code_simp+
  then show ?thesis using scope_globs_agree by blast
qed

end
