(* ===== verification/Txn_Model.thy ===== *)
theory Txn_Model
  imports Plan_Topo Text_Util
begin

text \<open>
  The transactional vocabulary, \<open>crates/txn/src/{key,version,leg,outcome,report,strategy}.rs\<close>:
  idempotency keys, versions and preconditions, legs, outcomes, recovery reports and the choice
  of a commit strategy. \<open>serde_json::to_vec\<close> on the canonical projection of an effect is the
  parameter \<open>to_bytes\<close>; nothing is assumed of it. \<open>BTreeSet<DriverId>\<close> is a set, read in ascending
  order where the code iterates it.
\<close>

section \<open>Versions and preconditions\<close>

datatype version = Version (version_str: string)

datatype etag = Etag (etag_str: string)

datatype precondition = PcNone | PcIfVersion version | PcIfMatchEtag etag

definition is_conditional :: "precondition \<Rightarrow> bool" where
  "is_conditional p \<longleftrightarrow> p \<noteq> PcNone"

fun if_match_header :: "precondition \<Rightarrow> string option" where
  "if_match_header PcNone = None"
| "if_match_header (PcIfVersion v) = Some (version_str v)"
| "if_match_header (PcIfMatchEtag e) = Some (etag_str e)"

fun is_satisfied_by :: "precondition \<Rightarrow> version \<Rightarrow> bool" where
  "is_satisfied_by PcNone observed = True"
| "is_satisfied_by (PcIfVersion v) observed = (v = observed)"
| "is_satisfied_by (PcIfMatchEtag e) observed = (etag_str e = version_str observed)"

section \<open>Idempotency keys\<close>

datatype effect_key = EffectKey (key_str: string)

record 'j canonical =
  cn_plan_id :: string
  cn_effect_id :: u32
  cn_kind :: string
  cn_proc :: "string option"
  cn_driver :: string
  cn_path :: string
  cn_args :: "'j row_batch"

definition fnv1a64 :: "u8 list \<Rightarrow> u64" where
  "fnv1a64 bytes =
     fold (\<lambda>b h. xor h (ucast b) * 0x00000100000001b3) bytes (0xcbf29ce484222325 :: u64)"

text \<open>\<open>{:016x}\<close>: sixteen hexadecimal digits.\<close>

fun show_hex :: "nat \<Rightarrow> nat \<Rightarrow> string" where
  "show_hex 0 n = []"
| "show_hex (Suc w) n = show_hex w (n div 16) @ [hex_digit (n mod 16)]"

definition canonical_of :: "string \<Rightarrow> 'j effect_node \<Rightarrow> 'j canonical" where
  "canonical_of plan_id n =
     \<lparr>cn_plan_id = plan_id, cn_effect_id = en_id n, cn_kind = kind_label (en_kind n),
      cn_proc = (case en_kind n of KCall p \<Rightarrow> Some p | _ \<Rightarrow> None),
      cn_driver = tgt_driver (en_target n), cn_path = tgt_path (en_target n), cn_args = en_args n\<rparr>"

definition key_derive :: "('j canonical \<Rightarrow> u8 list) \<Rightarrow> string \<Rightarrow> 'j effect_node \<Rightarrow> effect_key" where
  "key_derive to_bytes plan_id n =
     EffectKey (''k:'' @ plan_id @ '':'' @ show_nat (unat (en_id n)) @ '':''
       @ show_hex 16 (unat (fnv1a64 (to_bytes (canonical_of plan_id n)))))"

section \<open>Descriptors, receipts, outcomes\<close>

record effect_descriptor =
  ed_id :: node_id
  ed_key :: effect_key
  ed_kind :: effect_kind
  ed_target :: target
  ed_precondition :: precondition
  ed_irreversible :: bool
  ed_arg_rows :: nat

definition is_replay_safe :: "effect_descriptor \<Rightarrow> bool" where
  "is_replay_safe d \<longleftrightarrow> ed_kind d = KUpsert \<or> is_conditional (ed_precondition d)"

record effect_receipt =
  er_id :: node_id
  er_affected :: u64
  er_new_version :: "version option"

definition receipt_new :: "node_id \<Rightarrow> u64 \<Rightarrow> effect_receipt" where
  "receipt_new i n = \<lparr>er_id = i, er_affected = n, er_new_version = None\<rparr>"

definition receipt_with_version :: "effect_receipt \<Rightarrow> version \<Rightarrow> effect_receipt" where
  "receipt_with_version r v = r\<lparr>er_new_version := Some v\<rparr>"

datatype txn_error = TxRetryable string | TxTerminal string

fun txn_error_code :: "txn_error \<Rightarrow> string" where
  "txn_error_code (TxRetryable _) = ''retryable''"
| "txn_error_code (TxTerminal _) = ''terminal''"

fun txn_error_retryable :: "txn_error \<Rightarrow> bool" where
  "txn_error_retryable (TxRetryable _) = True"
| "txn_error_retryable _ = False"

datatype leg_outcome =
    LoApplied effect_receipt | LoAlreadyApplied | LoConflict version | LoIndeterminate effect_key
  | LoFailed txn_error

fun outcome_code :: "leg_outcome \<Rightarrow> string" where
  "outcome_code (LoApplied _) = ''applied''"
| "outcome_code LoAlreadyApplied = ''already_applied''"
| "outcome_code (LoConflict _) = ''conflict''"
| "outcome_code (LoIndeterminate _) = ''indeterminate''"
| "outcome_code (LoFailed _) = ''failed''"

fun is_success :: "leg_outcome \<Rightarrow> bool" where
  "is_success (LoApplied _) = True"
| "is_success LoAlreadyApplied = True"
| "is_success _ = False"

section \<open>Legs\<close>

datatype compensation = DeleteCreated | RestoreVersion version | ManualReconcile

fun compensation_code :: "compensation \<Rightarrow> string" where
  "compensation_code DeleteCreated = ''delete_created''"
| "compensation_code (RestoreVersion _) = ''restore_version''"
| "compensation_code ManualReconcile = ''manual_reconcile''"

record effect_leg =
  lg_key :: effect_key
  lg_descriptor :: effect_descriptor
  lg_compensation :: "compensation option"

definition leg_from_node ::
  "('j canonical \<Rightarrow> u8 list) \<Rightarrow> string \<Rightarrow> 'j effect_node \<Rightarrow> precondition \<Rightarrow> effect_leg" where
  "leg_from_node to_bytes plan_id n pre =
     (let key = key_derive to_bytes plan_id n in
      \<lparr>lg_key = key,
       lg_descriptor = \<lparr>ed_id = en_id n, ed_key = key, ed_kind = en_kind n, ed_target = en_target n,
          ed_precondition = pre, ed_irreversible = en_irreversible n,
          ed_arg_rows = length (rb_rows (en_args n))\<rparr>,
       lg_compensation = None\<rparr>)"

definition leg_with_compensation :: "effect_leg \<Rightarrow> compensation \<Rightarrow> effect_leg" where
  "leg_with_compensation l c = l\<lparr>lg_compensation := Some c\<rparr>"

section \<open>Recovery reports\<close>

record leg_record =
  lr_id :: node_id
  lr_key :: effect_key
  lr_kind :: effect_kind
  lr_target :: target
  lr_irreversible :: bool
  lr_outcome :: leg_outcome

definition record_from_outcome :: "effect_leg \<Rightarrow> leg_outcome \<Rightarrow> leg_record" where
  "record_from_outcome l out =
     \<lparr>lr_id = ed_id (lg_descriptor l), lr_key = lg_key l, lr_kind = ed_kind (lg_descriptor l),
      lr_target = ed_target (lg_descriptor l), lr_irreversible = ed_irreversible (lg_descriptor l),
      lr_outcome = out\<rparr>"

definition record_skipped :: "effect_leg \<Rightarrow> leg_record" where
  "record_skipped l =
     record_from_outcome l (LoFailed (TxTerminal ''skipped: a prior leg in the commit failed''))"

record recovery_report =
  rr_legs :: "leg_record list"
  rr_failure_at :: "node_id option"
  rr_compensated :: "node_id list"
  rr_rolled_back :: bool

definition report_new :: "leg_record list \<Rightarrow> node_id option \<Rightarrow> node_id list \<Rightarrow> recovery_report" where
  "report_new legs failure_at compensated =
     \<lparr>rr_legs = legs, rr_failure_at = failure_at, rr_compensated = compensated, rr_rolled_back = False\<rparr>"

definition report_rolled_back :: "recovery_report \<Rightarrow> bool \<Rightarrow> recovery_report" where
  "report_rolled_back r yes = r\<lparr>rr_rolled_back := yes\<rparr>"

definition report_is_clean :: "recovery_report \<Rightarrow> bool" where
  "report_is_clean r \<longleftrightarrow> rr_failure_at r = None"

definition report_applied_count :: "recovery_report \<Rightarrow> nat" where
  "report_applied_count r =
     length (filter (\<lambda>l. case lr_outcome l of LoApplied _ \<Rightarrow> True | _ \<Rightarrow> False) (rr_legs r))"

definition report_already_applied_count :: "recovery_report \<Rightarrow> nat" where
  "report_already_applied_count r = length (filter (\<lambda>l. lr_outcome l = LoAlreadyApplied) (rr_legs r))"

definition report_conflict_count :: "recovery_report \<Rightarrow> nat" where
  "report_conflict_count r =
     length (filter (\<lambda>l. case lr_outcome l of LoConflict _ \<Rightarrow> True | _ \<Rightarrow> False) (rr_legs r))"

definition report_indeterminate_count :: "recovery_report \<Rightarrow> nat" where
  "report_indeterminate_count r =
     length (filter (\<lambda>l. case lr_outcome l of LoIndeterminate _ \<Rightarrow> True | _ \<Rightarrow> False) (rr_legs r))"

section \<open>Commit strategies\<close>

datatype commit_strategy = SingleSourceAcid driver_id | CrossSourceSaga

fun strategy_code :: "commit_strategy \<Rightarrow> string" where
  "strategy_code (SingleSourceAcid _) = ''single_source_acid''"
| "strategy_code CrossSourceSaga = ''cross_source_saga''"

fun txn_is_write :: "effect_kind \<Rightarrow> bool" where
  "txn_is_write KInsert = True"
| "txn_is_write KUpsert = True"
| "txn_is_write KUpdate = True"
| "txn_is_write KRemove = True"
| "txn_is_write (KCall _) = True"
| "txn_is_write _ = False"

definition write_sources :: "'j plan \<Rightarrow> driver_id set" where
  "write_sources p =
     fold (\<lambda>n s. if txn_is_write (en_kind n) then insert (tgt_driver (en_target n)) s else s) (pl_nodes p) {}"

definition select_strategy :: "'j plan \<Rightarrow> driver_id set \<Rightarrow> commit_strategy" where
  "select_strategy p transactional =
     (case sorted_list_of_set (write_sources p) of
        [only] \<Rightarrow> if only \<in> transactional then SingleSourceAcid only else CrossSourceSaga
      | _ \<Rightarrow> CrossSourceSaga)"

datatype cp_step = CpCopy | CpVerify | CpDelete

definition mv_sequence :: "cp_step list" where
  "mv_sequence = [CpCopy, CpVerify, CpDelete]"

definition cp_sequence :: "cp_step list" where
  "cp_sequence = [CpCopy, CpVerify]"

fun cp_step_label :: "cp_step \<Rightarrow> string" where
  "cp_step_label CpCopy = ''COPY''"
| "cp_step_label CpVerify = ''VERIFY''"
| "cp_step_label CpDelete = ''DELETE''"

section \<open>Facts\<close>

lemma leg_from_node_simps [simp]:
  "lg_key (leg_from_node tb pid n pre) = key_derive tb pid n"
  "ed_id (lg_descriptor (leg_from_node tb pid n pre)) = en_id n"
  "ed_kind (lg_descriptor (leg_from_node tb pid n pre)) = en_kind n"
  "ed_precondition (lg_descriptor (leg_from_node tb pid n pre)) = pre"
  "ed_irreversible (lg_descriptor (leg_from_node tb pid n pre)) = en_irreversible n"
  "lg_compensation (leg_from_node tb pid n pre) = None"
  by (simp_all add: leg_from_node_def Let_def)

lemma record_simps [simp]:
  "lr_outcome (record_from_outcome l out) = out" "lr_key (record_from_outcome l out) = lg_key l"
  "lr_id (record_from_outcome l out) = ed_id (lg_descriptor l)"
  "lr_key (record_skipped l) = lg_key l" "lr_id (record_skipped l) = ed_id (lg_descriptor l)"
  by (simp_all add: record_from_outcome_def record_skipped_def)

lemma fold_write_sources:
  "fold (\<lambda>n s. if txn_is_write (en_kind n) then insert (tgt_driver (en_target n)) s else s) ns s =
      (\<lambda>n. tgt_driver (en_target n)) ` {n \<in> set ns. txn_is_write (en_kind n)} \<union> s"
  by (induction ns arbitrary: s) auto

lemma write_sources_eq:
  "write_sources p = (\<lambda>n. tgt_driver (en_target n)) ` {n \<in> set (pl_nodes p). txn_is_write (en_kind n)}"
  unfolding write_sources_def using fold_write_sources [of "pl_nodes p" "{}"] by simp

lemma sorted_list_singleton: "finite A \<Longrightarrow> sorted_list_of_set A = [x] \<longleftrightarrow> A = {x}"
  by (auto dest: arg_cong [where f = set])

lemma show_hex_length [simp]: "length (show_hex w n) = w"
  by (induction w arbitrary: n) simp_all

lemma same_length_tails:
  "a @ c # xs = b @ c # ys \<Longrightarrow> length xs = length ys \<Longrightarrow> a = b"
  by simp

lemma key_ids_distinct:
  assumes "key_derive tb pid m = key_derive tb' pid n" shows "en_id m = en_id n"
proof -
  have "show_nat (unat (en_id m)) = show_nat (unat (en_id n))"
    using assms by (auto simp: key_derive_def append_eq_append_conv dest!: same_length_tails)
  then show ?thesis by (simp add: word_unat_eq_iff)
qed

section \<open>Properties\<close>

text \<open>The commit is one ACID transaction exactly if there is a write and all writes go to one driver
  that supports transactions; a plan of reads and server configuration writes is a saga.\<close>

theorem select_strategy_acid:
  "select_strategy p transactional = SingleSourceAcid s \<longleftrightarrow>
     s \<in> transactional
     \<and> (\<exists>n\<in>set (pl_nodes p). txn_is_write (en_kind n))
     \<and> (\<forall>n\<in>set (pl_nodes p). txn_is_write (en_kind n) \<longrightarrow> tgt_driver (en_target n) = s)"
proof -
  have fin: "finite (write_sources p)" by (simp add: write_sources_eq)
  have "select_strategy p transactional = SingleSourceAcid s \<longleftrightarrow>
      sorted_list_of_set (write_sources p) = [s] \<and> s \<in> transactional"
    by (auto simp: select_strategy_def split: list.splits)
  also have "sorted_list_of_set (write_sources p) = [s] \<longleftrightarrow> write_sources p = {s}"
    by (rule sorted_list_singleton [OF fin])
  also have "write_sources p = {s} \<longleftrightarrow> (\<exists>n\<in>set (pl_nodes p). txn_is_write (en_kind n))
     \<and> (\<forall>n\<in>set (pl_nodes p). txn_is_write (en_kind n) \<longrightarrow> tgt_driver (en_target n) = s)"
    unfolding write_sources_eq by auto
  finally show ?thesis by blast
qed

theorem select_strategy_acid_witness:
  "select_strategy demo_plan {''db''} = SingleSourceAcid ''db''"
  by (subst select_strategy_acid) (simp add: demo_plan_def node_new_def demo_target_def)

text \<open>The idempotency key depends on the plan id, the node id, the kind, the target and the argument
  rows only: the selector, the rows a statement's \<open>WHERE\<close> binds, does not enter it, nor do the
  estimate, the irreversible flag and the precondition. Effects of different nodes of a plan have
  different keys whatever the hash.\<close>

theorem key_derive_dependence:
  "(en_id m = en_id n \<longrightarrow> en_kind m = en_kind n \<longrightarrow> en_target m = en_target n \<longrightarrow> en_args m = en_args n \<longrightarrow>
      key_derive to_bytes pid m = key_derive to_bytes pid n)
   \<and> key_derive to_bytes pid (with_selector n sel) = key_derive to_bytes pid n
   \<and> (en_id m \<noteq> en_id n \<longrightarrow> key_derive to_bytes pid m \<noteq> key_derive to_bytes pid n)"
proof (intro conjI impI)
  show "key_derive to_bytes pid m \<noteq> key_derive to_bytes pid n" if "en_id m \<noteq> en_id n"
    using that key_ids_distinct [of to_bytes pid m to_bytes n] by blast
qed (simp_all add: key_derive_def canonical_of_def with_selector_def)

theorem key_derive_dependence_witness:
  "key_derive (\<lambda>_. []) ''p'' (node_new 1 KInsert demo_target :: nat effect_node) \<noteq>
   key_derive (\<lambda>_. []) ''p'' (node_new 2 KInsert demo_target :: nat effect_node)"
  by (rule key_derive_dependence [THEN conjunct2, THEN conjunct2, THEN mp])
    (simp add: node_new_def)

end
