(* ===== verification/Txn_Ledger.thy ===== *)
theory Txn_Ledger
  imports Txn_Model
begin

text \<open>
  The audit ledger, \<open>crates/txn/src/ledger.rs\<close>, as an interface and its in-memory provider, and
  the steps the executors take over a ledger. The trait \<open>AuditLedger\<close> is a record of its four
  functions on an abstract ledger state; the locale \<open>audit_ledger\<close> has the laws its documentation
  promises. A step is noted in a trace as it is taken, so that a crash is a cut of the trace:
  \<open>replay\<close> gives the ledger a run leaves behind if it stops after any of its steps. A poisoned
  mutex, which makes the in-memory ledger forget, is not modelled: no code panics while holding it.
\<close>

section \<open>The contract\<close>

record 'l ledger_api =
  la_record_intent :: "effect_key \<Rightarrow> effect_descriptor \<Rightarrow> 'l \<Rightarrow> 'l"
  la_mark_applied :: "effect_key \<Rightarrow> effect_receipt \<Rightarrow> 'l \<Rightarrow> 'l"
  la_applied :: "'l \<Rightarrow> effect_key \<Rightarrow> effect_receipt option"
  la_has_intent :: "'l \<Rightarrow> effect_key \<Rightarrow> bool"

section \<open>The in-memory ledger\<close>

record mem_ledger =
  ml_intents :: "effect_key \<rightharpoonup> effect_descriptor"
  ml_applied :: "effect_key \<rightharpoonup> effect_receipt"

definition mem_new :: mem_ledger where
  "mem_new = \<lparr>ml_intents = Map.empty, ml_applied = Map.empty\<rparr>"

definition mem_record_intent :: "effect_key \<Rightarrow> effect_descriptor \<Rightarrow> mem_ledger \<Rightarrow> mem_ledger" where
  "mem_record_intent k d l = l\<lparr>ml_intents := (ml_intents l)(k \<mapsto> d)\<rparr>"

definition mem_mark_applied :: "effect_key \<Rightarrow> effect_receipt \<Rightarrow> mem_ledger \<Rightarrow> mem_ledger" where
  "mem_mark_applied k r l = l\<lparr>ml_applied := (ml_applied l)(k \<mapsto> r)\<rparr>"

definition mem_applied :: "mem_ledger \<Rightarrow> effect_key \<Rightarrow> effect_receipt option" where
  "mem_applied l k = ml_applied l k"

definition mem_has_intent :: "mem_ledger \<Rightarrow> effect_key \<Rightarrow> bool" where
  "mem_has_intent l k \<longleftrightarrow> ml_intents l k \<noteq> None"

definition mem_api :: "mem_ledger ledger_api" where
  "mem_api = \<lparr>la_record_intent = mem_record_intent, la_mark_applied = mem_mark_applied,
              la_applied = mem_applied, la_has_intent = mem_has_intent\<rparr>"

section \<open>Steps over a ledger\<close>

datatype 'c txn_action = ARecord effect_key effect_descriptor | ACall 'c | AMark effect_key effect_receipt

record ('l, 'w, 'c) txn_state =
  ts_ledger :: 'l
  ts_world :: 'w
  ts_trace :: "'c txn_action list"

definition do_record ::
  "'l ledger_api \<Rightarrow> effect_key \<Rightarrow> effect_descriptor \<Rightarrow> ('l, 'w, 'c) txn_state \<Rightarrow> ('l, 'w, 'c) txn_state" where
  "do_record api k d s =
     s\<lparr>ts_ledger := la_record_intent api k d (ts_ledger s), ts_trace := ts_trace s @ [ARecord k d]\<rparr>"

definition do_mark ::
  "'l ledger_api \<Rightarrow> effect_key \<Rightarrow> effect_receipt \<Rightarrow> ('l, 'w, 'c) txn_state \<Rightarrow> ('l, 'w, 'c) txn_state" where
  "do_mark api k r s =
     s\<lparr>ts_ledger := la_mark_applied api k r (ts_ledger s), ts_trace := ts_trace s @ [AMark k r]\<rparr>"

definition do_call :: "'c \<Rightarrow> 'w \<Rightarrow> ('l, 'w, 'c) txn_state \<Rightarrow> ('l, 'w, 'c) txn_state" where
  "do_call c w s = s\<lparr>ts_world := w, ts_trace := ts_trace s @ [ACall c]\<rparr>"

definition txn_start :: "'l \<Rightarrow> 'w \<Rightarrow> ('l, 'w, 'c) txn_state" where
  "txn_start l w = \<lparr>ts_ledger = l, ts_world = w, ts_trace = []\<rparr>"

fun replay_action :: "'l ledger_api \<Rightarrow> 'c txn_action \<Rightarrow> 'l \<Rightarrow> 'l" where
  "replay_action api (ARecord k d) l = la_record_intent api k d l"
| "replay_action api (ACall c) l = l"
| "replay_action api (AMark k r) l = la_mark_applied api k r l"

definition replay :: "'l ledger_api \<Rightarrow> 'c txn_action list \<Rightarrow> 'l \<Rightarrow> 'l" where
  "replay api acts l = fold (replay_action api) acts l"

fun calls_in :: "'c txn_action list \<Rightarrow> 'c list" where
  "calls_in [] = []"
| "calls_in (ACall c # as) = c # calls_in as"
| "calls_in (_ # as) = calls_in as"

section \<open>The laws\<close>

locale audit_ledger =
  fixes api :: "'l ledger_api"
  assumes applied_mark: "la_applied api (la_mark_applied api k r l) k' = (if k' = k then Some r else la_applied api l k')"
    and applied_record: "la_applied api (la_record_intent api k d l) k' = la_applied api l k'"
    and intent_record: "la_has_intent api (la_record_intent api k d l) k' \<longleftrightarrow> k' = k \<or> la_has_intent api l k'"
    and intent_mark: "la_has_intent api (la_mark_applied api k r l) k' = la_has_intent api l k'"
begin

lemma applied_mono_action: "la_applied api l k \<noteq> None \<Longrightarrow> la_applied api (replay_action api a l) k \<noteq> None"
  by (cases a) (auto simp: applied_mark applied_record)

lemma intent_mono_action: "la_has_intent api l k \<Longrightarrow> la_has_intent api (replay_action api a l) k"
  by (cases a) (auto simp: intent_record intent_mark)

lemma applied_mono: "la_applied api l k \<noteq> None \<Longrightarrow> la_applied api (replay api acts l) k \<noteq> None"
  unfolding replay_def by (induction acts arbitrary: l) (simp_all add: applied_mono_action del: not_None_eq)

lemma intent_mono: "la_has_intent api l k \<Longrightarrow> la_has_intent api (replay api acts l) k"
  unfolding replay_def by (induction acts arbitrary: l) (simp_all add: intent_mono_action)

lemma intent_of_record: "ARecord k d \<in> set acts \<Longrightarrow> la_has_intent api (replay api acts l) k"
proof (induction acts arbitrary: l)
  case (Cons a acts)
  then show ?case
    using intent_mono [of _ k acts] by (auto simp: replay_def intent_record)
qed simp

lemma applied_of_mark: "AMark k r \<in> set acts \<Longrightarrow> la_applied api (replay api acts l) k \<noteq> None"
proof (induction acts arbitrary: l)
  case (Cons a acts)
  then show ?case
    using applied_mono [of _ k acts] by (auto simp: replay_def applied_mark)
qed simp

end

interpretation mem: audit_ledger mem_api
  by unfold_locales (auto simp: mem_api_def mem_mark_applied_def mem_applied_def mem_record_intent_def
      mem_has_intent_def)

section \<open>Facts\<close>

lemma step_simps [simp]:
  "ts_ledger (do_record api k d s) = la_record_intent api k d (ts_ledger s)"
  "ts_world (do_record api k d s) = ts_world s"
  "ts_trace (do_record api k d s) = ts_trace s @ [ARecord k d]"
  "ts_ledger (do_mark api k r s) = la_mark_applied api k r (ts_ledger s)"
  "ts_world (do_mark api k r s) = ts_world s"
  "ts_trace (do_mark api k r s) = ts_trace s @ [AMark k r]"
  "ts_ledger (do_call c w s) = ts_ledger s"
  "ts_world (do_call c w s) = w"
  "ts_trace (do_call c w s) = ts_trace s @ [ACall c]"
  "ts_ledger (txn_start l w) = l" "ts_world (txn_start l w) = w" "ts_trace (txn_start l w) = []"
  by (simp_all add: do_record_def do_mark_def do_call_def txn_start_def)

lemma replay_simps [simp]:
  "replay api [] l = l"
  "replay api (a # as) l = replay api as (replay_action api a l)"
  "replay api (as @ bs) l = replay api bs (replay api as l)"
  by (simp_all add: replay_def)

lemma calls_in_append [simp]: "calls_in (as @ bs) = calls_in as @ calls_in bs"
  by (induction as rule: calls_in.induct) simp_all

lemma calls_in_set: "c \<in> set (calls_in as) \<longleftrightarrow> ACall c \<in> set as"
  by (induction as rule: calls_in.induct) auto

section \<open>Sequences of steps\<close>

text \<open>\<open>steps_from api s s' acts\<close>: the run from \<open>s\<close> to \<open>s'\<close> took the steps \<open>acts\<close>, and its ledger is
  the one they leave.\<close>

definition steps_from ::
  "'l ledger_api \<Rightarrow> ('l, 'w, 'c) txn_state \<Rightarrow> ('l, 'w, 'c) txn_state \<Rightarrow> 'c txn_action list \<Rightarrow> bool" where
  "steps_from api s s' acts \<longleftrightarrow>
     ts_trace s' = ts_trace s @ acts \<and> ts_ledger s' = replay api acts (ts_ledger s)"

lemma steps_fromI [intro]:
  "steps_from api s s []"
  "steps_from api s s1 acts \<Longrightarrow> steps_from api s (do_record api k d s1) (acts @ [ARecord k d])"
  "steps_from api s s1 acts \<Longrightarrow> steps_from api s (do_mark api k r s1) (acts @ [AMark k r])"
  "steps_from api s s1 acts \<Longrightarrow> steps_from api s (do_call c w s1) (acts @ [ACall c])"
  by (simp_all add: steps_from_def)

lemma steps_from_trans: "steps_from api s s1 as \<Longrightarrow> steps_from api s1 s2 bs \<Longrightarrow> steps_from api s s2 (as @ bs)"
  by (simp add: steps_from_def)

end
