(* ===== verification/Txn_Saga.thy ===== *)
theory Txn_Saga
  imports Txn_Ledger
begin

text \<open>
  The saga and ACID executors, \<open>crates/txn/src/saga.rs\<close>, over an arbitrary ledger and an arbitrary
  stateful \<open>LegApplier\<close>. The attempt counter is a \<open>u32\<close> that stays below the retry cap, so it is a
  natural number. A step of the executors and a call of the applier are noted in the trace.
\<close>

section \<open>The code\<close>

record saga_policy =
  sp_conflict_retries :: u32

definition saga_policy_default :: saga_policy where
  "saga_policy_default = \<lparr>sp_conflict_retries = 1\<rparr>"

record 'w leg_applier =
  ap_apply :: "effect_leg \<Rightarrow> precondition \<Rightarrow> 'w \<Rightarrow> leg_outcome \<times> 'w"
  ap_compensate :: "effect_leg \<Rightarrow> compensation \<Rightarrow> 'w \<Rightarrow> 'w"

datatype applier_call = CApply effect_leg precondition | CCompensate effect_leg compensation

type_synonym ('l, 'w) saga_state = "('l, 'w, applier_call) txn_state"

definition rebase_precondition :: "version \<Rightarrow> precondition" where
  "rebase_precondition v = PcIfVersion v"

definition call_apply ::
  "'w leg_applier \<Rightarrow> effect_leg \<Rightarrow> precondition \<Rightarrow> ('l, 'w) saga_state \<Rightarrow> leg_outcome \<times> ('l, 'w) saga_state" where
  "call_apply ap leg pre s =
     (case ap_apply ap leg pre (ts_world s) of (out, w) \<Rightarrow> (out, do_call (CApply leg pre) w s))"

definition call_compensate ::
  "'w leg_applier \<Rightarrow> effect_leg \<Rightarrow> compensation \<Rightarrow> ('l, 'w) saga_state \<Rightarrow> ('l, 'w) saga_state" where
  "call_compensate ap leg c s = do_call (CCompensate leg c) (ap_compensate ap leg c (ts_world s)) s"

function apply_loop ::
  "'l ledger_api \<Rightarrow> 'w leg_applier \<Rightarrow> effect_leg \<Rightarrow> nat \<Rightarrow> nat \<Rightarrow> precondition \<Rightarrow> ('l, 'w) saga_state
     \<Rightarrow> leg_outcome \<times> ('l, 'w) saga_state" where
  "apply_loop api ap leg max_attempts attempt pre s =
     (case call_apply ap leg pre s of (out, s1) \<Rightarrow>
        (case out of
           LoApplied receipt \<Rightarrow> (LoApplied receipt, do_mark api (lg_key leg) receipt s1)
         | LoAlreadyApplied \<Rightarrow> (LoAlreadyApplied, s1)
         | LoConflict v \<Rightarrow>
             (if max_attempts \<le> attempt then (LoConflict v, s1)
              else apply_loop api ap leg max_attempts (attempt + 1) (rebase_precondition v) s1)
         | LoFailed e \<Rightarrow> (LoFailed e, s1)
         | LoIndeterminate k \<Rightarrow> (LoIndeterminate k, s1)))"
  by pat_completeness auto

termination
  by (relation "measure (\<lambda>(api, ap, leg, max_attempts, attempt, pre, s). max_attempts - attempt)") auto

declare apply_loop.simps [simp del]

definition apply_leg ::
  "'l ledger_api \<Rightarrow> saga_policy \<Rightarrow> 'w leg_applier \<Rightarrow> effect_leg \<Rightarrow> ('l, 'w) saga_state
     \<Rightarrow> leg_outcome \<times> ('l, 'w) saga_state" where
  "apply_leg api policy ap leg s =
     (if la_applied api (ts_ledger s) (lg_key leg) \<noteq> None then (LoAlreadyApplied, s)
      else let s1 = do_record api (lg_key leg) (lg_descriptor leg) s;
               max_attempts = (if ed_irreversible (lg_descriptor leg) then 0
                               else unat (sp_conflict_retries policy))
           in apply_loop api ap leg max_attempts 0 (ed_precondition (lg_descriptor leg)) s1)"

fun saga_is_hard :: "leg_outcome \<Rightarrow> bool" where
  "saga_is_hard (LoFailed _) = True"
| "saga_is_hard (LoConflict _) = True"
| "saga_is_hard (LoIndeterminate _) = True"
| "saga_is_hard _ = False"

fun is_fresh_apply :: "leg_outcome \<Rightarrow> bool" where
  "is_fresh_apply (LoApplied _) = True"
| "is_fresh_apply _ = False"

record ('l, 'w) saga_walk =
  sw_records :: "leg_record list"
  sw_applied :: "nat list"
  sw_failure :: "node_id option"
  sw_state :: "('l, 'w) saga_state"

definition saga_step ::
  "'l ledger_api \<Rightarrow> saga_policy \<Rightarrow> 'w leg_applier \<Rightarrow> nat \<times> effect_leg \<Rightarrow> ('l, 'w) saga_walk \<Rightarrow> ('l, 'w) saga_walk" where
  "saga_step api policy ap il k =
     (case il of (i, leg) \<Rightarrow>
        if sw_failure k \<noteq> None then k\<lparr>sw_records := sw_records k @ [record_skipped leg]\<rparr>
        else (case apply_leg api policy ap leg (sw_state k) of (out, s) \<Rightarrow>
          k\<lparr>sw_records := sw_records k @ [record_from_outcome leg out],
            sw_applied := (if is_fresh_apply out then sw_applied k @ [i] else sw_applied k),
            sw_failure := (if saga_is_hard out then Some (ed_id (lg_descriptor leg)) else sw_failure k),
            sw_state := s\<rparr>))"

definition saga_walk_legs ::
  "'l ledger_api \<Rightarrow> saga_policy \<Rightarrow> 'w leg_applier \<Rightarrow> effect_leg list \<Rightarrow> ('l, 'w) saga_state \<Rightarrow> ('l, 'w) saga_walk" where
  "saga_walk_legs api policy ap legs s =
     fold (saga_step api policy ap) (enumerate 0 legs)
       \<lparr>sw_records = [], sw_applied = [], sw_failure = None, sw_state = s\<rparr>"

definition compensate_step ::
  "'w leg_applier \<Rightarrow> effect_leg list \<Rightarrow> nat \<Rightarrow> node_id list \<times> ('l, 'w) saga_state
     \<Rightarrow> node_id list \<times> ('l, 'w) saga_state" where
  "compensate_step ap legs i cs =
     (case cs of (compensated, s) \<Rightarrow>
        let leg = legs ! i in
        if ed_irreversible (lg_descriptor leg) then (compensated, s)
        else (case lg_compensation leg of
                None \<Rightarrow> (compensated, s)
              | Some c \<Rightarrow> (compensated @ [ed_id (lg_descriptor leg)], call_compensate ap leg c s)))"

definition run_saga ::
  "'l ledger_api \<Rightarrow> saga_policy \<Rightarrow> 'w leg_applier \<Rightarrow> effect_leg list \<Rightarrow> ('l, 'w) saga_state
     \<Rightarrow> recovery_report \<times> ('l, 'w) saga_state" where
  "run_saga api policy ap legs s =
     (let k = saga_walk_legs api policy ap legs s;
          (compensated, s') =
            (if sw_failure k = None then ([], sw_state k)
             else fold (compensate_step ap legs) (rev (sw_applied k)) ([], sw_state k))
      in (report_new (sw_records k) (sw_failure k) compensated, s'))"

definition run_acid ::
  "'l ledger_api \<Rightarrow> saga_policy \<Rightarrow> 'w leg_applier \<Rightarrow> effect_leg list \<Rightarrow> ('l, 'w) saga_state
     \<Rightarrow> recovery_report \<times> ('l, 'w) saga_state" where
  "run_acid api policy ap legs s =
     (let k = saga_walk_legs api policy ap legs s
      in (report_rolled_back (report_new (sw_records k) (sw_failure k) []) (sw_failure k \<noteq> None), sw_state k))"

definition all_succeeded :: "leg_outcome list \<Rightarrow> bool" where
  "all_succeeded outs = list_all is_success outs"

section \<open>One leg\<close>

definition mark_of :: "effect_leg \<Rightarrow> leg_outcome \<Rightarrow> 'c txn_action list" where
  "mark_of leg out = (case out of LoApplied r \<Rightarrow> [AMark (lg_key leg) r] | _ \<Rightarrow> [])"

definition attempt_bound :: "saga_policy \<Rightarrow> effect_leg \<Rightarrow> nat" where
  "attempt_bound policy leg =
     (if ed_irreversible (lg_descriptor leg) then 1 else Suc (unat (sp_conflict_retries policy)))"

definition leg_steps :: "saga_policy \<Rightarrow> effect_leg \<Rightarrow> applier_call txn_action list \<Rightarrow> bool" where
  "leg_steps policy leg acts \<longleftrightarrow>
     acts = [] \<or> (\<exists>pres out. acts = ARecord (lg_key leg) (lg_descriptor leg)
                    # map (\<lambda>p. ACall (CApply leg p)) pres @ mark_of leg out
                  \<and> length pres \<le> attempt_bound policy leg)"

lemma leg_steps_Nil [simp]: "leg_steps policy leg []"
  by (simp add: leg_steps_def)

lemma outcome_kinds: "saga_is_hard out \<longleftrightarrow> \<not> is_success out"
  by (cases out) simp_all

lemma apply_loop_steps:
  "apply_loop api ap leg m a pre s = (out, s') \<Longrightarrow>
     \<exists>pres. pres \<noteq> [] \<and> length pres \<le> Suc (m - a)
       \<and> steps_from api s s' (map (\<lambda>p. ACall (CApply leg p)) pres @ mark_of leg out)"
proof (induction api ap leg m a pre s arbitrary: out s' rule: apply_loop.induct)
  case (1 api ap leg m a pre s)
  obtain o1 w1 where w1: "ap_apply ap leg pre (ts_world s) = (o1, w1)" by fastforce
  let ?s1 = "do_call (CApply leg pre) w1 s"
  have ca: "call_apply ap leg pre s = (o1, ?s1)" by (simp add: call_apply_def w1)
  have st: "steps_from api s ?s1 (map (\<lambda>p. ACall (CApply leg p)) [pre])"
    by (simp add: steps_from_def)
  show ?case
  proof (cases "\<exists>v. o1 = LoConflict v \<and> \<not> m \<le> a")
    case True
    then obtain v where v: "o1 = LoConflict v" "\<not> m \<le> a" by blast
    have "apply_loop api ap leg m (a + 1) (rebase_precondition v) ?s1 = (out, s')"
      using 1(2) v by (subst (asm) apply_loop.simps) (simp add: ca)
    from 1(1) [OF ca [symmetric] _ _ this] v obtain pres where p: "pres \<noteq> []" "length pres \<le> Suc (m - (a + 1))"
      "steps_from api ?s1 s' (map (\<lambda>p. ACall (CApply leg p)) pres @ mark_of leg out)" by auto
    show ?thesis
      using steps_from_trans [OF st p(3)] p(1,2) v(2) by (intro exI [of _ "pre # pres"]) auto
  next
    case False
    have "out = o1 \<and> s' = (case o1 of LoApplied r \<Rightarrow> do_mark api (lg_key leg) r ?s1 | _ \<Rightarrow> ?s1)"
      using 1(2) False by (subst (asm) apply_loop.simps) (auto simp: ca split: leg_outcome.splits)
    then have "steps_from api s s' (map (\<lambda>p. ACall (CApply leg p)) [pre] @ mark_of leg out)"
      using st by (auto simp: mark_of_def steps_from_def split: leg_outcome.splits)
    then show ?thesis by (intro exI [of _ "[pre]"]) simp
  qed
qed

lemma apply_leg_applied:
  "la_applied api (ts_ledger s) (lg_key leg) \<noteq> None \<Longrightarrow> apply_leg api policy ap leg s = (LoAlreadyApplied, s)"
  by (simp add: apply_leg_def)

lemma apply_leg_steps:
  assumes "apply_leg api policy ap leg s = (out, s')"
  obtains acts where "steps_from api s s' acts" "leg_steps policy leg acts"
    "\<forall>r. out = LoApplied r \<longrightarrow> AMark (lg_key leg) r \<in> set acts"
proof (cases "la_applied api (ts_ledger s) (lg_key leg) \<noteq> None")
  case True
  then have "out = LoAlreadyApplied" "s' = s" using assms by (simp_all add: apply_leg_applied)
  then show thesis by (intro that [of "[]"]) (auto simp: leg_steps_def)
next
  case False
  let ?s1 = "do_record api (lg_key leg) (lg_descriptor leg) s"
  let ?m = "if ed_irreversible (lg_descriptor leg) then 0 else unat (sp_conflict_retries policy)"
  have "apply_loop api ap leg ?m 0 (ed_precondition (lg_descriptor leg)) ?s1 = (out, s')"
    using assms False by (simp add: apply_leg_def Let_def)
  from apply_loop_steps [OF this] obtain pres where p: "length pres \<le> Suc ?m"
    "steps_from api ?s1 s' (map (\<lambda>p. ACall (CApply leg p)) pres @ mark_of leg out)" by auto
  have st: "steps_from api s s' ([ARecord (lg_key leg) (lg_descriptor leg)]
      @ map (\<lambda>p. ACall (CApply leg p)) pres @ mark_of leg out)"
    by (rule steps_from_trans [OF _ p(2)]) (simp add: steps_from_def)
  have "length pres \<le> attempt_bound policy leg" using p(1) by (simp add: attempt_bound_def split: if_splits)
  then have "leg_steps policy leg ([ARecord (lg_key leg) (lg_descriptor leg)]
      @ map (\<lambda>p. ACall (CApply leg p)) pres @ mark_of leg out)"
    unfolding leg_steps_def by (intro disjI2 exI [of _ pres] exI [of _ out]) simp
  then show thesis by (intro that [OF st]) (auto simp: mark_of_def)
qed

section \<open>The walk\<close>

lemma saga_walk_Nil [simp]:
  "saga_walk_legs api policy ap [] s = \<lparr>sw_records = [], sw_applied = [], sw_failure = None, sw_state = s\<rparr>"
  by (simp add: saga_walk_legs_def)

lemma saga_walk_snoc [simp]:
  "saga_walk_legs api policy ap (legs @ [leg]) s =
     saga_step api policy ap (length legs, leg) (saga_walk_legs api policy ap legs s)"
  by (simp add: saga_walk_legs_def enumerate_append_eq)

lemma saga_step_failed [simp]:
  "sw_failure k \<noteq> None \<Longrightarrow> saga_step api policy ap (i, leg) k = k\<lparr>sw_records := sw_records k @ [record_skipped leg]\<rparr>"
  by (simp add: saga_step_def)

lemma saga_step_ok:
  "sw_failure k = None \<Longrightarrow> apply_leg api policy ap leg (sw_state k) = (out, s) \<Longrightarrow>
     saga_step api policy ap (i, leg) k =
       k\<lparr>sw_records := sw_records k @ [record_from_outcome leg out],
         sw_applied := (if is_fresh_apply out then sw_applied k @ [i] else sw_applied k),
         sw_failure := (if saga_is_hard out then Some (ed_id (lg_descriptor leg)) else None), sw_state := s\<rparr>"
  by (simp add: saga_step_def)

lemma saga_walk_records:
  "map lr_key (sw_records (saga_walk_legs api policy ap legs s)) = map lg_key legs"
proof (induction legs rule: rev_induct)
  case (snoc leg legs)
  let ?k = "saga_walk_legs api policy ap legs s"
  obtain out s' where a: "apply_leg api policy ap leg (sw_state ?k) = (out, s')" by fastforce
  show ?case using snoc by (cases "sw_failure ?k") (simp_all add: saga_step_ok [OF _ a])
qed simp

lemma saga_walk_length [simp]: "length (sw_records (saga_walk_legs api policy ap legs s)) = length legs"
  using arg_cong [OF saga_walk_records, of length] by simp

text \<open>\<open>stops_at\<close>: success up to a leg that failed hard, and nothing attempted after it.\<close>

definition stops_at :: "effect_leg list \<Rightarrow> leg_record list \<Rightarrow> node_id option \<Rightarrow> bool" where
  "stops_at legs recs failure \<longleftrightarrow>
     (case failure of
        None \<Rightarrow> list_all (\<lambda>r. is_success (lr_outcome r)) recs
      | Some f \<Rightarrow> (\<exists>before leg after recs_before out.
          legs = before @ leg # after \<and> length recs_before = length before
          \<and> recs = recs_before @ record_from_outcome leg out # map record_skipped after
          \<and> list_all (\<lambda>r. is_success (lr_outcome r)) recs_before
          \<and> \<not> is_success out \<and> f = ed_id (lg_descriptor leg)))"

lemma stops_at_skip:
  assumes "stops_at legs recs (Some f)"
  shows "stops_at (legs @ [leg]) (recs @ [record_skipped leg]) (Some f)"
proof -
  from assms obtain before leg' after recs_before out where d: "legs = before @ leg' # after"
    "length recs_before = length before"
    "recs = recs_before @ record_from_outcome leg' out # map record_skipped after"
    "list_all (\<lambda>r. is_success (lr_outcome r)) recs_before" "\<not> is_success out" "f = ed_id (lg_descriptor leg')"
    by (auto simp: stops_at_def)
  then have "legs @ [leg] = before @ leg' # (after @ [leg])"
    "recs @ [record_skipped leg] = recs_before @ record_from_outcome leg' out # map record_skipped (after @ [leg])"
    by simp_all
  with d(2,4,5,6) show ?thesis unfolding stops_at_def option.case by blast
qed

lemma saga_walk_stops:
  "stops_at legs (sw_records (saga_walk_legs api policy ap legs s)) (sw_failure (saga_walk_legs api policy ap legs s))"
proof (induction legs rule: rev_induct)
  case (snoc leg legs)
  let ?k = "saga_walk_legs api policy ap legs s"
  obtain out s' where a: "apply_leg api policy ap leg (sw_state ?k) = (out, s')" by fastforce
  show ?case
  proof (cases "sw_failure ?k")
    case None
    then have rec: "list_all (\<lambda>r. is_success (lr_outcome r)) (sw_records ?k)" using snoc by (simp add: stops_at_def)
    show ?thesis
    proof (cases "is_success out")
      case True
      then show ?thesis using None rec by (simp add: saga_step_ok [OF None a] stops_at_def outcome_kinds)
    next
      case False
      have "\<exists>before leg' after recs_before out'. legs @ [leg] = before @ leg' # after
          \<and> length recs_before = length before
          \<and> sw_records ?k @ [record_from_outcome leg out] = recs_before @ record_from_outcome leg' out' # map record_skipped after
          \<and> list_all (\<lambda>r. is_success (lr_outcome r)) recs_before
          \<and> \<not> is_success out' \<and> ed_id (lg_descriptor leg) = ed_id (lg_descriptor leg')"
        using rec False
        by (intro exI [of _ legs] exI [of _ leg] exI [of _ "[]"] exI [of _ "sw_records ?k"] exI [of _ out]) simp
      then show ?thesis using None False by (simp add: saga_step_ok [OF None a] stops_at_def outcome_kinds)
    qed
  next
    case (Some f)
    then show ?thesis using snoc stops_at_skip [of legs "sw_records ?k" f leg] by simp
  qed
qed (simp add: stops_at_def)

lemma saga_walk_applied:
  "sw_applied (saga_walk_legs api policy ap legs s) =
     filter (\<lambda>i. is_fresh_apply (lr_outcome (sw_records (saga_walk_legs api policy ap legs s) ! i))) [0..<length legs]"
proof (induction legs rule: rev_induct)
  case (snoc leg legs)
  let ?k = "saga_walk_legs api policy ap legs s"
  have eq: "filter (\<lambda>i. is_fresh_apply (lr_outcome ((sw_records ?k @ rs) ! i))) [0..<length legs] = sw_applied ?k" for rs
    unfolding snoc by (rule filter_cong) (simp_all add: nth_append)
  have nth: "(sw_records ?k @ [r]) ! length legs = r" for r by (metis nth_append_length saga_walk_length)
  obtain out s' where a: "apply_leg api policy ap leg (sw_state ?k) = (out, s')" by fastforce
  show ?case
    by (cases "sw_failure ?k") (simp_all add: saga_step_ok [OF _ a] eq nth record_skipped_def)
qed simp

lemma saga_walk_steps:
  "\<exists>segs. steps_from api s (sw_state (saga_walk_legs api policy ap legs s)) (concat segs)
     \<and> list_all2 (leg_steps policy) legs segs
     \<and> (\<forall>r\<in>set (sw_records (saga_walk_legs api policy ap legs s)). \<forall>rc. lr_outcome r = LoApplied rc \<longrightarrow>
           AMark (lr_key r) rc \<in> set (concat segs))"
proof (induction legs rule: rev_induct)
  case (snoc leg legs)
  let ?k = "saga_walk_legs api policy ap legs s"
  from snoc obtain segs where h: "steps_from api s (sw_state ?k) (concat segs)" "list_all2 (leg_steps policy) legs segs"
    "\<forall>r\<in>set (sw_records ?k). \<forall>rc. lr_outcome r = LoApplied rc \<longrightarrow> AMark (lr_key r) rc \<in> set (concat segs)" by blast
  obtain out s' where a: "apply_leg api policy ap leg (sw_state ?k) = (out, s')" by fastforce
  show ?case
  proof (cases "sw_failure ?k")
    case None
    obtain acts where b: "steps_from api (sw_state ?k) s' acts" "leg_steps policy leg acts"
      "\<forall>r. out = LoApplied r \<longrightarrow> AMark (lg_key leg) r \<in> set acts" by (rule apply_leg_steps [OF a])
    have "steps_from api s s' (concat (segs @ [acts]))" using steps_from_trans [OF h(1) b(1)] by simp
    then show ?thesis
      using h b None
      by (intro exI [of _ "segs @ [acts]"]) (auto simp: saga_step_ok [OF None a] list_all2_appendI)
  next
    case (Some f)
    then show ?thesis
      using h by (intro exI [of _ "segs @ [[]]"])
        (auto simp: list_all2_appendI leg_steps_Nil record_skipped_def)
  qed
qed (simp add: steps_from_def)

section \<open>Compensation\<close>

text \<open>The legs a failed saga undoes: applied in this run, reversible, with a compensation registered;
  the last applied first.\<close>

definition undone_legs :: "effect_leg list \<Rightarrow> leg_record list \<Rightarrow> effect_leg list" where
  "undone_legs legs recs =
     filter (\<lambda>l. \<not> ed_irreversible (lg_descriptor l) \<and> lg_compensation l \<noteq> None)
       (map fst (filter (\<lambda>(l, r). is_fresh_apply (lr_outcome r)) (rev (zip legs recs))))"

lemma fold_compensate:
  "\<exists>s'. fold (compensate_step ap legs) is (cs, s) =
      (cs @ map (\<lambda>l. ed_id (lg_descriptor l))
              (filter (\<lambda>l. \<not> ed_irreversible (lg_descriptor l) \<and> lg_compensation l \<noteq> None) (map ((!) legs) is)), s')
    \<and> steps_from api s s' (map (\<lambda>l. ACall (CCompensate l (the (lg_compensation l))))
        (filter (\<lambda>l. \<not> ed_irreversible (lg_descriptor l) \<and> lg_compensation l \<noteq> None) (map ((!) legs) is)))"
proof (induction "is" arbitrary: cs s)
  case (Cons i "is")
  let ?l = "legs ! i"
  show ?case
  proof (cases "\<not> ed_irreversible (lg_descriptor ?l) \<and> lg_compensation ?l \<noteq> None")
    case True
    then obtain c where c: "lg_compensation ?l = Some c" by blast
    let ?s1 = "call_compensate ap ?l c s"
    have st: "steps_from api s ?s1 [ACall (CCompensate ?l c)]" by (simp add: steps_from_def call_compensate_def)
    have step: "compensate_step ap legs i (cs, s) = (cs @ [ed_id (lg_descriptor ?l)], ?s1)"
      using True c by (simp add: compensate_step_def Let_def)
    from Cons [of "cs @ [ed_id (lg_descriptor ?l)]" ?s1] obtain s' where
      "fold (compensate_step ap legs) is (cs @ [ed_id (lg_descriptor ?l)], ?s1) =
        ((cs @ [ed_id (lg_descriptor ?l)]) @ map (\<lambda>l. ed_id (lg_descriptor l))
          (filter (\<lambda>l. \<not> ed_irreversible (lg_descriptor l) \<and> lg_compensation l \<noteq> None) (map ((!) legs) is)), s')"
      and r: "steps_from api ?s1 s' (map (\<lambda>l. ACall (CCompensate l (the (lg_compensation l))))
        (filter (\<lambda>l. \<not> ed_irreversible (lg_descriptor l) \<and> lg_compensation l \<noteq> None) (map ((!) legs) is)))"
      by blast
    then show ?thesis
      using True c step steps_from_trans [OF st r] by (intro exI [of _ s']) simp
  next
    case False
    then have "compensate_step ap legs i (cs, s) = (cs, s)"
      by (auto simp: compensate_step_def Let_def)
    then show ?thesis using Cons [of cs s] False by auto
  qed
qed (simp add: steps_from_def)

lemma zip_filter_index:
  "length recs = length legs \<Longrightarrow>
     map ((!) legs) (filter (\<lambda>i. P (recs ! i)) [0..<length legs]) = map fst (filter (\<lambda>(l, r). P r) (zip legs recs))"
proof (induction legs arbitrary: recs rule: rev_induct)
  case (snoc l legs)
  then obtain recs' r where r: "recs = recs' @ [r]" "length recs' = length legs"
    by (metis length_append_singleton length_Suc_conv_rev)
  have "map ((!) (legs @ [l])) (filter (\<lambda>i. P ((recs' @ [r]) ! i)) [0..<length legs]) =
        map ((!) legs) (filter (\<lambda>i. P (recs' ! i)) [0..<length legs])"
    using r(2) by (intro map_cong filter_cong refl) (auto simp: nth_append)
  moreover have "(recs' @ [r]) ! length legs = r" using r(2) by (metis nth_append_length)
  ultimately show ?case using snoc(1) [OF r(2)] r by simp
qed simp

lemma saga_walk_undone:
  "filter (\<lambda>l. \<not> ed_irreversible (lg_descriptor l) \<and> lg_compensation l \<noteq> None)
     (map ((!) legs) (rev (sw_applied (saga_walk_legs api policy ap legs s)))) =
   undone_legs legs (sw_records (saga_walk_legs api policy ap legs s))"
  unfolding undone_legs_def saga_walk_applied rev_map [symmetric] rev_filter [symmetric]
  by (subst zip_filter_index [of "sw_records (saga_walk_legs api policy ap legs s)" legs "\<lambda>r. is_fresh_apply (lr_outcome r)"])
     (simp_all add: rev_map rev_filter)

lemma run_saga_cases:
  obtains s' where "run_saga api policy ap legs s =
      (report_new (sw_records (saga_walk_legs api policy ap legs s)) (sw_failure (saga_walk_legs api policy ap legs s))
        (if sw_failure (saga_walk_legs api policy ap legs s) = None then []
         else map (\<lambda>l. ed_id (lg_descriptor l)) (undone_legs legs (sw_records (saga_walk_legs api policy ap legs s)))), s')"
    "steps_from api (sw_state (saga_walk_legs api policy ap legs s)) s'
       (if sw_failure (saga_walk_legs api policy ap legs s) = None then []
        else map (\<lambda>l. ACall (CCompensate l (the (lg_compensation l))))
              (undone_legs legs (sw_records (saga_walk_legs api policy ap legs s))))"
proof -
  let ?k = "saga_walk_legs api policy ap legs s"
  from fold_compensate [of ap legs "rev (sw_applied ?k)" "[]" "sw_state ?k" api, unfolded saga_walk_undone]
  obtain s' where s': "fold (compensate_step ap legs) (rev (sw_applied ?k)) ([], sw_state ?k) =
      ([] @ map (\<lambda>l. ed_id (lg_descriptor l)) (undone_legs legs (sw_records ?k)), s')"
    "steps_from api (sw_state ?k) s'
      (map (\<lambda>l. ACall (CCompensate l (the (lg_compensation l)))) (undone_legs legs (sw_records ?k)))" by blast
  show thesis
  proof (cases "sw_failure ?k")
    case None
    then show thesis by (intro that [of "sw_state ?k"]) (auto simp: run_saga_def Let_def steps_from_def)
  next
    case (Some f)
    then show thesis using s' by (intro that [of s']) (simp_all add: run_saga_def Let_def)
  qed
qed

section \<open>Sealed legs\<close>

fun call_key :: "applier_call \<Rightarrow> effect_key" where
  "call_key (CApply leg pre) = lg_key leg"
| "call_key (CCompensate leg c) = lg_key leg"

lemma calls_in_mark_of [simp]: "calls_in (mark_of leg out) = []"
  by (simp add: mark_of_def split: leg_outcome.splits)

lemma calls_in_map_ACall [simp]: "calls_in (map (\<lambda>x. ACall (f x)) xs) = map f xs"
  by (induction xs) simp_all

lemma calls_in_leg_steps: "leg_steps policy leg acts \<Longrightarrow> c \<in> set (calls_in acts) \<Longrightarrow> call_key c = lg_key leg"
  by (auto simp: leg_steps_def)

context audit_ledger
begin

lemma walk_skips_sealed:
  assumes "la_applied api (ts_ledger s) k \<noteq> None"
  shows "\<exists>acts. steps_from api s (sw_state (saga_walk_legs api policy ap legs s)) acts
           \<and> k \<notin> call_key ` set (calls_in acts)"
proof (induction legs rule: rev_induct)
  case (snoc leg legs)
  let ?k = "saga_walk_legs api policy ap legs s"
  from snoc obtain acts where a: "steps_from api s (sw_state ?k) acts" "k \<notin> call_key ` set (calls_in acts)" by blast
  show ?case
  proof (cases "sw_failure ?k")
    case None
    obtain out s' where b: "apply_leg api policy ap leg (sw_state ?k) = (out, s')" by fastforce
    obtain more_acts where m: "steps_from api (sw_state ?k) s' more_acts" "leg_steps policy leg more_acts"
      by (rule apply_leg_steps [OF b])
    have sealed: "la_applied api (ts_ledger (sw_state ?k)) k \<noteq> None"
      using a(1) applied_mono [OF assms, of acts] by (simp add: steps_from_def)
    have "k \<notin> call_key ` set (calls_in more_acts)"
    proof (cases "lg_key leg = k")
      case True
      then have "s' = sw_state ?k" using b sealed by (simp add: apply_leg_applied)
      then have "more_acts = []" using m(1) by (simp add: steps_from_def)
      then show ?thesis by simp
    next
      case False
      then show ?thesis using calls_in_leg_steps [OF m(2)] by auto
    qed
    then show ?thesis
      using a steps_from_trans [OF a(1) m(1)] None
      by (intro exI [of _ "acts @ more_acts"]) (auto simp: saga_step_ok [OF None b])
  next
    case (Some f)
    then show ?thesis using a by (intro exI [of _ acts]) simp
  qed
qed (rule exI [of _ "[]"], simp add: steps_from_def)

lemma acid_seals_applied:
  assumes "r \<in> set (rr_legs (fst (run_acid api policy ap legs s)))" "lr_outcome r = LoApplied rc"
  shows "la_applied api (ts_ledger (snd (run_acid api policy ap legs s))) (lr_key r) \<noteq> None"
proof -
  let ?k = "saga_walk_legs api policy ap legs s"
  have r: "r \<in> set (sw_records ?k)"
    using assms(1) by (simp add: run_acid_def Let_def report_rolled_back_def report_new_def)
  obtain segs where h: "steps_from api s (sw_state ?k) (concat segs)"
    "\<forall>r\<in>set (sw_records ?k). \<forall>rc. lr_outcome r = LoApplied rc \<longrightarrow> AMark (lr_key r) rc \<in> set (concat segs)"
    using saga_walk_steps [of api s policy ap legs] by blast
  have "AMark (lr_key r) rc \<in> set (concat segs)" using h(2) r assms(2) by blast
  from applied_of_mark [OF this, of "ts_ledger s"] h(1) show ?thesis
    by (simp add: run_acid_def Let_def steps_from_def)
qed

lemma acid_never_reapplies:
  assumes "r \<in> set (rr_legs (fst (run_acid api policy ap legs s)))" "lr_outcome r = LoApplied rc"
  shows "lr_key r \<notin> call_key ` set (calls_in (ts_trace (snd (run_acid api policy' ap' legs'
           (txn_start (ts_ledger (snd (run_acid api policy ap legs s))) w')))))"
proof -
  let ?s = "txn_start (ts_ledger (snd (run_acid api policy ap legs s))) w'"
  have "la_applied api (ts_ledger ?s) (lr_key r) \<noteq> None" using acid_seals_applied [OF assms] by simp
  from walk_skips_sealed [OF this, of policy' ap' legs'] show ?thesis
    by (auto simp: run_acid_def Let_def steps_from_def)
qed

end

section \<open>Counting attempts\<close>

definition applies_of :: "effect_key \<Rightarrow> applier_call list \<Rightarrow> nat" where
  "applies_of k cs = length (filter (\<lambda>c. case c of CApply l _ \<Rightarrow> lg_key l = k | _ \<Rightarrow> False) cs)"

lemma applies_of_append [simp]: "applies_of k (as @ bs) = applies_of k as + applies_of k bs"
  by (simp add: applies_of_def)

lemma applies_of_seg: "leg_steps policy leg acts \<Longrightarrow>
    applies_of k (calls_in acts) \<le> (if lg_key leg = k then attempt_bound policy leg else 0)"
  by (auto simp: leg_steps_def applies_of_def filter_map comp_def)

lemma applies_of_other:
  "list_all2 (leg_steps policy) legs segs \<Longrightarrow> k \<notin> lg_key ` set legs \<Longrightarrow> applies_of k (calls_in (concat segs)) = 0"
proof (induction legs segs rule: list_all2_induct)
  case (Cons l legs seg segs)
  then show ?case using applies_of_seg [OF Cons(1), of k] by auto
qed (simp add: applies_of_def)

lemma applies_of_segs:
  "list_all2 (leg_steps policy) legs segs \<Longrightarrow> distinct (map lg_key legs) \<Longrightarrow> leg \<in> set legs \<Longrightarrow>
     applies_of (lg_key leg) (calls_in (concat segs)) \<le> attempt_bound policy leg"
proof (induction legs segs rule: list_all2_induct)
  case (Cons l legs seg segs)
  note seg = applies_of_seg [OF Cons(1), of "lg_key leg"]
  show ?case
  proof (cases "leg = l")
    case True
    then have "applies_of (lg_key leg) (calls_in (concat segs)) = 0"
      using Cons(4) by (intro applies_of_other [OF Cons(2)]) simp
    then show ?thesis using seg True by simp
  next
    case False
    then have "leg \<in> set legs" "lg_key l \<noteq> lg_key leg" "distinct (map lg_key legs)"
      using Cons(4,5) by auto
    then show ?thesis using seg Cons(3) by simp
  qed
qed simp

section \<open>Properties\<close>

lemma run_saga_steps:
  obtains segs where
    "ts_trace (snd (run_saga api policy ap legs s)) = ts_trace s @ concat segs @
       (if rr_failure_at (fst (run_saga api policy ap legs s)) = None then []
        else map (\<lambda>l. ACall (CCompensate l (the (lg_compensation l))))
              (undone_legs legs (rr_legs (fst (run_saga api policy ap legs s)))))"
    "list_all2 (leg_steps policy) legs segs"
proof -
  obtain s' where s': "run_saga api policy ap legs s =
      (report_new (sw_records (saga_walk_legs api policy ap legs s)) (sw_failure (saga_walk_legs api policy ap legs s))
        (if sw_failure (saga_walk_legs api policy ap legs s) = None then []
         else map (\<lambda>l. ed_id (lg_descriptor l)) (undone_legs legs (sw_records (saga_walk_legs api policy ap legs s)))), s')"
    "steps_from api (sw_state (saga_walk_legs api policy ap legs s)) s'
       (if sw_failure (saga_walk_legs api policy ap legs s) = None then []
        else map (\<lambda>l. ACall (CCompensate l (the (lg_compensation l))))
              (undone_legs legs (sw_records (saga_walk_legs api policy ap legs s))))"
    by (rule run_saga_cases)
  obtain segs where h: "steps_from api s (sw_state (saga_walk_legs api policy ap legs s)) (concat segs)"
    "list_all2 (leg_steps policy) legs segs" using saga_walk_steps [of api s policy ap legs] by blast
  from steps_from_trans [OF h(1) s'(2)] show thesis
    by (intro that [OF _ h(2)]) (simp add: s'(1) steps_from_def report_new_def)
qed

text \<open>C12: the report of a saga has one record per leg, in order; all legs succeeded, or there is a first
  leg that failed hard, before it all succeeded, and the legs after it are recorded as skipped.
  Exactly the legs applied in this run that are reversible and have a compensation are undone, in
  reverse order, after every apply call and only if a leg failed; this is what the report lists.\<close>

theorem run_saga_report:
  "map lr_key (rr_legs (fst (run_saga api policy ap legs s))) = map lg_key legs
   \<and> stops_at legs (rr_legs (fst (run_saga api policy ap legs s))) (rr_failure_at (fst (run_saga api policy ap legs s)))
   \<and> rr_compensated (fst (run_saga api policy ap legs s)) =
       (if rr_failure_at (fst (run_saga api policy ap legs s)) = None then []
        else map (\<lambda>l. ed_id (lg_descriptor l)) (undone_legs legs (rr_legs (fst (run_saga api policy ap legs s)))))
   \<and> (\<exists>segs. list_all2 (leg_steps policy) legs segs
       \<and> calls_in (ts_trace (snd (run_saga api policy ap legs s))) = calls_in (ts_trace s) @ calls_in (concat segs) @
         (if rr_failure_at (fst (run_saga api policy ap legs s)) = None then []
          else map (\<lambda>l. CCompensate l (the (lg_compensation l)))
                (undone_legs legs (rr_legs (fst (run_saga api policy ap legs s))))))"
proof (intro conjI)
  obtain s' where s': "run_saga api policy ap legs s =
      (report_new (sw_records (saga_walk_legs api policy ap legs s)) (sw_failure (saga_walk_legs api policy ap legs s))
        (if sw_failure (saga_walk_legs api policy ap legs s) = None then []
         else map (\<lambda>l. ed_id (lg_descriptor l)) (undone_legs legs (sw_records (saga_walk_legs api policy ap legs s)))), s')"
    by (rule run_saga_cases)
  then show "map lr_key (rr_legs (fst (run_saga api policy ap legs s))) = map lg_key legs"
    "stops_at legs (rr_legs (fst (run_saga api policy ap legs s))) (rr_failure_at (fst (run_saga api policy ap legs s)))"
    "rr_compensated (fst (run_saga api policy ap legs s)) =
       (if rr_failure_at (fst (run_saga api policy ap legs s)) = None then []
        else map (\<lambda>l. ed_id (lg_descriptor l)) (undone_legs legs (rr_legs (fst (run_saga api policy ap legs s)))))"
    by (simp_all add: report_new_def saga_walk_records saga_walk_stops)
qed (rule run_saga_steps [of api policy ap legs s], auto)

text \<open>Whatever the applier answers, an irreversible leg is applied at most once in a saga, any other
  leg at most \<open>conflict_retries + 1\<close> times; legs are told apart by their idempotency keys.\<close>

theorem saga_attempts_bounded:
  "distinct (map lg_key legs) \<Longrightarrow> leg \<in> set legs \<Longrightarrow>
     applies_of (lg_key leg) (calls_in (ts_trace (snd (run_saga api policy ap legs (txn_start l w)))))
       \<le> (if ed_irreversible (lg_descriptor leg) then 1 else unat (sp_conflict_retries policy) + 1)"
proof -
  assume a: "distinct (map lg_key legs)" "leg \<in> set legs"
  have c: "applies_of k (map (\<lambda>l. CCompensate l (f l)) ls) = 0" for k f ls by (induction ls) (auto simp: applies_of_def)
  show ?thesis
    by (rule run_saga_steps [of api policy ap legs "txn_start l w"])
      (use applies_of_segs [OF _ a] in \<open>auto simp: c attempt_bound_def applies_of_def split: if_splits\<close>)
qed

definition demo_leg :: "node_id \<Rightarrow> bool \<Rightarrow> effect_leg" where
  "demo_leg i irrev =
     \<lparr>lg_key = EffectKey (show_nat (unat i)),
      lg_descriptor = \<lparr>ed_id = i, ed_key = EffectKey (show_nat (unat i)), ed_kind = KInsert, ed_target = demo_target,
        ed_precondition = PcNone, ed_irreversible = irrev, ed_arg_rows = 1\<rparr>,
      lg_compensation = Some DeleteCreated\<rparr>"

text \<open>An applier that fails the leg with node id 2 and counts what it did.\<close>

definition demo_applier :: "nat leg_applier" where
  "demo_applier =
     \<lparr>ap_apply = (\<lambda>leg pre w. if ed_id (lg_descriptor leg) = 2 then (LoFailed (TxTerminal ''down''), w)
                             else (LoApplied (receipt_new (ed_id (lg_descriptor leg)) 1), w + 1)),
      ap_compensate = (\<lambda>leg c w. w - 1)\<rparr>"

theorem saga_attempts_bounded_witness:
  "applies_of (lg_key (demo_leg 1 True))
     (calls_in (ts_trace (snd (run_saga mem_api saga_policy_default demo_applier [demo_leg 1 True, demo_leg 2 False]
        (txn_start mem_new 0))))) \<le> 1"
  using saga_attempts_bounded [of "[demo_leg 1 True, demo_leg 2 False]" "demo_leg 1 True" mem_api
      saga_policy_default demo_applier mem_new 0]
  by (simp add: demo_leg_def)

text \<open>C13: a leg an ACID run reports as applied is never applied again by a later run over the ledger that
  run left, whatever the two runs' legs, policies and appliers are. This is the idempotent resume;
  it also holds if the first run rolled back, so that the effect the database undid is not redone
  by the retry, which reports it as already applied.\<close>

theorem acid_applied_once:
  "r \<in> set (rr_legs (fst (run_acid mem_api policy ap legs s))) \<Longrightarrow> lr_outcome r = LoApplied rc \<Longrightarrow>
     lr_key r \<notin> call_key ` set (calls_in (ts_trace (snd (run_acid mem_api policy' ap' legs'
        (txn_start (ts_ledger (snd (run_acid mem_api policy ap legs s))) w')))))"
  by (rule mem.acid_never_reapplies)

theorem acid_applied_once_witness:
  "\<exists>rep l w. run_acid mem_api saga_policy_default demo_applier [demo_leg 1 False, demo_leg 2 False] (txn_start mem_new 0)
       = (rep, \<lparr>ts_ledger = l, ts_world = w,
            ts_trace = [ARecord (lg_key (demo_leg 1 False)) (lg_descriptor (demo_leg 1 False)),
              ACall (CApply (demo_leg 1 False) PcNone), AMark (lg_key (demo_leg 1 False)) (receipt_new 1 1),
              ARecord (lg_key (demo_leg 2 False)) (lg_descriptor (demo_leg 2 False)),
              ACall (CApply (demo_leg 2 False) PcNone)]\<rparr>)
     \<and> rr_rolled_back rep
     \<and> lg_key (demo_leg 1 False) \<notin> call_key ` set (calls_in (ts_trace (snd (run_acid mem_api saga_policy_default
          demo_applier [demo_leg 1 False, demo_leg 2 False] (txn_start l 0)))))"
proof -
  let ?r = "run_acid mem_api saga_policy_default demo_applier [demo_leg 1 False, demo_leg 2 False] (txn_start mem_new 0)"
  let ?rec = "record_from_outcome (demo_leg 1 False) (LoApplied (receipt_new 1 1))"
  have ev: "rr_legs (fst ?r) = [?rec, record_from_outcome (demo_leg 2 False) (LoFailed (TxTerminal ''down''))]"
    "rr_rolled_back (fst ?r)" "ts_trace (snd ?r) = [ARecord (lg_key (demo_leg 1 False)) (lg_descriptor (demo_leg 1 False)),
              ACall (CApply (demo_leg 1 False) PcNone), AMark (lg_key (demo_leg 1 False)) (receipt_new 1 1),
              ARecord (lg_key (demo_leg 2 False)) (lg_descriptor (demo_leg 2 False)),
              ACall (CApply (demo_leg 2 False) PcNone)]"
    by code_simp+
  have "lg_key (demo_leg 1 False) \<notin> call_key ` set (calls_in (ts_trace (snd (run_acid mem_api saga_policy_default
          demo_applier [demo_leg 1 False, demo_leg 2 False] (txn_start (ts_ledger (snd ?r)) 0)))))"
    using acid_applied_once [of ?rec saga_policy_default demo_applier "[demo_leg 1 False, demo_leg 2 False]"
        "txn_start mem_new 0" "receipt_new 1 1"] by (simp add: ev(1))
  then show ?thesis
    using ev(2,3) by (intro exI [of _ "fst ?r"] exI [of _ "ts_ledger (snd ?r)"] exI [of _ "ts_world (snd ?r)"] conjI)
      (simp_all add: prod_eq_iff)
qed

end
