(* ===== verification/Txn_Commit.thy ===== *)
theory Txn_Commit
  imports Txn_Saga Runtime_Batch
begin

text \<open>
  The transactional commit of the interpreter, \<open>crates/runtime/src/txn.rs\<close>: the write legs of a
  plan in topological order, each through the driver registered for its target, over an audit
  ledger. A driver is any function on a state; a call that does not return is not modelled. The
  tracing spans and events are left out. The trace notes the ledger writes and driver calls in the order taken.
\<close>

section \<open>The code\<close>

type_synonym ('w, 'j) async_driver =
  "effect_kind \<Rightarrow> 'j effect_input list \<Rightarrow> bool \<Rightarrow> 'w \<Rightarrow> effect_result list \<times> 'w"

type_synonym ('w, 'j) driver_registry = "driver_id \<rightharpoonup> ('w, 'j) async_driver"

type_synonym ('l, 'w, 'j) txn_commit_state = "('l, 'w, 'j effect_input) txn_state"

type_synonym preconditions = "node_id \<rightharpoonup> precondition"

definition registry_with :: "('w, 'j) driver_registry \<Rightarrow> driver_id \<Rightarrow> ('w, 'j) async_driver \<Rightarrow> ('w, 'j) driver_registry" where
  "registry_with reg d drv = reg(d \<mapsto> drv)"

fun map_effect_error :: "effect_error \<Rightarrow> precondition \<Rightarrow> leg_outcome" where
  "map_effect_error (Conflict v) pre =
     (if is_conditional pre then LoConflict (Version v)
      else LoFailed (TxTerminal (''unexpected conflict (no precondition) at world version `'' @ v @ ''`'')))"
| "map_effect_error (Retryable reason) pre = LoFailed (TxRetryable reason)"
| "map_effect_error (Terminal reason) pre = LoFailed (TxTerminal reason)"
| "map_effect_error (CapabilityDenied d verb path) pre =
     LoFailed (TxTerminal (''capability denied: driver `'' @ d @ ''` cannot '' @ verb @ '' at `'' @ path @ ''`''))"
| "map_effect_error (SandboxEscape path) pre =
     LoFailed (TxTerminal (''sandbox escape rejected for '' @ debug_string path))"
| "map_effect_error (TimedOut ms) pre =
     LoFailed (TxRetryable (''effect timed out after '' @ show_nat (unat ms) @ ''ms''))"

definition apply_txn_leg ::
  "'l ledger_api \<Rightarrow> ('j canonical \<Rightarrow> u8 list) \<Rightarrow> ('w, 'j) driver_registry \<Rightarrow> capability_set \<Rightarrow> string
     \<Rightarrow> 'j effect_node \<Rightarrow> precondition \<Rightarrow> ('l, 'w, 'j) txn_commit_state \<Rightarrow> leg_outcome \<times> ('l, 'w, 'j) txn_commit_state" where
  "apply_txn_leg api to_bytes reg caps plan_id n pre s =
     (let key = key_derive to_bytes plan_id n in
      if la_applied api (ts_ledger s) key \<noteq> None then (LoAlreadyApplied, s)
      else let leg = leg_from_node to_bytes plan_id n pre in
      if la_has_intent api (ts_ledger s) key \<and> \<not> is_replay_safe (lg_descriptor leg)
      then (LoIndeterminate key, s)
      else if \<not> caps_allows caps (en_target n) (en_kind n)
      then (LoFailed (TxTerminal (''capability denied: driver `'' @ tgt_driver (en_target n)
              @ ''` cannot '' @ kind_label (en_kind n))), s)
      else let s1 = do_record api key (lg_descriptor leg) s in
        (case reg (tgt_driver (en_target n)) of
           None \<Rightarrow> (LoFailed (TxTerminal (''no driver registered for `'' @ tgt_driver (en_target n) @ ''`'')), s1)
         | Some drv \<Rightarrow>
             (case drv (en_kind n) [input_from_node n] True (ts_world s1) of (results, w) \<Rightarrow>
                let s2 = do_call (input_from_node n) w s1 in
                (case results of
                   Inr out # _ \<Rightarrow>
                     let receipt = receipt_new (eo_id out) (eo_affected out)
                     in (LoApplied receipt, do_mark api key receipt s2)
                 | Inl e # _ \<Rightarrow> (map_effect_error e pre, s2)
                 | [] \<Rightarrow> (LoFailed (TxTerminal ''driver returned no result for effect''), s2)))))"

fun txn_is_hard :: "leg_outcome \<Rightarrow> bool" where
  "txn_is_hard (LoFailed _) = True"
| "txn_is_hard (LoConflict _) = True"
| "txn_is_hard (LoIndeterminate _) = True"
| "txn_is_hard _ = False"

fun rt_is_write :: "effect_kind \<Rightarrow> bool" where
  "rt_is_write KInsert = True"
| "rt_is_write KUpsert = True"
| "rt_is_write KUpdate = True"
| "rt_is_write KRemove = True"
| "rt_is_write (KCall _) = True"
| "rt_is_write _ = False"

record ('l, 'w, 'j) commit_walk =
  cw_records :: "leg_record list"
  cw_failure :: bool
  cw_state :: "('l, 'w, 'j) txn_commit_state"

definition commit_txn_step ::
  "'l ledger_api \<Rightarrow> ('j canonical \<Rightarrow> u8 list) \<Rightarrow> ('w, 'j) driver_registry \<Rightarrow> 'j plan \<Rightarrow> capability_set \<Rightarrow> string
     \<Rightarrow> preconditions \<Rightarrow> node_id \<Rightarrow> ('l, 'w, 'j) commit_walk \<Rightarrow> ('l, 'w, 'j) commit_walk" where
  "commit_txn_step api to_bytes reg p caps plan_id pres i k =
     (case plan_node p i of
        None \<Rightarrow> k
      | Some n \<Rightarrow>
          if \<not> rt_is_write (en_kind n) then k
          else let pre = (case pres i of Some pc \<Rightarrow> pc | None \<Rightarrow> PcNone);
                   leg = leg_from_node to_bytes plan_id n pre in
          if cw_failure k then k\<lparr>cw_records := cw_records k @ [record_skipped leg]\<rparr>
          else (case apply_txn_leg api to_bytes reg caps plan_id n pre (cw_state k) of (out, s) \<Rightarrow>
             \<lparr>cw_records = cw_records k @ [record_from_outcome leg out],
              cw_failure = txn_is_hard out, cw_state = s\<rparr>))"

definition commit_walk_ids ::
  "'l ledger_api \<Rightarrow> ('j canonical \<Rightarrow> u8 list) \<Rightarrow> ('w, 'j) driver_registry \<Rightarrow> 'j plan \<Rightarrow> capability_set \<Rightarrow> string
     \<Rightarrow> preconditions \<Rightarrow> node_id list \<Rightarrow> ('l, 'w, 'j) txn_commit_state \<Rightarrow> ('l, 'w, 'j) commit_walk" where
  "commit_walk_ids api to_bytes reg p caps plan_id pres ids s =
     fold (commit_txn_step api to_bytes reg p caps plan_id pres) ids
       \<lparr>cw_records = [], cw_failure = False, cw_state = s\<rparr>"

definition commit_txn ::
  "'l ledger_api \<Rightarrow> ('j canonical \<Rightarrow> u8 list) \<Rightarrow> ('w, 'j) driver_registry \<Rightarrow> 'j plan \<Rightarrow> capability_set \<Rightarrow> string
     \<Rightarrow> preconditions \<Rightarrow> driver_id set \<Rightarrow> ('l, 'w, 'j) txn_commit_state
     \<Rightarrow> rt_error + (commit_strategy \<times> recovery_report \<times> ('l, 'w, 'j) txn_commit_state)" where
  "commit_txn api to_bytes reg p caps plan_id pres transactional s =
     (case topo_order p of
        None \<Rightarrow> Inl InvalidPlan
      | Some order \<Rightarrow>
          let strategy = select_strategy p transactional;
              k = commit_walk_ids api to_bytes reg p caps plan_id pres order s;
              failure_at = (if cw_failure k
                            then map_option lr_id (find (\<lambda>r. txn_is_hard (lr_outcome r)) (cw_records k))
                            else None);
              rolled_back = (cw_failure k \<and> (case strategy of SingleSourceAcid _ \<Rightarrow> True | _ \<Rightarrow> False))
          in Inr (strategy, report_rolled_back (report_new (cw_records k) failure_at []) rolled_back, cw_state k))"

section \<open>One leg\<close>

lemma txn_outcome_kinds: "txn_is_hard out \<longleftrightarrow> \<not> is_success out"
  by (cases out) simp_all

lemma rt_is_write_txn: "rt_is_write k = txn_is_write k"
  by (cases k) simp_all

definition txn_leg_steps :: "('j canonical \<Rightarrow> u8 list) \<Rightarrow> string \<Rightarrow> 'j effect_node \<Rightarrow> 'j effect_input txn_action list \<Rightarrow> bool" where
  "txn_leg_steps to_bytes plan_id n acts \<longleftrightarrow>
     (\<exists>d r. acts \<in> {[], [ARecord (key_derive to_bytes plan_id n) d],
                    [ARecord (key_derive to_bytes plan_id n) d, ACall (input_from_node n)],
                    [ARecord (key_derive to_bytes plan_id n) d, ACall (input_from_node n),
                     AMark (key_derive to_bytes plan_id n) r]})"

lemma txn_leg_steps_Nil [simp]: "txn_leg_steps to_bytes plan_id n []"
  by (simp add: txn_leg_steps_def)

lemma apply_txn_leg_quiet:
  assumes "la_applied api (ts_ledger s) (key_derive to_bytes plan_id n) \<noteq> None
     \<or> la_has_intent api (ts_ledger s) (key_derive to_bytes plan_id n)
       \<and> \<not> is_replay_safe (lg_descriptor (leg_from_node to_bytes plan_id n pre))"
  shows "snd (apply_txn_leg api to_bytes reg caps plan_id n pre s) = s"
  using assms by (auto simp: apply_txn_leg_def Let_def)

lemma apply_txn_leg_shape:
  obtains (quiet) "snd (apply_txn_leg api to_bytes reg caps plan_id n pre s) = s"
    | (recorded) "snd (apply_txn_leg api to_bytes reg caps plan_id n pre s) =
        do_record api (key_derive to_bytes plan_id n) (lg_descriptor (leg_from_node to_bytes plan_id n pre)) s"
    | (called) w where "snd (apply_txn_leg api to_bytes reg caps plan_id n pre s) =
        do_call (input_from_node n) w (do_record api (key_derive to_bytes plan_id n) (lg_descriptor (leg_from_node to_bytes plan_id n pre)) s)"
    | (sealed) r w where "snd (apply_txn_leg api to_bytes reg caps plan_id n pre s) =
        do_mark api (key_derive to_bytes plan_id n) r (do_call (input_from_node n) w
          (do_record api (key_derive to_bytes plan_id n) (lg_descriptor (leg_from_node to_bytes plan_id n pre)) s))"
proof (cases "la_applied api (ts_ledger s) (key_derive to_bytes plan_id n) \<noteq> None
    \<or> la_has_intent api (ts_ledger s) (key_derive to_bytes plan_id n) \<and> \<not> is_replay_safe (lg_descriptor (leg_from_node to_bytes plan_id n pre))
    \<or> \<not> caps_allows caps (en_target n) (en_kind n)")
  case True
  then show thesis using quiet by (auto simp: apply_txn_leg_def Let_def)
next
  case False
  then have go: "apply_txn_leg api to_bytes reg caps plan_id n pre s =
      (case reg (tgt_driver (en_target n)) of
         None \<Rightarrow> (LoFailed (TxTerminal (''no driver registered for `'' @ tgt_driver (en_target n) @ ''`'')), (do_record api (key_derive to_bytes plan_id n) (lg_descriptor (leg_from_node to_bytes plan_id n pre)) s))
       | Some drv \<Rightarrow>
           (case drv (en_kind n) [input_from_node n] True (ts_world (do_record api (key_derive to_bytes plan_id n) (lg_descriptor (leg_from_node to_bytes plan_id n pre)) s)) of (results, w) \<Rightarrow>
              (case results of
                 Inr out # _ \<Rightarrow> (LoApplied (receipt_new (eo_id out) (eo_affected out)),
                   do_mark api (key_derive to_bytes plan_id n) (receipt_new (eo_id out) (eo_affected out)) (do_call (input_from_node n) w (do_record api (key_derive to_bytes plan_id n) (lg_descriptor (leg_from_node to_bytes plan_id n pre)) s)))
               | Inl e # _ \<Rightarrow> (map_effect_error e pre, do_call (input_from_node n) w (do_record api (key_derive to_bytes plan_id n) (lg_descriptor (leg_from_node to_bytes plan_id n pre)) s))
               | [] \<Rightarrow> (LoFailed (TxTerminal ''driver returned no result for effect''), do_call (input_from_node n) w (do_record api (key_derive to_bytes plan_id n) (lg_descriptor (leg_from_node to_bytes plan_id n pre)) s)))))"
    by (auto simp: apply_txn_leg_def Let_def split: option.split prod.split list.split sum.split)
  show thesis
  proof (cases "reg (tgt_driver (en_target n))")
    case None
    then show thesis using recorded by (simp add: go)
  next
    case (Some drv)
    obtain results w where r: "drv (en_kind n) [input_from_node n] True (ts_world (do_record api (key_derive to_bytes plan_id n) (lg_descriptor (leg_from_node to_bytes plan_id n pre)) s)) = (results, w)" by fastforce
    show thesis
    proof (cases results)
      case Nil
      then show thesis using called [of w] Some r by (simp add: go)
    next
      case (Cons x xs)
      then show thesis using called [of w] sealed [of _ w] Some r by (cases x) (simp_all add: go)
    qed
    qed
qed

lemma apply_txn_leg_steps:
  obtains acts where "steps_from api s (snd (apply_txn_leg api to_bytes reg caps plan_id n pre s)) acts"
    "txn_leg_steps to_bytes plan_id n acts"
proof -
  let ?key = "key_derive to_bytes plan_id n"
  let ?leg = "leg_from_node to_bytes plan_id n pre"
  let ?s1 = "do_record api ?key (lg_descriptor ?leg) s"
  show thesis
  proof (cases rule: apply_txn_leg_shape [of api to_bytes reg caps plan_id n pre s])
    case quiet
    then show thesis by (intro that [of "[]"]) (auto simp: txn_leg_steps_def)
  next
    case recorded
    then show thesis
      by (intro that [of "[ARecord ?key (lg_descriptor ?leg)]"]) (auto simp: txn_leg_steps_def steps_from_def)
  next
    case (called w)
    then show thesis
      by (intro that [of "[ARecord ?key (lg_descriptor ?leg), ACall (input_from_node n)]"])
        (auto simp: txn_leg_steps_def steps_from_def)
  next
    case (sealed r w)
    then show thesis
      by (intro that [of "[ARecord ?key (lg_descriptor ?leg), ACall (input_from_node n), AMark ?key r]"])
        (auto simp: txn_leg_steps_def steps_from_def)
  qed
qed

section \<open>The walk\<close>

definition leg_pre :: "preconditions \<Rightarrow> node_id \<Rightarrow> precondition" where
  "leg_pre pres i = (case pres i of Some pc \<Rightarrow> pc | None \<Rightarrow> PcNone)"

definition txn_legs ::
  "('j canonical \<Rightarrow> u8 list) \<Rightarrow> 'j plan \<Rightarrow> string \<Rightarrow> preconditions \<Rightarrow> node_id list \<Rightarrow> effect_leg list" where
  "txn_legs to_bytes p plan_id pres ids =
     concat (map (\<lambda>i. case plan_node p i of
                        Some n \<Rightarrow> if rt_is_write (en_kind n) then [leg_from_node to_bytes plan_id n (leg_pre pres i)] else []
                      | None \<Rightarrow> []) ids)"

lemma commit_walk_Nil [simp]:
  "commit_walk_ids api to_bytes reg p caps plan_id pres [] s = \<lparr>cw_records = [], cw_failure = False, cw_state = s\<rparr>"
  by (simp add: commit_walk_ids_def)

lemma commit_walk_snoc [simp]:
  "commit_walk_ids api to_bytes reg p caps plan_id pres (ids @ [i]) s =
     commit_txn_step api to_bytes reg p caps plan_id pres i
       (commit_walk_ids api to_bytes reg p caps plan_id pres ids s)"
  by (simp add: commit_walk_ids_def)

text \<open>A step leaves the walk alone, records a skip, or applies the node's leg.\<close>

lemma commit_txn_step_cases:
  obtains (other) "commit_txn_step api to_bytes reg p caps plan_id pres i k = k"
      "\<forall>n. plan_node p i = Some n \<longrightarrow> \<not> rt_is_write (en_kind n)"
    | (skip) n where "plan_node p i = Some n" "rt_is_write (en_kind n)" "cw_failure k"
      "commit_txn_step api to_bytes reg p caps plan_id pres i k =
         k\<lparr>cw_records := cw_records k @ [record_skipped (leg_from_node to_bytes plan_id n (leg_pre pres i))]\<rparr>"
    | (leg) n out s where "plan_node p i = Some n" "rt_is_write (en_kind n)" "\<not> cw_failure k"
      "apply_txn_leg api to_bytes reg caps plan_id n (leg_pre pres i) (cw_state k) = (out, s)"
      "commit_txn_step api to_bytes reg p caps plan_id pres i k =
         \<lparr>cw_records = cw_records k @ [record_from_outcome (leg_from_node to_bytes plan_id n (leg_pre pres i)) out],
          cw_failure = txn_is_hard out, cw_state = s\<rparr>"
proof (cases "plan_node p i")
  case None
  then show thesis by (intro other) (simp_all add: commit_txn_step_def)
next
  case (Some n)
  obtain out s where a: "apply_txn_leg api to_bytes reg caps plan_id n (leg_pre pres i) (cw_state k) = (out, s)"
    by fastforce
  show thesis
    using Some a other [unfolded commit_txn_step_def] skip [OF Some, unfolded commit_txn_step_def]
      leg [OF Some, unfolded commit_txn_step_def]
    by (cases "rt_is_write (en_kind n)"; cases "cw_failure k") (auto simp: Let_def leg_pre_def)
qed

definition txn_id_steps ::
  "('j canonical \<Rightarrow> u8 list) \<Rightarrow> string \<Rightarrow> 'j plan \<Rightarrow> node_id \<Rightarrow> 'j effect_input txn_action list \<Rightarrow> bool" where
  "txn_id_steps to_bytes plan_id p i acts \<longleftrightarrow>
     acts = [] \<or> (\<exists>n. plan_node p i = Some n \<and> rt_is_write (en_kind n) \<and> txn_leg_steps to_bytes plan_id n acts)"

lemma commit_walk_steps:
  "\<exists>segs. steps_from api s (cw_state (commit_walk_ids api to_bytes reg p caps plan_id pres ids s)) (concat segs)
     \<and> list_all2 (txn_id_steps to_bytes plan_id p) ids segs"
proof (induction ids rule: rev_induct)
  case (snoc i ids)
  let ?k = "commit_walk_ids api to_bytes reg p caps plan_id pres ids s"
  from snoc obtain segs where h: "steps_from api s (cw_state ?k) (concat segs)"
    "list_all2 (txn_id_steps to_bytes plan_id p) ids segs" by blast
  have none: "txn_id_steps to_bytes plan_id p i []" by (simp add: txn_id_steps_def)
  have quiet: ?case if "cw_state (commit_txn_step api to_bytes reg p caps plan_id pres i ?k) = cw_state ?k"
    using h that by (intro exI [of _ "segs @ [[]]"]) (auto simp: list_all2_appendI none)
  show ?case
  proof (cases rule: commit_txn_step_cases [of api to_bytes reg p caps plan_id pres i ?k])
    case (leg n out s')
    obtain acts where a: "steps_from api (cw_state ?k) s' acts" "txn_leg_steps to_bytes plan_id n acts"
      by (rule apply_txn_leg_steps [of api "cw_state ?k" to_bytes reg caps plan_id n "leg_pre pres i"])
        (use leg(4) in auto)
    have own: "txn_id_steps to_bytes plan_id p i acts" using a(2) leg(1,2) by (auto simp: txn_id_steps_def)
    show ?thesis
      using h(2) own steps_from_trans [OF h(1) a(1)]
      by (intro exI [of _ "segs @ [acts]"]) (auto simp: leg(5) list_all2_appendI)
  next
    case other
    then show ?thesis by (intro quiet) simp
  next
    case (skip n)
    then show ?thesis by (intro quiet) simp
  qed
qed (simp add: steps_from_def)

section \<open>Crashes\<close>

text \<open>The driver calls a trace has for a node.\<close>

definition calls_for :: "node_id \<Rightarrow> 'j effect_input txn_action list \<Rightarrow> nat" where
  "calls_for i acts = length (filter (\<lambda>c. ei_id c = i) (calls_in acts))"

lemma calls_for_simps [simp]:
  "calls_for i [] = 0" "calls_for i (as @ bs) = calls_for i as + calls_for i bs"
  by (simp_all add: calls_for_def)

lemma calls_for_zero: "calls_for i acts = 0 \<longleftrightarrow> (\<forall>c\<in>set (calls_in acts). ei_id c \<noteq> i)"
  by (auto simp: calls_for_def filter_empty_conv)

lemma plan_node_id: "plan_node p i = Some n \<Longrightarrow> en_id n = i"
  by (auto simp: plan_node_def find_Some_iff)

lemma input_id [simp]: "ei_id (input_from_node n) = en_id n"
  by (simp add: input_from_node_def)

lemma txn_id_steps_calls:
  assumes "txn_id_steps to_bytes plan_id p j acts"
  shows "calls_for i acts \<le> (if i = j then 1 else 0)"
  using assms plan_node_id [of p j]
  by (auto simp: txn_id_steps_def txn_leg_steps_def calls_for_def)

lemma calls_for_segs:
  "list_all2 (txn_id_steps to_bytes plan_id p) ids segs \<Longrightarrow> distinct ids \<Longrightarrow>
     calls_for i (concat segs) \<le> (if i \<in> set ids then 1 else 0)"
proof (induction ids segs rule: list_all2_induct)
  case (Cons j ids seg segs)
  then show ?case using txn_id_steps_calls [OF Cons(1), of i] by (auto split: if_splits)
qed simp

text \<open>Cut a run's trace anywhere: a call in the part before the cut has its intent there, too.\<close>

lemma seg_cut:
  assumes "txn_id_steps to_bytes plan_id p j acts" "acts = a @ b" "ACall c \<in> set a"
  shows "\<exists>n d. plan_node p (ei_id c) = Some n \<and> ARecord (key_derive to_bytes plan_id n) d \<in> set a"
proof -
  from assms obtain n where n: "plan_node p j = Some n" "txn_leg_steps to_bytes plan_id n acts"
    by (auto simp: txn_id_steps_def)
  have "ACall c \<in> set acts" using assms(2,3) by simp
  with n(2) obtain d rest where r: "acts = ARecord (key_derive to_bytes plan_id n) d # rest" "c = input_from_node n"
    by (auto simp: txn_leg_steps_def)
  obtain x a' where "a = x # a'" using assms(3) by (cases a) auto
  then have "ARecord (key_derive to_bytes plan_id n) d \<in> set a" using r(1) assms(2) by simp
  then show ?thesis using n(1) r(2) plan_node_id [OF n(1)] by auto
qed

lemma segs_cut:
  "list_all2 (txn_id_steps to_bytes plan_id p) ids segs \<Longrightarrow> concat segs = a @ b \<Longrightarrow> ACall c \<in> set a \<Longrightarrow>
     \<exists>n d. plan_node p (ei_id c) = Some n \<and> ARecord (key_derive to_bytes plan_id n) d \<in> set a"
proof (induction ids segs arbitrary: a rule: list_all2_induct)
  case (Cons j ids seg segs)
  then consider (inside) u where "seg = a @ u" | (beyond) u where "a = seg @ u" "concat segs = u @ b"
    by (auto simp: append_eq_append_conv2)
  then show ?case
  proof cases
    case inside
    then show ?thesis using seg_cut [OF Cons(1)] Cons(5) by blast
  next
    case (beyond u)
    show ?thesis
    proof (cases "ACall c \<in> set seg")
      case True
      from seg_cut [OF Cons(1) _ this, of "[]"] show ?thesis unfolding beyond(1) set_append by auto
    next
      case False
      then show ?thesis using Cons(3) [OF beyond(2)] Cons(5) beyond(1) by auto
    qed
  qed
qed simp

context audit_ledger
begin

text \<open>A node the ledger knows about, and whose leg is not safe to replay, or whose leg it has sealed,
  is not called.\<close>

lemma walk_quiet:
  assumes n: "plan_node p i = Some n"
    and led: "la_applied api (ts_ledger s) (key_derive to_bytes plan_id n) \<noteq> None
       \<or> la_has_intent api (ts_ledger s) (key_derive to_bytes plan_id n)
         \<and> \<not> is_replay_safe (lg_descriptor (leg_from_node to_bytes plan_id n (leg_pre pres i)))"
  shows "\<exists>acts. steps_from api s (cw_state (commit_walk_ids api to_bytes reg p caps plan_id pres ids s)) acts
           \<and> calls_for i acts = 0"
proof (induction ids rule: rev_induct)
  case (snoc j ids)
  let ?k = "commit_walk_ids api to_bytes reg p caps plan_id pres ids s"
  from snoc obtain acts where a: "steps_from api s (cw_state ?k) acts" "calls_for i acts = 0" by blast
  have led': "la_applied api (ts_ledger (cw_state ?k)) (key_derive to_bytes plan_id n) \<noteq> None
       \<or> la_has_intent api (ts_ledger (cw_state ?k)) (key_derive to_bytes plan_id n)
         \<and> \<not> is_replay_safe (lg_descriptor (leg_from_node to_bytes plan_id n (leg_pre pres i)))"
    using led a(1) applied_mono [of "ts_ledger s" _ acts] intent_mono [of "ts_ledger s" _ acts]
    unfolding steps_from_def by metis
  show ?case
  proof (cases rule: commit_txn_step_cases [of api to_bytes reg p caps plan_id pres j ?k])
    case (leg m out s')
    show ?thesis
    proof (cases "j = i")
      case True
      then have "m = n" using leg(1) n by simp
      then have "s' = cw_state ?k" using apply_txn_leg_quiet [OF led'] leg(4) True by (metis snd_conv)
      then show ?thesis using a by (auto simp: leg(5))
    next
      case False
      obtain acts' where b: "steps_from api (cw_state ?k) s' acts'" "txn_leg_steps to_bytes plan_id m acts'"
        by (rule apply_txn_leg_steps [of api "cw_state ?k" to_bytes reg caps plan_id m "leg_pre pres j"])
          (use leg(4) in auto)
      have "txn_id_steps to_bytes plan_id p j acts'" using b(2) leg(1,2) by (auto simp: txn_id_steps_def)
      then have "calls_for i acts' = 0" using txn_id_steps_calls [of to_bytes plan_id p j acts' i] False by simp
      then show ?thesis using a steps_from_trans [OF a(1) b(1)] by (intro exI [of _ "acts @ acts'"]) (simp add: leg(5))
    qed
  qed (use a in auto)
qed (rule exI [of _ "[]"], simp add: steps_from_def)

lemma commit_txn_walk:
  assumes "commit_txn api to_bytes reg p caps plan_id pres transactional s = Inr (st, rep, s')"
  obtains order where "topo_order p = Some order" "distinct order"
    "s' = cw_state (commit_walk_ids api to_bytes reg p caps plan_id pres order s)"
  using assms topo.order_distinct by (auto simp: commit_txn_def Let_def split: option.splits)

lemma crash_once:
  assumes r1: "commit_txn api to_bytes reg p caps plan_id pres transactional (txn_start l w) = Inr (st, rep, s1)"
    and r2: "commit_txn api to_bytes reg' p caps' plan_id pres' transactional'
       (txn_start (replay api (take k (ts_trace s1)) l) w') = Inr (st', rep', s2)"
    and n: "plan_node p i = Some n"
  shows "(\<not> is_replay_safe (lg_descriptor (leg_from_node to_bytes plan_id n (leg_pre pres' i))) \<longrightarrow>
            calls_for i (take k (ts_trace s1)) + calls_for i (ts_trace s2) \<le> 1)
    \<and> (AMark (key_derive to_bytes plan_id n) rc \<in> set (take k (ts_trace s1)) \<longrightarrow> calls_for i (ts_trace s2) = 0)"
proof -
  obtain order where o: "topo_order p = Some order" "distinct order"
    "s1 = cw_state (commit_walk_ids api to_bytes reg p caps plan_id pres order (txn_start l w))"
    by (rule commit_txn_walk [OF r1])
  have o2: "s2 = cw_state (commit_walk_ids api to_bytes reg' p caps' plan_id pres' order
       (txn_start (replay api (take k (ts_trace s1)) l) w'))"
    using o(1) by (auto intro: commit_txn_walk [OF r2])
  let ?s = "txn_start (replay api (take k (ts_trace s1)) l) w' :: ('l, _, _) txn_commit_state"
  let ?cut = "take k (ts_trace s1)"
  obtain segs where h: "ts_trace s1 = concat segs" "list_all2 (txn_id_steps to_bytes plan_id p) order segs"
    using commit_walk_steps [of api "txn_start l w" to_bytes reg p caps plan_id pres order] o(3)
    by (auto simp: steps_from_def)
  obtain segs2 where h2: "ts_trace s2 = concat segs2" "list_all2 (txn_id_steps to_bytes plan_id p) order segs2"
    using commit_walk_steps [of api ?s to_bytes reg' p caps' plan_id pres' order] o2
    by (auto simp: steps_from_def)
  have cut: "concat segs = ?cut @ drop k (ts_trace s1)" using h(1) by simp
  have "calls_for i (concat segs) = calls_for i ?cut + calls_for i (drop k (ts_trace s1))"
    by (simp only: cut calls_for_simps)
  then have once: "calls_for i ?cut \<le> 1" "calls_for i (ts_trace s2) \<le> 1"
    using calls_for_segs [OF h(2) o(2), of i] calls_for_segs [OF h2(2) o(2), of i] h2(1)
    by (simp_all split: if_splits)
  have quiet: "calls_for i (ts_trace s2) = 0"
    if "la_applied api (replay api ?cut l) (key_derive to_bytes plan_id n) \<noteq> None
       \<or> la_has_intent api (replay api ?cut l) (key_derive to_bytes plan_id n)
         \<and> \<not> is_replay_safe (lg_descriptor (leg_from_node to_bytes plan_id n (leg_pre pres' i)))"
    using walk_quiet [OF n, of ?s to_bytes plan_id pres' reg' caps' order] that o2 by (auto simp: steps_from_def)
  show ?thesis
  proof (intro conjI impI)
    assume unsafe: "\<not> is_replay_safe (lg_descriptor (leg_from_node to_bytes plan_id n (leg_pre pres' i)))"
    show "calls_for i ?cut + calls_for i (ts_trace s2) \<le> 1"
    proof (cases "calls_for i ?cut = 0")
      case False
      then obtain c where c: "ACall c \<in> set ?cut" "ei_id c = i" by (auto simp: calls_for_zero calls_in_set)
      obtain d where "ARecord (key_derive to_bytes plan_id n) d \<in> set ?cut"
        using segs_cut [OF h(2) cut c(1)] c(2) n by auto
      then have "la_has_intent api (replay api ?cut l) (key_derive to_bytes plan_id n)"
        by (rule intent_of_record)
      then show ?thesis using quiet unsafe once by simp
    qed (use once in simp)
  next
    assume "AMark (key_derive to_bytes plan_id n) rc \<in> set ?cut"
    then show "calls_for i (ts_trace s2) = 0"
      using applied_of_mark [of _ rc ?cut l] by (intro quiet) simp
  qed
qed

end

section \<open>The report\<close>

definition first_hard :: "bool \<Rightarrow> leg_record list \<Rightarrow> node_id option" where
  "first_hard failure recs =
     (if failure then map_option lr_id (find (\<lambda>r. txn_is_hard (lr_outcome r)) recs) else None)"

lemma txn_legs_snoc:
  "txn_legs to_bytes p plan_id pres (ids @ [i]) = txn_legs to_bytes p plan_id pres ids @
     (case plan_node p i of
        Some n \<Rightarrow> if rt_is_write (en_kind n) then [leg_from_node to_bytes plan_id n (leg_pre pres i)] else []
      | None \<Rightarrow> [])"
  by (simp add: txn_legs_def)

lemma stops_at_all: "stops_at legs recs None \<longleftrightarrow> find (\<lambda>r. txn_is_hard (lr_outcome r)) recs = None"
  by (auto simp: stops_at_def txn_outcome_kinds find_None_iff list_all_iff)

lemma stops_at_hard:
  assumes "length recs = length legs" "stops_at legs recs None" "txn_is_hard out"
  shows "stops_at (legs @ [leg]) (recs @ [record_from_outcome leg out]) (Some (ed_id (lg_descriptor leg)))"
  unfolding stops_at_def option.case
  using assms by (intro exI [of _ legs] exI [of _ leg] exI [of _ "[]"] exI [of _ recs] exI [of _ out])
    (simp add: stops_at_def txn_outcome_kinds)

lemma commit_walk_report:
  fixes api :: "'l ledger_api"
  shows "map lr_key (cw_records (commit_walk_ids api to_bytes reg p caps plan_id pres ids s)) =
       map lg_key (txn_legs to_bytes p plan_id pres ids)
     \<and> stops_at (txn_legs to_bytes p plan_id pres ids)
         (cw_records (commit_walk_ids api to_bytes reg p caps plan_id pres ids s))
         (first_hard (cw_failure (commit_walk_ids api to_bytes reg p caps plan_id pres ids s))
           (cw_records (commit_walk_ids api to_bytes reg p caps plan_id pres ids s)))
     \<and> (cw_failure (commit_walk_ids api to_bytes reg p caps plan_id pres ids s) \<longrightarrow>
         first_hard True (cw_records (commit_walk_ids api to_bytes reg p caps plan_id pres ids s)) \<noteq> None)"
proof (induction ids rule: rev_induct)
  case (snoc i ids)
  let ?k = "commit_walk_ids api to_bytes reg p caps plan_id pres ids s"
  let ?legs = "txn_legs to_bytes p plan_id pres ids"
  have len: "length (cw_records ?k) = length ?legs" using snoc by (metis length_map)
  show ?case
  proof (cases rule: commit_txn_step_cases [of api to_bytes reg p caps plan_id pres i ?k])
    case other
    then have "txn_legs to_bytes p plan_id pres (ids @ [i]) = ?legs" by (auto simp: txn_legs_snoc split: option.splits)
    then show ?thesis using snoc other(1) by simp
  next
    case (skip n)
    then obtain f where f: "first_hard True (cw_records ?k) = Some f" using snoc by auto
    have "first_hard True (cw_records ?k @ [r]) = Some f" for r
      using f by (auto simp: first_hard_def find_append split: option.splits)
    moreover have "stops_at ?legs (cw_records ?k) (Some f)" using snoc f skip(3) by simp
    ultimately show ?thesis
      using snoc skip stops_at_skip [of ?legs "cw_records ?k" f] by (simp add: txn_legs_snoc)
  next
    case (leg n out s')
    have ok: "stops_at ?legs (cw_records ?k) None" using snoc leg(3) by (simp add: first_hard_def)
    then have none: "find (\<lambda>r. txn_is_hard (lr_outcome r)) (cw_records ?k) = None" by (simp add: stops_at_all)
    let ?leg = "leg_from_node to_bytes plan_id n (leg_pre pres i)"
    have fh: "first_hard (txn_is_hard out) (cw_records ?k @ [record_from_outcome ?leg out]) =
        (if txn_is_hard out then Some (ed_id (lg_descriptor ?leg)) else None)"
      using none by (simp add: first_hard_def find_append)
    have st: "stops_at (?legs @ [?leg]) (cw_records ?k @ [record_from_outcome ?leg out])
        (if txn_is_hard out then Some (ed_id (lg_descriptor ?leg)) else None)"
      using stops_at_hard [OF len ok, of out ?leg] none by (auto simp: stops_at_all find_append)
    show ?thesis using snoc leg(1,2) fh st by (auto simp: leg(5) txn_legs_snoc)
  qed
qed (simp add: txn_legs_def stops_at_def first_hard_def)

section \<open>Properties\<close>

text \<open>C14: a transactional commit of a valid plan always returns, and its report has one record per
  write node, in topological order, of the shape a saga's report has; it is marked as rolled back
  exactly if a leg failed and the strategy is a single ACID transaction. Reads and server
  configuration writes are not legs: nothing of them is recorded or called.\<close>

theorem commit_txn_report:
  "validate p = Inr () \<Longrightarrow> \<exists>order st rep s'.
     commit_txn api to_bytes reg p caps plan_id pres transactional (txn_start l w) = Inr (st, rep, s')
     \<and> topo_order p = Some order \<and> st = select_strategy p transactional
     \<and> map lr_key (rr_legs rep) = map lg_key (txn_legs to_bytes p plan_id pres order)
     \<and> stops_at (txn_legs to_bytes p plan_id pres order) (rr_legs rep) (rr_failure_at rep)
     \<and> (rr_rolled_back rep \<longleftrightarrow> rr_failure_at rep \<noteq> None \<and> st \<noteq> CrossSourceSaga)
     \<and> (\<forall>c\<in>set (calls_in (ts_trace s')). \<exists>n. plan_node p (ei_id c) = Some n \<and> rt_is_write (en_kind n))"
proof -
  assume "validate p = Inr ()"
  then obtain order where o: "topo_order p = Some order" using wf_plan_topo validate_wf by blast
  let ?k = "commit_walk_ids api to_bytes reg p caps plan_id pres order (txn_start l w)"
  note rep = commit_walk_report [of api to_bytes reg p caps plan_id pres order "txn_start l w"]
  let ?st = "select_strategy p transactional"
  let ?rep = "report_rolled_back (report_new (cw_records ?k) (first_hard (cw_failure ?k) (cw_records ?k)) [])
      (cw_failure ?k \<and> ?st \<noteq> CrossSourceSaga)"
  have res: "commit_txn api to_bytes reg p caps plan_id pres transactional (txn_start l w) = Inr (?st, ?rep, cw_state ?k)"
    by (cases ?st) (simp_all add: commit_txn_def Let_def o first_hard_def)
  have calls: "\<exists>n. plan_node p (ei_id c) = Some n \<and> rt_is_write (en_kind n)"
    if c: "c \<in> set (calls_in (ts_trace (cw_state ?k)))" for c
  proof -
    obtain segs where h: "ts_trace (cw_state ?k) = concat segs" "list_all2 (txn_id_steps to_bytes plan_id p) order segs"
      using commit_walk_steps [of api "txn_start l w" to_bytes reg p caps plan_id pres order] by (auto simp: steps_from_def)
    then obtain seg where "seg \<in> set segs" "ACall c \<in> set seg" using c by (auto simp: calls_in_set)
    then obtain i where "txn_id_steps to_bytes plan_id p i seg" using h(2) by (metis list_all2_nthD2 in_set_conv_nth)
    then show ?thesis
      using \<open>ACall c \<in> set seg\<close> plan_node_id [of p i] by (auto simp: txn_id_steps_def txn_leg_steps_def)
  qed
  have "rr_rolled_back ?rep \<longleftrightarrow> rr_failure_at ?rep \<noteq> None \<and> ?st \<noteq> CrossSourceSaga"
    using rep by (auto simp: report_rolled_back_def report_new_def first_hard_def)
  then show ?thesis
    using rep calls by (intro exI [of _ order] exI [of _ ?st] exI [of _ ?rep] exI [of _ "cw_state ?k"])
      (simp add: res o report_rolled_back_def report_new_def)
qed

definition demo_driver :: "(nat, unit) async_driver" where
  "demo_driver k ins final w = (map (\<lambda>i. Inr \<lparr>eo_id = ei_id i, eo_affected = 1\<rparr>) ins, w + 1)"

definition demo_registry :: "(nat, unit) driver_registry" where
  "demo_registry = registry_with Map.empty (tgt_driver demo_target) demo_driver"

theorem commit_txn_report_witness:
  "\<exists>st rep s'. commit_txn mem_api (\<lambda>_. []) demo_registry demo_plan caps_allow_all ''p'' Map.empty {} (txn_start mem_new 0)
       = Inr (st, rep, s') \<and> (rr_rolled_back rep \<longleftrightarrow> rr_failure_at rep \<noteq> None \<and> st \<noteq> CrossSourceSaga)"
proof -
  have "validate demo_plan = Inr ()" by code_simp
  from commit_txn_report [OF this, of mem_api "\<lambda>_. []" demo_registry caps_allow_all "''p''" Map.empty "{}" mem_new 0]
  show ?thesis by blast
qed





end
