(* ===== verification/Types_Float.thy ===== *)
theory Types_Float
  imports Types_Value Text_Util
begin

text \<open>
  The operations of Rust's \<open>f64\<close> the engine uses: comparison, conversion from and to \<open>i64\<close>,
  addition, and the \<open>{:?}\<close> rendering. A finite number is a sign and a magnitude in units of
  \<open>2^-1074\<close> (\<open>FFin\<close>, the sign \<open>True\<close> being the negative one), so comparison and the exact result of
  an addition are integer arithmetic; a result is rounded to 53 significant bits, to the nearest,
  ties to even, and overflows to infinity from \<open>2^1024\<close> on.
\<close>

datatype ordering = OLess | OEqual | OGreater

fun ordering_reverse :: "ordering \<Rightarrow> ordering" where
  "ordering_reverse OLess = OGreater"
| "ordering_reverse OEqual = OEqual"
| "ordering_reverse OGreater = OLess"

definition cmp_of :: "'a :: linorder \<Rightarrow> 'a \<Rightarrow> ordering" where
  "cmp_of a b = (if a < b then OLess else if a = b then OEqual else OGreater)"

section \<open>Comparison\<close>

definition fin_value :: "bool \<Rightarrow> nat \<Rightarrow> int" where
  "fin_value neg m = (if neg then - int m else int m)"

fun f64_partial_cmp :: "f64 \<Rightarrow> f64 \<Rightarrow> ordering option" where
  "f64_partial_cmp FNaN _ = None"
| "f64_partial_cmp _ FNaN = None"
| "f64_partial_cmp (FInf a) (FInf b) = Some (if a = b then OEqual else if a then OLess else OGreater)"
| "f64_partial_cmp (FInf a) (FFin _ _) = Some (if a then OLess else OGreater)"
| "f64_partial_cmp (FFin _ _) (FInf b) = Some (if b then OGreater else OLess)"
| "f64_partial_cmp (FFin a m) (FFin b n) = Some (cmp_of (fin_value a m) (fin_value b n))"

section \<open>Rounding, conversion, addition\<close>

fun bit_len :: "nat \<Rightarrow> nat" where
  "bit_len n = (if n = 0 then 0 else Suc (bit_len (n div 2)))"

declare bit_len.simps [simp del]

definition round_sig :: "nat \<Rightarrow> nat" where
  "round_sig m =
     (if m < 2 ^ 53 then m
      else let k = bit_len m - 53; q = m div 2 ^ k; r = m mod 2 ^ k; half = 2 ^ (k - 1)
           in (if r > half \<or> r = half \<and> odd q then q + 1 else q) * 2 ^ k)"

definition f64_of_exact :: "bool \<Rightarrow> nat \<Rightarrow> f64" where
  "f64_of_exact neg m = (let r = round_sig m in if 2 ^ (1024 + 1074) \<le> r then FInf neg else FFin neg r)"

text \<open>\<open>i64 as f64\<close>: rounding commutes with the scaling.\<close>

definition f64_of_int :: "int \<Rightarrow> f64" where
  "f64_of_int i = FFin (i < 0) (round_sig (nat \<bar>i\<bar>) * 2 ^ 1074)"

fun f64_add :: "f64 \<Rightarrow> f64 \<Rightarrow> f64" where
  "f64_add FNaN _ = FNaN"
| "f64_add _ FNaN = FNaN"
| "f64_add (FInf a) (FInf b) = (if a = b then FInf a else FNaN)"
| "f64_add (FInf a) (FFin _ _) = FInf a"
| "f64_add (FFin _ _) (FInf b) = FInf b"
| "f64_add (FFin a m) (FFin b n) =
     (let v = fin_value a m + fin_value b n in
      if v = 0 then FFin (a \<and> b) 0 else f64_of_exact (v < 0) (nat \<bar>v\<bar>))"

text \<open>\<open>f64 as i64\<close> truncates and saturates; a NaN is zero.\<close>

fun f64_to_int :: "f64 \<Rightarrow> int" where
  "f64_to_int FNaN = 0"
| "f64_to_int (FInf neg) = (if neg then - (2 ^ 63) else 2 ^ 63 - 1)"
| "f64_to_int (FFin neg m) =
     (let t = int (m div 2 ^ 1074) in if neg then max (- t) (- (2 ^ 63)) else min t (2 ^ 63 - 1))"

section \<open>Rendering\<close>

text \<open>
  \<open>{:?}\<close> prints the shortest decimal that reads back as the number, the closest one of that
  length. \<open>frac_less\<close> compares \<open>m * 2^-1074\<close> scaled by four with \<open>4 * d * 10^e\<close>.
\<close>

definition scaled_dec :: "nat \<Rightarrow> int \<Rightarrow> nat \<times> nat" where
  "scaled_dec d e = (if 0 \<le> e then (d * 10 ^ nat e * 2 ^ 1074, 1) else (d * 2 ^ 1074, 10 ^ nat (- e)))"

text \<open>Whether the decimal \<open>d * 10^e\<close> lies in the rounding interval of the magnitude \<open>m\<close>.\<close>

definition reads_back :: "nat \<Rightarrow> nat \<Rightarrow> int \<Rightarrow> bool" where
  "reads_back m d e =
     (let ulp = (if m < 2 ^ 53 then 1 else 2 ^ (bit_len m - 53));
          low = 4 * m - (if 1 < ulp \<and> m = 2 ^ (bit_len m - 1) then ulp else 2 * ulp);
          high = 4 * m + 2 * ulp
      in case scaled_dec d e of (x, y) \<Rightarrow>
           if even (m div ulp) then low * y \<le> 4 * x \<and> 4 * x \<le> high * y
           else low * y < 4 * x \<and> 4 * x < high * y)"

text \<open>The number of digits before the decimal point: the least \<open>e\<close> with \<open>m * 2^-1074 < 10^e\<close>.\<close>

definition dec_exp :: "nat \<Rightarrow> int" where
  "dec_exp m = (case find (\<lambda>e. case scaled_dec 1 e of (x, y) \<Rightarrow> m * y < x) [- 323..309] of Some e \<Rightarrow> e | None \<Rightarrow> 309)"

definition dec_floor :: "nat \<Rightarrow> int \<Rightarrow> nat" where
  "dec_floor m e = (case scaled_dec 1 e of (x, y) \<Rightarrow> (m * y) div x)"

definition shortest_at :: "nat \<Rightarrow> nat \<Rightarrow> (nat \<times> int) option" where
  "shortest_at m n =
     (let e = dec_exp m - int n; d = dec_floor m e; down = reads_back m d e; up = reads_back m (d + 1) e;
          past_half = (case scaled_dec (2 * d + 1) e of (x, y) \<Rightarrow> x \<le> 2 * m * y)
      in if up \<and> (\<not> down \<or> past_half) then Some (d + 1, e) else if down then Some (d, e) else None)"

definition shortest_digits :: "nat \<Rightarrow> nat \<times> int" where
  "shortest_digits m =
     (case find (\<lambda>r. r \<noteq> None) (map (shortest_at m) [1..<18]) of Some (Some r) \<Rightarrow> r | _ \<Rightarrow> (0, 0))"

text \<open>\<open>render_dec ds p\<close> is \<open>0.ds * 10^p\<close> in decimal notation, \<open>render_exp\<close> in scientific notation.\<close>

definition render_dec :: "string \<Rightarrow> int \<Rightarrow> string" where
  "render_dec ds p =
     (if p \<le> 0 then ''0.'' @ replicate (nat (- p)) (CHR ''0'') @ ds
      else if length ds \<le> nat p then ds @ replicate (nat p - length ds) (CHR ''0'') @ ''.0''
      else take (nat p) ds @ ''.'' @ drop (nat p) ds)"

definition render_exp :: "string \<Rightarrow> int \<Rightarrow> string" where
  "render_exp ds p =
     take 1 ds @ (if length ds = 1 then [] else ''.'' @ drop 1 ds) @ ''e'' @ show_int (p - 1)"

text \<open>Scientific from \<open>1e16\<close> on and below \<open>1e-4\<close>. A digit string may carry a trailing zero when
  the last digit is rounded up; it is stripped.\<close>

definition f64_debug :: "f64 \<Rightarrow> string" where
  "f64_debug x =
     (case x of
        FNaN \<Rightarrow> ''NaN''
      | FInf neg \<Rightarrow> (if neg then ''-inf'' else ''inf'')
      | FFin neg m \<Rightarrow>
          (if neg then ''-'' else []) @
          (if m = 0 then ''0.0''
           else case shortest_digits m of (d, e) \<Rightarrow>
             let ds = show_nat d; p = int (length ds) + e;
                 sig = rev (dropWhile (\<lambda>c. c = CHR ''0'') (rev ds)) in
             if (case scaled_dec 1 (- 4) of (x, y) \<Rightarrow> m * y < x) \<or> (case scaled_dec 1 16 of (x, y) \<Rightarrow> x \<le> m * y)
             then render_exp sig p else render_dec sig p))"

section \<open>Facts\<close>

lemma round_sig_small [simp]: "m < 2 ^ 53 \<Longrightarrow> round_sig m = m"
  by (simp add: round_sig_def)

lemma f64_cmp_total: "a \<noteq> FNaN \<Longrightarrow> b \<noteq> FNaN \<Longrightarrow> f64_partial_cmp a b \<noteq> None"
  by (cases a; cases b) simp_all

text \<open>A number of at most 53 significant bits is not rounded.\<close>

lemma bit_len_le: "n < 2 ^ k \<Longrightarrow> bit_len n \<le> k"
proof (induction k arbitrary: n)
  case (Suc k)
  then have "bit_len (n div 2) \<le> k" by simp
  then show ?case by (subst bit_len.simps) simp
qed (simp add: bit_len.simps)

lemma bit_len_ge: "2 ^ k \<le> n \<Longrightarrow> k < bit_len n"
proof (induction k arbitrary: n)
  case 0
  then show ?case by (subst bit_len.simps) simp
next
  case (Suc k)
  have "n \<noteq> 0" using Suc(2) by (metis not_le zero_less_numeral zero_less_power)
  moreover have "2 ^ k \<le> n div 2" using Suc(2) by simp
  ultimately show ?case using Suc(1) by (subst bit_len.simps) simp
qed

lemma bit_len_unique: "2 ^ k \<le> n \<Longrightarrow> n < 2 ^ Suc k \<Longrightarrow> bit_len n = Suc k"
  using bit_len_le [of n "Suc k"] bit_len_ge [of k n] by simp

lemma bit_len_shift: "0 < n \<Longrightarrow> bit_len (n * 2 ^ k) = bit_len n + k"
proof (induction k)
  case (Suc k)
  have "bit_len (n * 2 ^ Suc k) = Suc (bit_len (n * 2 ^ k))"
    using Suc(2) by (subst bit_len.simps) (simp add: mult.left_commute)
  then show ?case using Suc by simp
qed simp

lemma round_sig_shift:
  assumes "k < 2 ^ 53" shows "round_sig (k * 2 ^ e) = k * 2 ^ e"
proof (cases "k * 2 ^ e < 2 ^ 53")
  case False
  then have k: "0 < k" by (cases k) simp_all
  define s where "s = bit_len (k * 2 ^ e) - 53"
  have s: "s \<le> e" using bit_len_le [OF assms] by (simp add: s_def bit_len_shift [OF k])
  then have split: "k * 2 ^ e = (k * 2 ^ (e - s)) * 2 ^ s" by (simp add: power_add [symmetric])
  have "(k * 2 ^ e) div 2 ^ s = k * 2 ^ (e - s)" "(k * 2 ^ e) mod 2 ^ s = 0" by (simp_all add: split)
  then show ?thesis using False by (simp add: round_sig_def Let_def s_def [symmetric] split [symmetric])
qed simp

text \<open>The integers of that size, as doubles.\<close>

lemma f64_of_int_small: "\<bar>i\<bar> < 2 ^ 53 \<Longrightarrow> f64_of_int i = FFin (i < 0) (nat \<bar>i\<bar> * 2 ^ 1074)"
  by (simp add: f64_of_int_def nat_less_iff)

lemma fin_value_scaled: "fin_value (i < 0) (nat \<bar>i\<bar> * u) = i * int u"
  by (simp add: fin_value_def)

lemma f64_of_exact_small:
  assumes "k < 2 ^ 53" shows "f64_of_exact neg (k * 2 ^ 1074) = FFin neg (k * 2 ^ 1074)"
proof -
  have "k * 2 ^ 1074 < 2 ^ 53 * 2 ^ 1074" by (rule mult_strict_right_mono [OF assms]) simp
  also have "\<dots> \<le> (2 :: nat) ^ (1024 + 1074)" unfolding power_add [symmetric] by (rule power_increasing) simp_all
  finally have "\<not> 2 ^ (1024 + 1074) \<le> k * 2 ^ 1074" by (simp only: not_le)
  then show ?thesis unfolding f64_of_exact_def Let_def round_sig_shift [OF assms] by (simp only: if_False)
qed

lemma f64_add_ints:
  assumes "\<bar>i\<bar> < 2 ^ 53" "\<bar>j\<bar> < 2 ^ 53" "\<bar>i + j\<bar> < 2 ^ 53"
  shows "f64_add (f64_of_int i) (f64_of_int j) = f64_of_int (i + j)"
proof -
  define u :: nat where "u = 2 ^ 1074"
  have u: "0 < u" by (simp add: u_def)
  have v: "fin_value (i < 0) (nat \<bar>i\<bar> * u) + fin_value (j < 0) (nat \<bar>j\<bar> * u) = (i + j) * int u"
    unfolding fin_value_scaled by (simp only: distrib_right)
  have abs: "nat \<bar>(i + j) * int u\<bar> = nat \<bar>i + j\<bar> * u" by (simp add: abs_mult nat_mult_distrib)
  have sign: "(i + j) * int u < 0 \<longleftrightarrow> i + j < 0" "(i + j) * int u = 0 \<longleftrightarrow> i + j = 0"
    using u by (simp_all add: mult_less_0_iff)
  have ex: "f64_of_exact neg (nat \<bar>i + j\<bar> * u) = FFin neg (nat \<bar>i + j\<bar> * u)" for neg
    unfolding u_def by (rule f64_of_exact_small) (use assms(3) in \<open>simp add: nat_less_iff\<close>)
  show ?thesis
    unfolding f64_of_int_small [OF assms(1)] f64_of_int_small [OF assms(2)] f64_of_int_small [OF assms(3)]
      u_def [symmetric] f64_add.simps Let_def v abs sign ex by auto
qed

lemma f64_to_int_small:
  assumes "\<bar>i\<bar> < 2 ^ 53" shows "f64_to_int (f64_of_int i) = i"
proof -
  have "nat \<bar>i\<bar> * 2 ^ 1074 div 2 ^ 1074 = nat \<bar>i\<bar>" by simp
  then show ?thesis using assms by (auto simp: f64_of_int_small Let_def max_def min_def)
qed

lemma f64_of_int_finite: "f64_of_int i \<noteq> FNaN"
  by (simp add: f64_of_int_def)

end
