(* ===== verification/Types_Predicate.thy ===== *)
theory Types_Predicate
  imports Types_Float
begin

text \<open>
  The predicate language and its type checker, \<open>crates/types/src/predicate.rs\<close>.
\<close>

section \<open>Predicates\<close>

datatype col_ref = ColRef (col_path: "name list")

fun is_ordering :: "cmp_op \<Rightarrow> bool" where
  "is_ordering Lt = True"
| "is_ordering Gt = True"
| "is_ordering Le = True"
| "is_ordering Ge = True"
| "is_ordering _ = False"

datatype pattern = Pattern (pattern_str: string)

datatype literal = LNull | LBool bool | LInt i64 | LFloat f64 | LText string

fun literal_type :: "literal \<Rightarrow> column_type" where
  "literal_type LNull = TUnknown"
| "literal_type (LBool _) = TBool"
| "literal_type (LInt _) = TInt"
| "literal_type (LFloat _) = TFloat"
| "literal_type (LText _) = TText"

datatype predicate =
    PCmp col_ref cmp_op literal
  | PAnd predicate predicate
  | POr predicate predicate
  | PNot predicate
  | PIn col_ref "literal list"
  | PBetween col_ref literal literal
  | PLike col_ref pattern

datatype typed_predicate =
    TPCmp col_ref column_type cmp_op literal
  | TPAnd typed_predicate typed_predicate
  | TPOr typed_predicate typed_predicate
  | TPNot typed_predicate
  | TPIn col_ref column_type "literal list"
  | TPBetween col_ref column_type literal literal
  | TPLike col_ref pattern

section \<open>Type checking\<close>

definition comparable :: "cmp_op \<Rightarrow> column_type \<Rightarrow> column_type \<Rightarrow> bool" where
  "comparable op lhs rhs \<longleftrightarrow>
     (if lhs \<in> {TUnknown, TJson} \<or> rhs \<in> {TUnknown, TJson} then True
      else if op = Match then lhs = TText \<and> rhs = TText
      else let numeric = lhs \<in> {TInt, TFloat, TDecimal} \<and> rhs \<in> {TInt, TFloat, TDecimal};
               temporal = lhs \<in> {TTimestamp, TDate} \<and> rhs \<in> {TTimestamp, TDate}
           in if is_ordering op
              then numeric \<or> temporal \<or> lhs = rhs \<and> lhs \<in> {TText, TTimestamp, TDate, TDecimal, TInt, TFloat}
              else numeric \<or> temporal \<or> lhs = rhs \<and> is_scalar lhs)"

definition resolve_col :: "col_ref \<Rightarrow> schema \<Rightarrow> type_error + column_type" where
  "resolve_col c s = resolve_path s (col_path c)"

definition check_operand :: "cmp_op \<Rightarrow> column_type \<Rightarrow> literal \<Rightarrow> type_error + unit" where
  "check_operand op ty l =
     (if comparable op ty (literal_type l) then Inr () else Inl (IncomparableTypes op ty (literal_type l)))"

fun check_set :: "column_type \<Rightarrow> literal list \<Rightarrow> type_error + unit" where
  "check_set ty [] = Inr ()"
| "check_set ty (l # ls) = (case check_operand Eq ty l of Inl e \<Rightarrow> Inl e | Inr _ \<Rightarrow> check_set ty ls)"

fun typecheck_predicate :: "predicate \<Rightarrow> schema \<Rightarrow> type_error + typed_predicate" where
  "typecheck_predicate (PCmp col op lit) s =
     (case resolve_col col s of
        Inl e \<Rightarrow> Inl e
      | Inr ty \<Rightarrow> (case check_operand op ty lit of Inl e \<Rightarrow> Inl e | Inr _ \<Rightarrow> Inr (TPCmp col ty op lit)))"
| "typecheck_predicate (PAnd a b) s =
     (case typecheck_predicate a s of
        Inl e \<Rightarrow> Inl e
      | Inr ta \<Rightarrow> (case typecheck_predicate b s of Inl e \<Rightarrow> Inl e | Inr tb \<Rightarrow> Inr (TPAnd ta tb)))"
| "typecheck_predicate (POr a b) s =
     (case typecheck_predicate a s of
        Inl e \<Rightarrow> Inl e
      | Inr ta \<Rightarrow> (case typecheck_predicate b s of Inl e \<Rightarrow> Inl e | Inr tb \<Rightarrow> Inr (TPOr ta tb)))"
| "typecheck_predicate (PNot p) s =
     (case typecheck_predicate p s of Inl e \<Rightarrow> Inl e | Inr t \<Rightarrow> Inr (TPNot t))"
| "typecheck_predicate (PIn col ls) s =
     (case resolve_col col s of
        Inl e \<Rightarrow> Inl e
      | Inr ty \<Rightarrow> (case check_set ty ls of Inl e \<Rightarrow> Inl e | Inr _ \<Rightarrow> Inr (TPIn col ty ls)))"
| "typecheck_predicate (PBetween col low high) s =
     (case resolve_col col s of
        Inl e \<Rightarrow> Inl e
      | Inr ty \<Rightarrow>
          (case check_operand Ge ty low of
             Inl e \<Rightarrow> Inl e
           | Inr _ \<Rightarrow> (case check_operand Le ty high of Inl e \<Rightarrow> Inl e | Inr _ \<Rightarrow> Inr (TPBetween col ty low high))))"
| "typecheck_predicate (PLike col pat) s =
     (case resolve_col col s of
        Inl e \<Rightarrow> Inl e
      | Inr ty \<Rightarrow> (if ty \<in> {TText, TUnknown, TJson} then Inr (TPLike col pat)
                  else Inl (IncomparableTypes Match ty TText)))"

text \<open>The predicate a typed predicate decorates.\<close>

fun untyped :: "typed_predicate \<Rightarrow> predicate" where
  "untyped (TPCmp c _ op l) = PCmp c op l"
| "untyped (TPAnd a b) = PAnd (untyped a) (untyped b)"
| "untyped (TPOr a b) = POr (untyped a) (untyped b)"
| "untyped (TPNot a) = PNot (untyped a)"
| "untyped (TPIn c _ ls) = PIn c ls"
| "untyped (TPBetween c _ l h) = PBetween c l h"
| "untyped (TPLike c p) = PLike c p"

lemma typecheck_untyped: "typecheck_predicate p s = Inr t \<Longrightarrow> untyped t = p"
  by (induction p arbitrary: t) (auto split: sum.splits if_splits)

end
