(* ===== verification/Engine_Eval.thy ===== *)
theory Engine_Eval
  imports Types_Predicate
begin

text \<open>
  The operators of the local engine on row batches, \<open>crates/engine/src/eval.rs\<close>, with the
  vocabulary they take from \<open>crates/pushdown/src/logical.rs\<close>. Rows are told apart by the derived
  \<open>Debug\<close> text of their values, as in the code; how a \<open>serde_json::Value\<close> prints is the parameter
  \<open>dj\<close> of these definitions, and nothing is assumed of it. The \<open>BTreeSet\<close>s of texts are only asked
  for membership and are sets; a \<open>BTreeMap\<close> from a key to the rows that have it is a filter of the
  rows. \<open>slice::sort_by\<close> is insertion from the right, which is what it does on at most twenty
  elements, and on any number if the comparison is a total preorder, where the result is determined.
\<close>

section \<open>Vocabulary\<close>

datatype 'j scalar_expr =
    SCol col_ref | SLit "'j val" | SArray "'j scalar_expr list" | SStruct "(name \<times> 'j scalar_expr) list"

fun col_refs :: "'j scalar_expr \<Rightarrow> col_ref list" where
  "col_refs (SCol c) = [c]"
| "col_refs (SLit _) = []"
| "col_refs (SArray items) = concat (map col_refs items)"
| "col_refs (SStruct fs) = concat (map (\<lambda>(n, e). col_refs e) fs)"

datatype set_kind = Union | Except | Intersect

fun set_kind_label :: "set_kind \<Rightarrow> string" where
  "set_kind_label Union = ''Union''"
| "set_kind_label Except = ''Except''"
| "set_kind_label Intersect = ''Intersect''"

datatype aggregator = AggCount | AggSum | AggMin | AggMax | AggArray

fun aggregator_label :: "aggregator \<Rightarrow> string" where
  "aggregator_label AggCount = ''count''"
| "aggregator_label AggSum = ''sum''"
| "aggregator_label AggMin = ''min''"
| "aggregator_label AggMax = ''max''"
| "aggregator_label AggArray = ''array_agg''"

record agg_term =
  ag_func :: aggregator
  ag_column :: name
  ag_output :: name

record order_key =
  ok_column :: name
  ok_descending :: bool

record join_on =
  jo_left :: name
  jo_right :: name

section \<open>Predicates on rows\<close>

definition batch :: "schema \<Rightarrow> 'j row list \<Rightarrow> 'j row_batch" where
  "batch s rows = \<lparr>rb_schema = s, rb_rows = rows\<rparr>"

definition mk_row :: "'j val list \<Rightarrow> 'j row" where
  "mk_row vs = \<lparr>row_values = vs\<rparr>"

definition col_position :: "schema \<Rightarrow> name \<Rightarrow> nat option" where
  "col_position s n = position (\<lambda>c. col_name c = n) (columns s)"

definition value_at :: "'j row \<Rightarrow> nat \<Rightarrow> 'j val option" where
  "value_at r i = (if i < length (row_values r) then Some (row_values r ! i) else None)"

fun navigate :: "'j val \<Rightarrow> name list \<Rightarrow> 'j val option" where
  "navigate v [] = Some v"
| "navigate v (seg # rest) =
     (case v of
        VStruct fs \<Rightarrow> (case fields_get fs seg of Some w \<Rightarrow> navigate w rest | None \<Rightarrow> None)
      | _ \<Rightarrow> None)"

definition resolve :: "col_ref \<Rightarrow> schema \<Rightarrow> 'j row \<Rightarrow> 'j val option" where
  "resolve c s r =
     (case col_path c of
        [] \<Rightarrow> None
      | head # rest \<Rightarrow>
          (case col_position s head of
             None \<Rightarrow> None
           | Some idx \<Rightarrow> (case value_at r idx of None \<Rightarrow> None | Some v \<Rightarrow> navigate v rest)))"

fun value_cmp :: "'j val \<Rightarrow> literal \<Rightarrow> ordering option" where
  "value_cmp (VInt a) (LInt b) = Some (cmp_of (sint a) (sint b))"
| "value_cmp (VInt a) (LFloat b) = f64_partial_cmp (f64_of_int (sint a)) b"
| "value_cmp (VFloat a) (LFloat b) = f64_partial_cmp a b"
| "value_cmp (VFloat a) (LInt b) = f64_partial_cmp a (f64_of_int (sint b))"
| "value_cmp (VTimestamp a) (LInt b) = Some (cmp_of (sint a) (sint b))"
| "value_cmp (VText a) (LText b) = Some (cmp_of a b)"
| "value_cmp (VBool a) (LBool b) = Some (cmp_of a b)"
| "value_cmp _ _ = None"

definition is_infix :: "string \<Rightarrow> string \<Rightarrow> bool" where
  "is_infix p s \<longleftrightarrow> list_ex (\<lambda>i. take (length p) (drop i s) = p) [0..<Suc (length s)]"

definition regex_lite :: "string \<Rightarrow> string \<Rightarrow> bool" where
  "regex_lite s p =
     (case (case strip_prefix ''.*'' p of Some x \<Rightarrow> strip_suffix ''.*'' x | None \<Rightarrow> None) of
        Some inner \<Rightarrow> is_infix inner s
      | None \<Rightarrow> is_infix p s)"

definition cmp_value :: "'j val \<Rightarrow> cmp_op \<Rightarrow> literal \<Rightarrow> bool" where
  "cmp_value v op l =
     (let ord = value_cmp v l in
      case op of
        Eq \<Rightarrow> ord = Some OEqual
      | Ne \<Rightarrow> ord \<noteq> None \<and> ord \<noteq> Some OEqual
      | Lt \<Rightarrow> ord = Some OLess
      | Le \<Rightarrow> ord \<in> {Some OLess, Some OEqual}
      | Gt \<Rightarrow> ord = Some OGreater
      | Ge \<Rightarrow> ord \<in> {Some OGreater, Some OEqual}
      | Match \<Rightarrow> (case v of VText s \<Rightarrow> (case l of LText p \<Rightarrow> regex_lite s p | _ \<Rightarrow> False) | _ \<Rightarrow> False))"

text \<open>\<open>LIKE\<close> matches the UTF-8 bytes of the text and the pattern. The characters of a \<open>string\<close> are the
  code points below 256, of one or two bytes.\<close>

definition utf8_char :: "char \<Rightarrow> u8 list" where
  "utf8_char c =
     (let n = of_char c :: nat in
      if n < 128 then [of_nat n] else [of_nat (192 + n div 64), of_nat (128 + n mod 64)])"

definition utf8 :: "string \<Rightarrow> u8 list" where
  "utf8 s = concat (map utf8_char s)"

fun like_inner :: "u8 list \<Rightarrow> u8 list \<Rightarrow> bool" where
  "like_inner s [] = (s = [])"
| "like_inner s (c # rest) =
     (if c = 37 then list_ex (\<lambda>i. like_inner (drop i s) rest) [0..<Suc (length s)]
      else if c = 95 then s \<noteq> [] \<and> like_inner (drop 1 s) rest
      else s \<noteq> [] \<and> s ! 0 = c \<and> like_inner (drop 1 s) rest)"

definition like_match :: "string \<Rightarrow> pattern \<Rightarrow> bool" where
  "like_match s p = like_inner (utf8 s) (utf8 (pattern_str p))"

fun eval_predicate :: "predicate \<Rightarrow> schema \<Rightarrow> 'j row \<Rightarrow> bool" where
  "eval_predicate (PAnd a b) s r = (eval_predicate a s r \<and> eval_predicate b s r)"
| "eval_predicate (POr a b) s r = (eval_predicate a s r \<or> eval_predicate b s r)"
| "eval_predicate (PNot p) s r = (\<not> eval_predicate p s r)"
| "eval_predicate (PCmp c op l) s r = (case resolve c s r of Some v \<Rightarrow> cmp_value v op l | None \<Rightarrow> False)"
| "eval_predicate (PIn c ls) s r =
     (case resolve c s r of Some v \<Rightarrow> list_ex (cmp_value v Eq) ls | None \<Rightarrow> False)"
| "eval_predicate (PBetween c low high) s r =
     (case resolve c s r of Some v \<Rightarrow> cmp_value v Ge low \<and> cmp_value v Le high | None \<Rightarrow> False)"
| "eval_predicate (PLike c p) s r =
     (case resolve c s r of Some (VText t) \<Rightarrow> like_match t p | _ \<Rightarrow> False)"

section \<open>The column checks, \<open>WHERE\<close> and \<open>SELECT\<close>\<close>

record missing_column =
  mc_name :: name
  mc_available :: "name list"

fun collect_col_refs :: "predicate \<Rightarrow> col_ref list" where
  "collect_col_refs (PAnd a b) = collect_col_refs a @ collect_col_refs b"
| "collect_col_refs (POr a b) = collect_col_refs a @ collect_col_refs b"
| "collect_col_refs (PNot p) = collect_col_refs p"
| "collect_col_refs (PCmp c _ _) = [c]"
| "collect_col_refs (PIn c _) = [c]"
| "collect_col_refs (PBetween c _ _) = [c]"
| "collect_col_refs (PLike c _) = [c]"

text \<open>The first reference whose head names no column of the schema and is not \<open>accepted\<close> either.\<close>

fun first_missing :: "schema \<Rightarrow> name list \<Rightarrow> col_ref list \<Rightarrow> name option" where
  "first_missing s accepted [] = None"
| "first_missing s accepted (c # cs) =
     (case col_path c of
        [] \<Rightarrow> first_missing s accepted cs
      | head # _ \<Rightarrow>
          if schema_column s head = None \<and> head \<notin> set accepted then Some head
          else first_missing s accepted cs)"

definition check_predicate_columns :: "schema \<Rightarrow> predicate \<Rightarrow> name list \<Rightarrow> missing_column + unit" where
  "check_predicate_columns s p also_accepted =
     (if columns s = [] then Inr ()
      else case first_missing s also_accepted (collect_col_refs p) of
             Some n \<Rightarrow> Inl \<lparr>mc_name = n, mc_available = column_names s @ also_accepted\<rparr>
           | None \<Rightarrow> Inr ())"

definition ev_filter :: "'j row_batch \<Rightarrow> predicate \<Rightarrow> 'j row_batch" where
  "ev_filter b p = batch (rb_schema b) (filter (eval_predicate p (rb_schema b)) (rb_rows b))"

definition filter_checked :: "'j row_batch \<Rightarrow> predicate \<Rightarrow> missing_column + 'j row_batch" where
  "filter_checked b p =
     (case check_predicate_columns (rb_schema b) p [] of Inl m \<Rightarrow> Inl m | Inr _ \<Rightarrow> Inr (ev_filter b p))"

definition is_identity_columns :: "name list \<Rightarrow> bool" where
  "is_identity_columns cols \<longleftrightarrow> cols = [] \<or> cols = [''*'']"

definition project_indices :: "schema \<Rightarrow> name list \<Rightarrow> nat list" where
  "project_indices s cols = List.map_filter (col_position s) cols"

definition value_or_null :: "'j row \<Rightarrow> nat \<Rightarrow> 'j val" where
  "value_or_null r i = (case value_at r i of Some v \<Rightarrow> v | None \<Rightarrow> VNull)"

definition ev_project :: "'j row_batch \<Rightarrow> name list \<Rightarrow> 'j row_batch" where
  "ev_project b cols =
     (if is_identity_columns cols then b
      else let is = project_indices (rb_schema b) cols
           in batch (Schema (map (\<lambda>i. columns (rb_schema b) ! i) is))
                (map (\<lambda>r. mk_row (map (value_or_null r) is)) (rb_rows b)))"

definition first_unknown :: "schema \<Rightarrow> name list \<Rightarrow> name option" where
  "first_unknown s cols = find (\<lambda>n. n \<noteq> ''*'' \<and> schema_column s n = None) cols"

definition project_checked :: "'j row_batch \<Rightarrow> name list \<Rightarrow> missing_column + 'j row_batch" where
  "project_checked b cols =
     (if columns (rb_schema b) = [] then Inr (ev_project b cols)
      else case first_unknown (rb_schema b) cols of
             Some n \<Rightarrow> Inl \<lparr>mc_name = n, mc_available = column_names (rb_schema b)\<rparr>
           | None \<Rightarrow> Inr (ev_project b cols))"

section \<open>Computed columns\<close>

fun eval_value :: "'j scalar_expr \<Rightarrow> schema \<Rightarrow> 'j row \<Rightarrow> 'j val" where
  "eval_value (SCol c) s r = (case resolve c s r of Some v \<Rightarrow> v | None \<Rightarrow> VNull)"
| "eval_value (SLit v) s r = v"
| "eval_value (SArray items) s r = VArray (map (\<lambda>e. eval_value e s r) items)"
| "eval_value (SStruct fs) s r = VStruct (map (\<lambda>(n, e). (n, eval_value e s r)) fs)"

type_synonym 'j assignments = "(name \<times> 'j scalar_expr) list"

definition late_column :: "name \<Rightarrow> column" where
  "late_column n = column_new n TUnknown True"

definition ev_project_expr :: "'j row_batch \<Rightarrow> 'j assignments \<Rightarrow> 'j row_batch" where
  "ev_project_expr b terms =
     batch (Schema (map (\<lambda>(n, _). late_column n) terms))
       (map (\<lambda>r. mk_row (map (\<lambda>(_, e). eval_value e (rb_schema b) r) terms)) (rb_rows b))"

definition project_expr_checked :: "'j row_batch \<Rightarrow> 'j assignments \<Rightarrow> missing_column + 'j row_batch" where
  "project_expr_checked b terms =
     (if columns (rb_schema b) = [] then Inr (ev_project_expr b terms)
      else case first_missing (rb_schema b) [] (concat (map (\<lambda>(_, e). col_refs e) terms)) of
             Some n \<Rightarrow> Inl \<lparr>mc_name = n, mc_available = column_names (rb_schema b)\<rparr>
           | None \<Rightarrow> Inr (ev_project_expr b terms))"

fun retype_unknown :: "column \<Rightarrow> column" where
  "retype_unknown (Column n ty nullable p) = Column n TUnknown nullable p"

fun extend_layout :: "'j assignments \<Rightarrow> column list \<Rightarrow> nat list \<Rightarrow> column list \<times> nat list" where
  "extend_layout [] cols targets = (cols, targets)"
| "extend_layout ((n, _) # as) cols targets =
     (case position (\<lambda>c. col_name c = n) cols of
        Some i \<Rightarrow> extend_layout as (cols[i := retype_unknown (cols ! i)]) (targets @ [i])
      | None \<Rightarrow> extend_layout as (cols @ [late_column n]) (targets @ [length cols]))"

definition resize :: "nat \<Rightarrow> 'j val list \<Rightarrow> 'j val list" where
  "resize w vs = take w (vs @ replicate (w - length vs) VNull)"

definition extend_row :: "schema \<Rightarrow> ((name \<times> 'j scalar_expr) \<times> nat) list \<Rightarrow> 'j row \<Rightarrow> 'j row" where
  "extend_row s steps r =
     mk_row (fold (\<lambda>((_, e), i) vs. vs[i := eval_value e s (mk_row vs)]) steps
       (resize (length (columns s)) (row_values r)))"

definition ev_extend :: "'j row_batch \<Rightarrow> 'j assignments \<Rightarrow> 'j row_batch" where
  "ev_extend b as =
     (case extend_layout as (columns (rb_schema b)) [] of (cols, targets) \<Rightarrow>
        batch (Schema cols) (map (extend_row (Schema cols) (zip as targets)) (rb_rows b)))"

definition ev_limit :: "'j row_batch \<Rightarrow> u64 \<Rightarrow> 'j row_batch" where
  "ev_limit b n = batch (rb_schema b) (take (unat n) (rb_rows b))"

section \<open>Rendering rows, \<open>ORDER BY\<close>, \<open>DISTINCT\<close>\<close>

fun dbg_value :: "('j \<Rightarrow> string) \<Rightarrow> 'j val \<Rightarrow> string" where
  "dbg_value dj VNull = ''Null''"
| "dbg_value dj (VBool b) = ''Bool('' @ (if b then ''true'' else ''false'') @ '')''"
| "dbg_value dj (VInt i) = ''Int('' @ show_int (sint i) @ '')''"
| "dbg_value dj (VFloat f) = ''Float('' @ f64_debug f @ '')''"
| "dbg_value dj (VText t) = ''Text('' @ debug_string t @ '')''"
| "dbg_value dj (VBytes bs) = ''Bytes(['' @ join_with '', '' (map (\<lambda>b. show_nat (unat b)) bs) @ ''])''"
| "dbg_value dj (VTimestamp i) = ''Timestamp('' @ show_int (sint i) @ '')''"
| "dbg_value dj (VStruct fs) =
     ''Struct(Fields { entries: ['' @ join_with '', ''
        (map (\<lambda>(n, v). ''('' @ debug_string n @ '', '' @ dbg_value dj v @ '')'') fs) @ ''] })''"
| "dbg_value dj (VArray vs) = ''Array(['' @ join_with '', '' (map (dbg_value dj) vs) @ ''])''"
| "dbg_value dj (VJson j) = ''Json('' @ dj j @ '')''"

definition row_key :: "('j \<Rightarrow> string) \<Rightarrow> 'j row \<Rightarrow> string" where
  "row_key dj r = ''['' @ join_with '', '' (map (dbg_value dj) (row_values r)) @ '']''"

definition or_equal :: "ordering option \<Rightarrow> ordering" where
  "or_equal c = (case c of Some x \<Rightarrow> x | None \<Rightarrow> OEqual)"

definition order_present :: "('j \<Rightarrow> string) \<Rightarrow> 'j val \<Rightarrow> 'j val \<Rightarrow> ordering" where
  "order_present dj x y =
     (case (x, y) of
        (VInt p, VInt q) \<Rightarrow> cmp_of (sint p) (sint q)
      | (VFloat p, VFloat q) \<Rightarrow> or_equal (f64_partial_cmp p q)
      | (VInt p, VFloat q) \<Rightarrow> or_equal (f64_partial_cmp (f64_of_int (sint p)) q)
      | (VFloat p, VInt q) \<Rightarrow> or_equal (f64_partial_cmp p (f64_of_int (sint q)))
      | (VTimestamp p, VTimestamp q) \<Rightarrow> cmp_of (sint p) (sint q)
      | (VText p, VText q) \<Rightarrow> cmp_of p q
      | (VBool p, VBool q) \<Rightarrow> cmp_of p q
      | _ \<Rightarrow> cmp_of (dbg_value dj x) (dbg_value dj y))"

definition order_values :: "('j \<Rightarrow> string) \<Rightarrow> 'j val option \<Rightarrow> 'j val option \<Rightarrow> ordering" where
  "order_values dj a b =
     (case (a, b) of
        (None, None) \<Rightarrow> OEqual
      | (None, _) \<Rightarrow> OLess
      | (Some x, None) \<Rightarrow> (if is_null x then OLess else OGreater)
      | (Some x, Some y) \<Rightarrow>
          if is_null x then OLess else if is_null y then OGreater else order_present dj x y)"

fun order_rows :: "('j \<Rightarrow> string) \<Rightarrow> (nat \<times> bool) list \<Rightarrow> 'j row \<Rightarrow> 'j row \<Rightarrow> ordering" where
  "order_rows dj [] a b = OEqual"
| "order_rows dj ((i, desc) # ps) a b =
     (let c = order_values dj (value_at a i) (value_at b i); c' = (if desc then ordering_reverse c else c)
      in if c' \<noteq> OEqual then c' else order_rows dj ps a b)"

text \<open>Insertion of \<open>x\<close> into a list kept in reverse: past every element it compares less than.\<close>

fun insert_back :: "('a \<Rightarrow> 'a \<Rightarrow> ordering) \<Rightarrow> 'a \<Rightarrow> 'a list \<Rightarrow> 'a list" where
  "insert_back cmp x [] = [x]"
| "insert_back cmp x (y # ys) = (if cmp x y = OLess then y # insert_back cmp x ys else x # y # ys)"

definition sort_by :: "('a \<Rightarrow> 'a \<Rightarrow> ordering) \<Rightarrow> 'a list \<Rightarrow> 'a list" where
  "sort_by cmp xs = rev (fold (insert_back cmp) xs [])"

definition sort_positions :: "schema \<Rightarrow> order_key list \<Rightarrow> (nat \<times> bool) list" where
  "sort_positions s keys =
     List.map_filter (\<lambda>k. map_option (\<lambda>i. (i, ok_descending k)) (col_position s (ok_column k))) keys"

definition ev_sort :: "('j \<Rightarrow> string) \<Rightarrow> 'j row_batch \<Rightarrow> order_key list \<Rightarrow> 'j row_batch" where
  "ev_sort dj b keys =
     batch (rb_schema b) (sort_by (order_rows dj (sort_positions (rb_schema b) keys)) (rb_rows b))"

text \<open>The elements whose key was not seen before.\<close>

fun dedup :: "('a \<Rightarrow> 'k) \<Rightarrow> 'k set \<Rightarrow> 'a list \<Rightarrow> 'a list" where
  "dedup key seen [] = []"
| "dedup key seen (x # xs) =
     (if key x \<in> seen then dedup key seen xs else x # dedup key (insert (key x) seen) xs)"

definition ev_distinct :: "('j \<Rightarrow> string) \<Rightarrow> 'j row_batch \<Rightarrow> 'j row_batch" where
  "ev_distinct dj b = batch (rb_schema b) (dedup (row_key dj) {} (rb_rows b))"

section \<open>Facts\<close>

lemma batch_simps [simp]: "rb_schema (batch s rows) = s" "rb_rows (batch s rows) = rows"
  by (simp_all add: batch_def)

lemma row_values_mk [simp]: "row_values (mk_row vs) = vs"
  by (simp add: mk_row_def)

end
