(* ===== verification/Engine_Ops.thy ===== *)
theory Engine_Ops
  imports Engine_Eval
begin

text \<open>
  Grouping, \<open>EXPAND\<close>, joins and set operations of the local engine, the second half of
  \<open>crates/engine/src/eval.rs\<close>. Slicing a row beyond its end panics: \<open>EXPAND\<close> answers \<open>None\<close> then.
\<close>

section \<open>\<open>GROUP BY\<close> and aggregates\<close>

definition non_null_at :: "'j row list \<Rightarrow> nat \<Rightarrow> 'j val list" where
  "non_null_at rows i = filter (\<lambda>v. \<not> is_null v) (List.map_filter (\<lambda>r. value_at r i) rows)"

fun sum_step :: "'j val \<Rightarrow> f64 \<times> bool \<Rightarrow> f64 \<times> bool" where
  "sum_step (VInt n) (acc, any_float) = (f64_add acc (f64_of_int (sint n)), any_float)"
| "sum_step (VFloat f) (acc, any_float) = (f64_add acc f, True)"
| "sum_step _ s = s"

definition fold_extreme :: "('j \<Rightarrow> string) \<Rightarrow> 'j val list \<Rightarrow> ordering \<Rightarrow> 'j val" where
  "fold_extreme dj vals want =
     (case fold (\<lambda>v best. case best of
                  None \<Rightarrow> Some v
                | Some b \<Rightarrow> if order_values dj (Some v) (Some b) = want then Some v else best) vals None of
        Some v \<Rightarrow> v | None \<Rightarrow> VNull)"

definition run_aggregate :: "('j \<Rightarrow> string) \<Rightarrow> aggregator \<Rightarrow> nat option \<Rightarrow> 'j row list \<Rightarrow> 'j val" where
  "run_aggregate dj func col rows =
     (let vals = (case col of Some i \<Rightarrow> non_null_at rows i | None \<Rightarrow> []) in
      case func of
        AggCount \<Rightarrow> VInt (of_nat (if col \<noteq> None then length vals else length rows))
      | AggSum \<Rightarrow> (case fold sum_step vals (FFin False 0, False) of (acc, any_float) \<Rightarrow>
                     if any_float then VFloat acc else VInt (of_int (f64_to_int acc)))
      | AggMin \<Rightarrow> fold_extreme dj vals OLess
      | AggMax \<Rightarrow> fold_extreme dj vals OGreater
      | AggArray \<Rightarrow> VArray (case col of Some i \<Rightarrow> List.map_filter (\<lambda>r. value_at r i) rows | None \<Rightarrow> []))"

definition agg_column_type :: "aggregator \<Rightarrow> column_type" where
  "agg_column_type f = (case f of AggCount \<Rightarrow> TInt | AggArray \<Rightarrow> TArray TUnknown | _ \<Rightarrow> TUnknown)"

definition aggregate_columns :: "name list \<Rightarrow> agg_term list \<Rightarrow> schema" where
  "aggregate_columns group_by aggs =
     Schema (map late_column group_by
             @ map (\<lambda>a. column_new (ag_output a) (agg_column_type (ag_func a)) True) aggs)"

definition row_group_key :: "('j \<Rightarrow> string) \<Rightarrow> nat list \<Rightarrow> 'j row \<Rightarrow> string" where
  "row_group_key dj is r = join_with [CHR 0x01] (map (\<lambda>i. dbg_value dj (value_or_null r i)) is)"

text \<open>\<open>map.entry(key).or_default().push(x)\<close>.\<close>

definition bucket_push :: "('a \<Rightarrow> 'k) \<Rightarrow> 'a \<Rightarrow> ('k \<rightharpoonup> 'a list) \<Rightarrow> ('k \<rightharpoonup> 'a list)" where
  "bucket_push key x m = m(key x \<mapsto> (case m (key x) of Some l \<Rightarrow> l | None \<Rightarrow> []) @ [x])"

record 'j grouping =
  gr_order :: "string list"
  gr_groups :: "string \<rightharpoonup> 'j row list"
  gr_first :: "string \<rightharpoonup> 'j row"

definition group_row :: "('j row \<Rightarrow> string) \<Rightarrow> 'j row \<Rightarrow> 'j grouping \<Rightarrow> 'j grouping" where
  "group_row key r g =
     (let g' = (if gr_groups g (key r) = None
                then g\<lparr>gr_order := gr_order g @ [key r], gr_first := (gr_first g)(key r \<mapsto> r)\<rparr> else g)
      in g'\<lparr>gr_groups := bucket_push key r (gr_groups g')\<rparr>)"

definition group_rows :: "('j row \<Rightarrow> string) \<Rightarrow> name list \<Rightarrow> 'j row list \<Rightarrow> 'j grouping" where
  "group_rows key group_by rows =
     (let g = fold (group_row key) rows \<lparr>gr_order = [], gr_groups = Map.empty, gr_first = Map.empty\<rparr>
      in if group_by = [] \<and> gr_order g = []
         then g\<lparr>gr_order := [[]], gr_groups := (gr_groups g)([] \<mapsto> [])\<rparr> else g)"

definition aggregate_row ::
  "('j \<Rightarrow> string) \<Rightarrow> nat list \<Rightarrow> (agg_term \<times> nat option) list \<Rightarrow> 'j grouping \<Rightarrow> string \<Rightarrow> 'j row" where
  "aggregate_row dj is aggs g key =
     (let rows = (case gr_groups g key of Some l \<Rightarrow> l | None \<Rightarrow> []) in
      mk_row ((case gr_first g key of
                 Some sample \<Rightarrow> map (value_or_null sample) is
               | None \<Rightarrow> map (\<lambda>_. VNull) is)
              @ map (\<lambda>(a, idx). run_aggregate dj (ag_func a) idx rows) aggs))"

definition ev_aggregate :: "('j \<Rightarrow> string) \<Rightarrow> 'j row_batch \<Rightarrow> name list \<Rightarrow> agg_term list \<Rightarrow> 'j row_batch" where
  "ev_aggregate dj b group_by aggs =
     (let is = project_indices (rb_schema b) group_by;
          agg_idx = map (\<lambda>a. col_position (rb_schema b) (ag_column a)) aggs;
          g = group_rows (row_group_key dj is) group_by (rb_rows b)
      in batch (aggregate_columns group_by aggs)
           (map (aggregate_row dj is (zip aggs agg_idx) g) (gr_order g)))"

section \<open>\<open>EXPAND\<close>\<close>

datatype expand_error = EUnknown missing_column | ENotExpandable name string

definition note_field_names :: "(name \<times> 'j val) list \<Rightarrow> name list \<Rightarrow> name list" where
  "note_field_names fs names = fold (\<lambda>(n, _) ns. if n \<in> set ns then ns else ns @ [n]) fs names"

definition observe_item :: "'j val \<Rightarrow> name list \<times> bool \<Rightarrow> name list \<times> bool" where
  "observe_item v s =
     (case v of VStruct fs \<Rightarrow> (note_field_names fs (fst s), True) | _ \<Rightarrow> s)"

definition observe_value :: "'j val option \<Rightarrow> name list \<times> bool \<Rightarrow> name list \<times> bool" where
  "observe_value v s =
     (case v of
        Some (VStruct fs) \<Rightarrow> observe_item (VStruct fs) s
      | Some (VArray items) \<Rightarrow> fold observe_item items s
      | _ \<Rightarrow> s)"

definition observed_struct_fields :: "'j row list \<Rightarrow> nat \<Rightarrow> name list option" where
  "observed_struct_fields rows idx =
     (case fold (\<lambda>r. observe_value (value_at r idx)) rows ([], False) of (names, saw) \<Rightarrow>
        if saw then Some names else None)"

definition replace_column :: "schema \<Rightarrow> nat \<Rightarrow> name list \<Rightarrow> schema" where
  "replace_column s idx names =
     Schema (take idx (columns s) @ map late_column names @ drop (idx + 1) (columns s))"

definition render_type :: "column_type \<Rightarrow> string" where
  "render_type ty =
     (case ty of
        TArray _ \<Rightarrow> ''an array'' | TStruct _ \<Rightarrow> ''a struct'' | TJson \<Rightarrow> ''a json value''
      | TUnknown \<Rightarrow> ''late-bound'' | _ \<Rightarrow> ''a scalar ('' @ type_token ty @ '')'')"

definition expand_item :: "'j val \<Rightarrow> name list option \<Rightarrow> 'j val list" where
  "expand_item item names =
     (case (item, names) of
        (VStruct fs, Some ns) \<Rightarrow> map (\<lambda>n. case fields_get fs n of Some v \<Rightarrow> v | None \<Rightarrow> VNull) ns
      | (VStruct fs, None) \<Rightarrow> fields_into_values fs
      | (_, Some ns) \<Rightarrow> replicate (length ns) VNull
      | (other, None) \<Rightarrow> [other])"

definition splice_row :: "'j row \<Rightarrow> nat \<Rightarrow> 'j val list \<Rightarrow> 'j row option" where
  "splice_row r idx replacement =
     (if idx < length (row_values r)
      then Some (mk_row (take idx (row_values r) @ replacement @ drop (idx + 1) (row_values r))) else None)"

definition flattens_struct :: "column_type \<Rightarrow> bool" where
  "flattens_struct ty =
     (case ty of TStruct _ \<Rightarrow> True | TArray elem \<Rightarrow> (case elem of TStruct _ \<Rightarrow> True | _ \<Rightarrow> False) | _ \<Rightarrow> False)"

definition expand_layout :: "'j row_batch \<Rightarrow> name \<Rightarrow> nat \<Rightarrow> expand_error + (schema \<times> name list option)" where
  "expand_layout b field idx =
     (let ty = col_ty (columns (rb_schema b) ! idx) in
      if ty = TUnknown
      then Inr (case observed_struct_fields (rb_rows b) idx of
                  Some names \<Rightarrow> (replace_column (rb_schema b) idx names, Some names)
                | None \<Rightarrow> (rb_schema b, None))
      else (case expand_schema (rb_schema b) field of
              Inl _ \<Rightarrow> Inl (ENotExpandable field (render_type ty))
            | Inr s \<Rightarrow>
                let width = length (columns s) + 1 - length (columns (rb_schema b))
                in Inr (s, if flattens_struct ty then Some (map col_name (take width (drop idx (columns s)))) else None)))"

definition expand_row :: "nat \<Rightarrow> name list option \<Rightarrow> 'j row \<Rightarrow> 'j row option list" where
  "expand_row idx names r =
     (case value_or_null r idx of
        VArray items \<Rightarrow> map (\<lambda>item. splice_row r idx (expand_item item names)) items
      | other \<Rightarrow> [splice_row r idx (expand_item other names)])"

definition ev_expand :: "'j row_batch \<Rightarrow> name \<Rightarrow> (expand_error + 'j row_batch) option" where
  "ev_expand b field =
     (if columns (rb_schema b) = [] then Some (Inr b)
      else case col_position (rb_schema b) field of
        None \<Rightarrow> Some (Inl (EUnknown \<lparr>mc_name = field, mc_available = column_names (rb_schema b)\<rparr>))
      | Some idx \<Rightarrow>
          (case expand_layout b field idx of
             Inl e \<Rightarrow> Some (Inl e)
           | Inr (s, names) \<Rightarrow>
               let rows = concat (map (expand_row idx names) (rb_rows b))
               in if None \<in> set rows then None else Some (Inr (batch s (map the rows)))))"

section \<open>Joins and set operations\<close>

definition ev_hash_join :: "('j \<Rightarrow> string) \<Rightarrow> 'j row_batch \<Rightarrow> 'j row_batch \<Rightarrow> join_on \<Rightarrow> 'j row_batch" where
  "ev_hash_join dj left right on =
     (let s = schema_join (rb_schema left) (rb_schema right) in
      case col_position (rb_schema left) (jo_left on) of
        None \<Rightarrow> batch s []
      | Some lk \<Rightarrow>
          (case col_position (rb_schema right) (jo_right on) of
             None \<Rightarrow> batch s []
           | Some rk \<Rightarrow>
               let table = fold (bucket_push (\<lambda>r. dbg_value dj (value_or_null r rk))) (rb_rows right) Map.empty
               in batch s (concat (map (\<lambda>l.
                    case table (dbg_value dj (value_or_null l lk)) of
                      Some matches \<Rightarrow> map (\<lambda>r. mk_row (row_values l @ row_values r)) matches
                    | None \<Rightarrow> []) (rb_rows left)))))"

definition ev_set_op :: "('j \<Rightarrow> string) \<Rightarrow> 'j row_batch \<Rightarrow> 'j row_batch \<Rightarrow> set_kind \<Rightarrow> 'j row_batch" where
  "ev_set_op dj left right kind =
     (let right_keys = row_key dj ` set (rb_rows right) in
      case kind of
        Union \<Rightarrow> batch (rb_schema left) (dedup (row_key dj) {} (rb_rows left @ rb_rows right))
      | Except \<Rightarrow> batch (rb_schema left)
          (dedup (row_key dj) {} (filter (\<lambda>r. row_key dj r \<notin> right_keys) (rb_rows left)))
      | Intersect \<Rightarrow> batch (rb_schema left)
          (dedup (row_key dj) {} (filter (\<lambda>r. row_key dj r \<in> right_keys) (rb_rows left))))"

section \<open>Facts\<close>

lemma fold_bucket_push:
  "fold (bucket_push key) xs m k =
     (if filter (\<lambda>x. key x = k) xs = [] then m k
      else Some ((case m k of Some l \<Rightarrow> l | None \<Rightarrow> []) @ filter (\<lambda>x. key x = k) xs))"
proof (induction xs arbitrary: m)
  case (Cons x xs)
  show ?case
    unfolding fold_simps Cons [of "bucket_push key x m"] by (auto simp: bucket_push_def)
qed simp

lemma dedup_seen: "set (dedup key seen xs) = set (dedup key seen xs) - {x. key x \<in> seen}"
  by (induction xs arbitrary: seen) (auto, blast)

lemma dedup_keys: "key ` set (dedup key seen xs) = key ` set xs - seen"
  by (induction xs arbitrary: seen) auto

lemma dedup_distinct: "distinct (map key (dedup key seen xs))"
proof (induction xs arbitrary: seen)
  case (Cons x xs)
  have "key x \<notin> key ` set (dedup key (insert (key x) seen) xs)" by (simp add: dedup_keys)
  then show ?case using Cons by (simp add: image_image)
qed simp

lemma dedup_subset: "set (dedup key seen xs) \<subseteq> set xs"
  by (induction xs arbitrary: seen) auto

lemma group_fold:
  fixes key :: "'j row \<Rightarrow> string" and g :: "'j grouping"
  assumes "set (gr_order g) = dom (gr_groups g)" "dom (gr_first g) = dom (gr_groups g)"
  shows "gr_order (fold (group_row key) rows g) = gr_order g @ map key (dedup key (dom (gr_groups g)) rows)
    \<and> gr_groups (fold (group_row key) rows g) = fold (bucket_push key) rows (gr_groups g)
    \<and> (\<forall>r\<in>set (dedup key (dom (gr_groups g)) rows). gr_first (fold (group_row key) rows g) (key r) = Some r)
    \<and> (\<forall>k\<in>dom (gr_groups g). gr_first (fold (group_row key) rows g) k = gr_first g k)"
  using assms
proof (induction rows arbitrary: g)
  case (Cons r rows)
  let ?g = "group_row key r g"
  have grp: "gr_groups ?g = bucket_push key r (gr_groups g)"
    by (simp add: group_row_def Let_def)
  have dom: "dom (gr_groups ?g) = insert (key r) (dom (gr_groups g))"
    by (simp add: grp bucket_push_def)
  have inv: "set (gr_order ?g) = dom (gr_groups ?g)" "dom (gr_first ?g) = dom (gr_groups ?g)"
    unfolding dom using Cons(2,3) by (auto simp: group_row_def Let_def)
  note ih = Cons(1) [OF inv, unfolded dom]
  show ?case
  proof (cases "key r \<in> dom (gr_groups g)")
    case True
    then have "gr_order ?g = gr_order g" "gr_first ?g = gr_first g"
      by (auto simp: group_row_def Let_def)
    then show ?thesis using ih True by (simp add: grp insert_absorb)
  next
    case False
    then have e: "gr_order ?g = gr_order g @ [key r]" "gr_first ?g = (gr_first g)(key r \<mapsto> r)"
      by (auto simp: group_row_def Let_def dom_def)
    from ih have "gr_first (fold (group_row key) rows ?g) (key r) = Some r" unfolding e by auto
    then show ?thesis using ih False unfolding e by (auto simp: grp)
  qed
qed simp

end
