(* ===== verification/Engine_Sort.thy ===== *)
theory Engine_Sort
  imports Engine_Eval
begin

text \<open>
  \<open>ORDER BY\<close>: what \<open>sort_by\<close> promises of a comparison that is a total preorder, as a locale; that
  the comparison of \<open>crates/engine/src/eval.rs\<close> is one on rows whose sort columns hold values of one
  kind, neither null nor NaN; and what it does with nulls.
\<close>

section \<open>Total comparisons\<close>

locale total_comparison =
  fixes cmp :: "'a \<Rightarrow> 'a \<Rightarrow> ordering" and S :: "'a set"
  assumes cmp_reverse: "x \<in> S \<Longrightarrow> y \<in> S \<Longrightarrow> cmp y x = ordering_reverse (cmp x y)"
    and cmp_trans: "x \<in> S \<Longrightarrow> y \<in> S \<Longrightarrow> z \<in> S \<Longrightarrow> cmp x y \<noteq> OGreater \<Longrightarrow> cmp y z \<noteq> OGreater \<Longrightarrow> cmp x z \<noteq> OGreater"
begin

lemma cmp_refl: "x \<in> S \<Longrightarrow> cmp x x = OEqual"
  using cmp_reverse [of x x] by (cases "cmp x x") simp_all

lemma cmp_less_greater: "x \<in> S \<Longrightarrow> y \<in> S \<Longrightarrow> cmp x y = OLess \<longleftrightarrow> cmp y x = OGreater"
  using cmp_reverse [of x y] by (cases "cmp x y") simp_all

lemma cmp_equal_sym: "x \<in> S \<Longrightarrow> y \<in> S \<Longrightarrow> cmp x y = OEqual \<longleftrightarrow> cmp y x = OEqual"
  using cmp_reverse [of x y] by (cases "cmp x y") simp_all

lemma cmp_equal_trans: "x \<in> S \<Longrightarrow> y \<in> S \<Longrightarrow> z \<in> S \<Longrightarrow> cmp x y = OEqual \<Longrightarrow> cmp y z = OEqual \<Longrightarrow> cmp x z = OEqual"
  using cmp_trans [of x y z] cmp_trans [of z y x] cmp_equal_sym [of x y] cmp_equal_sym [of y z] cmp_reverse [of x z]
  by (cases "cmp x z") simp_all

lemma set_insert_back: "set (insert_back cmp x ys) = insert x (set ys)"
  by (induction ys) auto

text \<open>\<open>rev (insert_back cmp x ys)\<close> is sorted if \<open>rev ys\<close> is.\<close>

lemma sorted_insert_back:
  "sorted_wrt (\<lambda>a b. cmp b a \<noteq> OGreater) ys \<Longrightarrow> x \<in> S \<Longrightarrow> set ys \<subseteq> S \<Longrightarrow>
     sorted_wrt (\<lambda>a b. cmp b a \<noteq> OGreater) (insert_back cmp x ys)"
proof (induction ys)
  case (Cons y ys)
  show ?case
  proof (cases "cmp x y = OLess")
    case True
    then show ?thesis using Cons by (auto simp: set_insert_back)
  next
    case False
    then have yx: "cmp y x \<noteq> OGreater" using Cons(3,4) cmp_less_greater [of x y] by auto
    then have "cmp z x \<noteq> OGreater" if "z \<in> set ys" for z
      using that Cons(2,3,4) cmp_trans [of z y x] by auto
    then show ?thesis using False yx Cons(2) by auto
  qed
qed simp

lemma stable_insert_back:
  "x \<in> S \<Longrightarrow> set ys \<subseteq> S \<Longrightarrow> z \<in> S \<Longrightarrow> sorted_wrt (\<lambda>a b. cmp b a \<noteq> OGreater) ys \<Longrightarrow>
     filter (\<lambda>y. cmp z y = OEqual) (insert_back cmp x ys) =
       (if cmp z x = OEqual then x # filter (\<lambda>y. cmp z y = OEqual) ys else filter (\<lambda>y. cmp z y = OEqual) ys)"
proof (induction ys)
  case (Cons y ys)
  show ?case
  proof (cases "cmp x y = OLess \<and> cmp z x = OEqual")
    case True
    then have "cmp z y \<noteq> OEqual"
      using Cons(2,3,4) cmp_equal_trans [of x z y] cmp_equal_sym [of z x] by auto
    then show ?thesis using True Cons by simp
  next
    case False
    then show ?thesis using Cons by auto
  qed
qed simp

lemma sort_by_stable:
  assumes "set xs \<subseteq> S"
  shows "mset (sort_by cmp xs) = mset xs
    \<and> sorted_wrt (\<lambda>a b. cmp a b \<noteq> OGreater) (sort_by cmp xs)
    \<and> (\<forall>z\<in>S. filter (\<lambda>y. cmp z y = OEqual) (sort_by cmp xs) = filter (\<lambda>y. cmp z y = OEqual) xs)"
proof -
  let ?F = "\<lambda>xs. fold (insert_back cmp) xs []"
  have m: "mset (insert_back cmp x ys) = mset (x # ys)" for x ys by (induction ys) auto
  have "mset (?F xs) = mset xs \<and> sorted_wrt (\<lambda>a b. cmp b a \<noteq> OGreater) (?F xs)
      \<and> (\<forall>z\<in>S. filter (\<lambda>y. cmp z y = OEqual) (?F xs) = rev (filter (\<lambda>y. cmp z y = OEqual) xs))"
    using assms
  proof (induction xs rule: rev_induct)
    case (snoc x xs)
    then have ih: "mset (?F xs) = mset xs" "sorted_wrt (\<lambda>a b. cmp b a \<noteq> OGreater) (?F xs)"
      "\<forall>z\<in>S. filter (\<lambda>y. cmp z y = OEqual) (?F xs) = rev (filter (\<lambda>y. cmp z y = OEqual) xs)"
      and S: "x \<in> S" "set xs \<subseteq> S" by auto
    have sub: "set (?F xs) \<subseteq> S" using S(2) ih(1) by (metis mset_eq_setD)
    show ?case
      using ih S stable_insert_back [OF S(1) sub _ ih(2)] sorted_insert_back [OF ih(2) S(1) sub] by (simp add: m)
  qed simp
  then show ?thesis by (simp add: sort_by_def sorted_wrt_rev rev_filter [symmetric])
qed

end

section \<open>Building total comparisons\<close>

lemma ordering_reverse_simps [simp]:
  "ordering_reverse (ordering_reverse c) = c"
  "ordering_reverse c = OGreater \<longleftrightarrow> c = OLess" "ordering_reverse c = OLess \<longleftrightarrow> c = OGreater"
  "ordering_reverse c = OEqual \<longleftrightarrow> c = OEqual"
  by (cases c, simp_all)+

lemma total_reverse:
  assumes "total_comparison cmp S"
  shows "total_comparison (\<lambda>x y. ordering_reverse (cmp x y)) S"
proof
  fix x y z assume S: "x \<in> S" "y \<in> S"
  show "ordering_reverse (cmp y x) = ordering_reverse (ordering_reverse (cmp x y))"
    using total_comparison.cmp_reverse [OF assms S] by simp
next
  fix x y z assume S: "x \<in> S" "y \<in> S" "z \<in> S"
    and le: "ordering_reverse (cmp x y) \<noteq> OGreater" "ordering_reverse (cmp y z) \<noteq> OGreater"
  show "ordering_reverse (cmp x z) \<noteq> OGreater"
    using le total_comparison.cmp_trans [OF assms S(3,2,1)] total_comparison.cmp_less_greater [OF assms] S by simp
qed

lemma total_lex:
  assumes t1: "total_comparison c1 S" and t2: "total_comparison c2 S"
  shows "total_comparison (\<lambda>x y. if c1 x y \<noteq> OEqual then c1 x y else c2 x y) S"
proof
  fix x y assume S: "x \<in> S" "y \<in> S"
  show "(if c1 y x \<noteq> OEqual then c1 y x else c2 y x) = ordering_reverse (if c1 x y \<noteq> OEqual then c1 x y else c2 x y)"
    using total_comparison.cmp_reverse [OF t1 S] total_comparison.cmp_reverse [OF t2 S] by simp
next
  fix x y z assume S: "x \<in> S" "y \<in> S" "z \<in> S"
    and le: "(if c1 x y \<noteq> OEqual then c1 x y else c2 x y) \<noteq> OGreater"
      "(if c1 y z \<noteq> OEqual then c1 y z else c2 y z) \<noteq> OGreater"
  have le1: "c1 x y \<noteq> OGreater" "c1 y z \<noteq> OGreater" using le by (auto split: if_splits)
  have xz: "c1 x z \<noteq> OGreater" by (rule total_comparison.cmp_trans [OF t1 S le1])
  show "(if c1 x z \<noteq> OEqual then c1 x z else c2 x z) \<noteq> OGreater"
  proof (cases "c1 x z = OEqual")
    case True
    have "c1 y x \<noteq> OGreater" "c1 z y \<noteq> OGreater"
      using total_comparison.cmp_trans [OF t1 S(2,3,1) le1(2)] total_comparison.cmp_trans [OF t1 S(3,1,2) _ le1(1)]
        True total_comparison.cmp_equal_sym [OF t1 S(1,3)] by simp_all
    then have "c1 x y = OEqual" "c1 y z = OEqual"
      using le1 total_comparison.cmp_less_greater [OF t1] S by (metis ordering.exhaust)+
    then show ?thesis using le True total_comparison.cmp_trans [OF t2 S] by simp
  qed (use xz in simp)
qed

lemma total_pullback:
  assumes "total_comparison cmp S" "\<And>x. x \<in> T \<Longrightarrow> f x \<in> S"
  shows "total_comparison (\<lambda>x y. cmp (f x) (f y)) T"
proof
  fix x y assume "x \<in> T" "y \<in> T"
  then show "cmp (f y) (f x) = ordering_reverse (cmp (f x) (f y))"
    by (intro total_comparison.cmp_reverse [OF assms(1)] assms(2))
next
  fix x y z assume "x \<in> T" "y \<in> T" "z \<in> T" "cmp (f x) (f y) \<noteq> OGreater" "cmp (f y) (f z) \<noteq> OGreater"
  then show "cmp (f x) (f z) \<noteq> OGreater"
    using total_comparison.cmp_trans [OF assms(1) assms(2) assms(2) assms(2)] by blast
qed

lemma total_cong:
  assumes "total_comparison cmp S" "\<And>x y. x \<in> S \<Longrightarrow> y \<in> S \<Longrightarrow> cmp' x y = cmp x y"
  shows "total_comparison cmp' S"
proof
  fix x y assume S: "x \<in> S" "y \<in> S"
  show "cmp' y x = ordering_reverse (cmp' x y)"
    unfolding assms(2) [OF S] assms(2) [OF S(2,1)] by (rule total_comparison.cmp_reverse [OF assms(1) S])
next
  fix x y z assume S: "x \<in> S" "y \<in> S" "z \<in> S" and le: "cmp' x y \<noteq> OGreater" "cmp' y z \<noteq> OGreater"
  show "cmp' x z \<noteq> OGreater"
    using le total_comparison.cmp_trans [OF assms(1) S] by (simp add: assms(2) S)
qed

lemma total_cmp_of: "total_comparison (cmp_of :: 'a :: linorder \<Rightarrow> _) UNIV"
  by unfold_locales (auto simp: cmp_of_def split: if_splits)

section \<open>The comparison of the engine\<close>

text \<open>\<open>sort_kind v\<close> is 0 for the values the comparison is not total on, or compares by their text.\<close>

definition sort_kind :: "'j val \<Rightarrow> nat" where
  "sort_kind v =
     (case v of
        VBool _ \<Rightarrow> 1 | VInt _ \<Rightarrow> 2 | VFloat f \<Rightarrow> (if f = FNaN then 0 else 3) | VText _ \<Rightarrow> 4 | VTimestamp _ \<Rightarrow> 5 | _ \<Rightarrow> 0)"

definition kind_values :: "nat \<Rightarrow> 'j val option set" where
  "kind_values k = {Some v | v. sort_kind v = k \<and> k \<noteq> 0}"

definition f64_rank :: "f64 \<Rightarrow> int \<times> int" where
  "f64_rank x = (case x of FNaN \<Rightarrow> (2, 0) | FInf neg \<Rightarrow> (if neg then - 1 else 1, 0) | FFin neg m \<Rightarrow> (0, fin_value neg m))"

lemma f64_cmp_rank:
  "x \<noteq> FNaN \<Longrightarrow> y \<noteq> FNaN \<Longrightarrow> f64_partial_cmp x y =
     Some (let a = f64_rank x; b = f64_rank y
           in if cmp_of (fst a) (fst b) \<noteq> OEqual then cmp_of (fst a) (fst b) else cmp_of (snd a) (snd b))"
  by (cases x; cases y) (auto simp: f64_rank_def cmp_of_def Let_def)

definition kind_key :: "'j val option \<Rightarrow> int" where
  "kind_key v =
     (case v of
        Some (VBool b) \<Rightarrow> (if b then 1 else 0) | Some (VInt i) \<Rightarrow> sint i | Some (VTimestamp i) \<Rightarrow> sint i
      | Some (VFloat f) \<Rightarrow> fst (f64_rank f) | _ \<Rightarrow> 0)"

definition kind_key2 :: "'j val option \<Rightarrow> int" where
  "kind_key2 v = (case v of Some (VFloat f) \<Rightarrow> snd (f64_rank f) | _ \<Rightarrow> 0)"

definition kind_key3 :: "'j val option \<Rightarrow> string" where
  "kind_key3 v = (case v of Some (VText t) \<Rightarrow> t | _ \<Rightarrow> [])"

text \<open>On values of one kind the comparison is a lexicographic one of three keys.\<close>

lemma order_values_keys:
  assumes "a \<in> kind_values k" "b \<in> kind_values k"
  shows "order_values dj a b =
    (if cmp_of (kind_key a) (kind_key b) \<noteq> OEqual then cmp_of (kind_key a) (kind_key b)
     else if cmp_of (kind_key2 a) (kind_key2 b) \<noteq> OEqual then cmp_of (kind_key2 a) (kind_key2 b)
     else cmp_of (kind_key3 a) (kind_key3 b))"
proof -
  obtain v w where v: "a = Some v" "b = Some w" "sort_kind v = k" "sort_kind w = k" "k \<noteq> 0"
    using assms by (auto simp: kind_values_def)
  have refl: "cmp_of x x = OEqual" for x :: string by (simp add: cmp_of_def)
  show ?thesis
    using v(3,4,5) unfolding v(1,2) order_values_def
    by (cases v; cases w)
      (auto simp: sort_kind_def is_null_def order_present_def or_equal_def kind_key_def kind_key2_def kind_key3_def
        f64_cmp_rank Let_def refl cmp_of_def split: if_splits)
qed

lemma total_order_values: "total_comparison (order_values dj) (kind_values k)"
proof (rule total_cong)
  show "total_comparison (\<lambda>a b.
      if cmp_of (kind_key a) (kind_key b) \<noteq> OEqual then cmp_of (kind_key a) (kind_key b)
      else if cmp_of (kind_key2 a) (kind_key2 b) \<noteq> OEqual then cmp_of (kind_key2 a) (kind_key2 b)
      else cmp_of (kind_key3 a) (kind_key3 b)) (kind_values k)"
    by (intro total_lex total_pullback [OF total_cmp_of]) simp_all
qed (rule order_values_keys)

definition sortable_rows :: "(nat \<Rightarrow> nat) \<Rightarrow> (nat \<times> bool) list \<Rightarrow> 'j row set" where
  "sortable_rows kinds ps = {r. \<forall>(i, d)\<in>set ps. value_at r i \<in> kind_values (kinds i)}"

lemma total_subset: "total_comparison cmp S \<Longrightarrow> T \<subseteq> S \<Longrightarrow> total_comparison cmp T"
  unfolding total_comparison_def by (meson subsetD)

lemma total_order_rows: "total_comparison (order_rows dj ps) (sortable_rows kinds ps)"
proof (induction ps)
  case Nil
  then show ?case by unfold_locales simp_all
next
  case (Cons p ps)
  obtain i d where p: "p = (i, d)" by fastforce
  let ?S = "sortable_rows kinds (p # ps) :: 'a row set"
  have t: "total_comparison (\<lambda>a b. order_values dj (value_at a i) (value_at b i)) ?S"
    by (rule total_pullback [OF total_order_values [of dj "kinds i"]]) (auto simp: sortable_rows_def p)
  have t1: "total_comparison (\<lambda>a b. if d then ordering_reverse (order_values dj (value_at a i) (value_at b i))
      else order_values dj (value_at a i) (value_at b i)) ?S"
    using t total_reverse [OF t] by (cases d) simp_all
  have t2: "total_comparison (order_rows dj ps) ?S"
    by (rule total_subset [OF Cons]) (auto simp: sortable_rows_def)
  from total_lex [OF t1 t2] show ?case by (simp add: p Let_def)
qed

interpretation rows_order: total_comparison "order_rows dj ps" "sortable_rows kinds ps"
  by (rule total_order_rows)

section \<open>Properties\<close>

text \<open>Two rows that are null in the sort column compare as less both ways, so \<open>ORDER BY\<close> swaps them:
  it is not stable, and \<open>slice::sort_by\<close> has no total order to work with.\<close>

lemma null_rows_swapped:
  assumes "value_at r i = Some VNull" "value_at r' i = Some VNull"
  shows "order_rows dj [(i, False)] r r' = OLess \<and> order_rows dj [(i, False)] r' r = OLess
    \<and> sort_by (order_rows dj [(i, False)]) [r, r'] = [r', r]"
  using assms by (simp add: order_values_def is_null_def sort_by_def)

text \<open>If each sort column holds values of one kind in all rows (booleans, integers, floats other than
  NaN, texts or timestamps), \<open>ORDER BY\<close> returns the same rows, sorted by the keys in turn, descending
  ones reversed, and rows that agree on all keys keep their order.\<close>

theorem order_by_stable:
  assumes "set (rb_rows b) \<subseteq> sortable_rows kinds (sort_positions (rb_schema b) keys)"
  shows "mset (rb_rows (ev_sort dj b keys)) = mset (rb_rows b)
    \<and> sorted_wrt (\<lambda>r r'. order_rows dj (sort_positions (rb_schema b) keys) r r' \<noteq> OGreater) (rb_rows (ev_sort dj b keys))
    \<and> (\<forall>z\<in>set (rb_rows b). filter (\<lambda>r. order_rows dj (sort_positions (rb_schema b) keys) z r = OEqual) (rb_rows (ev_sort dj b keys))
        = filter (\<lambda>r. order_rows dj (sort_positions (rb_schema b) keys) z r = OEqual) (rb_rows b))"
  using rows_order.sort_by_stable [OF assms, of dj] assms by (auto simp: ev_sort_def)

definition demo_batch :: "unit row_batch" where
  "demo_batch = batch (Schema [column_new ''a'' TInt True, column_new ''b'' TText True])
     [mk_row [VInt 2, VText ''x''], mk_row [VInt 1, VText ''y''], mk_row [VInt 2, VText ''z'']]"

definition demo_keys :: "order_key list" where
  "demo_keys = [\<lparr>ok_column = ''a'', ok_descending = True\<rparr>]"

theorem order_by_stable_witness:
  "rb_rows (ev_sort (\<lambda>_. []) demo_batch demo_keys) =
     [mk_row [VInt 2, VText ''x''], mk_row [VInt 2, VText ''z''], mk_row [VInt 1, VText ''y'']]
   \<and> mset (rb_rows (ev_sort (\<lambda>_. []) demo_batch demo_keys)) = mset (rb_rows demo_batch)"
proof
  show "rb_rows (ev_sort (\<lambda>_. []) demo_batch demo_keys) =
     [mk_row [VInt 2, VText ''x''], mk_row [VInt 2, VText ''z''], mk_row [VInt 1, VText ''y'']]" by code_simp
  have "sort_positions (rb_schema demo_batch) demo_keys = [(0, True)]" by code_simp
  then have "set (rb_rows demo_batch) \<subseteq> sortable_rows (\<lambda>_. 2) (sort_positions (rb_schema demo_batch) demo_keys)"
    by (auto simp: demo_batch_def sortable_rows_def value_at_def mk_row_def kind_values_def sort_kind_def)
  from order_by_stable [OF this] show "mset (rb_rows (ev_sort (\<lambda>_. []) demo_batch demo_keys)) = mset (rb_rows demo_batch)"
    by blast
qed

end
