(* ===== verification/Engine_Props.thy ===== *)
theory Engine_Props
  imports Engine_Ops Engine_Sort
begin

text \<open>
  Properties of the engine's operators: \<open>LIKE\<close> against a declarative matching relation, joins and
  grouping against nested loops and partitions, set operations on row texts, exactness of \<open>SUM\<close>,
  and what the type checker of predicates gives the evaluator.
\<close>

section \<open>\<open>LIKE\<close>\<close>

inductive like_rel :: "u8 list \<Rightarrow> u8 list \<Rightarrow> bool" where
  like_end: "like_rel [] []"
| like_any: "like_rel s p \<Longrightarrow> like_rel (t @ s) (37 # p)"
| like_one: "like_rel s p \<Longrightarrow> like_rel (c # s) (95 # p)"
| like_lit: "c \<noteq> 37 \<Longrightarrow> c \<noteq> 95 \<Longrightarrow> like_rel s p \<Longrightarrow> like_rel (c # s) (c # p)"

inductive_cases like_relE: "like_rel s (c # p)" "like_rel s []"

inductive_simps like_rel_Nil [simp]: "like_rel s []"

lemma like_inner_rel: "like_inner s p \<longleftrightarrow> like_rel s p"
proof (induction p arbitrary: s)
  case (Cons c p)
  have any: "list_ex (\<lambda>i. like_inner (drop i s) p) [0..<Suc (length s)] \<longleftrightarrow> (\<exists>t u. s = t @ u \<and> like_rel u p)"
  proof
    assume "list_ex (\<lambda>i. like_inner (drop i s) p) [0..<Suc (length s)]"
    then obtain i where "like_inner (drop i s) p" by (auto simp: list_ex_iff simp del: upt_Suc)
    then have "like_rel (drop i s) p" using Cons by simp
    then show "\<exists>t u. s = t @ u \<and> like_rel u p" by (metis append_take_drop_id)
  next
    assume "\<exists>t u. s = t @ u \<and> like_rel u p"
    then obtain t u where s: "s = t @ u" "like_rel u p" by blast
    then have "like_inner (drop (length t) s) p" "length t \<in> set [0..<Suc (length s)]" using Cons by auto
    then show "list_ex (\<lambda>i. like_inner (drop i s) p) [0..<Suc (length s)]" unfolding list_ex_iff by blast
  qed
  have step: "like_inner s (c # p) \<longleftrightarrow>
      (if c = 37 then \<exists>t u. s = t @ u \<and> like_rel u p
       else if c = 95 then \<exists>d u. s = d # u \<and> like_rel u p else \<exists>u. s = c # u \<and> like_rel u p)"
    unfolding like_inner.simps any using Cons by (cases s) auto
  show ?case
    unfolding step by (auto intro: like_rel.intros elim!: like_relE split: if_splits)
qed simp

text \<open>\<open>LIKE\<close> is declarative matching of the UTF-8 bytes: a percent sign matches any run of bytes, an
  underscore one byte, any other byte itself. So an underscore does not match a character of two
  bytes, and two underscores do.\<close>

theorem like_match_correct:
  "(like_match s p \<longleftrightarrow> like_rel (utf8 s) (utf8 (pattern_str p)))
   \<and> \<not> like_match [CHR 0xE9] (Pattern ''_'') \<and> like_match [CHR 0xE9] (Pattern ''__'')"
proof (intro conjI)
  show "like_match s p \<longleftrightarrow> like_rel (utf8 s) (utf8 (pattern_str p))"
    by (simp add: like_match_def like_inner_rel)
  show "\<not> like_match [CHR 0xE9] (Pattern ''_'')" by code_simp
  show "like_match [CHR 0xE9] (Pattern ''__'')" by code_simp
qed

section \<open>Joins, groups, set operations\<close>

text \<open>A hash join is the nested-loop join on equal texts of the key values, in the order of the left
  and then the right side; it is empty if a key column is missing. A null key equals a null key.\<close>

theorem hash_join_nested_loop:
  "rb_schema (ev_hash_join dj left right on) = schema_join (rb_schema left) (rb_schema right)
   \<and> rb_rows (ev_hash_join dj left right on) =
       (case (col_position (rb_schema left) (jo_left on), col_position (rb_schema right) (jo_right on)) of
          (Some lk, Some rk) \<Rightarrow>
            concat (map (\<lambda>l. map (\<lambda>r. mk_row (row_values l @ row_values r))
               (filter (\<lambda>r. dbg_value dj (value_or_null l lk) = dbg_value dj (value_or_null r rk)) (rb_rows right)))
               (rb_rows left))
        | _ \<Rightarrow> [])"
proof -
  have e: "(case fold (bucket_push f) xs Map.empty k of Some m \<Rightarrow> map g m | None \<Rightarrow> []) = map g (filter (\<lambda>x. k = f x) xs)"
    for f :: "'a row \<Rightarrow> string" and xs k and g :: "'a row \<Rightarrow> 'a row"
    unfolding fold_bucket_push by (simp add: eq_commute [of k])
  show ?thesis by (simp add: ev_hash_join_def Let_def e split: option.splits)
qed

text \<open>The set operations, on rows told apart by their text: every result is free of duplicates, and
  holds exactly the keys of the union, difference or intersection; its schema is the left one.\<close>

theorem set_op_sets:
  "(let rows = rb_rows (ev_set_op dj left right kind); keys = (\<lambda>b. row_key dj ` set (rb_rows b)) in
     rb_schema (ev_set_op dj left right kind) = rb_schema left
     \<and> distinct (map (row_key dj) rows)
     \<and> set rows \<subseteq> set (rb_rows left) \<union> set (rb_rows right)
     \<and> row_key dj ` set rows =
         (case kind of Union \<Rightarrow> keys left \<union> keys right | Except \<Rightarrow> keys left - keys right
                     | Intersect \<Rightarrow> keys left \<inter> keys right))"
  unfolding Let_def
  using dedup_subset [of "row_key dj" "{}" "rb_rows left @ rb_rows right"]
    dedup_subset [of "row_key dj" "{}" "filter (\<lambda>r. row_key dj r \<notin> row_key dj ` set (rb_rows right)) (rb_rows left)"]
    dedup_subset [of "row_key dj" "{}" "filter (\<lambda>r. row_key dj r \<in> row_key dj ` set (rb_rows right)) (rb_rows left)"]
  by (cases kind) (auto simp: ev_set_op_def Let_def dedup_distinct dedup_keys)

text \<open>Grouping: the sizes of the groups of a list add up to its length.\<close>

lemma sum_filter_keys:
  "distinct ks \<Longrightarrow> (\<Sum>k\<leftarrow>ks. length (filter (\<lambda>x. key x = k) xs)) = length (filter (\<lambda>x. key x \<in> set ks) xs)"
proof (induction ks)
  case (Cons k ks)
  have "length (filter (\<lambda>x. key x = k \<or> key x \<in> set ks) xs) =
      length (filter (\<lambda>x. key x = k) xs) + length (filter (\<lambda>x. key x \<in> set ks) xs)"
    using Cons(2) by (induction xs) auto
  then show ?case using Cons by simp
qed simp

lemma group_sizes:
  "(\<Sum>r\<leftarrow>dedup key {} xs. length (filter (\<lambda>x. key x = key r) xs)) = length xs"
proof -
  have "(\<Sum>r\<leftarrow>dedup key {} xs. length (filter (\<lambda>x. key x = key r) xs)) =
      (\<Sum>k\<leftarrow>map key (dedup key {} xs). length (filter (\<lambda>x. key x = k) xs))" by (simp add: comp_def)
  also have "\<dots> = length (filter (\<lambda>x. key x \<in> key ` set xs) xs)"
    unfolding sum_filter_keys [OF dedup_distinct] by (simp add: dedup_keys)
  also have "filter (\<lambda>x. key x \<in> key ` set xs) xs = xs" by (simp add: filter_id_conv)
  finally show ?thesis .
qed

lemma group_rows_reference:
  assumes "r \<in> set (dedup key {} rows)"
  shows "gr_groups (group_rows key group_by rows) (key r) = Some (filter (\<lambda>x. key x = key r) rows)
     \<and> gr_first (group_rows key group_by rows) (key r) = Some r"
proof -
  let ?g0 = "\<lparr>gr_order = [], gr_groups = Map.empty, gr_first = Map.empty\<rparr> :: 'a grouping"
  note f = group_fold [of ?g0 key rows, simplified]
  have "r \<in> set rows" using assms dedup_subset [of key "{}" rows] by blast
  then have "filter (\<lambda>x. key x = key r) rows \<noteq> []" by (auto simp: filter_empty_conv)
  moreover have "dedup key {} rows \<noteq> []" using assms by auto
  ultimately show ?thesis
    using f assms unfolding group_rows_def Let_def by (auto simp: fold_bucket_push)
qed

lemma group_rows_order:
  "gr_order (group_rows key group_by rows) =
     (if group_by = [] \<and> rows = [] then [[]] else map key (dedup key {} rows))"
proof -
  let ?g0 = "\<lparr>gr_order = [], gr_groups = Map.empty, gr_first = Map.empty\<rparr> :: 'a grouping"
  note f = group_fold [of ?g0 key rows, simplified]
  have "dedup key {} rows = [] \<longleftrightarrow> rows = []" using dedup_keys [of key "{}" rows] by (cases rows) auto
  then show ?thesis using f by (auto simp: group_rows_def Let_def)
qed

text \<open>\<open>GROUP BY\<close> partitions the rows: there is one output row per distinct group key, in the order the
  keys first occur, made of the group columns of the key's first row and of each aggregate over
  exactly the rows with that key, and the groups hold every row once. Without group columns an
  empty relation still gives one row. Output rows are shorter than the output schema if a group
  column does not exist.\<close>

theorem aggregate_partitions:
  "rb_rows (ev_aggregate dj b group_by aggs) =
     (let is = project_indices (rb_schema b) group_by; key = row_group_key dj is;
          aggregates = (\<lambda>rows. map (\<lambda>a. run_aggregate dj (ag_func a) (col_position (rb_schema b) (ag_column a)) rows) aggs)
      in if group_by = [] \<and> rb_rows b = [] then [mk_row (aggregates [])]
         else map (\<lambda>r. mk_row (map (value_or_null r) is @ aggregates (filter (\<lambda>x. key x = key r) (rb_rows b))))
                (dedup key {} (rb_rows b)))
   \<and> (\<Sum>r\<leftarrow>dedup (row_group_key dj (project_indices (rb_schema b) group_by)) {} (rb_rows b).
        length (filter (\<lambda>x. row_group_key dj (project_indices (rb_schema b) group_by) x
                          = row_group_key dj (project_indices (rb_schema b) group_by) r) (rb_rows b))) = length (rb_rows b)
   \<and> list_all (\<lambda>r. length (row_values r) = length (project_indices (rb_schema b) group_by) + length aggs)
       (rb_rows (ev_aggregate dj b group_by aggs))
   \<and> length (columns (rb_schema (ev_aggregate dj b group_by aggs))) = length group_by + length aggs"
proof -
  let ?is = "project_indices (rb_schema b) group_by"
  let ?key = "row_group_key dj ?is"
  let ?g = "group_rows ?key group_by (rb_rows b)"
  let ?agg = "\<lambda>rows. map (\<lambda>a. run_aggregate dj (ag_func a) (col_position (rb_schema b) (ag_column a)) rows) aggs"
  let ?zip = "zip aggs (map (\<lambda>a. col_position (rb_schema b) (ag_column a)) aggs)"
  have z: "map (\<lambda>(a, idx). run_aggregate dj (ag_func a) idx rows) ?zip = ?agg rows" for rows
    by (simp add: zip_map2 map_zip_map2 comp_def zip_same_conv_map)
  have row: "aggregate_row dj ?is ?zip ?g (?key r) =
      mk_row (map (value_or_null r) ?is @ ?agg (filter (\<lambda>x. ?key x = ?key r) (rb_rows b)))"
    if "r \<in> set (dedup ?key {} (rb_rows b))" for r
    unfolding aggregate_row_def z using group_rows_reference [OF that, of group_by] by simp
  have rows: "rb_rows (ev_aggregate dj b group_by aggs) =
      (if group_by = [] \<and> rb_rows b = [] then [mk_row (?agg [])]
       else map (\<lambda>r. mk_row (map (value_or_null r) ?is @ ?agg (filter (\<lambda>x. ?key x = ?key r) (rb_rows b))))
              (dedup ?key {} (rb_rows b)))"
  proof (cases "group_by = [] \<and> rb_rows b = []")
    case True
    then have "aggregate_row dj ?is ?zip ?g [] = mk_row (?agg [])"
      unfolding aggregate_row_def z by (simp add: group_rows_def project_indices_def Let_def)
    then show ?thesis using True by (simp add: ev_aggregate_def Let_def group_rows_order)
  next
    case False
    then show ?thesis by (auto simp: ev_aggregate_def Let_def group_rows_order row)
  qed
  show ?thesis
    unfolding Let_def using rows group_sizes [of ?key "rb_rows b"]
    by (auto simp: list_all_iff ev_aggregate_def Let_def aggregate_columns_def project_indices_def)
qed

section \<open>\<open>SUM\<close>\<close>

lemma sint_small: "\<bar>n\<bar> < 2 ^ 53 \<Longrightarrow> sint (of_int n :: i64) = n"
  by (subst sint_sbintrunc') (rule signed_take_bit_int_eq_self, simp_all add: abs_less_iff)

lemma fold_sum_ints:
  "\<bar>s\<bar> + (\<Sum>n\<leftarrow>ns. \<bar>n\<bar>) < 2 ^ 53 \<Longrightarrow>
     fold sum_step (map (\<lambda>n. VInt (of_int n)) ns) (f64_of_int s, False) = (f64_of_int (s + sum_list ns), False)"
proof (induction ns arbitrary: s)
  case (Cons n ns)
  have nonneg: "0 \<le> (\<Sum>n\<leftarrow>ns. \<bar>n\<bar>)" by (rule sum_list_nonneg) auto
  have b: "\<bar>s\<bar> < 2 ^ 53" "\<bar>n\<bar> < 2 ^ 53" "\<bar>s + n\<bar> < 2 ^ 53" "\<bar>s + n\<bar> + (\<Sum>n\<leftarrow>ns. \<bar>n\<bar>) < 2 ^ 53"
    using Cons(2) nonneg by simp_all
  show ?case
    using Cons(1) [OF b(4)] by (simp add: sint_small [OF b(2)] f64_add_ints [OF b(1,2,3)] add.assoc)
qed simp

text \<open>The \<open>SUM\<close> of integers, which the engine adds up as doubles, is exact if their absolute values add
  up to less than \<open>2 ^ 53\<close>.\<close>

theorem sum_ints_exact:
  assumes "non_null_at rows i = map (\<lambda>n. VInt (of_int n)) ns" and "(\<Sum>n\<leftarrow>ns. \<bar>n\<bar>) < 2 ^ 53"
  shows "run_aggregate dj AggSum (Some i) rows = VInt (of_int (sum_list ns))"
proof -
  have zero: "FFin False 0 = f64_of_int 0" by (simp add: f64_of_int_def)
  have "\<bar>sum_list ns\<bar> < 2 ^ 53" using assms(2) sum_list_abs [of ns] by (simp add: comp_def)
  note exact = f64_to_int_small [OF this]
  have "fold sum_step (non_null_at rows i) (f64_of_int 0, False) = (f64_of_int (sum_list ns), False)"
    unfolding assms(1) by (subst fold_sum_ints) (use assms(2) in simp_all)
  then show ?thesis by (simp add: run_aggregate_def zero exact)
qed

theorem sum_ints_exact_witness:
  "run_aggregate (\<lambda>_ :: unit. []) AggSum (Some 0) [mk_row [VInt 5], mk_row [VNull], mk_row [VInt (of_int (- 7))]] =
     VInt (of_int (- 2))"
proof -
  have "non_null_at [mk_row [VInt 5], mk_row [VNull], mk_row [VInt (of_int (- 7))]] 0 = map (\<lambda>n. VInt (of_int n)) [5, - 7]"
    by (simp add: non_null_at_def value_at_def mk_row_def List.map_filter_def is_null_def)
  from sum_ints_exact [OF this, of "\<lambda>_ :: unit. []"] show ?thesis by simp
qed

text \<open>Beyond it is not: the sum of \<open>2 ^ 53\<close> and 1 is \<open>2 ^ 53\<close>.\<close>

lemma sum_ints_rounds:
  "f64_to_int (f64_add (f64_of_int (2 ^ 53)) (f64_of_int 1)) = 2 ^ 53"
proof -
  define u :: nat where "u = 2 ^ 1074"
  have u: "0 < u" by (simp only: u_def zero_less_power zero_less_numeral)
  have len: "bit_len ((2 ^ 53 + 1) * u) = 1128"
    unfolding u_def using bit_len_shift [of "2 ^ 53 + 1" 1074] bit_len_unique [of 53 "2 ^ 53 + 1"] by simp
  have len': "bit_len (2 ^ 53) = 54" by (rule bit_len_unique [of 53, simplified]) simp_all
  have pow: "(2 :: nat) ^ (1128 - 53) = 2 * u" "(2 :: nat) ^ (1128 - 53 - 1) = u"
    unfolding u_def power_Suc [symmetric] by (rule arg_cong [where f = "(^) 2"], simp)+
  have odd: "(2 ^ 53 + 1) * u = 2 ^ 52 * (2 * u) + u" by simp
  have div: "(2 ^ 53 + 1) * u div (2 * u) = 2 ^ 52" "(2 ^ 53 + 1) * u mod (2 * u) = u"
    unfolding odd using u by simp_all
  have big: "\<not> (2 ^ 53 + 1) * u < 2 ^ 53" using u by (cases u) simp_all
  have "round_sig ((2 ^ 53 + 1) * u) = 2 ^ 53 * u"
    unfolding round_sig_def Let_def len pow div using big by simp
  moreover have "\<not> 2 ^ (1024 + 1074) \<le> 2 ^ 53 * u"
    unfolding u_def power_add [symmetric] by (rule notI, drule power_le_imp_le_exp [rotated]) simp_all
  ultimately have ex: "f64_of_exact False ((2 ^ 53 + 1) * u) = FFin False (2 ^ 53 * u)"
    unfolding f64_of_exact_def Let_def by (simp only: if_False)
  have "round_sig (2 ^ 53) = 2 ^ 53" unfolding round_sig_def Let_def len' by simp
  then have ints: "f64_of_int (2 ^ 53) = FFin False (2 ^ 53 * u)" "f64_of_int 1 = FFin False u"
    unfolding f64_of_int_def u_def [symmetric] by simp_all
  have v: "fin_value False (2 ^ 53 * u) + fin_value False u = int ((2 ^ 53 + 1) * u)"
    by (simp add: fin_value_def)
  have "f64_add (f64_of_int (2 ^ 53)) (f64_of_int 1) = FFin False (2 ^ 53 * u)"
    unfolding ints f64_add.simps Let_def v abs_of_nat nat_int using u ex by (simp del: of_nat_mult of_nat_add)
  moreover have "(2 ^ 53 * u) div u = 2 ^ 53" using u by simp
  ultimately show ?thesis by (simp add: Let_def u_def)
qed

section \<open>What type checking gives the evaluator\<close>

lemma find_nth_position: "find P xs = map_option (\<lambda>i. xs ! i) (position P xs)"
  by (induction xs) (auto simp: option.map_comp comp_def)

lemma resolved_value_conforms:
  assumes "resolve_col (ColRef [n]) s = Inr ty" "row_conforms r s" "resolve (ColRef [n]) s r = Some v"
  shows "\<exists>nullable. conforms_to v ty nullable"
proof -
  obtain i where i: "position (\<lambda>c. col_name c = n) (columns s) = Some i" "ty = col_ty (columns s ! i)"
    using assms(1) by (auto simp: resolve_col_def schema_column_def find_nth_position split: option.splits)
  then have "i < length (columns s)" by (auto dest: position_SomeD)
  moreover have "v = row_values r ! i"
    using assms(3) i(1) by (auto simp: resolve_def col_position_def value_at_def split: if_splits option.splits)
  ultimately show ?thesis
    using assms(2) i(2) by (fastforce simp: row_conforms_def list_all_length)
qed

text \<open>C18: a comparison of a column with a non-null literal that type-checks is decided by the evaluator on
  every row that conforms to the schema: on boolean, integer, float and text columns the value and
  the literal have an order, unless one is NaN or an integer column carries a timestamp. On a
  decimal column it type-checks with any number, but no row ever matches. No literal but null
  type-checks against a timestamp, date, UUID, bytes or nested column.\<close>

theorem typechecked_comparison:
  assumes "typecheck_predicate (PCmp (ColRef [n]) op lit) s = Inr (TPCmp (ColRef [n]) ty op lit)"
    and "row_conforms r s" and "resolve (ColRef [n]) s r = Some v" and "v \<noteq> VNull"
    and "lit \<noteq> LNull" and "op \<noteq> Match"
  shows "ty \<in> {TBool, TInt, TFloat, TText, TDecimal, TUnknown, TJson}
    \<and> (ty \<in> {TBool, TInt, TFloat, TText} \<and> (\<forall>t. v \<noteq> VTimestamp t) \<and> v \<noteq> VFloat FNaN \<and> lit \<noteq> LFloat FNaN
        \<longrightarrow> value_cmp v lit \<noteq> None)
    \<and> (ty = TDecimal \<longrightarrow> \<not> eval_predicate (PCmp (ColRef [n]) op lit) s r)"
proof -
  have ty: "resolve_col (ColRef [n]) s = Inr ty" and cmp: "comparable op ty (literal_type lit)"
    using assms(1) by (auto simp: check_operand_def split: sum.splits if_splits)
  obtain nullable where conf: "conforms_to v ty nullable" using resolved_value_conforms [OF ty assms(2,3)] by blast
  have ev: "eval_predicate (PCmp (ColRef [n]) op lit) s r = cmp_value v op lit" by (simp add: assms(3))
  have kinds: "ty \<in> {TBool, TInt, TFloat, TText, TDecimal, TUnknown, TJson}"
    using cmp assms(5,6) by (cases lit) (auto simp: comparable_def Let_def split: if_splits)
  have order: "value_cmp v lit \<noteq> None"
    if "ty \<in> {TBool, TInt, TFloat, TText}" "\<forall>t. v \<noteq> VTimestamp t" "v \<noteq> VFloat FNaN" "lit \<noteq> LFloat FNaN"
    using that cmp conf assms(4,5,6) f64_cmp_total f64_of_int_finite
    by (cases v; cases lit) (auto simp: comparable_def Let_def split: if_splits)
  have decimal: "\<not> cmp_value v op lit" if "ty = TDecimal"
    using that cmp conf assms(4,5,6)
    by (cases v; cases lit; cases op) (auto simp: comparable_def cmp_value_def Let_def split: if_splits)
  show ?thesis using kinds order decimal ev by blast
qed

definition demo_money :: schema where
  "demo_money = Schema [column_new ''price'' TDecimal True, column_new ''qty'' TInt True]"

theorem typechecked_comparison_witness:
  "typecheck_predicate (PCmp (ColRef [''price'']) Gt (LInt 5)) demo_money
     = Inr (TPCmp (ColRef [''price'']) TDecimal Gt (LInt 5))
   \<and> \<not> eval_predicate (PCmp (ColRef [''price'']) Gt (LInt 5)) demo_money (mk_row [VText ''9.50'', VInt 1] :: unit row)"
proof -
  let ?r = "mk_row [VText ''9.50'', VInt 1] :: unit row"
  have tc: "typecheck_predicate (PCmp (ColRef [''price'']) Gt (LInt 5)) demo_money
     = Inr (TPCmp (ColRef [''price'']) TDecimal Gt (LInt 5))" by code_simp
  have conf: "row_conforms ?r demo_money"
    by (simp add: row_conforms_def demo_money_def column_new_def)
  have res: "resolve (ColRef [''price'']) demo_money ?r = Some (VText ''9.50'')"
    by (simp add: resolve_def col_position_def demo_money_def column_new_def value_at_def)
  from typechecked_comparison [OF tc conf res] tc show ?thesis by simp
qed

end
