(* ===== verification/Push_Model.thy ===== *)
theory Push_Model
  imports Engine_Ops
begin

text \<open>
  The vocabulary of the pushdown planner, \<open>crates/pushdown/src/{logical,physical,explain,error}.rs\<close>, and
  the pushdown profile of \<open>crates/driver/src/lib.rs\<close>: logical plans, pushed queries, physical plans.
  \<open>Arc<str>\<close> names are texts. \<open>Box\<close> is dropped.
\<close>

section \<open>Logical plans\<close>

type_synonym source_id = string

datatype join_kind = Inner

datatype transform_mode = Extraction | RelationWise | RowWise

fun mode_token :: "transform_mode \<Rightarrow> string" where
  "mode_token Extraction = ''extraction''"
| "mode_token RelationWise = ''relation-wise''"
| "mode_token RowWise = ''row-wise''"

datatype 'j logical_plan =
    LScan source_id string schema
  | LFilter "'j logical_plan" predicate
  | LProject "'j logical_plan" "name list"
  | LProjectExpr "'j logical_plan" "'j assignments"
  | LExtend "'j logical_plan" "'j assignments"
  | LLimit "'j logical_plan" u64
  | LSort "'j logical_plan" "order_key list"
  | LDistinct "'j logical_plan"
  | LAggregate "'j logical_plan" "name list" "agg_term list"
  | LExpand "'j logical_plan" name
  | LJoin join_kind "'j logical_plan" "'j logical_plan" join_on
  | LSetOp set_kind "'j logical_plan" "'j logical_plan"
  | LTransform "'j logical_plan" name schema transform_mode

fun single_source :: "'j logical_plan \<Rightarrow> source_id option" where
  "single_source (LScan src _ _) = Some src"
| "single_source (LFilter p _) = single_source p"
| "single_source (LProject p _) = single_source p"
| "single_source (LProjectExpr p _) = single_source p"
| "single_source (LExtend p _) = single_source p"
| "single_source (LLimit p _) = single_source p"
| "single_source (LSort p _) = single_source p"
| "single_source (LDistinct p) = single_source p"
| "single_source (LAggregate p _ _) = single_source p"
| "single_source (LExpand p _) = single_source p"
| "single_source (LJoin _ l r _) =
     (case (single_source l, single_source r) of (Some a, Some b) \<Rightarrow> if a = b then Some a else None | _ \<Rightarrow> None)"
| "single_source (LSetOp _ l r) =
     (case (single_source l, single_source r) of (Some a, Some b) \<Rightarrow> if a = b then Some a else None | _ \<Rightarrow> None)"
| "single_source (LTransform _ _ _ _) = None"

section \<open>Pushed queries and physical plans\<close>

record pushed_order =
  po_column :: name
  po_descending :: bool

definition pushed_order_of :: "order_key \<Rightarrow> pushed_order" where
  "pushed_order_of k = \<lparr>po_column = ok_column k, po_descending = ok_descending k\<rparr>"

record pushed_aggregate =
  pa_func :: string
  pa_column :: name
  pa_output :: name

definition pushed_aggregate_of :: "agg_term \<Rightarrow> pushed_aggregate" where
  "pushed_aggregate_of a =
     \<lparr>pa_func = aggregator_label (ag_func a), pa_column = ag_column a, pa_output = ag_output a\<rparr>"

record pushed_query =
  pq_filter :: "predicate option"
  pq_project :: "name list option"
  pq_limit :: "u64 option"
  pq_order :: "pushed_order list"
  pq_group_by :: "name list"
  pq_aggregates :: "pushed_aggregate list"
  pq_distinct :: bool

definition pushed_default :: pushed_query where
  "pushed_default = \<lparr>pq_filter = None, pq_project = None, pq_limit = None, pq_order = [], pq_group_by = [],
     pq_aggregates = [], pq_distinct = False\<rparr>"

definition is_bare :: "pushed_query \<Rightarrow> bool" where
  "is_bare q \<longleftrightarrow> pq_filter q = None \<and> pq_project q = None \<and> pq_limit q = None \<and> pq_order q = []
     \<and> pq_group_by q = [] \<and> pq_aggregates q = [] \<and> \<not> pq_distinct q"

record scan_node =
  sn_source :: source_id
  sn_path :: string
  sn_pushed :: pushed_query
  sn_schema :: schema
  sn_materialize :: bool

datatype 'j combine_op =
    CFilter predicate | CProject "name list" | CProjectExpr "'j assignments" | CExtend "'j assignments"
  | CLimit u64 | CSort "order_key list" | CDistinct | CAggregate "name list" "agg_term list" | CExpand name
  | CHashJoin join_on | CSetOp set_kind | CTransform name schema transform_mode

fun combine_label :: "'j combine_op \<Rightarrow> string" where
  "combine_label (CFilter _) = ''Filter''"
| "combine_label (CProject _) = ''Project''"
| "combine_label (CProjectExpr _) = ''ProjectExpr''"
| "combine_label (CExtend _) = ''Extend''"
| "combine_label (CLimit _) = ''Limit''"
| "combine_label (CSort _) = ''Sort''"
| "combine_label CDistinct = ''Distinct''"
| "combine_label (CAggregate _ _) = ''Aggregate''"
| "combine_label (CExpand _) = ''Expand''"
| "combine_label (CHashJoin _) = ''HashJoin''"
| "combine_label (CSetOp k) = set_kind_label k"
| "combine_label (CTransform _ _ _) = ''Transform''"

datatype 'j physical_plan = PScan scan_node | PCombine "'j combine_op" "'j physical_plan list"

fun scan_count :: "'j physical_plan \<Rightarrow> nat" where
  "scan_count (PScan _) = 1"
| "scan_count (PCombine _ inputs) = sum_list (map scan_count inputs)"

fun plan_scans :: "'j physical_plan \<Rightarrow> scan_node list" where
  "plan_scans (PScan s) = [s]"
| "plan_scans (PCombine _ inputs) = concat (map plan_scans inputs)"

fun request_content_materialization :: "'j physical_plan \<Rightarrow> 'j physical_plan" where
  "request_content_materialization (PScan s) = PScan (s\<lparr>sn_materialize := True\<rparr>)"
| "request_content_materialization (PCombine op inputs) = PCombine op (map request_content_materialization inputs)"

section \<open>The plan dump\<close>

definition render_order :: "name \<times> bool \<Rightarrow> string" where
  "render_order k = (case k of (c, desc) \<Rightarrow> if desc then c @ '' desc'' else c)"

definition render_call :: "string \<Rightarrow> name \<Rightarrow> string" where
  "render_call f c = f @ ''('' @ c @ '')''"

definition render_pushed :: "pushed_query \<Rightarrow> string" where
  "render_pushed q = join_with '', ''
     ((if pq_filter q \<noteq> None then [''where''] else [])
      @ (case pq_project q of Some cols \<Rightarrow> [''project('' @ join_with '','' cols @ '')''] | None \<Rightarrow> [])
      @ (if pq_distinct q then [''distinct''] else [])
      @ (if pq_group_by q \<noteq> [] then [''group_by('' @ join_with '','' (pq_group_by q) @ '')''] else [])
      @ (if pq_aggregates q \<noteq> []
         then [''aggregate('' @ join_with '','' (map (\<lambda>a. render_call (pa_func a) (pa_column a)) (pq_aggregates q)) @ '')'']
         else [])
      @ (if pq_order q \<noteq> []
         then [''order('' @ join_with '','' (map (\<lambda>k. render_order (po_column k, po_descending k)) (pq_order q)) @ '')'']
         else [])
      @ (case pq_limit q of Some n \<Rightarrow> [''limit '' @ show_nat (unat n)] | None \<Rightarrow> []))"

fun render_op :: "'j combine_op \<Rightarrow> string" where
  "render_op (CFilter _) = ''Filter''"
| "render_op (CProject cols) = ''Project('' @ join_with '','' cols @ '')''"
| "render_op (CProjectExpr terms) = ''Project('' @ join_with '','' (map fst terms) @ '')''"
| "render_op (CExtend terms) = ''Extend('' @ join_with '','' (map fst terms) @ '')''"
| "render_op (CLimit n) = ''Limit '' @ show_nat (unat n)"
| "render_op (CSort keys) =
     ''Sort('' @ join_with '','' (map (\<lambda>k. render_order (ok_column k, ok_descending k)) keys) @ '')''"
| "render_op CDistinct = ''Distinct''"
| "render_op (CAggregate group_by aggs) =
     (let terms = join_with '','' (map (\<lambda>a. render_call (aggregator_label (ag_func a)) (ag_column a)) aggs) in
      if group_by = [] then ''Aggregate('' @ terms @ '')''
      else ''Aggregate(by '' @ join_with '','' group_by @ '': '' @ terms @ '')'')"
| "render_op (CExpand field) = ''Expand('' @ field @ '')''"
| "render_op (CHashJoin on) = ''HashJoin('' @ jo_left on @ '' = '' @ jo_right on @ '')''"
| "render_op (CSetOp kind) = set_kind_label kind"
| "render_op (CTransform n _ mode) = ''Transform('' @ n @ '', '' @ mode_token mode @ '')''"

fun write_node :: "'j physical_plan \<Rightarrow> nat \<Rightarrow> string" where
  "write_node (PScan s) depth =
     concat (replicate depth ''  '') @ ''Scan['' @ sn_source s @ ''] pushed=['' @ render_pushed (sn_pushed s) @ '']'' @ [CHR 0x0A]"
| "write_node (PCombine op inputs) depth =
     concat (replicate depth ''  '') @ ''Combine['' @ render_op op @ '']'' @ [CHR 0x0A]
       @ concat (map (\<lambda>i. write_node i (depth + 1)) inputs)"

definition explain :: "'j physical_plan \<Rightarrow> string" where
  "explain p = write_node p 0"

section \<open>Profiles, sources, errors\<close>

record push_flags =
  pf_where :: bool
  pf_project :: bool
  pf_limit :: bool
  pf_order :: bool
  pf_join :: bool
  pf_aggregate :: bool
  pf_distinct :: bool
  pf_group_by :: bool

datatype pushdown_profile = PushNone | PushPartial push_flags | PushFull

definition push_flag :: "(push_flags \<Rightarrow> bool) \<Rightarrow> pushdown_profile \<Rightarrow> bool" where
  "push_flag f p = (case p of PushNone \<Rightarrow> False | PushFull \<Rightarrow> True | PushPartial fl \<Rightarrow> f fl)"

abbreviation "supports_where \<equiv> push_flag pf_where"
abbreviation "supports_project \<equiv> push_flag pf_project"
abbreviation "supports_limit \<equiv> push_flag pf_limit"
abbreviation "supports_order \<equiv> push_flag pf_order"
abbreviation "supports_join \<equiv> push_flag pf_join"
abbreviation "supports_aggregate \<equiv> push_flag pf_aggregate"
abbreviation "supports_distinct \<equiv> push_flag pf_distinct"
abbreviation "supports_group_by \<equiv> push_flag pf_group_by"

record source_entry =
  se_profile :: pushdown_profile
  se_readable :: bool

type_synonym source_registry = "source_id \<rightharpoonup> source_entry"

definition register_source :: "source_registry \<Rightarrow> source_id \<Rightarrow> pushdown_profile \<Rightarrow> source_registry" where
  "register_source reg src p = reg(src \<mapsto> \<lparr>se_profile = p, se_readable = True\<rparr>)"

definition register_unreadable :: "source_registry \<Rightarrow> source_id \<Rightarrow> pushdown_profile \<Rightarrow> source_registry" where
  "register_unreadable reg src p = reg(src \<mapsto> \<lparr>se_profile = p, se_readable = False\<rparr>)"

definition source_profile :: "source_registry \<Rightarrow> source_id \<Rightarrow> pushdown_profile option" where
  "source_profile reg src = map_option se_profile (reg src)"

definition source_readable :: "source_registry \<Rightarrow> source_id \<Rightarrow> bool option" where
  "source_readable reg src = map_option se_readable (reg src)"

datatype push_error =
    PeUnknownSource string | PeCapabilityDenied string string | PeUnknownColumn string string "string list"

fun push_error_code :: "push_error \<Rightarrow> string" where
  "push_error_code (PeUnknownSource _) = ''unknown_source''"
| "push_error_code (PeCapabilityDenied _ _) = ''capability_denied''"
| "push_error_code (PeUnknownColumn _ _ _) = ''unknown_column''"

definition push_error_text :: "push_error \<Rightarrow> string" where
  "push_error_text e =
     (case e of
        PeUnknownSource src \<Rightarrow> ''unknown source `'' @ src @ ''`''
      | PeCapabilityDenied src op \<Rightarrow> ''source `'' @ src @ ''` denies operation `'' @ op @ ''`''
      | PeUnknownColumn stage n available \<Rightarrow>
          ''`'' @ stage @ ''` names column '' @ [CHR 0x27] @ n @ [CHR 0x27]
            @ '', which this relation does not carry; available: ['' @ join_with '', '' available @ '']'')"

end
