(* ===== verification/Push_Planner.thy ===== *)
theory Push_Planner
  imports Push_Model
begin

text \<open>
  The source-splitting pass, \<open>crates/pushdown/src/planner.rs\<close>: a linear chain over one scan is offered
  to its source stage by stage, everything else is combined locally.
\<close>

section \<open>Column checks and output schemas\<close>

definition and_predicate :: "predicate option \<Rightarrow> predicate \<Rightarrow> predicate" where
  "and_predicate existing nxt = (case existing of Some prev \<Rightarrow> PAnd prev nxt | None \<Rightarrow> nxt)"

definition check_project_columns :: "schema \<Rightarrow> name list \<Rightarrow> push_error + unit" where
  "check_project_columns s cols =
     (if columns s = [] then Inr ()
      else case first_unknown s cols of
             Some n \<Rightarrow> Inl (PeUnknownColumn ''select'' n (column_names s))
           | None \<Rightarrow> Inr ())"

definition check_project_expr_columns :: "schema \<Rightarrow> 'j assignments \<Rightarrow> push_error + unit" where
  "check_project_expr_columns s terms =
     (if columns s = [] then Inr ()
      else case first_missing s [] (concat (map (\<lambda>(_, e). col_refs e) terms)) of
             Some n \<Rightarrow> Inl (PeUnknownColumn ''select'' n (column_names s))
           | None \<Rightarrow> Inr ())"

definition project_schema :: "schema \<Rightarrow> name list \<Rightarrow> schema" where
  "project_schema s cols = (if is_identity_columns cols then s else Schema (List.map_filter (schema_column s) cols))"

definition project_expr_schema :: "'j assignments \<Rightarrow> schema" where
  "project_expr_schema terms = Schema (map (\<lambda>(n, _). late_column n) terms)"

fun retype_first :: "name \<Rightarrow> column list \<Rightarrow> column list option" where
  "retype_first n [] = None"
| "retype_first n (c # cs) =
     (if col_name c = n then Some (retype_unknown c # cs) else map_option ((#) c) (retype_first n cs))"

definition extend_schema :: "schema \<Rightarrow> 'j assignments \<Rightarrow> schema" where
  "extend_schema s terms =
     Schema (fold (\<lambda>(n, _) cols. case retype_first n cols of Some cols' \<Rightarrow> cols' | None \<Rightarrow> cols @ [late_column n])
       terms (columns s))"

section \<open>The chain walk\<close>

fun single_source_chain :: "'j logical_plan \<Rightarrow> source_id option" where
  "single_source_chain (LScan src _ _) = Some src"
| "single_source_chain (LFilter p _) = single_source_chain p"
| "single_source_chain (LProject p _) = single_source_chain p"
| "single_source_chain (LProjectExpr p _) = single_source_chain p"
| "single_source_chain (LExtend p _) = single_source_chain p"
| "single_source_chain (LLimit p _) = single_source_chain p"
| "single_source_chain (LSort p _) = single_source_chain p"
| "single_source_chain (LDistinct p) = single_source_chain p"
| "single_source_chain (LAggregate p _ _) = single_source_chain p"
| "single_source_chain (LExpand p _) = single_source_chain p"
| "single_source_chain (LTransform p _ _ _) = single_source_chain p"
| "single_source_chain (LJoin _ _ _ _) = None"
| "single_source_chain (LSetOp _ _ _) = None"

fun scan_path :: "'j logical_plan \<Rightarrow> string" where
  "scan_path (LScan _ path _) = path"
| "scan_path (LFilter p _) = scan_path p"
| "scan_path (LProject p _) = scan_path p"
| "scan_path (LProjectExpr p _) = scan_path p"
| "scan_path (LExtend p _) = scan_path p"
| "scan_path (LLimit p _) = scan_path p"
| "scan_path (LSort p _) = scan_path p"
| "scan_path (LDistinct p) = scan_path p"
| "scan_path (LAggregate p _ _) = scan_path p"
| "scan_path (LExpand p _) = scan_path p"
| "scan_path (LTransform p _ _ _) = scan_path p"
| "scan_path (LJoin _ _ _ _) = []"
| "scan_path (LSetOp _ _ _) = []"

record 'j acc =
  ac_source :: source_id
  ac_path :: string
  ac_profile :: pushdown_profile
  ac_pushed :: pushed_query
  ac_residual :: "'j combine_op list"

definition acc_new :: "source_id \<Rightarrow> string \<Rightarrow> pushdown_profile \<Rightarrow> 'j acc" where
  "acc_new src path profile =
     \<lparr>ac_source = src, ac_path = path, ac_profile = profile, ac_pushed = pushed_default, ac_residual = []\<rparr>"

definition local_pinned :: "'j acc \<Rightarrow> bool" where
  "local_pinned a \<longleftrightarrow> ac_residual a \<noteq> []"

definition force_local :: "'j combine_op \<Rightarrow> 'j acc \<Rightarrow> 'j acc" where
  "force_local op a = a\<lparr>ac_residual := ac_residual a @ [op]\<rparr>"

definition combine1 :: "'j combine_op \<Rightarrow> 'j physical_plan \<Rightarrow> 'j physical_plan" where
  "combine1 op p = PCombine op [p]"

definition combine2 :: "'j combine_op \<Rightarrow> 'j physical_plan \<Rightarrow> 'j physical_plan \<Rightarrow> 'j physical_plan" where
  "combine2 op l r = PCombine op [l, r]"

definition acc_finish :: "'j acc \<Rightarrow> schema \<Rightarrow> 'j physical_plan" where
  "acc_finish a s =
     fold combine1 (ac_residual a)
       (PScan \<lparr>sn_source = ac_source a, sn_path = ac_path a, sn_pushed = ac_pushed a, sn_schema = s, sn_materialize = False\<rparr>)"

text \<open>Push a stage into the query if the source supports it and nothing was kept local, else keep it.\<close>

definition push_or_keep :: "bool \<Rightarrow> (pushed_query \<Rightarrow> pushed_query) \<Rightarrow> 'j combine_op \<Rightarrow> 'j acc \<Rightarrow> 'j acc" where
  "push_or_keep supported f op a =
     (if \<not> local_pinned a \<and> supported then a\<lparr>ac_pushed := f (ac_pushed a)\<rparr> else force_local op a)"

fun walk_chain :: "'j logical_plan \<Rightarrow> 'j acc \<Rightarrow> push_error + (schema \<times> 'j acc)" where
  "walk_chain (LScan _ _ s) a = Inr (s, a)"
| "walk_chain (LFilter p pred) a =
     (case walk_chain p a of
        Inl e \<Rightarrow> Inl e
      | Inr (s, a) \<Rightarrow>
          Inr (s, push_or_keep (supports_where (ac_profile a))
                    (\<lambda>q. q\<lparr>pq_filter := Some (and_predicate (pq_filter q) pred)\<rparr>) (CFilter pred) a))"
| "walk_chain (LProject p cols) a =
     (case walk_chain p a of
        Inl e \<Rightarrow> Inl e
      | Inr (s, a) \<Rightarrow>
          if is_identity_columns cols then Inr (s, a)
          else (case check_project_columns s cols of
             Inl e \<Rightarrow> Inl e
           | Inr _ \<Rightarrow>
               Inr (project_schema s cols,
                 push_or_keep (supports_project (ac_profile a)) (\<lambda>q. q\<lparr>pq_project := Some cols\<rparr>) (CProject cols) a)))"
| "walk_chain (LProjectExpr p terms) a =
     (case walk_chain p a of
        Inl e \<Rightarrow> Inl e
      | Inr (s, a) \<Rightarrow>
          (case check_project_expr_columns s terms of
             Inl e \<Rightarrow> Inl e
           | Inr _ \<Rightarrow> Inr (project_expr_schema terms, force_local (CProjectExpr terms) a)))"
| "walk_chain (LExtend p terms) a =
     (case walk_chain p a of
        Inl e \<Rightarrow> Inl e
      | Inr (s, a) \<Rightarrow> Inr (extend_schema s terms, force_local (CExtend terms) a))"
| "walk_chain (LLimit p n) a =
     (case walk_chain p a of
        Inl e \<Rightarrow> Inl e
      | Inr (s, a) \<Rightarrow>
          Inr (s, push_or_keep (supports_limit (ac_profile a)) (\<lambda>q. q\<lparr>pq_limit := Some n\<rparr>) (CLimit n) a))"
| "walk_chain (LSort p keys) a =
     (case walk_chain p a of
        Inl e \<Rightarrow> Inl e
      | Inr (s, a) \<Rightarrow>
          Inr (s, push_or_keep (supports_order (ac_profile a))
                    (\<lambda>q. q\<lparr>pq_order := map pushed_order_of keys\<rparr>) (CSort keys) a))"
| "walk_chain (LDistinct p) a =
     (case walk_chain p a of
        Inl e \<Rightarrow> Inl e
      | Inr (s, a) \<Rightarrow>
          Inr (s, push_or_keep (supports_distinct (ac_profile a)) (\<lambda>q. q\<lparr>pq_distinct := True\<rparr>) CDistinct a))"
| "walk_chain (LAggregate p group_by aggs) a =
     (case walk_chain p a of
        Inl e \<Rightarrow> Inl e
      | Inr (_, a) \<Rightarrow>
          Inr (aggregate_columns group_by aggs,
            push_or_keep
              (supports_aggregate (ac_profile a) \<and> (group_by = [] \<or> supports_group_by (ac_profile a)))
              (\<lambda>q. q\<lparr>pq_group_by := group_by, pq_aggregates := map pushed_aggregate_of aggs\<rparr>)
              (CAggregate group_by aggs) a))"
| "walk_chain (LExpand p field) a =
     (case walk_chain p a of
        Inl e \<Rightarrow> Inl e
      | Inr (s, a) \<Rightarrow> Inr (s, force_local (CExpand field) a))"
| "walk_chain (LTransform p n out mode) a =
     (case walk_chain p a of
        Inl e \<Rightarrow> Inl e
      | Inr (_, a) \<Rightarrow> Inr (out, force_local (CTransform n out mode) a))"
| "walk_chain (LJoin _ _ _ _) a = Inr (schema_empty, a)"
| "walk_chain (LSetOp _ _ _) a = Inr (schema_empty, a)"

definition push_chain :: "'j logical_plan \<Rightarrow> source_id \<Rightarrow> source_registry \<Rightarrow> push_error + 'j physical_plan" where
  "push_chain p src reg =
     (case source_profile reg src of
        None \<Rightarrow> Inl (PeUnknownSource src)
      | Some profile \<Rightarrow>
          if source_readable reg src = Some False then Inl (PeCapabilityDenied src ''SELECT'')
          else (case walk_chain p (acc_new src (scan_path p) profile) of
                  Inl e \<Rightarrow> Inl e
                | Inr (s, a) \<Rightarrow> Inr (acc_finish a s)))"

section \<open>Federation\<close>

definition map_plan :: "('a \<Rightarrow> 'b) \<Rightarrow> push_error + 'a \<Rightarrow> push_error + 'b" where
  "map_plan f r = (case r of Inl e \<Rightarrow> Inl e | Inr x \<Rightarrow> Inr (f x))"

text \<open>\<open>partition_by_source\<close>, with its match on the node for the plans that are no chain (\<open>federate\<close>).\<close>

fun partition_by_source :: "'j logical_plan \<Rightarrow> source_registry \<Rightarrow> push_error + 'j physical_plan" where
  "partition_by_source plan reg =
     (case single_source_chain plan of
        Some src \<Rightarrow> push_chain plan src reg
      | None \<Rightarrow>
          (case plan of
             LJoin _ l r on \<Rightarrow>
               (case partition_by_source l reg of
                  Inl e \<Rightarrow> Inl e
                | Inr pl \<Rightarrow> map_plan (combine2 (CHashJoin on) pl) (partition_by_source r reg))
           | LSetOp kind l r \<Rightarrow>
               (case partition_by_source l reg of
                  Inl e \<Rightarrow> Inl e
                | Inr pl \<Rightarrow> map_plan (combine2 (CSetOp kind) pl) (partition_by_source r reg))
           | LFilter p pred \<Rightarrow> map_plan (combine1 (CFilter pred)) (partition_by_source p reg)
           | LProject p cols \<Rightarrow> map_plan (combine1 (CProject cols)) (partition_by_source p reg)
           | LProjectExpr p terms \<Rightarrow> map_plan (combine1 (CProjectExpr terms)) (partition_by_source p reg)
           | LExtend p terms \<Rightarrow> map_plan (combine1 (CExtend terms)) (partition_by_source p reg)
           | LLimit p n \<Rightarrow> map_plan (combine1 (CLimit n)) (partition_by_source p reg)
           | LSort p keys \<Rightarrow> map_plan (combine1 (CSort keys)) (partition_by_source p reg)
           | LDistinct p \<Rightarrow> map_plan (combine1 CDistinct) (partition_by_source p reg)
           | LAggregate p g aggs \<Rightarrow> map_plan (combine1 (CAggregate g aggs)) (partition_by_source p reg)
           | LExpand p field \<Rightarrow> map_plan (combine1 (CExpand field)) (partition_by_source p reg)
           | LTransform p n out mode \<Rightarrow> map_plan (combine1 (CTransform n out mode)) (partition_by_source p reg)
           | LScan src path s \<Rightarrow>
               (if source_profile reg src = None then Inl (PeUnknownSource src)
                else if source_readable reg src = Some False then Inl (PeCapabilityDenied src ''SELECT'')
                else Inr (PScan \<lparr>sn_source = src, sn_path = path, sn_pushed = pushed_default, sn_schema = s,
                                 sn_materialize = False\<rparr>))))"

declare partition_by_source.simps [simp del]

end
