(* ===== verification/Engine_Combine.thy ===== *)
theory Engine_Combine
  imports Push_Model
begin

text \<open>
  The local engine over a physical plan, \<open>crates/engine/src/{combine,scan}.rs\<close>: \<open>MiniEvaluator\<close> takes
  one batch per scan, from the left, and folds the combine operators. The transform executor is the
  injected seam \<open>exec\<close>, an arbitrary function or absent. \<open>EvPanic\<close> is the panic of \<open>EXPAND\<close> on a
  row that is shorter than its schema.
\<close>

section \<open>Errors and results\<close>

datatype engine_error =
    EeMissingScanResult nat
  | EeArity string nat
  | EeTransformNoExecutor string
  | EeTransformFailed string string
  | EeTransformOutputMismatch string string
  | EeUnknownColumn string string "string list"
  | EeNotExpandable string string

fun engine_error_code :: "engine_error \<Rightarrow> string" where
  "engine_error_code (EeMissingScanResult _) = ''missing_scan_result''"
| "engine_error_code (EeArity _ _) = ''engine_arity''"
| "engine_error_code (EeTransformNoExecutor _) = ''transform_no_executor''"
| "engine_error_code (EeTransformFailed _ _) = ''transform_failed''"
| "engine_error_code (EeTransformOutputMismatch _ _) = ''transform_output_mismatch''"
| "engine_error_code (EeUnknownColumn _ _ _) = ''unknown_column''"
| "engine_error_code (EeNotExpandable _ _) = ''not_expandable''"

definition unknown_column :: "string \<Rightarrow> missing_column \<Rightarrow> engine_error" where
  "unknown_column stage m = EeUnknownColumn stage (mc_name m) (mc_available m)"

record transform_call =
  tc_name :: string
  tc_mode :: transform_mode
  tc_output :: schema

type_synonym 'j transform_executor = "transform_call \<Rightarrow> 'j row_batch \<Rightarrow> string + 'j row_batch"

datatype ('j, 'c) ev_result = EvPanic | EvErr engine_error | EvOk "'j row_batch" 'c

section \<open>Transforms\<close>

definition check_output_membership :: "string \<Rightarrow> schema \<Rightarrow> 'j row_batch \<Rightarrow> engine_error + unit" where
  "check_output_membership n declared returned =
     (case find (\<lambda>c. schema_column (rb_schema returned) (col_name c) = None) (columns declared) of
        Some c \<Rightarrow> Inl (EeTransformOutputMismatch n (col_name c))
      | None \<Rightarrow>
          (case find (\<lambda>c. schema_column declared (col_name c) = None) (columns (rb_schema returned)) of
             Some c \<Rightarrow> Inl (EeTransformOutputMismatch n (col_name c))
           | None \<Rightarrow> Inr ()))"

definition reorder_to_declared :: "schema \<Rightarrow> 'j row_batch \<Rightarrow> 'j row_batch" where
  "reorder_to_declared declared out =
     (let is = map (\<lambda>c. col_position (rb_schema out) (col_name c)) (columns declared) in
      batch declared
        (map (\<lambda>r. mk_row (map (\<lambda>idx. case idx of Some i \<Rightarrow> value_or_null r i | None \<Rightarrow> VNull) is)) (rb_rows out)))"

definition run_transform ::
  "'j transform_executor option \<Rightarrow> string \<Rightarrow> schema \<Rightarrow> transform_mode \<Rightarrow> 'j row_batch \<Rightarrow> engine_error + 'j row_batch" where
  "run_transform exec n out mode b =
     (case exec of
        None \<Rightarrow> Inl (EeTransformNoExecutor n)
      | Some f \<Rightarrow>
          (case f \<lparr>tc_name = n, tc_mode = mode, tc_output = out\<rparr> b of
             Inl reason \<Rightarrow> Inl (EeTransformFailed n reason)
           | Inr res \<Rightarrow>
               (case check_output_membership n out res of
                  Inl e \<Rightarrow> Inl e
                | Inr _ \<Rightarrow> Inr (reorder_to_declared out res))))"

section \<open>The operators\<close>

definition of_check :: "string \<Rightarrow> missing_column + 'j row_batch \<Rightarrow> 'c \<Rightarrow> ('j, 'c) ev_result" where
  "of_check stage r cur = (case r of Inl m \<Rightarrow> EvErr (unknown_column stage m) | Inr b \<Rightarrow> EvOk b cur)"

fun apply_unary ::
  "('j \<Rightarrow> string) \<Rightarrow> 'j transform_executor option \<Rightarrow> 'j combine_op \<Rightarrow> 'j row_batch \<Rightarrow> 'c \<Rightarrow> ('j, 'c) ev_result" where
  "apply_unary dj exec (CFilter p) b cur = of_check ''where'' (filter_checked b p) cur"
| "apply_unary dj exec (CProject cols) b cur = of_check ''select'' (project_checked b cols) cur"
| "apply_unary dj exec (CProjectExpr terms) b cur = of_check ''select'' (project_expr_checked b terms) cur"
| "apply_unary dj exec (CExtend terms) b cur = EvOk (ev_extend b terms) cur"
| "apply_unary dj exec (CLimit n) b cur = EvOk (ev_limit b n) cur"
| "apply_unary dj exec (CSort keys) b cur = EvOk (ev_sort dj b keys) cur"
| "apply_unary dj exec CDistinct b cur = EvOk (ev_distinct dj b) cur"
| "apply_unary dj exec (CAggregate g aggs) b cur = EvOk (ev_aggregate dj b g aggs) cur"
| "apply_unary dj exec (CExpand field) b cur =
     (case ev_expand b field of
        None \<Rightarrow> EvPanic
      | Some (Inl (EUnknown m)) \<Rightarrow> EvErr (unknown_column ''expand'' m)
      | Some (Inl (ENotExpandable f ty)) \<Rightarrow> EvErr (EeNotExpandable f ty)
      | Some (Inr b') \<Rightarrow> EvOk b' cur)"
| "apply_unary dj exec (CTransform n out mode) b cur =
     (case run_transform exec n out mode b of Inl e \<Rightarrow> EvErr e | Inr b' \<Rightarrow> EvOk b' cur)"
| "apply_unary dj exec (CHashJoin _) b cur = EvOk b cur"
| "apply_unary dj exec (CSetOp _) b cur = EvOk b cur"

fun apply_binary :: "('j \<Rightarrow> string) \<Rightarrow> 'j combine_op \<Rightarrow> 'j row_batch \<Rightarrow> 'j row_batch \<Rightarrow> 'j row_batch" where
  "apply_binary dj (CHashJoin on) l r = ev_hash_join dj l r on"
| "apply_binary dj (CSetOp kind) l r = ev_set_op dj l r kind"
| "apply_binary dj _ l r = l"

fun is_binary_op :: "'j combine_op \<Rightarrow> bool" where
  "is_binary_op (CHashJoin _) = True"
| "is_binary_op (CSetOp _) = True"
| "is_binary_op _ = False"

text \<open>A cursor is the list of batches left.\<close>

fun eval_node ::
  "('j \<Rightarrow> string) \<Rightarrow> 'j transform_executor option \<Rightarrow> 'j physical_plan \<Rightarrow> 'j row_batch list
     \<Rightarrow> ('j, 'j row_batch list) ev_result" where
  "eval_node dj exec (PScan _) cur =
     (case cur of [] \<Rightarrow> EvErr (EeMissingScanResult 0) | b # rest \<Rightarrow> EvOk b rest)"
| "eval_node dj exec (PCombine op inputs) cur =
     (if is_binary_op op
      then (case inputs of
              [l, r] \<Rightarrow>
                (case eval_node dj exec l cur of
                   EvOk lb cur1 \<Rightarrow>
                     (case eval_node dj exec r cur1 of
                        EvOk rb cur2 \<Rightarrow> EvOk (apply_binary dj op lb rb) cur2
                      | other \<Rightarrow> other)
                 | other \<Rightarrow> other)
            | _ \<Rightarrow> EvErr (EeArity (combine_label op) (length inputs)))
      else (case inputs of
              [c] \<Rightarrow>
                (case eval_node dj exec c cur of
                   EvOk b cur1 \<Rightarrow> apply_unary dj exec op b cur1
                 | other \<Rightarrow> other)
            | _ \<Rightarrow> EvErr (EeArity ''unary'' (length inputs))))"

definition execute ::
  "('j \<Rightarrow> string) \<Rightarrow> 'j transform_executor option \<Rightarrow> 'j physical_plan \<Rightarrow> 'j row_batch list
     \<Rightarrow> ('j, 'j row_batch list) ev_result" where
  "execute dj exec plan scans = eval_node dj exec plan scans"

end
