(* ===== verification/Push_Sound.thy ===== *)
theory Push_Sound
  imports Push_Planner Engine_Combine Engine_Sort
begin

text \<open>
  The planner against the all-local evaluation it is meant to preserve. \<open>local_plan\<close> combines
  everything locally over bare scans; \<open>run_pushed\<close> is what a pushed query means to a source that
  applies its parts in the order of a SQL select: \<open>WHERE\<close>, grouping, the select list, \<open>DISTINCT\<close>,
  \<open>ORDER BY\<close>, \<open>LIMIT\<close>. A pushed query does not say in which order its stages came, so a plan is
  preserved if the stages pushed to each source come in that order (\<open>push_ordered\<close>).
\<close>

section \<open>The reference\<close>

fun local_plan :: "'j logical_plan \<Rightarrow> 'j physical_plan" where
  "local_plan (LScan src path s) =
     PScan \<lparr>sn_source = src, sn_path = path, sn_pushed = pushed_default, sn_schema = s, sn_materialize = False\<rparr>"
| "local_plan (LFilter p pred) = combine1 (CFilter pred) (local_plan p)"
| "local_plan (LProject p cols) = combine1 (CProject cols) (local_plan p)"
| "local_plan (LProjectExpr p terms) = combine1 (CProjectExpr terms) (local_plan p)"
| "local_plan (LExtend p terms) = combine1 (CExtend terms) (local_plan p)"
| "local_plan (LLimit p n) = combine1 (CLimit n) (local_plan p)"
| "local_plan (LSort p keys) = combine1 (CSort keys) (local_plan p)"
| "local_plan (LDistinct p) = combine1 CDistinct (local_plan p)"
| "local_plan (LAggregate p g aggs) = combine1 (CAggregate g aggs) (local_plan p)"
| "local_plan (LExpand p field) = combine1 (CExpand field) (local_plan p)"
| "local_plan (LTransform p n out mode) = combine1 (CTransform n out mode) (local_plan p)"
| "local_plan (LJoin _ l r on) = combine2 (CHashJoin on) (local_plan l) (local_plan r)"
| "local_plan (LSetOp kind l r) = combine2 (CSetOp kind) (local_plan l) (local_plan r)"

definition order_of_pushed :: "pushed_order \<Rightarrow> order_key" where
  "order_of_pushed k = \<lparr>ok_column = po_column k, ok_descending = po_descending k\<rparr>"

definition aggregate_of_pushed :: "pushed_aggregate \<Rightarrow> agg_term" where
  "aggregate_of_pushed a =
     \<lparr>ag_func = (case find (\<lambda>f. aggregator_label f = pa_func a) [AggCount, AggSum, AggMin, AggMax, AggArray] of
                  Some f \<Rightarrow> f | None \<Rightarrow> AggCount),
      ag_column = pa_column a, ag_output = pa_output a\<rparr>"

definition run_pushed :: "('j \<Rightarrow> string) \<Rightarrow> pushed_query \<Rightarrow> 'j row_batch \<Rightarrow> 'j row_batch" where
  "run_pushed dj q b0 =
     (let b1 = (case pq_filter q of Some p \<Rightarrow> ev_filter b0 p | None \<Rightarrow> b0);
          b2 = (if pq_group_by q = [] \<and> pq_aggregates q = [] then b1
                else ev_aggregate dj b1 (pq_group_by q) (map aggregate_of_pushed (pq_aggregates q)));
          b3 = (case pq_project q of Some cols \<Rightarrow> ev_project b2 cols | None \<Rightarrow> b2);
          b4 = (if pq_distinct q then ev_distinct dj b3 else b3);
          b5 = (if pq_order q = [] then b4 else ev_sort dj b4 (map order_of_pushed (pq_order q)))
      in case pq_limit q of Some n \<Rightarrow> ev_limit b5 n | None \<Rightarrow> b5)"

definition answers ::
  "('j \<Rightarrow> string) \<Rightarrow> (source_id \<Rightarrow> string \<Rightarrow> 'j row_batch) \<Rightarrow> 'j physical_plan \<Rightarrow> 'j row_batch list" where
  "answers dj data p = map (\<lambda>s. run_pushed dj (sn_pushed s) (data (sn_source s) (sn_path s))) (plan_scans p)"

text \<open>The walk over the stages of a chain: whether a stage was kept local, the rank of the last pushed
  stage, and whether the pushed ones came in order.\<close>

definition push_stage :: "bool \<Rightarrow> nat \<Rightarrow> nat \<Rightarrow> bool \<times> nat \<times> bool \<Rightarrow> bool \<times> nat \<times> bool" where
  "push_stage supported low high st =
     (case st of (pinned, rank, ok) \<Rightarrow>
        if \<not> pinned \<and> supported then (False, high, ok \<and> rank \<le> low) else (True, rank, ok))"

fun push_state :: "pushdown_profile \<Rightarrow> 'j logical_plan \<Rightarrow> bool \<times> nat \<times> bool" where
  "push_state pr (LScan _ _ _) = (False, 0, True)"
| "push_state pr (LFilter p _) = push_stage (supports_where pr) 1 1 (push_state pr p)"
| "push_state pr (LProject p cols) =
     (if is_identity_columns cols then push_state pr p else push_stage (supports_project pr) 2 3 (push_state pr p))"
| "push_state pr (LProjectExpr p _) = push_stage False 0 0 (push_state pr p)"
| "push_state pr (LExtend p _) = push_stage False 0 0 (push_state pr p)"
| "push_state pr (LLimit p _) = push_stage (supports_limit pr) 5 6 (push_state pr p)"
| "push_state pr (LSort p _) = push_stage (supports_order pr) 4 5 (push_state pr p)"
| "push_state pr (LDistinct p) = push_stage (supports_distinct pr) 3 4 (push_state pr p)"
| "push_state pr (LAggregate p g aggs) =
     (case push_stage (supports_aggregate pr \<and> (g = [] \<or> supports_group_by pr)) 1 2 (push_state pr p) of
        (pinned, rank, ok) \<Rightarrow> (pinned, rank, ok \<and> (g \<noteq> [] \<or> aggs \<noteq> [])))"
| "push_state pr (LExpand p _) = push_stage False 0 0 (push_state pr p)"
| "push_state pr (LTransform p _ _ _) = push_stage False 0 0 (push_state pr p)"
| "push_state pr (LJoin _ _ _ _) = (False, 0, True)"
| "push_state pr (LSetOp _ _ _) = (False, 0, True)"

fun push_ordered :: "source_registry \<Rightarrow> 'j logical_plan \<Rightarrow> bool" where
  "push_ordered reg plan =
     (case single_source_chain plan of
        Some src \<Rightarrow> (case source_profile reg src of Some pr \<Rightarrow> snd (snd (push_state pr plan)) | None \<Rightarrow> True)
      | None \<Rightarrow>
          (case plan of
             LJoin _ l r _ \<Rightarrow> push_ordered reg l \<and> push_ordered reg r
           | LSetOp _ l r \<Rightarrow> push_ordered reg l \<and> push_ordered reg r
           | LFilter p _ \<Rightarrow> push_ordered reg p
           | LProject p _ \<Rightarrow> push_ordered reg p
           | LProjectExpr p _ \<Rightarrow> push_ordered reg p
           | LExtend p _ \<Rightarrow> push_ordered reg p
           | LLimit p _ \<Rightarrow> push_ordered reg p
           | LSort p _ \<Rightarrow> push_ordered reg p
           | LDistinct p \<Rightarrow> push_ordered reg p
           | LAggregate p _ _ \<Rightarrow> push_ordered reg p
           | LExpand p _ \<Rightarrow> push_ordered reg p
           | LTransform p _ _ _ \<Rightarrow> push_ordered reg p
           | LScan _ _ _ \<Rightarrow> True))"

declare push_ordered.simps [simp del]

section \<open>Evaluation without a cursor\<close>

fun value_of ::
  "('j \<Rightarrow> string) \<Rightarrow> 'j transform_executor option \<Rightarrow> (source_id \<Rightarrow> string \<Rightarrow> 'j row_batch) \<Rightarrow> 'j physical_plan
     \<Rightarrow> ('j, unit) ev_result" where
  "value_of dj exec data (PScan s) = EvOk (run_pushed dj (sn_pushed s) (data (sn_source s) (sn_path s))) ()"
| "value_of dj exec data (PCombine op inputs) =
     (if is_binary_op op
      then (case inputs of
              [l, r] \<Rightarrow>
                (case value_of dj exec data l of
                   EvOk lb _ \<Rightarrow>
                     (case value_of dj exec data r of
                        EvOk rb _ \<Rightarrow> EvOk (apply_binary dj op lb rb) ()
                      | other \<Rightarrow> other)
                 | other \<Rightarrow> other)
            | _ \<Rightarrow> EvErr (EeArity (combine_label op) (length inputs)))
      else (case inputs of
              [c] \<Rightarrow> (case value_of dj exec data c of EvOk b _ \<Rightarrow> apply_unary dj exec op b () | other \<Rightarrow> other)
            | _ \<Rightarrow> EvErr (EeArity ''unary'' (length inputs))))"

definition with_cursor :: "'c \<Rightarrow> ('j, unit) ev_result \<Rightarrow> ('j, 'c) ev_result" where
  "with_cursor cur r = (case r of EvPanic \<Rightarrow> EvPanic | EvErr e \<Rightarrow> EvErr e | EvOk b _ \<Rightarrow> EvOk b cur)"

lemma with_cursor_simps [simp]:
  "with_cursor cur EvPanic = EvPanic" "with_cursor cur (EvErr e) = EvErr e" "with_cursor cur (EvOk b u) = EvOk b cur"
  by (simp_all add: with_cursor_def)

lemma apply_unary_cursor: "apply_unary dj exec op b cur = with_cursor cur (apply_unary dj exec op b ())"
  by (cases op) (auto simp: of_check_def split: option.splits sum.splits expand_error.splits)

text \<open>The engine takes exactly the answers to a plan's scans from the cursor.\<close>

lemma eval_node_value:
  "eval_node dj exec p (answers dj data p @ rest) = with_cursor rest (value_of dj exec data p)"
proof (induction p arbitrary: rest)
  case (PScan s)
  then show ?case by (simp add: answers_def)
next
  case (PCombine op inputs)
  show ?case
  proof (cases "is_binary_op op")
    case True
    show ?thesis
    proof (cases "\<exists>l r. inputs = [l, r]")
      case True
      then obtain l r where i: "inputs = [l, r]" by blast
      have ans: "answers dj data (PCombine op [l, r]) = answers dj data l @ answers dj data r"
        by (simp add: answers_def)
      show ?thesis
        using PCombine [of l "answers dj data r @ rest"] PCombine [of r rest] \<open>is_binary_op op\<close> i
        unfolding i ans by (auto split: ev_result.splits)
    next
      case False
      then show ?thesis using \<open>is_binary_op op\<close> by (auto split: list.splits)
    qed
  next
    case False
    show ?thesis
    proof (cases "\<exists>c. inputs = [c]")
      case True
      then obtain c where i: "inputs = [c]" by blast
      have ans: "answers dj data (PCombine op [c]) = answers dj data c" by (simp add: answers_def)
      show ?thesis
        using PCombine [of c rest] i False apply_unary_cursor [of dj exec op _ rest]
        unfolding i ans by (auto split: ev_result.splits)
    next
      case f: False
      then show ?thesis using False by (auto split: list.splits)
    qed
  qed
qed

section \<open>What a pushed stage adds\<close>

text \<open>\<open>unset q r\<close>: no part of the query of a rank above \<open>r\<close> is set.\<close>

definition unset :: "pushed_query \<Rightarrow> nat \<Rightarrow> bool" where
  "unset q r \<longleftrightarrow> (r < 1 \<longrightarrow> pq_filter q = None) \<and> (r < 2 \<longrightarrow> pq_group_by q = [] \<and> pq_aggregates q = [])
     \<and> (r < 3 \<longrightarrow> pq_project q = None) \<and> (r < 4 \<longrightarrow> \<not> pq_distinct q) \<and> (r < 5 \<longrightarrow> pq_order q = [])
     \<and> (r < 6 \<longrightarrow> pq_limit q = None)"

lemma batch_collapse [simp]: "batch (rb_schema b) (rb_rows b) = b"
  by (simp add: batch_def)

lemma run_default [simp]: "run_pushed dj pushed_default b = b"
  by (simp add: run_pushed_def pushed_default_def Let_def)

lemma ev_filter_and: "ev_filter (ev_filter b p) q = ev_filter b (PAnd p q)"
  by (simp add: ev_filter_def conj_commute cong: filter_cong)

lemma run_filter:
  "unset q 1 \<Longrightarrow> run_pushed dj (q\<lparr>pq_filter := Some (and_predicate (pq_filter q) p)\<rparr>) b = ev_filter (run_pushed dj q b) p"
  by (cases "pq_filter q") (simp_all add: unset_def run_pushed_def and_predicate_def Let_def ev_filter_and)

lemma aggregate_of_pushed_inverse [simp]: "aggregate_of_pushed (pushed_aggregate_of a) = a"
  by (cases "ag_func a") (simp_all add: aggregate_of_pushed_def pushed_aggregate_of_def)

lemma order_of_pushed_inverse [simp]: "order_of_pushed (pushed_order_of k) = k"
  by (simp add: order_of_pushed_def pushed_order_of_def)

lemma run_aggregate_pushed:
  "unset q 1 \<Longrightarrow> g \<noteq> [] \<or> aggs \<noteq> [] \<Longrightarrow>
     run_pushed dj (q\<lparr>pq_group_by := g, pq_aggregates := map pushed_aggregate_of aggs\<rparr>) b =
       ev_aggregate dj (run_pushed dj q b) g aggs"
  by (auto simp: unset_def run_pushed_def Let_def comp_def)

lemma run_project: "unset q 2 \<Longrightarrow> run_pushed dj (q\<lparr>pq_project := Some cols\<rparr>) b = ev_project (run_pushed dj q b) cols"
  by (auto simp: unset_def run_pushed_def Let_def)

lemma run_distinct: "unset q 3 \<Longrightarrow> run_pushed dj (q\<lparr>pq_distinct := True\<rparr>) b = ev_distinct dj (run_pushed dj q b)"
  by (simp add: unset_def run_pushed_def Let_def cong: if_cong option.case_cong)

lemma sort_no_keys: "ev_sort dj b [] = b"
proof -
  have e: "order_rows dj [] = (\<lambda>_ _. OEqual)" by (intro ext) simp
  have "fold (insert_back (\<lambda>_ _. OEqual)) rows acc = rev rows @ acc" for rows acc :: "'a row list"
  proof (induction rows arbitrary: acc)
    case (Cons r rows)
    have "insert_back (\<lambda>_ _. OEqual) r acc = r # acc" by (cases acc) simp_all
    then show ?case using Cons by simp
  qed simp
  then show ?thesis by (simp add: ev_sort_def sort_by_def sort_positions_def e)
qed

lemma run_sort:
  "unset q 4 \<Longrightarrow> run_pushed dj (q\<lparr>pq_order := map pushed_order_of keys\<rparr>) b = ev_sort dj (run_pushed dj q b) keys"
  by (auto simp: unset_def run_pushed_def Let_def comp_def sort_no_keys cong: if_cong option.case_cong)

lemma run_limit: "unset q 5 \<Longrightarrow> run_pushed dj (q\<lparr>pq_limit := Some n\<rparr>) b = ev_limit (run_pushed dj q b) n"
  by (simp add: unset_def run_pushed_def Let_def cong: if_cong option.case_cong)

section \<open>The residual\<close>

fun apply_all ::
  "('j \<Rightarrow> string) \<Rightarrow> 'j transform_executor option \<Rightarrow> 'j combine_op list \<Rightarrow> 'j row_batch \<Rightarrow> ('j, unit) ev_result" where
  "apply_all dj exec [] b = EvOk b ()"
| "apply_all dj exec (op # ops) b =
     (case apply_unary dj exec op b () of EvOk b' _ \<Rightarrow> apply_all dj exec ops b' | other \<Rightarrow> other)"

lemma apply_all_snoc:
  "apply_all dj exec (ops @ [op]) b =
     (case apply_all dj exec ops b of EvOk b' _ \<Rightarrow> apply_unary dj exec op b' () | other \<Rightarrow> other)"
  by (induction ops arbitrary: b) (auto split: ev_result.splits)

lemma value_of_residual:
  "list_all (\<lambda>op. \<not> is_binary_op op) ops \<Longrightarrow>
     value_of dj exec data (fold combine1 ops p) =
       (case value_of dj exec data p of EvOk b _ \<Rightarrow> apply_all dj exec ops b | other \<Rightarrow> other)"
proof (induction ops arbitrary: p)
  case (Cons op ops)
  then show ?case by (auto simp: combine1_def split: ev_result.splits)
qed (auto split: ev_result.splits)

lemma value_of_combine1:
  "\<not> is_binary_op op \<Longrightarrow> value_of dj exec data (combine1 op p) = EvOk out () \<longleftrightarrow>
     (\<exists>b. value_of dj exec data p = EvOk b () \<and> apply_unary dj exec op b () = EvOk out ())"
  by (auto simp: combine1_def split: ev_result.splits)

text \<open>\<open>chain_inv\<close>: after the walk over a chain whose local value is \<open>out\<close>, the query answered by the source and then
  the residual give \<open>out\<close>.\<close>

definition chain_inv ::
  "('j \<Rightarrow> string) \<Rightarrow> 'j transform_executor option \<Rightarrow> 'j row_batch \<Rightarrow> bool \<times> nat \<times> bool \<Rightarrow> 'j acc
     \<Rightarrow> 'j row_batch \<Rightarrow> bool" where
  "chain_inv dj exec base st a out \<longleftrightarrow>
     local_pinned a = fst st \<and> unset (ac_pushed a) (fst (snd st))
     \<and> list_all (\<lambda>op. \<not> is_binary_op op) (ac_residual a)
     \<and> apply_all dj exec (ac_residual a) (run_pushed dj (ac_pushed a) base) = EvOk out ()"

lemma unset_mono: "unset q r \<Longrightarrow> r \<le> r' \<Longrightarrow> unset q r'"
  by (auto simp: unset_def)

lemma chain_keep:
  assumes "chain_inv dj exec base st a b" "apply_unary dj exec op b () = EvOk out ()" "\<not> is_binary_op op"
  shows "chain_inv dj exec base (True, fst (snd st), ok) (force_local op a) out"
  using assms by (simp add: chain_inv_def force_local_def local_pinned_def apply_all_snoc)

text \<open>One stage: pushed in rank it adds its operator to the query, kept it adds it to the residual.\<close>

lemma chain_stage:
  assumes inv: "chain_inv dj exec base st a b" and op: "apply_unary dj exec op b () = EvOk out ()" "\<not> is_binary_op op"
    and ok: "snd (snd (push_stage supported low high st))"
    and push: "\<And>q. unset q low \<Longrightarrow> run_pushed dj (f q) base = g (run_pushed dj q base) \<and> unset (f q) high"
    and g: "out = g b"
  shows "chain_inv dj exec base (push_stage supported low high st) (push_or_keep supported f op a) out"
proof (cases "\<not> local_pinned a \<and> supported")
  case True
  then have st: "\<not> fst st" "fst (snd st) \<le> low" using inv ok by (auto simp: chain_inv_def push_stage_def split: prod.splits)
  then have res: "ac_residual a = []" using True by (simp add: local_pinned_def)
  have "unset (ac_pushed a) low" using inv st(2) unset_mono by (auto simp: chain_inv_def)
  from push [OF this] show ?thesis
    using inv True st res g by (auto simp: chain_inv_def push_stage_def push_or_keep_def local_pinned_def split: prod.splits)
next
  case False
  then have "push_stage supported low high st = (True, fst (snd st), snd (snd st))"
    using inv by (auto simp: chain_inv_def push_stage_def split: prod.splits)
  then show ?thesis
    using False chain_keep [OF inv op, of "snd (snd st)"] by (auto simp: push_or_keep_def)
qed

text \<open>What a unary operator that succeeded computed.\<close>

lemma unary_results:
  "apply_unary dj exec (CFilter p) b () = EvOk out () \<Longrightarrow> out = ev_filter b p"
  "apply_unary dj exec (CProject cols) b () = EvOk out () \<Longrightarrow> out = ev_project b cols"
  "apply_unary dj exec (CLimit n) b () = EvOk out () \<Longrightarrow> out = ev_limit b n"
  "apply_unary dj exec (CSort keys) b () = EvOk out () \<Longrightarrow> out = ev_sort dj b keys"
  "apply_unary dj exec CDistinct b () = EvOk out () \<Longrightarrow> out = ev_distinct dj b"
  "apply_unary dj exec (CAggregate g aggs) b () = EvOk out () \<Longrightarrow> out = ev_aggregate dj b g aggs"
  by (auto simp: of_check_def filter_checked_def project_checked_def split: sum.splits option.splits if_splits)

lemma project_identity:
  "is_identity_columns cols \<Longrightarrow> apply_unary dj exec (CProject cols) b () = EvOk b ()"
  by (auto simp: of_check_def project_checked_def ev_project_def first_unknown_def is_identity_columns_def)

lemma walk_chain_keeps:
  "walk_chain plan a0 = Inr (s, a) \<Longrightarrow>
     ac_source a = ac_source a0 \<and> ac_path a = ac_path a0 \<and> ac_profile a = ac_profile a0"
  by (induction plan arbitrary: s a)
     (auto simp: push_or_keep_def force_local_def split: sum.splits prod.splits if_splits)

lemma push_stage_ok: "snd (snd (push_stage supported low high st)) \<Longrightarrow> snd (snd st)"
  by (auto simp: push_stage_def split: prod.splits if_splits)

lemma chain_inv_state: "chain_inv dj exec base (p, r, ok) a out = chain_inv dj exec base (p, r, ok') a out"
  by (simp add: chain_inv_def)

text \<open>\<open>chain_ok\<close>: the walk over \<open>plan\<close>, if it and the local evaluation succeed, is sound.\<close>

definition chain_ok ::
  "('j \<Rightarrow> string) \<Rightarrow> 'j transform_executor option \<Rightarrow> (source_id \<Rightarrow> string \<Rightarrow> 'j row_batch) \<Rightarrow> source_id
     \<Rightarrow> pushdown_profile \<Rightarrow> 'j acc \<Rightarrow> 'j logical_plan \<Rightarrow> bool" where
  "chain_ok dj exec data src pr a0 plan \<longleftrightarrow>
     (\<forall>s a out. walk_chain plan a0 = Inr (s, a) \<longrightarrow> single_source_chain plan = Some src
        \<longrightarrow> snd (snd (push_state pr plan)) \<longrightarrow> value_of dj exec data (local_plan plan) = EvOk out ()
        \<longrightarrow> chain_inv dj exec (data src (scan_path plan)) (push_state pr plan) a out)"

lemma chain_okD:
  "chain_ok dj exec data src pr a0 plan \<Longrightarrow> walk_chain plan a0 = Inr (s, a) \<Longrightarrow> single_source_chain plan = Some src \<Longrightarrow>
     snd (snd (push_state pr plan)) \<Longrightarrow> value_of dj exec data (local_plan plan) = EvOk out () \<Longrightarrow>
     chain_inv dj exec (data src (scan_path plan)) (push_state pr plan) a out"
  by (simp add: chain_ok_def)

text \<open>A stage over a chain, pushed or kept, and a stage that is never pushed.\<close>

lemma chain_ok_pushable:
  assumes below: "chain_ok dj exec data src pr a0 p"
    and node: "single_source_chain n = single_source_chain p" "scan_path n = scan_path p"
      "local_plan n = combine1 op (local_plan p)" "\<not> is_binary_op op"
    and state: "push_state pr n = push_stage supported low high (push_state pr p)"
    and walk: "\<And>s a. walk_chain n a0 = Inr (s, a) \<Longrightarrow>
      \<exists>s' a'. walk_chain p a0 = Inr (s', a') \<and> a = push_or_keep supported f op a'"
    and res: "\<And>b out. apply_unary dj exec op b () = EvOk out () \<Longrightarrow> out = g b"
    and push: "\<And>q base. unset q low \<Longrightarrow> run_pushed dj (f q) base = g (run_pushed dj q base)"
    and set: "\<And>q. unset q low \<Longrightarrow> unset (f q) high"
  shows "chain_ok dj exec data src pr a0 n"
  unfolding chain_ok_def node state
proof (intro allI impI)
  fix s a out
  assume "walk_chain n a0 = Inr (s, a)" and c: "single_source_chain p = Some src"
    and ok: "snd (snd (push_stage supported low high (push_state pr p)))"
    and v: "value_of dj exec data (combine1 op (local_plan p)) = EvOk out ()"
  then obtain s' a' where w: "walk_chain p a0 = Inr (s', a')" and a: "a = push_or_keep supported f op a'"
    using walk by blast
  obtain b where b: "value_of dj exec data (local_plan p) = EvOk b ()" "apply_unary dj exec op b () = EvOk out ()"
    using v value_of_combine1 [OF node(4)] by metis
  have "chain_inv dj exec (data src (scan_path p)) (push_state pr p) a' b"
    using chain_okD [OF below w c push_stage_ok [OF ok] b(1)] .
  then show "chain_inv dj exec (data src (scan_path p)) (push_stage supported low high (push_state pr p)) a out"
    unfolding a by (rule chain_stage [where g = g, OF _ b(2) node(4) ok]) (simp_all add: push set res [OF b(2)])
qed

lemma chain_ok_kept:
  assumes below: "chain_ok dj exec data src pr a0 p"
    and node: "single_source_chain n = single_source_chain p" "scan_path n = scan_path p"
      "local_plan n = combine1 op (local_plan p)" "\<not> is_binary_op op"
    and state: "push_state pr n = push_stage False low high (push_state pr p)"
    and walk: "\<And>s a. walk_chain n a0 = Inr (s, a) \<Longrightarrow>
      \<exists>s' a'. walk_chain p a0 = Inr (s', a') \<and> a = force_local op a'"
  shows "chain_ok dj exec data src pr a0 n"
  unfolding chain_ok_def node state
proof (intro allI impI)
  fix s a out
  assume "walk_chain n a0 = Inr (s, a)" and c: "single_source_chain p = Some src"
    and ok: "snd (snd (push_stage False low high (push_state pr p)))"
    and v: "value_of dj exec data (combine1 op (local_plan p)) = EvOk out ()"
  then obtain s' a' where w: "walk_chain p a0 = Inr (s', a')" and a: "a = force_local op a'" using walk by blast
  obtain b where b: "value_of dj exec data (local_plan p) = EvOk b ()" "apply_unary dj exec op b () = EvOk out ()"
    using v value_of_combine1 [OF node(4)] by metis
  have inv: "chain_inv dj exec (data src (scan_path p)) (push_state pr p) a' b"
    using chain_okD [OF below w c push_stage_ok [OF ok] b(1)] .
  obtain pinned r k where st: "push_state pr p = (pinned, r, k)" by (cases "push_state pr p")
  show "chain_inv dj exec (data src (scan_path p)) (push_stage False low high (push_state pr p)) a out"
    using chain_keep [OF inv b(2) node(4), of k] by (simp add: a st push_stage_def)
qed

lemma unset_default [simp]: "unset pushed_default r"
  by (simp add: unset_def pushed_default_def)

lemma walk_inr: "walk_chain p a0 = Inr (s', a') \<Longrightarrow> ac_profile a0 = pr \<Longrightarrow> ac_profile a' = pr"
  using walk_chain_keeps by metis

lemma chain_ok_project:
  assumes "chain_ok dj exec data src pr a0 p" "ac_profile a0 = pr"
  shows "chain_ok dj exec data src pr a0 (LProject p cols)"
proof (cases "is_identity_columns cols")
  case True
  have w: "walk_chain (LProject p cols) a0 = walk_chain p a0"
    using True by (auto split: sum.splits)
  have v: "value_of dj exec data (local_plan (LProject p cols)) = value_of dj exec data (local_plan p)"
    using project_identity [OF True] by (auto simp: combine1_def split: ev_result.splits)
  show ?thesis
    using assms(1) True unfolding chain_ok_def w v by simp
next
  case False
  show ?thesis
    by (rule chain_ok_pushable [OF assms(1), where g = "\<lambda>b. ev_project b cols" and f = "\<lambda>q. q\<lparr>pq_project := Some cols\<rparr>"
          and op = "CProject cols"])
       (auto simp: False unset_def run_project walk_inr [OF _ assms(2)] split: sum.splits intro: unary_results(2))
qed

lemma chain_ok_aggregate:
  assumes "chain_ok dj exec data src pr a0 p" "ac_profile a0 = pr" "g \<noteq> [] \<or> aggs \<noteq> []"
  shows "chain_ok dj exec data src pr a0 (LAggregate p g aggs)"
proof (rule chain_ok_pushable [OF assms(1), where g = "\<lambda>b. ev_aggregate dj b g aggs" and op = "CAggregate g aggs"
      and f = "\<lambda>q. q\<lparr>pq_group_by := g, pq_aggregates := map pushed_aggregate_of aggs\<rparr>"])
  show "push_state pr (LAggregate p g aggs) =
      push_stage (supports_aggregate pr \<and> (g = [] \<or> supports_group_by pr)) 1 2 (push_state pr p)"
    using assms(3) by (auto split: prod.splits)
qed (use assms(3) in \<open>auto simp: unset_def run_aggregate_pushed walk_inr [OF _ assms(2)] split: sum.splits
       intro: unary_results(6)\<close>)

lemma chain_ok_filter:
  assumes "chain_ok dj exec data src pr a0 p" "ac_profile a0 = pr"
  shows "chain_ok dj exec data src pr a0 (LFilter p pred)"
  by (rule chain_ok_pushable [OF assms(1), where g = "\<lambda>b. ev_filter b pred" and op = "CFilter pred"
        and f = "\<lambda>q. q\<lparr>pq_filter := Some (and_predicate (pq_filter q) pred)\<rparr>"])
     (auto simp: run_filter walk_inr [OF _ assms(2)] split: sum.splits intro: unary_results(1), auto simp: unset_def)

lemma chain_ok_limit:
  assumes "chain_ok dj exec data src pr a0 p" "ac_profile a0 = pr"
  shows "chain_ok dj exec data src pr a0 (LLimit p n)"
  by (rule chain_ok_pushable [OF assms(1), where g = "\<lambda>b. ev_limit b n" and op = "CLimit n" and f = "\<lambda>q. q\<lparr>pq_limit := Some n\<rparr>"])
     (auto simp: run_limit walk_inr [OF _ assms(2)] split: sum.splits intro: unary_results(3), auto simp: unset_def)

lemma chain_ok_sort:
  assumes "chain_ok dj exec data src pr a0 p" "ac_profile a0 = pr"
  shows "chain_ok dj exec data src pr a0 (LSort p keys)"
  by (rule chain_ok_pushable [OF assms(1), where g = "\<lambda>b. ev_sort dj b keys" and op = "CSort keys"
        and f = "\<lambda>q. q\<lparr>pq_order := map pushed_order_of keys\<rparr>"])
     (auto simp: run_sort walk_inr [OF _ assms(2)] split: sum.splits intro: unary_results(4), auto simp: unset_def)

lemma chain_ok_distinct:
  assumes "chain_ok dj exec data src pr a0 p" "ac_profile a0 = pr"
  shows "chain_ok dj exec data src pr a0 (LDistinct p)"
  by (rule chain_ok_pushable [OF assms(1), where g = "ev_distinct dj" and op = CDistinct and f = "\<lambda>q. q\<lparr>pq_distinct := True\<rparr>"])
     (auto simp: run_distinct walk_inr [OF _ assms(2)] split: sum.splits intro: unary_results(5), auto simp: unset_def)

lemma chain_ok_empty_aggregate: "chain_ok dj exec data src pr a0 (LAggregate p [] [])"
  by (auto simp: chain_ok_def split: prod.splits)

lemma chain_ok_chain:
  assumes "ac_profile a0 = pr" "ac_pushed a0 = pushed_default" "ac_residual a0 = []"
  shows "chain_ok dj exec data src pr a0 plan"
proof (induction plan)
  case (LScan x y z)
  then show ?case using assms by (auto simp: chain_ok_def chain_inv_def local_pinned_def)
next
  case (LProjectExpr p terms)
  show ?case by (rule chain_ok_kept [OF LProjectExpr, where op = "CProjectExpr terms"]) (auto split: sum.splits)
next
  case (LExtend p terms)
  show ?case by (rule chain_ok_kept [OF LExtend, where op = "CExtend terms"]) (auto split: sum.splits)
next
  case (LExpand p field)
  show ?case by (rule chain_ok_kept [OF LExpand, where op = "CExpand field"]) (auto split: sum.splits)
next
  case (LTransform p n out mode)
  show ?case by (rule chain_ok_kept [OF LTransform, where op = "CTransform n out mode"]) (auto split: sum.splits)
next
  case (LAggregate p g aggs)
  then show ?case
    using chain_ok_aggregate [OF LAggregate assms(1)] chain_ok_empty_aggregate by (cases "g \<noteq> [] \<or> aggs \<noteq> []") auto
next
  case (LJoin k l r on)
  show ?case by (simp add: chain_ok_def)
next
  case (LSetOp k l r)
  show ?case by (simp add: chain_ok_def)
qed (simp_all add: assms chain_ok_filter chain_ok_project chain_ok_limit chain_ok_sort chain_ok_distinct)

section \<open>Plans\<close>

lemma partition_chain_sound:
  assumes "single_source_chain plan = Some src" "partition_by_source plan reg = Inr pp" "push_ordered reg plan"
    and "value_of dj exec data (local_plan plan) = EvOk out ()"
  shows "value_of dj exec data pp = EvOk out ()"
proof -
  obtain pr s a where pr: "source_profile reg src = Some pr" and pp: "pp = acc_finish a s"
    and w: "walk_chain plan (acc_new src (scan_path plan) pr) = Inr (s, a)"
    using assms(1,2)
    by (auto simp: partition_by_source.simps [of plan] push_chain_def split: option.splits if_splits sum.splits)
  have "snd (snd (push_state pr plan))" using assms(1,3) pr by (simp add: push_ordered.simps [of _ plan])
  then have "chain_inv dj exec (data src (scan_path plan)) (push_state pr plan) a out"
    using chain_okD [OF chain_ok_chain w assms(1)] assms(4) by (simp add: acc_new_def)
  then show ?thesis
    using walk_chain_keeps [OF w] by (simp add: pp acc_finish_def value_of_residual chain_inv_def acc_new_def)
qed

lemma partition_unary_sound:
  assumes "\<And>pp out. partition_by_source p reg = Inr pp \<Longrightarrow> push_ordered reg p \<Longrightarrow>
      value_of dj exec data (local_plan p) = EvOk out () \<Longrightarrow> value_of dj exec data pp = EvOk out ()"
    and node: "single_source_chain n = single_source_chain p" "local_plan n = combine1 op (local_plan p)" "\<not> is_binary_op op"
      "single_source_chain p = None \<Longrightarrow> partition_by_source n reg = map_plan (combine1 op) (partition_by_source p reg)"
      "single_source_chain p = None \<Longrightarrow> push_ordered reg n = push_ordered reg p"
    and n: "partition_by_source n reg = Inr pp" "push_ordered reg n" "value_of dj exec data (local_plan n) = EvOk out ()"
  shows "value_of dj exec data pp = EvOk out ()"
proof (cases "single_source_chain p")
  case None
  then show ?thesis
    using assms(1) node n
    by (auto simp: map_plan_def value_of_combine1 split: sum.splits)
next
  case (Some src)
  then show ?thesis using partition_chain_sound [of n src reg pp] node(1) n by simp
qed

lemma partition_sound:
  "partition_by_source plan reg = Inr pp \<Longrightarrow> push_ordered reg plan \<Longrightarrow>
     value_of dj exec data (local_plan plan) = EvOk out () \<Longrightarrow> value_of dj exec data pp = EvOk out ()"
proof (induction plan arbitrary: pp out)
  case (LScan x y z)
  then show ?case using partition_chain_sound [of "LScan x y z" x] by simp
next
  case (LFilter p pred)
  show ?case by (rule partition_unary_sound [where p = p and op = "CFilter pred", OF _ _ _ _ _ _ LFilter.prems], rule LFilter.IH, assumption+)
      (simp_all add: partition_by_source.simps [of "LFilter p pred"] push_ordered.simps [of _ "LFilter p pred"])
next
  case (LProject p cols)
  show ?case by (rule partition_unary_sound [where p = p and op = "CProject cols", OF _ _ _ _ _ _ LProject.prems], rule LProject.IH, assumption+)
      (simp_all add: partition_by_source.simps [of "LProject p cols"] push_ordered.simps [of _ "LProject p cols"])
next
  case (LProjectExpr p terms)
  show ?case by (rule partition_unary_sound [where p = p and op = "CProjectExpr terms", OF _ _ _ _ _ _ LProjectExpr.prems], rule LProjectExpr.IH, assumption+)
      (simp_all add: partition_by_source.simps [of "LProjectExpr p terms"] push_ordered.simps [of _ "LProjectExpr p terms"])
next
  case (LExtend p terms)
  show ?case by (rule partition_unary_sound [where p = p and op = "CExtend terms", OF _ _ _ _ _ _ LExtend.prems], rule LExtend.IH, assumption+)
      (simp_all add: partition_by_source.simps [of "LExtend p terms"] push_ordered.simps [of _ "LExtend p terms"])
next
  case (LLimit p n)
  show ?case by (rule partition_unary_sound [where p = p and op = "CLimit n", OF _ _ _ _ _ _ LLimit.prems], rule LLimit.IH, assumption+)
      (simp_all add: partition_by_source.simps [of "LLimit p n"] push_ordered.simps [of _ "LLimit p n"])
next
  case (LSort p keys)
  show ?case by (rule partition_unary_sound [where p = p and op = "CSort keys", OF _ _ _ _ _ _ LSort.prems], rule LSort.IH, assumption+)
      (simp_all add: partition_by_source.simps [of "LSort p keys"] push_ordered.simps [of _ "LSort p keys"])
next
  case (LDistinct p)
  show ?case by (rule partition_unary_sound [where p = p and op = CDistinct, OF _ _ _ _ _ _ LDistinct.prems], rule LDistinct.IH, assumption+)
      (simp_all add: partition_by_source.simps [of "LDistinct p"] push_ordered.simps [of _ "LDistinct p"])
next
  case (LAggregate p g aggs)
  show ?case by (rule partition_unary_sound [where p = p and op = "CAggregate g aggs", OF _ _ _ _ _ _ LAggregate.prems], rule LAggregate.IH, assumption+)
      (simp_all add: partition_by_source.simps [of "LAggregate p g aggs"] push_ordered.simps [of _ "LAggregate p g aggs"])
next
  case (LExpand p field)
  show ?case by (rule partition_unary_sound [where p = p and op = "CExpand field", OF _ _ _ _ _ _ LExpand.prems], rule LExpand.IH, assumption+)
      (simp_all add: partition_by_source.simps [of "LExpand p field"] push_ordered.simps [of _ "LExpand p field"])
next
  case (LTransform p n o' m)
  show ?case by (rule partition_unary_sound [where p = p and op = "CTransform n o' m", OF _ _ _ _ _ _ LTransform.prems], rule LTransform.IH, assumption+)
      (simp_all add: partition_by_source.simps [of "LTransform p n o' m"] push_ordered.simps [of _ "LTransform p n o' m"])
next
  case (LJoin k l r on)
  then show ?case
    by (auto simp: partition_by_source.simps [of "LJoin k l r on"] push_ordered.simps [of _ "LJoin k l r on"]
        map_plan_def combine2_def split: sum.splits ev_result.splits)
next
  case (LSetOp k l r)
  then show ?case
    by (auto simp: partition_by_source.simps [of "LSetOp k l r"] push_ordered.simps [of _ "LSetOp k l r"]
        map_plan_def combine2_def split: sum.splits ev_result.splits)
qed

lemma execute_value: "execute dj exec p (answers dj data p) = EvOk out [] \<longleftrightarrow> value_of dj exec data p = EvOk out ()"
  using eval_node_value [of dj exec p data "[]"] by (auto simp: execute_def with_cursor_def split: ev_result.splits)

text \<open>C17: partitioning preserves the answer. If a plan is partitioned, the stages pushed to each source come in
  the order of a select, and the all-local evaluation gives a batch, then the engine run on the
  partitioned plan, over what the sources answer to their pushed queries, gives the same batch and
  uses up the answers.\<close>

theorem partition_preserves:
  assumes "partition_by_source plan reg = Inr pp" "push_ordered reg plan"
    and "execute dj exec (local_plan plan) (answers dj data (local_plan plan)) = EvOk out []"
  shows "execute dj exec pp (answers dj data pp) = EvOk out []"
  using assms partition_sound by (simp add: execute_value) blast

definition demo_scan :: "unit logical_plan" where
  "demo_scan = LScan ''s'' ''/s'' (rb_schema demo_batch)"

definition demo_one :: predicate where
  "demo_one = PCmp (ColRef [''a'']) Eq (LInt 1)"

definition demo_push_plan :: "unit logical_plan" where
  "demo_push_plan = LJoin Inner (LLimit (LDistinct (LFilter demo_scan demo_one)) 1) (LScan ''t'' ''/t'' (rb_schema demo_batch))
     \<lparr>jo_left = ''a'', jo_right = ''a''\<rparr>"

definition demo_sources :: source_registry where
  "demo_sources = register_source (register_source Map.empty ''t'' PushNone) ''s'' PushFull"

definition demo_joined :: "unit row_batch" where
  "demo_joined = ev_hash_join (\<lambda>_. []) (batch (rb_schema demo_batch) [mk_row [VInt 1, VText ''y'']]) demo_batch
     \<lparr>jo_left = ''a'', jo_right = ''a''\<rparr>"

lemma demo_partitions: "\<exists>pp. partition_by_source demo_push_plan demo_sources = Inr pp"
  by (cases "partition_by_source demo_push_plan demo_sources")
     (simp_all add: partition_by_source.simps demo_push_plan_def demo_scan_def demo_sources_def push_chain_def
       register_source_def source_profile_def source_readable_def map_plan_def)

lemma demo_runs:
  "execute (\<lambda>_. []) None (local_plan demo_push_plan) (answers (\<lambda>_. []) (\<lambda>_ _. demo_batch) (local_plan demo_push_plan)) =
     EvOk demo_joined []"
  "rb_rows demo_joined = [mk_row [VInt 1, VText ''y'', VInt 1, VText ''y'']]"
  by code_simp+

theorem partition_preserves_witness:
  "\<exists>pp out. partition_by_source demo_push_plan demo_sources = Inr pp
     \<and> execute (\<lambda>_. []) None pp (answers (\<lambda>_. []) (\<lambda>_ _. demo_batch) pp) = EvOk out []
     \<and> rb_rows out = [mk_row [VInt 1, VText ''y'', VInt 1, VText ''y'']]"
proof -
  obtain pp where pp: "partition_by_source demo_push_plan demo_sources = Inr pp" using demo_partitions by blast
  have "push_ordered demo_sources demo_push_plan" by code_simp
  from partition_preserves [OF pp this demo_runs(1)] pp demo_runs(2) show ?thesis by blast
qed

text \<open>What the pushed query forgets. A source that supports everything is asked the same for
  \<open>LIMIT\<close> before \<open>WHERE\<close> as for \<open>WHERE\<close> before \<open>LIMIT\<close>, and only the last of several limits, projections,
  orders and groupings reaches it; evaluated locally, the plans differ.\<close>

theorem pushdown_order_lost:
  "partition_by_source (LFilter (LLimit (LScan src path s) n) p) (register_source reg src PushFull) =
     partition_by_source (LLimit (LFilter (LScan src path s) p) n) (register_source reg src PushFull)
   \<and> partition_by_source (LLimit (LLimit (LScan src path s) m) n) (register_source reg src PushFull) =
     partition_by_source (LLimit (LScan src path s) n) (register_source reg src PushFull)
   \<and> partition_by_source (LDistinct (LLimit (LScan src path s) n)) (register_source reg src PushFull) =
     partition_by_source (LLimit (LDistinct (LScan src path s)) n) (register_source reg src PushFull)
   \<and> execute (\<lambda>_. []) None (local_plan (LFilter (LLimit demo_scan 1) demo_one)) [demo_batch]
     \<noteq> execute (\<lambda>_. []) None (local_plan (LLimit (LFilter demo_scan demo_one) 1)) [demo_batch]
   \<and> execute (\<lambda>_. []) None (local_plan (LLimit (LLimit demo_scan 1) 2)) [demo_batch]
     \<noteq> execute (\<lambda>_. []) None (local_plan (LLimit demo_scan 2)) [demo_batch]"
proof (intro conjI)
  show "execute (\<lambda>_. []) None (local_plan (LFilter (LLimit demo_scan 1) demo_one)) [demo_batch]
     \<noteq> execute (\<lambda>_. []) None (local_plan (LLimit (LFilter demo_scan demo_one) 1)) [demo_batch]"
    by code_simp
  show "execute (\<lambda>_. []) None (local_plan (LLimit (LLimit demo_scan 1) 2)) [demo_batch]
     \<noteq> execute (\<lambda>_. []) None (local_plan (LLimit demo_scan 2)) [demo_batch]"
    by code_simp
qed (simp_all add: partition_by_source.simps [of "LFilter _ _"] partition_by_source.simps [of "LLimit _ _"]
       partition_by_source.simps [of "LDistinct _"] push_chain_def register_source_def source_profile_def
       source_readable_def acc_new_def push_or_keep_def local_pinned_def acc_finish_def push_flag_def)

end
