(* ===== verification/Lang_Token.thy ===== *)
theory Lang_Token
  imports Text_Util Types_Value
begin

text \<open>
  The vocabulary of the lexer, \<open>crates/lang/src/{token,keywords,span,error}.rs\<close>: keywords, tokens, path
  segments, spans, lexer errors. A \<open>char\<close> is a code point below 256 and takes one or two bytes of
  UTF-8 (\<open>char_len\<close>); spans count bytes.
\<close>

section \<open>Keywords\<close>

datatype keyword =
    KwWhere | KwSelect | KwExtend | KwSet | KwAggregate | KwGroupBy | KwOrderBy | KwLimit | KwDistinct |
    KwJoin | KwUnion | KwExcept | KwIntersect | KwAs | KwExpand | KwLet | KwInsertInto | KwUpsertInto |
    KwUpdate | KwRemove | KwValues | KwReturning | KwCall | KwTransaction | KwDecode | KwEncode |
    KwPreview | KwCommit | KwCreate | KwEndpoint | KwTrigger | KwJob | KwView | KwMaterializedView |
    KwWebhook | KwPolicy | KwDo | KwEvery | KwOn

fun keyword_text :: "keyword \<Rightarrow> string" where
  "keyword_text KwWhere = ''where''"
| "keyword_text KwSelect = ''select''"
| "keyword_text KwExtend = ''extend''"
| "keyword_text KwSet = ''set''"
| "keyword_text KwAggregate = ''aggregate''"
| "keyword_text KwGroupBy = ''group by''"
| "keyword_text KwOrderBy = ''order by''"
| "keyword_text KwLimit = ''limit''"
| "keyword_text KwDistinct = ''distinct''"
| "keyword_text KwJoin = ''join''"
| "keyword_text KwUnion = ''union''"
| "keyword_text KwExcept = ''except''"
| "keyword_text KwIntersect = ''intersect''"
| "keyword_text KwAs = ''as''"
| "keyword_text KwExpand = ''expand''"
| "keyword_text KwLet = ''let''"
| "keyword_text KwInsertInto = ''insert into''"
| "keyword_text KwUpsertInto = ''upsert into''"
| "keyword_text KwUpdate = ''update''"
| "keyword_text KwRemove = ''remove''"
| "keyword_text KwValues = ''values''"
| "keyword_text KwReturning = ''returning''"
| "keyword_text KwCall = ''call''"
| "keyword_text KwTransaction = ''transaction''"
| "keyword_text KwDecode = ''decode''"
| "keyword_text KwEncode = ''encode''"
| "keyword_text KwPreview = ''preview''"
| "keyword_text KwCommit = ''commit''"
| "keyword_text KwCreate = ''create''"
| "keyword_text KwEndpoint = ''endpoint''"
| "keyword_text KwTrigger = ''trigger''"
| "keyword_text KwJob = ''job''"
| "keyword_text KwView = ''view''"
| "keyword_text KwMaterializedView = ''materialized view''"
| "keyword_text KwWebhook = ''webhook''"
| "keyword_text KwPolicy = ''policy''"
| "keyword_text KwDo = ''do''"
| "keyword_text KwEvery = ''every''"
| "keyword_text KwOn = ''on''"

definition single_word_keywords :: "(string \<times> keyword) list" where
  "single_word_keywords =
     [(''where'', KwWhere), (''select'', KwSelect), (''extend'', KwExtend), (''set'', KwSet),
      (''aggregate'', KwAggregate), (''limit'', KwLimit), (''distinct'', KwDistinct), (''join'', KwJoin),
      (''union'', KwUnion), (''except'', KwExcept), (''intersect'', KwIntersect), (''as'', KwAs),
      (''expand'', KwExpand), (''let'', KwLet), (''update'', KwUpdate), (''remove'', KwRemove),
      (''values'', KwValues), (''returning'', KwReturning), (''call'', KwCall), (''transaction'',
      KwTransaction), (''decode'', KwDecode), (''encode'', KwEncode), (''preview'', KwPreview),
      (''commit'', KwCommit), (''create'', KwCreate), (''endpoint'', KwEndpoint), (''trigger'',
      KwTrigger), (''job'', KwJob), (''view'', KwView), (''webhook'', KwWebhook), (''policy'', KwPolicy),
      (''do'', KwDo), (''every'', KwEvery), (''on'', KwOn)]"

definition keyword_from_word :: "string \<Rightarrow> keyword option" where
  "keyword_from_word w = map_of single_word_keywords (ascii_lower w)"

section \<open>Spans\<close>

record span =
  sp_start :: u32
  sp_end :: u32

record 'a spanned =
  sd_node :: 'a
  sd_span :: span

definition span_len :: "span \<Rightarrow> u32" where
  "span_len s = (if sp_start s \<le> sp_end s then sp_end s - sp_start s else 0)"

definition span_is_empty :: "span \<Rightarrow> bool" where
  "span_is_empty s \<longleftrightarrow> sp_end s \<le> sp_start s"

definition char_len :: "char \<Rightarrow> nat" where
  "char_len c = (if (of_char c :: nat) < 128 then 1 else 2)"

fun text_len :: "string \<Rightarrow> nat" where
  "text_len [] = 0"
| "text_len (c # cs) = char_len c + text_len cs"

section \<open>Tokens\<close>

datatype size_unit = UB | UKB | UMB | UGB | UTB

fun size_unit_text :: "size_unit \<Rightarrow> string" where
  "size_unit_text UB = ''B''"
| "size_unit_text UKB = ''KB''"
| "size_unit_text UMB = ''MB''"
| "size_unit_text UGB = ''GB''"
| "size_unit_text UTB = ''TB''"

definition size_unit_from_word :: "string \<Rightarrow> size_unit option" where
  "size_unit_from_word w = map_of [(''B'', UB), (''KB'', UKB), (''MB'', UMB), (''GB'', UGB), (''TB'', UTB)] w"

datatype lit_type = LtDate | LtTime | LtTimestamp

fun lit_type_text :: "lit_type \<Rightarrow> string" where
  "lit_type_text LtDate = ''DATE''"
| "lit_type_text LtTime = ''TIME''"
| "lit_type_text LtTimestamp = ''TIMESTAMP''"

definition lit_type_from_word :: "string \<Rightarrow> lit_type option" where
  "lit_type_from_word w = map_of [(''DATE'', LtDate), (''TIME'', LtTime), (''TIMESTAMP'', LtTimestamp)] w"

record path_seg =
  ps_name :: string
  ps_version :: "string option"
  ps_glob :: bool
  ps_selection :: bool

definition path_seg_new :: "string \<Rightarrow> string option \<Rightarrow> bool \<Rightarrow> path_seg" where
  "path_seg_new name version glob = \<lparr>ps_name = name, ps_version = version, ps_glob = glob, ps_selection = False\<rparr>"

definition path_seg_selection :: "string \<Rightarrow> path_seg" where
  "path_seg_selection raw = \<lparr>ps_name = raw, ps_version = None, ps_glob = False, ps_selection = True\<rparr>"

datatype token =
    TkKeyword keyword
  | TkPipe | TkEq | TkEqEq | TkNe | TkLt | TkGt | TkLe | TkGe | TkTilde | TkPlus | TkMinus | TkSlash
  | TkLParen | TkRParen | TkLBrace | TkRBrace | TkLBracket | TkRBracket
  | TkSemicolon | TkComma | TkColon | TkDot | TkStar | TkArrow
  | TkIdent string
  | TkPath "path_seg list"
  | TkStr string
  | TkInt i64
  | TkFloat f64
  | TkBool bool
  | TkNull
  | TkSize u64 size_unit
  | TkTypedLit lit_type string
  | TkBytes "u8 list"

definition literal_word :: "string \<Rightarrow> token option" where
  "literal_word w =
     (if eq_ignore_case w ''TRUE'' then Some (TkBool True)
      else if eq_ignore_case w ''FALSE'' then Some (TkBool False)
      else if eq_ignore_case w ''NULL'' then Some TkNull
      else None)"

section \<open>Lexer errors\<close>

datatype lex_error_kind =
    LekUnterminatedString | LekBadEscape | LekUnexpectedChar char | LekBadNumber | LekBadHexBytes
  | LekPathSeparatorInQuotedSegment | LekEmptySelectionSegment

fun lex_error_kind_str :: "lex_error_kind \<Rightarrow> string" where
  "lex_error_kind_str LekUnterminatedString = ''UNTERMINATED_STRING''"
| "lex_error_kind_str LekBadEscape = ''BAD_ESCAPE''"
| "lex_error_kind_str (LekUnexpectedChar _) = ''UNEXPECTED_CHAR''"
| "lex_error_kind_str LekBadNumber = ''BAD_NUMBER''"
| "lex_error_kind_str LekBadHexBytes = ''BAD_HEX_BYTES''"
| "lex_error_kind_str LekPathSeparatorInQuotedSegment = ''PATH_SEPARATOR_IN_QUOTED_SEGMENT''"
| "lex_error_kind_str LekEmptySelectionSegment = ''EMPTY_SELECTION_SEGMENT''"

record lex_error =
  le_span :: span
  le_kind :: lex_error_kind

definition span_text :: "span \<Rightarrow> string" where
  "span_text s = show_nat (unat (sp_start s)) @ ''..'' @ show_nat (unat (sp_end s))"

definition lex_error_text :: "lex_error \<Rightarrow> string" where
  "lex_error_text e =
     ''['' @ lex_error_kind_str (le_kind e) @ ''] at '' @ span_text (le_span e) @
     (case le_kind e of
        LekUnexpectedChar c \<Rightarrow> '' | unexpected character '' @ [CHR 0x60, c, CHR 0x60]
      | _ \<Rightarrow> [])"

section \<open>Facts\<close>

lemma text_len_append [simp]: "text_len (a @ b) = text_len a + text_len b"
  by (induction a) simp_all

lemma char_len_pos [simp]: "0 < char_len c" "char_len c \<noteq> 0"
  by (simp_all add: char_len_def)

lemma text_len_zero [simp]: "text_len s = 0 \<longleftrightarrow> s = []"
  by (cases s) (simp_all add: char_len_def)

lemma text_len_inj: "text_len a = text_len a' \<Longrightarrow> a @ b = a' @ b' \<Longrightarrow> a = a'"
proof (induction a arbitrary: a')
  case Nil
  then show ?case using text_len_zero [of a'] by simp
next
  case (Cons x a)
  then show ?case by (cases a') (auto simp: char_len_def split: if_splits)
qed

lemma keyword_word_roundtrip:
  "keyword_from_word (keyword_text k) = (if CHR '' '' \<in> set (keyword_text k) then None else Some k)"
  by (induction k; code_simp)

end
