(* ===== verification/Parser_Ast.thy ===== *)
theory Parser_Ast
  imports Lang_Token Types_Predicate
begin

text \<open>
  The syntax trees of the language, \<open>crates/parser/src/ast.rs\<close>: literals, operators, expressions,
  pipelines, effect and server statements. \<open>Box\<close> is dropped. The single \<open>fn(args)\<close> reference of an
  expression is written into its constructor; the three optional statements of a server declaration
  are arguments of its constructor, its other clauses a record. Serde derives are not modelled.
\<close>

section \<open>Literals, operators, paths\<close>

type_synonym ident = string

datatype ast_literal =
    AStr string | AInt i64 | AFloat f64 | ABool bool | ANull
  | ASize u64 string
  | ATyped string string
  | ABytes "u8 list"

datatype ast_op =
    OpEq | OpNe | OpLt | OpGt | OpLe | OpGe | OpAnd | OpOr | OpNot | OpLike | OpMatch
  | OpAdd | OpSub | OpMul | OpDiv

text \<open>The derived \<open>Debug\<close> text, which error messages print.\<close>

fun op_debug :: "ast_op \<Rightarrow> string" where
  "op_debug OpEq = ''Eq''" | "op_debug OpNe = ''Ne''" | "op_debug OpLt = ''Lt''"
| "op_debug OpGt = ''Gt''" | "op_debug OpLe = ''Le''" | "op_debug OpGe = ''Ge''"
| "op_debug OpAnd = ''And''" | "op_debug OpOr = ''Or''" | "op_debug OpNot = ''Not''"
| "op_debug OpLike = ''Like''" | "op_debug OpMatch = ''Match''" | "op_debug OpAdd = ''Add''"
| "op_debug OpSub = ''Sub''" | "op_debug OpMul = ''Mul''" | "op_debug OpDiv = ''Div''"

record path_segment =
  pg_name :: ident
  pg_version :: "string option"
  pg_glob :: bool
  pg_selection :: bool

record path_expr =
  pe_segments :: "path_segment list"
  pe_as_of :: "string option"
  pe_span :: span

section \<open>Expressions\<close>

record type_ann =
  tn_name :: ident

record param =
  pm_name :: ident
  pm_ty :: "type_ann option"

datatype expr =
    ELit ast_literal
  | ECol ident
  | EPath "ident list"
  | EFn ident "expr list" span
  | EBinary ast_op expr expr
  | EUnary ast_op expr
  | EIn expr "expr list"
  | EBetween expr expr expr
  | ELike expr expr
  | EAnyOp ast_op expr "expr list"
  | ELambda "param list" expr
  | EArray "expr list"
  | EStruct "(string \<times> expr) list"

record named_arg =
  na_name :: "ident option"
  na_value :: expr

record call_ref =
  cr_driver :: ident
  cr_action :: ident
  cr_args :: "named_arg list"
  cr_span :: span

record assignment =
  as_name :: ident
  as_value :: expr

datatype projection = PjStar | PjExpr expr "ident option"

record ast_order_key =
  ak_expr :: expr
  ak_descending :: bool

record ast_values =
  av_columns :: "ident list option"
  av_rows :: "expr list list"

section \<open>Pipelines\<close>

datatype effect_verb = EvInsert | EvUpsert | EvUpdate | EvRemove

record codec_ref =
  cd_fmt :: ident
  cd_relation :: "ident option"
  cd_span :: span

record transform_ref =
  tr_name :: ident
  tr_span :: span

record of_column =
  oc_name :: string
  oc_ty :: string
  oc_nullable :: bool
  oc_primary_key :: bool
  oc_unique :: bool

datatype of_target = OfNamed string | OfInline "of_column list"

record of_ref =
  or_target :: of_target
  or_span :: span

record follow_ref =
  fr_field :: ident
  fr_into :: "path_segment list option"
  fr_span :: span

record post_ref =
  pr_body :: expr
  pr_span :: span

record arm_write =
  aw_verb :: effect_verb
  aw_target :: path_expr
  aw_returning :: "projection list option"
  aw_span :: span

datatype pipe_op =
    OWhere expr
  | OSelect "projection list"
  | OExtend "assignment list"
  | OSet "assignment list"
  | OAggregate "projection list"
  | OGroupBy "expr list"
  | OOrderBy "ast_order_key list"
  | OLimit i64
  | ODistinct
  | OJoin source_expr expr
  | OUnion pipeline
  | OExcept pipeline
  | OIntersect pipeline
  | OAs ident
  | OExpand "ident list"
  | ODecode codec_ref
  | OEncode codec_ref
  | OCall call_ref
  | OTransform transform_ref
  | OSwitch ident "switch_arm list" span
  | OFollow follow_ref
  | OPost post_ref
  | OOf of_ref
and source_expr = SrcPath path_expr | SrcValues ast_values | SrcSubquery pipeline | SrcName ident
and pipeline = Pipeline (pl_source: source_expr) (pl_ops: "pipe_op list")
and switch_arm = SwitchArm (arm_label: "string option") (arm_ops: "pipe_op list") (arm_write: "arm_write option")
                   (arm_span: span)

section \<open>Statements\<close>

datatype effect_body =
    EbValues ast_values
  | EbPipeline pipeline
  | EbSetWhere "assignment list" "expr option"

record effect_stmt =
  es_verb :: effect_verb
  es_target :: path_expr
  es_body :: effect_body
  es_returning :: "projection list option"

datatype ddl_kind =
    DkEndpoint | DkTrigger | DkJob | DkView | DkMaterializedView | DkWebhook | DkPolicy | DkConnection | DkAgent

record policy_subject_ast =
  psa_kind :: string
  psa_name :: string

record policy_rule_ast =
  pra_allow :: bool
  pra_verbs :: "string list"
  pra_all_token :: bool
  pra_driver :: "string option"
  pra_subject :: "policy_subject_ast option"
  pra_scope :: "string option"
  pra_condition :: "expr option"

record connection_decl_ast =
  cda_driver :: "string option"
  cda_at_locator :: "string option"
  cda_secret_ref :: "string option"

record server_ddl =
  sd_kind :: ddl_kind
  sd_name :: ident
  sd_target :: "ident list"
  sd_every :: "string option"
  sd_on :: "string option"
  sd_policy_rules :: "policy_rule_ast list"
  sd_policy :: "string option"
  sd_connection :: "connection_decl_ast option"

text \<open>\<open>StDdl d do_plan as_query where_pred\<close>.\<close>

datatype statement =
    StQuery pipeline
  | StEffect effect_stmt
  | StDdl server_ddl "statement option" "statement option" "statement option"
  | StPlan bool statement span
  | StLet ident statement statement
  | StTransaction "statement list" span

end
