(* ===== verification/Result_Util.thy ===== *)
theory Result_Util
  imports Text_Util
begin

text \<open>
  Fallible computations as sums, with the error on the left: \<open>?\<close> as \<open>res_bind\<close>, and
  \<open>.iter().map(f).collect::<Result<Vec<_>, _>>()\<close> as \<open>collect_list\<close>, which stops at the first error.
  The ASCII upper case of a text.
\<close>

definition res_bind :: "'e + 'a \<Rightarrow> ('a \<Rightarrow> 'e + 'b) \<Rightarrow> 'e + 'b" where
  "res_bind r f = (case r of Inl e \<Rightarrow> Inl e | Inr x \<Rightarrow> f x)"

fun collect_list :: "('a \<Rightarrow> 'e + 'b) \<Rightarrow> 'a list \<Rightarrow> 'e + 'b list" where
  "collect_list f [] = Inr []"
| "collect_list f (x # xs) =
     (case f x of Inl e \<Rightarrow> Inl e | Inr y \<Rightarrow> (case collect_list f xs of Inl e \<Rightarrow> Inl e | Inr ys \<Rightarrow> Inr (y # ys)))"

definition ascii_upper :: "string \<Rightarrow> string" where
  "ascii_upper s = map (\<lambda>c. let n = (of_char c :: nat) in if 97 \<le> n \<and> n \<le> 122 then char_of (n - 32) else c) s"

lemma res_bind_simps [simp]:
  "res_bind (Inl e) f = Inl e"
  "res_bind (Inr x) f = f x"
  by (simp_all add: res_bind_def)

lemma res_bind_Inr [simp]: "res_bind r f = Inr y \<longleftrightarrow> (\<exists>x. r = Inr x \<and> f x = Inr y)"
  by (cases r) auto

lemma res_bind_cong [fundef_cong]:
  "r = r' \<Longrightarrow> (\<And>x. r' = Inr x \<Longrightarrow> f x = g x) \<Longrightarrow> res_bind r f = res_bind r' g"
  by (cases r') auto

lemma collect_list_cong [fundef_cong]:
  "xs = ys \<Longrightarrow> (\<And>x. x \<in> set ys \<Longrightarrow> f x = g x) \<Longrightarrow> collect_list f xs = collect_list g ys"
proof (induction xs arbitrary: ys)
  case (Cons x xs)
  have "f x = g x" "collect_list f xs = collect_list g xs" using Cons.prems Cons.IH [of xs] by auto
  then show ?case by (simp flip: Cons.prems(1) split: sum.split)
qed simp

lemma collect_list_Inr: "collect_list f xs = Inr ys \<longleftrightarrow> list_all2 (\<lambda>x y. f x = Inr y) xs ys"
proof (induction xs arbitrary: ys)
  case (Cons x xs)
  have "collect_list f (x # xs) = Inr ys \<longleftrightarrow> (\<exists>y zs. f x = Inr y \<and> collect_list f xs = Inr zs \<and> ys = y # zs)"
    by (auto split: sum.splits)
  then show ?case using Cons.IH by (auto simp: list_all2_Cons1)
qed auto

lemma collect_list_map_Inr: "(\<And>x. x \<in> set xs \<Longrightarrow> f x = Inr (g x)) \<Longrightarrow> collect_list f xs = Inr (map g xs)"
  by (induction xs) auto

lemma collect_list_length: "collect_list f xs = Inr ys \<Longrightarrow> length ys = length xs"
  by (simp add: collect_list_Inr list_all2_lengthD)

end
