(* ===== verification/Push_Lower.thy ===== *)
theory Push_Lower
  imports Parser_Ast Push_Model Result_Util
begin

text \<open>
  From syntax trees to the planner's terms, \<open>crates/pushdown/src/lower.rs\<close>: predicates, scalar
  terms and whole read pipelines. The callbacks \<open>source_of\<close>, \<open>schema_of\<close> and \<open>transform_of\<close> are
  arguments, as in the code. Of a resolved transform (\<open>crates/types/src/transform.rs\<close>) all fields
  are kept.
\<close>

section \<open>Transform definitions\<close>

record resolved_transform =
  rt_input :: schema
  rt_output :: schema
  rt_mode :: transform_mode
  rt_provider :: string
  rt_model :: string
  rt_effort :: "string option"

text \<open>\<open>derive_mode\<close>; the only error, \<open>EmptyInput\<close>, is \<open>None\<close>.\<close>

definition derive_mode :: "schema \<Rightarrow> transform_mode option" where
  "derive_mode input =
     (case columns input of
        [] \<Rightarrow> None
      | [only] \<Rightarrow> Some (case col_ty only of TBytes \<Rightarrow> Extraction | TArray (TStruct _) \<Rightarrow> RelationWise | _ \<Rightarrow> RowWise)
      | _ \<Rightarrow> Some RowWise)"

definition resolved_transform_new :: "schema \<Rightarrow> schema \<Rightarrow> resolved_transform option" where
  "resolved_transform_new input output =
     map_option (\<lambda>m. \<lparr>rt_input = input, rt_output = output, rt_mode = m, rt_provider = [], rt_model = [],
       rt_effort = None\<rparr>) (derive_mode input)"

definition with_model_meta :: "resolved_transform \<Rightarrow> string \<Rightarrow> string \<Rightarrow> string option \<Rightarrow> resolved_transform" where
  "with_model_meta t provider model effort = t\<lparr>rt_provider := provider, rt_model := model, rt_effort := effort\<rparr>"

section \<open>Errors\<close>

datatype lower_error =
    UnsupportedPredicate string
  | UnsupportedJoinCondition
  | UnsupportedProjection string
  | TransformNotExecutable string
  | TransformInputMissing string string
  | SwitchNotTerminal
  | FollowOutsideDeclaredBody
  | PostOutsideDeclaredBody

fun lower_error_code :: "lower_error \<Rightarrow> string" where
  "lower_error_code (UnsupportedPredicate _) = ''unsupported_predicate''"
| "lower_error_code UnsupportedJoinCondition = ''unsupported_join_condition''"
| "lower_error_code (UnsupportedProjection _) = ''unsupported_projection''"
| "lower_error_code (TransformNotExecutable _) = ''transform_not_executable''"
| "lower_error_code (TransformInputMissing _ _) = ''transform_input_missing''"
| "lower_error_code SwitchNotTerminal = ''switch_not_terminal''"
| "lower_error_code FollowOutsideDeclaredBody = ''follow_outside_declared_body''"
| "lower_error_code PostOutsideDeclaredBody = ''post_outside_declared_body''"

section \<open>Predicates\<close>

definition is_arith :: "ast_op \<Rightarrow> bool" where
  "is_arith op \<longleftrightarrow> op = OpAdd \<or> op = OpSub \<or> op = OpMul \<or> op = OpDiv"

fun describe_expr :: "expr \<Rightarrow> string" where
  "describe_expr (ELit _) = ''literal''"
| "describe_expr (ECol c) = ''column `'' @ c @ ''`''"
| "describe_expr (EPath p) = ''path `'' @ join_with ''.'' p @ ''`''"
| "describe_expr (EFn f _ _) = ''fn `'' @ f @ ''`''"
| "describe_expr (EBinary op _ _) =
     (if is_arith op then ''arithmetic expression'' else ''binary `'' @ op_debug op @ ''`'')"
| "describe_expr (EUnary op _) = ''unary `'' @ op_debug op @ ''`''"
| "describe_expr (EIn _ _) = ''IN''"
| "describe_expr (EBetween _ _ _) = ''BETWEEN''"
| "describe_expr (ELike _ _) = ''LIKE''"
| "describe_expr (EAnyOp _ _ _) = ''ANY''"
| "describe_expr (ELambda _ _) = ''lambda''"
| "describe_expr (EArray _) = ''array''"
| "describe_expr (EStruct _) = ''struct''"

fun lower_col_ref :: "expr \<Rightarrow> lower_error + col_ref" where
  "lower_col_ref (ECol c) = Inr (ColRef [c])"
| "lower_col_ref (EPath segs) = Inr (ColRef segs)"
| "lower_col_ref e = Inl (UnsupportedPredicate (''expected a column, found '' @ describe_expr e))"

fun lower_col_name :: "expr \<Rightarrow> lower_error + name" where
  "lower_col_name (ECol c) = Inr c"
| "lower_col_name (EPath segs) = Inr (join_with ''.'' segs)"
| "lower_col_name e = Inl (UnsupportedPredicate (''expected a column name, found '' @ describe_expr e))"

fun lower_literal :: "expr \<Rightarrow> lower_error + literal" where
  "lower_literal (ELit (AStr s)) = Inr (LText s)"
| "lower_literal (ELit (AInt n)) = Inr (LInt n)"
| "lower_literal (ELit (AFloat f)) = Inr (LFloat f)"
| "lower_literal (ELit (ABool b)) = Inr (LBool b)"
| "lower_literal (ELit ANull) = Inr LNull"
| "lower_literal e = Inl (UnsupportedPredicate (''expected a literal, found '' @ describe_expr e))"

fun lower_cmp_op :: "ast_op \<Rightarrow> lower_error + cmp_op" where
  "lower_cmp_op OpEq = Inr Eq"
| "lower_cmp_op OpNe = Inr Ne"
| "lower_cmp_op OpLt = Inr Lt"
| "lower_cmp_op OpGt = Inr Gt"
| "lower_cmp_op OpLe = Inr Le"
| "lower_cmp_op OpGe = Inr Ge"
| "lower_cmp_op OpMatch = Inr Match"
| "lower_cmp_op op = Inl (UnsupportedPredicate (''`'' @ op_debug op @ ''` is not a comparison operator''))"

definition is_comparison :: "ast_op \<Rightarrow> bool" where
  "is_comparison op \<longleftrightarrow> op \<in> {OpEq, OpNe, OpLt, OpGt, OpLe, OpGe, OpMatch}"

fun lower_predicate :: "expr \<Rightarrow> lower_error + predicate" where
  "lower_predicate (EBinary op lhs rhs) =
     (if op = OpAnd then res_bind (lower_predicate lhs) (\<lambda>a. res_bind (lower_predicate rhs) (\<lambda>b. Inr (PAnd a b)))
      else if op = OpOr then res_bind (lower_predicate lhs) (\<lambda>a. res_bind (lower_predicate rhs) (\<lambda>b. Inr (POr a b)))
      else if is_comparison op then
        res_bind (lower_col_ref lhs) (\<lambda>col. res_bind (lower_literal rhs) (\<lambda>lit.
          res_bind (lower_cmp_op op) (\<lambda>cmp. Inr (PCmp col cmp lit))))
      else Inl (UnsupportedPredicate (''binary `'' @ op_debug op @ ''` is not a comparison'')))"
| "lower_predicate (EUnary op e) =
     (if op = OpNot then res_bind (lower_predicate e) (\<lambda>p. Inr (PNot p))
      else Inl (UnsupportedPredicate (describe_expr (EUnary op e))))"
| "lower_predicate (EIn e es) =
     res_bind (lower_col_ref e) (\<lambda>col. res_bind (collect_list lower_literal es) (\<lambda>lits. Inr (PIn col lits)))"
| "lower_predicate (EBetween e low high) =
     res_bind (lower_col_ref e) (\<lambda>col. res_bind (lower_literal low) (\<lambda>l. res_bind (lower_literal high) (\<lambda>h.
       Inr (PBetween col l h))))"
| "lower_predicate (ELike e pat) =
     res_bind (lower_col_ref e) (\<lambda>col.
       case pat of
         ELit (AStr p) \<Rightarrow> Inr (PLike col (Pattern p))
       | _ \<Rightarrow> Inl (UnsupportedPredicate ''LIKE pattern must be a string literal''))"
| "lower_predicate e = Inl (UnsupportedPredicate (describe_expr e))"

section \<open>Scalar terms and projections\<close>

fun lit_to_value :: "ast_literal \<Rightarrow> 'j val" where
  "lit_to_value (AStr s) = VText s"
| "lit_to_value (AInt n) = VInt n"
| "lit_to_value (AFloat f) = VFloat f"
| "lit_to_value (ABool b) = VBool b"
| "lit_to_value ANull = VNull"
| "lit_to_value (ASize n _) = VInt n"
| "lit_to_value (ATyped _ raw) = VText raw"
| "lit_to_value (ABytes bs) = VBytes bs"

definition scalar_name :: "ident \<Rightarrow> 'j scalar_expr" where
  "scalar_name n =
     (let w = ascii_lower n in
      if w = ''true'' then SLit (VBool True)
      else if w = ''false'' then SLit (VBool False)
      else if w = ''null'' then SLit VNull
      else SCol (ColRef [n]))"

fun lower_scalar :: "expr \<Rightarrow> lower_error + 'j scalar_expr" where
  "lower_scalar (ECol n) = Inr (scalar_name n)"
| "lower_scalar (EPath segs) = Inr (SCol (ColRef segs))"
| "lower_scalar (ELit l) = Inr (SLit (lit_to_value l))"
| "lower_scalar (EArray elems) = res_bind (collect_list lower_scalar elems) (\<lambda>es. Inr (SArray es))"
| "lower_scalar (EStruct fs) =
     res_bind (collect_list (\<lambda>(n, e). res_bind (lower_scalar e) (\<lambda>s. Inr (n, s))) fs) (\<lambda>fs'. Inr (SStruct fs'))"
| "lower_scalar e = Inl (UnsupportedProjection (describe_expr e
     @ '' is not a per-row scalar expression (only columns, literals, and [ ]/{ } constructors)''))"

fun is_plain_projection :: "projection \<Rightarrow> bool" where
  "is_plain_projection PjStar = True"
| "is_plain_projection (PjExpr (ECol _) alias) = (alias = None)"
| "is_plain_projection (PjExpr (EPath _) alias) = (alias = None)"
| "is_plain_projection (PjExpr _ _) = False"

fun default_proj_name :: "expr \<Rightarrow> nat \<Rightarrow> name" where
  "default_proj_name (ECol c) _ = c"
| "default_proj_name (EPath segs) _ = join_with ''.'' segs"
| "default_proj_name _ i = ''expr'' @ show_nat i"

definition project_expr_term :: "nat \<times> projection \<Rightarrow> lower_error + (name \<times> 'j scalar_expr)" where
  "project_expr_term ip =
     (case snd ip of
        PjStar \<Rightarrow> Inl (UnsupportedProjection ''`*` cannot be mixed with a computed projection'')
      | PjExpr e alias \<Rightarrow>
          res_bind (lower_scalar e) (\<lambda>s.
            Inr (case alias of Some a \<Rightarrow> a | None \<Rightarrow> default_proj_name e (fst ip), s)))"

definition project_expr_terms :: "projection list \<Rightarrow> lower_error + 'j assignments" where
  "project_expr_terms projs = collect_list project_expr_term (zip [0..<length projs] projs)"

fun project_column :: "projection \<Rightarrow> lower_error + name" where
  "project_column PjStar = Inr ''*''"
| "project_column (PjExpr (ECol c) alias) = Inr (case alias of Some a \<Rightarrow> a | None \<Rightarrow> c)"
| "project_column (PjExpr (EPath segs) alias) = Inr (case alias of Some a \<Rightarrow> a | None \<Rightarrow> join_with ''.'' segs)"
| "project_column (PjExpr e _) = Inl (UnsupportedProjection (describe_expr e))"

definition project_columns :: "projection list \<Rightarrow> lower_error + name list" where
  "project_columns projs = collect_list project_column projs"

definition lower_aggregator :: "string \<Rightarrow> lower_error + aggregator" where
  "lower_aggregator n =
     (let w = ascii_upper n in
      if w = ''COUNT'' then Inr AggCount
      else if w = ''SUM'' then Inr AggSum
      else if w = ''MIN'' then Inr AggMin
      else if w = ''MAX'' then Inr AggMax
      else if w = ''ARRAY_AGG'' then Inr AggArray
      else Inl (UnsupportedProjection (''unknown aggregate `'' @ w @ ''`'')))"

fun aggregate_column :: "expr list \<Rightarrow> name" where
  "aggregate_column (ECol c # _) = c"
| "aggregate_column (EPath p # _) = join_with ''.'' p"
| "aggregate_column _ = ''*''"

fun lower_aggregate :: "projection \<Rightarrow> lower_error + agg_term" where
  "lower_aggregate PjStar = Inl (UnsupportedProjection ''`*` is not an aggregate term'')"
| "lower_aggregate (PjExpr (EFn f args _) alias) =
     res_bind (lower_aggregator f) (\<lambda>func.
       let column = aggregate_column args in
       Inr \<lparr>ag_func = func, ag_column = column,
         ag_output = (case alias of Some a \<Rightarrow> a | None \<Rightarrow> aggregator_label func @ ''_'' @ column)\<rparr>)"
| "lower_aggregate (PjExpr _ _) =
     Inl (UnsupportedProjection ''AGGREGATE term must be an aggregate function call'')"

definition lower_aggregates :: "projection list \<Rightarrow> lower_error + agg_term list" where
  "lower_aggregates projs = collect_list lower_aggregate projs"

section \<open>Pipelines\<close>

definition addressed_path :: "path_segment list \<Rightarrow> string" where
  "addressed_path segs =
     concat (map (\<lambda>s. ''/'' @ pg_name s @ (case pg_version s of Some v \<Rightarrow> ''@'' @ v | None \<Rightarrow> [])) segs)"

fun available_columns :: "'j logical_plan \<Rightarrow> name list option" where
  "available_columns (LScan _ _ s) = Some (map col_name (columns s))"
| "available_columns (LFilter p _) = available_columns p"
| "available_columns (LLimit p _) = available_columns p"
| "available_columns (LSort p _) = available_columns p"
| "available_columns (LDistinct p) = available_columns p"
| "available_columns (LProject _ cols) = Some cols"
| "available_columns (LProjectExpr _ terms) = Some (map fst terms)"
| "available_columns (LExtend p as) =
     map_option (\<lambda>names. fold (\<lambda>(n, _) ns. if n \<in> set ns then ns else ns @ [n]) as names) (available_columns p)"
| "available_columns (LAggregate _ group_by aggs) = Some (group_by @ map ag_output aggs)"
| "available_columns (LExpand _ _) = None"
| "available_columns (LJoin _ l r _) =
     (case available_columns l of
        None \<Rightarrow> None
      | Some ns \<Rightarrow> (case available_columns r of None \<Rightarrow> None | Some ms \<Rightarrow> Some (ns @ ms)))"
| "available_columns (LSetOp _ l _) = available_columns l"
| "available_columns (LTransform _ _ out _) = Some (map col_name (columns out))"

definition provenance_tagged :: "schema \<Rightarrow> string \<Rightarrow> schema" where
  "provenance_tagged out n =
     Schema (map (\<lambda>c. with_provenance c \<lparr>prov_driver = Some (''transform:'' @ n), prov_source_col = None\<rparr>)
       (columns out))"

fun lower_join_on :: "expr \<Rightarrow> lower_error + join_on" where
  "lower_join_on (EBinary op l r) =
     (if op = OpEq then
        res_bind (lower_col_name l) (\<lambda>a. res_bind (lower_col_name r) (\<lambda>b. Inr \<lparr>jo_left = a, jo_right = b\<rparr>))
      else Inl UnsupportedJoinCondition)"
| "lower_join_on _ = Inl UnsupportedJoinCondition"

text \<open>The stages without a second relation.\<close>

definition lower_select :: "'j logical_plan \<Rightarrow> projection list \<Rightarrow> lower_error + 'j logical_plan" where
  "lower_select input projs =
     (if list_all is_plain_projection projs
      then res_bind (project_columns projs) (\<lambda>cols. Inr (LProject input cols))
      else res_bind (project_expr_terms projs) (\<lambda>terms. Inr (LProjectExpr input terms)))"

definition lower_order_key :: "ast_order_key \<Rightarrow> lower_error + order_key" where
  "lower_order_key k =
     res_bind (lower_col_name (ak_expr k)) (\<lambda>c. Inr \<lparr>ok_column = c, ok_descending = ak_descending k\<rparr>)"

definition fold_aggregates :: "'j logical_plan \<Rightarrow> agg_term list \<Rightarrow> 'j logical_plan" where
  "fold_aggregates input aggs =
     (case input of
        LAggregate inner group_by existing \<Rightarrow>
          if existing = [] then LAggregate inner group_by aggs else LAggregate input [] aggs
      | _ \<Rightarrow> LAggregate input [] aggs)"

definition lower_assignments :: "assignment list \<Rightarrow> lower_error + 'j assignments" where
  "lower_assignments as = collect_list (\<lambda>a. res_bind (lower_scalar (as_value a)) (\<lambda>s. Inr (as_name a, s))) as"

definition lower_transform :: "(string \<Rightarrow> resolved_transform option) \<Rightarrow> 'j logical_plan \<Rightarrow> string \<Rightarrow> lower_error + 'j logical_plan" where
  "lower_transform transform_of input n =
     (case transform_of n of
        None \<Rightarrow> Inl (TransformNotExecutable n)
      | Some d \<Rightarrow>
          (case (case available_columns input of
                   None \<Rightarrow> None
                 | Some incoming \<Rightarrow> find (\<lambda>c. col_name c \<notin> set incoming) (columns (rt_input d))) of
             Some missing \<Rightarrow> Inl (TransformInputMissing n (col_name missing))
           | None \<Rightarrow> Inr (LTransform input n (provenance_tagged (rt_output d) n) (rt_mode d))))"

fun lower_query :: "(string list \<Rightarrow> source_id) \<Rightarrow> (source_id \<Rightarrow> schema) \<Rightarrow> (string \<Rightarrow> resolved_transform option)
    \<Rightarrow> pipeline \<Rightarrow> lower_error + 'j logical_plan"
  and lower_ops :: "(string list \<Rightarrow> source_id) \<Rightarrow> (source_id \<Rightarrow> schema) \<Rightarrow> (string \<Rightarrow> resolved_transform option)
    \<Rightarrow> 'j logical_plan \<Rightarrow> pipe_op list \<Rightarrow> lower_error + 'j logical_plan"
  and lower_source :: "(string list \<Rightarrow> source_id) \<Rightarrow> (source_id \<Rightarrow> schema) \<Rightarrow> (string \<Rightarrow> resolved_transform option)
    \<Rightarrow> source_expr \<Rightarrow> lower_error + 'j logical_plan"
  and lower_op :: "(string list \<Rightarrow> source_id) \<Rightarrow> (source_id \<Rightarrow> schema) \<Rightarrow> (string \<Rightarrow> resolved_transform option)
    \<Rightarrow> 'j logical_plan \<Rightarrow> pipe_op \<Rightarrow> lower_error + 'j logical_plan"
where
  "lower_query so sc tr (Pipeline src ops) =
     res_bind (lower_source so sc tr src) (\<lambda>plan. lower_ops so sc tr plan ops)"
| "lower_ops so sc tr plan [] = Inr plan"
| "lower_ops so sc tr plan (op # ops) =
     res_bind (lower_op so sc tr plan op) (\<lambda>plan'. lower_ops so sc tr plan' ops)"
| "lower_source so sc tr (SrcPath p) =
     (let src = so (map pg_name (pe_segments p)) in Inr (LScan src (addressed_path (pe_segments p)) (sc src)))"
| "lower_source so sc tr (SrcSubquery q) = lower_query so sc tr q"
| "lower_source so sc tr (SrcValues _) = Inr (LScan ''(values)'' [] schema_empty)"
| "lower_source so sc tr (SrcName n) = Inr (LScan (''(let:'' @ n @ '')'') [] schema_empty)"
| "lower_op so sc tr input (OWhere e) = res_bind (lower_predicate e) (\<lambda>p. Inr (LFilter input p))"
| "lower_op so sc tr input (OSelect projs) = lower_select input projs"
| "lower_op so sc tr input (OLimit n) = Inr (LLimit input (if sint n < 0 then 0 else n))"
| "lower_op so sc tr input ODistinct = Inr (LDistinct input)"
| "lower_op so sc tr input (OOrderBy keys) =
     res_bind (collect_list lower_order_key keys) (\<lambda>ks. Inr (LSort input ks))"
| "lower_op so sc tr input (OGroupBy es) =
     res_bind (collect_list lower_col_name es) (\<lambda>cols. Inr (LAggregate input cols []))"
| "lower_op so sc tr input (OAggregate projs) =
     res_bind (lower_aggregates projs) (\<lambda>aggs. Inr (fold_aggregates input aggs))"
| "lower_op so sc tr input (OExpand field) = Inr (LExpand input (if field = [] then [] else last field))"
| "lower_op so sc tr input (OJoin src on) =
     res_bind (lower_source so sc tr src) (\<lambda>rhs. res_bind (lower_join_on on) (\<lambda>c. Inr (LJoin Inner input rhs c)))"
| "lower_op so sc tr input (OUnion q) = res_bind (lower_query so sc tr q) (\<lambda>r. Inr (LSetOp Union input r))"
| "lower_op so sc tr input (OExcept q) = res_bind (lower_query so sc tr q) (\<lambda>r. Inr (LSetOp Except input r))"
| "lower_op so sc tr input (OIntersect q) = res_bind (lower_query so sc tr q) (\<lambda>r. Inr (LSetOp Intersect input r))"
| "lower_op so sc tr input (OExtend as) = res_bind (lower_assignments as) (\<lambda>ts. Inr (LExtend input ts))"
| "lower_op so sc tr input (OSet as) = res_bind (lower_assignments as) (\<lambda>ts. Inr (LExtend input ts))"
| "lower_op so sc tr input (OAs _) = Inr input"
| "lower_op so sc tr input (ODecode _) = Inr input"
| "lower_op so sc tr input (OEncode _) = Inr input"
| "lower_op so sc tr input (OCall _) = Inr input"
| "lower_op so sc tr input (OOf _) = Inr input"
| "lower_op so sc tr input (OTransform t) = lower_transform tr input (tr_name t)"
| "lower_op so sc tr input (OSwitch _ _ _) = Inl SwitchNotTerminal"
| "lower_op so sc tr input (OFollow _) = Inl FollowOutsideDeclaredBody"
| "lower_op so sc tr input (OPost _) = Inl PostOutsideDeclaredBody"

end
