(* ===== verification/Push_Lower_Props.thy ===== *)
theory Push_Lower_Props
  imports Push_Lower Push_Sound
begin

text \<open>
  What lowering keeps of a syntax tree, and the way of a query from its syntax tree through lowering,
  partitioning and the engine.
\<close>

section \<open>Predicates\<close>

text \<open>The syntax tree of a predicate, and a tree with the columns that a predicate tests written as
  one-segment paths: the two spellings lower to the same.\<close>

fun raise_op :: "cmp_op \<Rightarrow> ast_op" where
  "raise_op Eq = OpEq" | "raise_op Ne = OpNe" | "raise_op Lt = OpLt" | "raise_op Gt = OpGt"
| "raise_op Le = OpLe" | "raise_op Ge = OpGe" | "raise_op Match = OpMatch"

fun raise_literal :: "literal \<Rightarrow> expr" where
  "raise_literal LNull = ELit ANull"
| "raise_literal (LBool b) = ELit (ABool b)"
| "raise_literal (LInt i) = ELit (AInt i)"
| "raise_literal (LFloat f) = ELit (AFloat f)"
| "raise_literal (LText t) = ELit (AStr t)"

definition raise_col :: "col_ref \<Rightarrow> expr" where
  "raise_col c = EPath (col_path c)"

fun raise_predicate :: "predicate \<Rightarrow> expr" where
  "raise_predicate (PCmp c op l) = EBinary (raise_op op) (raise_col c) (raise_literal l)"
| "raise_predicate (PAnd a b) = EBinary OpAnd (raise_predicate a) (raise_predicate b)"
| "raise_predicate (POr a b) = EBinary OpOr (raise_predicate a) (raise_predicate b)"
| "raise_predicate (PNot a) = EUnary OpNot (raise_predicate a)"
| "raise_predicate (PIn c ls) = EIn (raise_col c) (map raise_literal ls)"
| "raise_predicate (PBetween c l h) = EBetween (raise_col c) (raise_literal l) (raise_literal h)"
| "raise_predicate (PLike c p) = ELike (raise_col c) (ELit (AStr (pattern_str p)))"

fun spell_col :: "expr \<Rightarrow> expr" where
  "spell_col (ECol c) = EPath [c]"
| "spell_col e = e"

fun spell_columns :: "expr \<Rightarrow> expr" where
  "spell_columns (EBinary op l r) =
     (if op = OpAnd \<or> op = OpOr then EBinary op (spell_columns l) (spell_columns r) else EBinary op (spell_col l) r)"
| "spell_columns (EUnary op e) = (if op = OpNot then EUnary op (spell_columns e) else EUnary op e)"
| "spell_columns (EIn e es) = EIn (spell_col e) es"
| "spell_columns (EBetween e l h) = EBetween (spell_col e) l h"
| "spell_columns (ELike e p) = ELike (spell_col e) p"
| "spell_columns e = e"

lemma lower_col_ref_Inr: "lower_col_ref e = Inr c \<longleftrightarrow> spell_col e = raise_col c"
  by (cases e; cases c) (auto simp: raise_col_def)

lemma lower_literal_Inr: "lower_literal e = Inr l \<longleftrightarrow> e = raise_literal l"
  by (cases l; cases e rule: lower_literal.cases) auto

lemma lower_literals_Inr: "collect_list lower_literal es = Inr ls \<longleftrightarrow> es = map raise_literal ls"
  by (simp add: collect_list_Inr lower_literal_Inr list_all2_conv_all_nth list_eq_iff_nth_eq) auto

lemma lower_cmp_op_Inr: "lower_cmp_op op = Inr c \<longleftrightarrow> op = raise_op c"
  by (cases op; cases c) auto

lemma raise_op_cases [simp]:
  "raise_op c \<noteq> OpAnd" "raise_op c \<noteq> OpOr" "OpAnd \<noteq> raise_op c" "OpOr \<noteq> raise_op c" "is_comparison (raise_op c)"
  by (cases c; simp add: is_comparison_def)+

lemma comparison_raised: "is_comparison op \<Longrightarrow> \<exists>c. op = raise_op c"
  by (cases op) (auto simp: is_comparison_def intro: raise_op.simps [symmetric])

lemma like_pattern_Inr:
  "(case pat of ELit (AStr t) \<Rightarrow> Inr (PLike c (Pattern t)) | _ \<Rightarrow> Inl err) = Inr p
     \<longleftrightarrow> (\<exists>t. pat = ELit (AStr t) \<and> p = PLike c (Pattern t))"
  by (auto split: expr.splits ast_literal.splits)

text \<open>C21: lowering a predicate loses nothing and accepts exactly the predicate shapes. A tree lowers to a
  predicate if and only if, with its tested columns written as paths, it is the tree of that
  predicate. So two trees with the same predicate differ in the spelling of columns only.\<close>

theorem lower_predicate_faithful: "lower_predicate e = Inr p \<longleftrightarrow> spell_columns e = raise_predicate p"
proof (induction e arbitrary: p)
  case (EBinary op l r)
  show ?case
    using EBinary.IH
    by (cases p) (auto simp: lower_col_ref_Inr lower_literal_Inr lower_cmp_op_Inr)
next
  case (EUnary op e)
  then show ?case by (cases p) auto
next
  case (EIn e es)
  show ?case by (cases p) (auto simp: lower_col_ref_Inr lower_literals_Inr)
next
  case (EBetween e l h)
  show ?case by (cases p) (auto simp: lower_col_ref_Inr lower_literal_Inr)
next
  case (ELike e pat)
  show ?case
    by (cases p) (auto simp: lower_col_ref_Inr like_pattern_Inr intro: pattern.exhaust_sel)
next
  case (ELit l) show ?case by (cases p) auto
next
  case (ECol l) show ?case by (cases p) auto
next
  case (EPath l) show ?case by (cases p) auto
next
  case (EFn f as s) show ?case by (cases p) auto
next
  case (EAnyOp op e es) show ?case by (cases p) auto
next
  case (ELambda ps e) show ?case by (cases p) auto
next
  case (EArray es) show ?case by (cases p) auto
next
  case (EStruct es) show ?case by (cases p) auto
qed

section \<open>What lowering drops\<close>

fun is_column :: "expr \<Rightarrow> bool" where
  "is_column (ECol _) = True"
| "is_column (EPath _) = True"
| "is_column _ = False"

lemma aggregate_column_computed: "\<not> is_column e \<Longrightarrow> aggregate_column (e # es) = ''*''"
  by (cases e) auto

lemma lower_aggregate_computed:
  "\<not> is_column e \<Longrightarrow> lower_aggregate (PjExpr (EFn f (e # es) sp) alias) = lower_aggregate (PjExpr (EFn f [] sp') alias)"
  by (simp add: aggregate_column_computed)

lemma col_position_None: "\<forall>c\<in>set (columns s). col_name c \<noteq> n \<Longrightarrow> col_position s n = None"
  by (simp add: col_position_def position_None_iff)

lemma whole_relation_order:
  assumes "\<And>r. key r = []"
  shows "gr_order (group_rows key [] rows) = [[]]"
proof -
  define inv where "inv g \<longleftrightarrow> gr_order g = [] \<and> gr_groups g [] = None \<or> gr_order g = [[]] \<and> gr_groups g [] \<noteq> None"
    for g :: "'a grouping"
  have "inv (group_row key r g)" if "inv g" for r g
    using that assms by (auto simp: inv_def group_row_def Let_def bucket_push_def)
  then have "inv (fold (group_row key) rows g)" if "inv g" for g
    using that by (induction rows arbitrary: g) auto
  from this [of "\<lparr>gr_order = [], gr_groups = Map.empty, gr_first = Map.empty\<rparr>"]
  show ?thesis by (auto simp: inv_def group_rows_def Let_def)
qed

lemma upper_sum: "ascii_upper ''sum'' = ''SUM''"
  by code_simp

lemma sum_no_column:
  assumes "\<forall>c\<in>set (columns (rb_schema b)). col_name c \<noteq> ''*''"
  shows "ev_aggregate dj b [] [\<lparr>ag_func = AggSum, ag_column = ''*'', ag_output = out\<rparr>] =
    batch (Schema [column_new out TUnknown True]) [mk_row [VInt 0]]"
proof -
  have order: "gr_order (group_rows (row_group_key dj []) [] (rb_rows b)) = [[]]"
    by (rule whole_relation_order) (simp add: row_group_key_def)
  have sum0: "run_aggregate dj AggSum None rows = VInt 0" for rows
  proof -
    have "f64_to_int (FFin False 0) = 0" by (simp add: Let_def)
    then show ?thesis by (simp add: run_aggregate_def)
  qed
  show ?thesis
    using col_position_None [OF assms] order
    by (simp add: ev_aggregate_def aggregate_columns_def aggregate_row_def project_indices_def sum0
        agg_column_type_def Let_def split: option.split)
qed

text \<open>What lowering drops although it promises to drop nothing. The argument of an aggregate that is no
  column is replaced by \<open>*\<close>: \<open>AGGREGATE sum(a * b)\<close> sums nothing and gives 0 on every relation. A size
  literal loses its unit. After \<open>SELECT *\<close> a transform is refused for its first input column.\<close>

theorem lower_drops:
  "(\<not> is_column e \<longrightarrow>
      lower_op so sc tr plan (OAggregate [PjExpr (EFn ''sum'' [e] sp) (Some out)]) =
        Inr (fold_aggregates plan [\<lparr>ag_func = AggSum, ag_column = ''*'', ag_output = out\<rparr>]))
   \<and> ((\<forall>c\<in>set (columns (rb_schema b)). col_name c \<noteq> ''*'') \<longrightarrow>
      ev_aggregate dj b [] [\<lparr>ag_func = AggSum, ag_column = ''*'', ag_output = out\<rparr>] =
        batch (Schema [column_new out TUnknown True]) [mk_row [VInt 0]])
   \<and> lower_op so sc tr plan (OExtend [\<lparr>as_name = x, as_value = ELit (ASize n u)\<rparr>]) =
      lower_op so sc tr plan (OExtend [\<lparr>as_name = x, as_value = ELit (ASize n u')\<rparr>])
   \<and> (tr t = Some d \<and> columns (rt_input d) \<noteq> [] \<and> (\<forall>c\<in>set (columns (rt_input d)). col_name c \<noteq> ''*'') \<longrightarrow>
      lower_ops so sc tr plan [OSelect [PjStar], OTransform \<lparr>tr_name = t, tr_span = sp\<rparr>] =
        Inl (TransformInputMissing t (col_name (hd (columns (rt_input d))))))"
proof (intro conjI impI)
  assume "\<not> is_column e"
  then show "lower_op so sc tr plan (OAggregate [PjExpr (EFn ''sum'' [e] sp) (Some out)]) =
        Inr (fold_aggregates plan [\<lparr>ag_func = AggSum, ag_column = ''*'', ag_output = out\<rparr>])"
    by (simp add: lower_aggregates_def aggregate_column_computed lower_aggregator_def upper_sum Let_def)
next
  assume a: "tr t = Some d \<and> columns (rt_input d) \<noteq> [] \<and> (\<forall>c\<in>set (columns (rt_input d)). col_name c \<noteq> ''*'')"
  then obtain c cs where "columns (rt_input d) = c # cs" by (cases "columns (rt_input d)") auto
  with a show "lower_ops so sc tr plan [OSelect [PjStar], OTransform \<lparr>tr_name = t, tr_span = sp\<rparr>] =
        Inl (TransformInputMissing t (col_name (hd (columns (rt_input d)))))"
    by (simp add: lower_select_def project_columns_def lower_transform_def)
qed (simp_all add: sum_no_column lower_assignments_def)

section \<open>Queries in select order\<close>

text \<open>The rank of the last stage of a query whose stages come in the order of a select (\<open>WHERE\<close>,
  grouping, \<open>SELECT\<close>, \<open>DISTINCT\<close>, \<open>ORDER BY\<close>, \<open>LIMIT\<close>), or \<open>None\<close>, with whether that stage is a
  \<open>GROUP BY\<close> still without aggregates. Stages that are never pushed may stand anywhere; behind a join
  or a set operation the order starts again.\<close>

definition rank_if :: "bool \<Rightarrow> nat \<Rightarrow> (nat \<times> bool) option" where
  "rank_if ok r = (if ok then Some (r, False) else None)"

fun query_rank :: "pipeline \<Rightarrow> (nat \<times> bool) option"
  and ops_rank :: "pipe_op list \<Rightarrow> nat \<times> bool \<Rightarrow> (nat \<times> bool) option"
  and source_rank :: "source_expr \<Rightarrow> (nat \<times> bool) option"
  and op_rank :: "pipe_op \<Rightarrow> nat \<times> bool \<Rightarrow> (nat \<times> bool) option"
where
  "query_rank (Pipeline src ops) = (case source_rank src of None \<Rightarrow> None | Some st \<Rightarrow> ops_rank ops st)"
| "ops_rank [] st = Some st"
| "ops_rank (op # ops) st = (case op_rank op st of None \<Rightarrow> None | Some st' \<Rightarrow> ops_rank ops st')"
| "source_rank (SrcSubquery q) = query_rank q"
| "source_rank _ = Some (0, False)"
| "op_rank (OWhere _) st = rank_if (fst st \<le> 1) 1"
| "op_rank (OGroupBy es) st = (if fst st \<le> 1 \<and> es \<noteq> [] then Some (2, True) else None)"
| "op_rank (OAggregate ps) st = rank_if (snd st \<or> fst st \<le> 1 \<and> ps \<noteq> []) 2"
| "op_rank (OSelect _) st = rank_if (fst st \<le> 2) 3"
| "op_rank ODistinct st = rank_if (fst st \<le> 3) 4"
| "op_rank (OOrderBy _) st = rank_if (fst st \<le> 4) 5"
| "op_rank (OLimit _) st = rank_if (fst st \<le> 5) 6"
| "op_rank (OJoin src _) st = map_option (\<lambda>_. (0, False)) (source_rank src)"
| "op_rank (OUnion q) st = map_option (\<lambda>_. (0, False)) (query_rank q)"
| "op_rank (OExcept q) st = map_option (\<lambda>_. (0, False)) (query_rank q)"
| "op_rank (OIntersect q) st = map_option (\<lambda>_. (0, False)) (query_rank q)"
| "op_rank _ st = Some (fst st, False)"

definition ranked :: "nat \<Rightarrow> 'j logical_plan \<Rightarrow> bool" where
  "ranked r plan \<longleftrightarrow> (\<forall>reg. push_ordered reg plan)
     \<and> (single_source_chain plan \<noteq> None \<longrightarrow> (\<forall>pr. fst (snd (push_state pr plan)) \<le> r \<and> snd (snd (push_state pr plan))))"

lemma ranked_chainI:
  assumes "single_source_chain plan \<noteq> None"
    and "\<And>pr. fst (snd (push_state pr plan)) \<le> r \<and> snd (snd (push_state pr plan))"
  shows "ranked r plan"
  using assms by (auto simp: ranked_def push_ordered.simps [of _ plan] split: option.split)

lemma ranked_mono: "ranked r plan \<Longrightarrow> r \<le> r' \<Longrightarrow> ranked r' plan"
  unfolding ranked_def by (meson order_trans)

lemma ranked_scan: "ranked r (LScan src path s)"
  by (rule ranked_chainI) simp_all

text \<open>A stage on top of a ranked plan.\<close>

lemma ranked_stage:
  assumes p: "ranked r p" and r: "r \<le> low" "low \<le> high"
    and node: "single_source_chain n = single_source_chain p"
      "\<And>pr. push_state pr n = push_stage (supp pr) low high (push_state pr p)"
      "\<And>reg. single_source_chain p = None \<Longrightarrow> push_ordered reg n = push_ordered reg p"
  shows "ranked high n"
proof (cases "single_source_chain p")
  case None
  then show ?thesis using p node by (simp add: ranked_def)
next
  case (Some src)
  show ?thesis
  proof (rule ranked_chainI)
    show "single_source_chain n \<noteq> None" using Some node(1) by simp
    fix pr
    obtain pinned rank ok where st: "push_state pr p = (pinned, rank, ok)" using prod_cases3 by blast
    have "rank \<le> r" "ok" using p Some st by (auto simp: ranked_def dest: spec [of _ pr])
    then show "fst (snd (push_state pr n)) \<le> high \<and> snd (snd (push_state pr n))"
      using r st by (auto simp: node(2) push_stage_def)
  qed
qed

lemma ranked_local:
  assumes "ranked r p" "single_source_chain n = single_source_chain p"
    "\<And>pr. push_state pr n = push_stage False 0 0 (push_state pr p)"
    "\<And>reg. single_source_chain p = None \<Longrightarrow> push_ordered reg n = push_ordered reg p"
  shows "ranked r n"
proof (cases "single_source_chain p")
  case None
  then show ?thesis using assms by (simp add: ranked_def)
next
  case (Some src)
  show ?thesis
  proof (rule ranked_chainI)
    show "single_source_chain n \<noteq> None" using Some assms(2) by simp
    show "fst (snd (push_state pr n)) \<le> r \<and> snd (snd (push_state pr n))" for pr
      using assms(1) Some by (auto simp: ranked_def assms(3) push_stage_def split: prod.split dest: spec [of _ pr])
  qed
qed

lemma ranked_nodes:
  "ranked r p \<Longrightarrow> r \<le> 1 \<Longrightarrow> ranked 1 (LFilter p pred)"
  "ranked r p \<Longrightarrow> r \<le> 3 \<Longrightarrow> ranked 4 (LDistinct p)"
  "ranked r p \<Longrightarrow> r \<le> 4 \<Longrightarrow> ranked 5 (LSort p keys)"
  "ranked r p \<Longrightarrow> r \<le> 5 \<Longrightarrow> ranked 6 (LLimit p n)"
  "ranked r p \<Longrightarrow> ranked r (LProjectExpr p terms)"
  "ranked r p \<Longrightarrow> ranked r (LExtend p terms)"
  "ranked r p \<Longrightarrow> ranked r (LExpand p field)"
  "ranked r p \<Longrightarrow> ranked r (LTransform p nm out mode)"
  by (rule ranked_stage [where p = p and low = 1 and supp = supports_where]
        ranked_stage [where p = p and low = 3 and supp = supports_distinct]
        ranked_stage [where p = p and low = 4 and supp = supports_order]
        ranked_stage [where p = p and low = 5 and supp = supports_limit]
        ranked_local [where p = p],
      assumption, simp_all add: push_ordered.simps [of _ "LFilter p pred"] push_ordered.simps [of _ "LDistinct p"]
        push_ordered.simps [of _ "LSort p keys"] push_ordered.simps [of _ "LLimit p n"]
        push_ordered.simps [of _ "LProjectExpr p terms"] push_ordered.simps [of _ "LExtend p terms"]
        push_ordered.simps [of _ "LExpand p field"] push_ordered.simps [of _ "LTransform p nm out mode"])+

lemma ranked_project: "ranked r p \<Longrightarrow> r \<le> 2 \<Longrightarrow> ranked 3 (LProject p cols)"
proof (cases "is_identity_columns cols")
  case True
  assume "ranked r p" "r \<le> 2"
  then have "ranked 3 p" using ranked_mono by fastforce
  then show ?thesis
    using True by (auto simp: ranked_def push_ordered.simps [of _ "LProject p cols"] push_ordered.simps [of _ p] split: option.splits)
next
  case False
  assume "ranked r p" "r \<le> 2"
  then show ?thesis
    by (rule ranked_stage [where supp = supports_project and low = 2])
      (simp_all add: False push_ordered.simps [of _ "LProject p cols"])
qed

lemma ranked_aggregate:
  assumes "ranked r p" "r \<le> 1" "g \<noteq> [] \<or> aggs \<noteq> []"
  shows "ranked 2 (LAggregate p g aggs)"
proof (rule ranked_stage [where low = 1 and p = p, OF assms(1,2)])
  show "(1::nat) \<le> 2" by simp
qed (use assms(3) in \<open>auto simp: push_ordered.simps [of _ "LAggregate p g aggs"] split: prod.split\<close>)

lemma ranked_binary:
  "ranked r p \<Longrightarrow> ranked r' q \<Longrightarrow> ranked 0 (LJoin k p q on)"
  "ranked r p \<Longrightarrow> ranked r' q \<Longrightarrow> ranked 0 (LSetOp kind p q)"
  by (auto simp: ranked_def push_ordered.simps [of _ "LJoin k p q on"] push_ordered.simps [of _ "LSetOp kind p q"])

lemma ranked_select: "lower_select p projs = Inr n \<Longrightarrow> ranked r p \<Longrightarrow> r \<le> 2 \<Longrightarrow> ranked 3 n"
  by (auto simp: lower_select_def split: if_splits intro: ranked_project ranked_nodes(5) ranked_mono)

lemma collect_list_Nil_iff: "collect_list f xs = Inr ys \<Longrightarrow> (ys = [] \<longleftrightarrow> xs = [])"
  using collect_list_length by fastforce

lemma ranked_fold:
  assumes "ranked r (LAggregate p g [])" "r \<le> r'" "g \<noteq> [] \<or> aggs \<noteq> []"
  shows "ranked r' (LAggregate p g aggs)"
proof -
  have st: "fst (snd (push_state pr (LAggregate p g aggs))) = fst (snd (push_state pr (LAggregate p g [])))"
    "snd (snd (push_state pr (LAggregate p g []))) \<Longrightarrow> snd (snd (push_state pr (LAggregate p g aggs)))" for pr
    using assms(3) by (auto split: prod.splits)
  show ?thesis
  proof (cases "single_source_chain p")
    case None
    then show ?thesis
      using assms(1) by (auto simp: ranked_def push_ordered.simps [of _ "LAggregate p _ _"])
  next
    case (Some src)
    then show ?thesis
      using assms(1,2) st by (intro ranked_chainI) (auto simp: ranked_def simp del: push_state.simps intro: order_trans)
  qed
qed

lemma ranked_fold_aggregates:
  assumes "ranked r p" "r \<le> 1" "aggs \<noteq> []"
  shows "ranked 2 (fold_aggregates p aggs)"
proof (cases "\<exists>q g. p = LAggregate q g []")
  case True
  then obtain q g where p: "p = LAggregate q g []" by blast
  have "ranked 2 (LAggregate q g aggs)" by (rule ranked_fold [where r = r]) (use assms p in auto)
  then show ?thesis by (simp add: fold_aggregates_def p)
next
  case False
  then have "fold_aggregates p aggs = LAggregate p [] aggs"
    by (cases p) (auto simp: fold_aggregates_def)
  then show ?thesis using ranked_aggregate [OF assms(1,2), of "[]" aggs] assms(3) by simp
qed

definition in_rank :: "nat \<times> bool \<Rightarrow> 'j logical_plan \<Rightarrow> bool" where
  "in_rank st p \<longleftrightarrow> ranked (fst st) p \<and> (snd st \<longrightarrow> fst st \<le> 2 \<and> (\<exists>q cols. p = LAggregate q cols [] \<and> cols \<noteq> []))"

lemma lower_aggregate_ranked:
  assumes "lower_op so sc tr p (OAggregate ps) = Inr n" "op_rank (OAggregate ps) st = Some st'" "in_rank st p"
  shows "in_rank st' n"
proof -
  from assms(1) obtain aggs where aggs: "collect_list lower_aggregate ps = Inr aggs" and n: "n = fold_aggregates p aggs"
    by (auto simp: lower_aggregates_def)
  have st': "st' = (2, False)" "snd st \<or> fst st \<le> 1 \<and> ps \<noteq> []" using assms(2) by (auto simp: rank_if_def split: if_splits)
  show ?thesis
  proof (cases "snd st")
    case True
    then obtain q cols where p: "p = LAggregate q cols []" "cols \<noteq> []" and r: "ranked (fst st) p" "fst st \<le> 2"
      using assms(3) by (auto simp: in_rank_def)
    have "ranked 2 (LAggregate q cols aggs)" using ranked_fold [of "fst st" q cols 2 aggs] p r by simp
    then show ?thesis by (simp add: n p fold_aggregates_def in_rank_def st')
  next
    case False
    then show ?thesis
      using assms(3) st' ranked_fold_aggregates [of "fst st" p aggs] collect_list_Nil_iff [OF aggs]
      by (simp add: in_rank_def n)
  qed
qed

lemma lower_group_ranked:
  assumes "lower_op so sc tr p (OGroupBy es) = Inr n" "op_rank (OGroupBy es) st = Some st'" "in_rank st p"
  shows "in_rank st' n"
proof -
  from assms(1) obtain cols where cols: "collect_list lower_col_name es = Inr cols" "n = LAggregate p cols []" by auto
  have "st' = (2, True)" "fst st \<le> 1" "es \<noteq> []" using assms(2) by (auto split: if_splits)
  then show ?thesis
    using assms(3) collect_list_Nil_iff [OF cols(1)] ranked_aggregate [of "fst st" p cols "[]"] cols(2)
    by (simp add: in_rank_def)
qed

lemma lower_op_ranked:
  assumes "lower_op so sc tr p op = Inr (n :: 'j logical_plan)" "op_rank op st = Some st'" "in_rank st p"
    and src: "\<And>src on q k. op = OJoin src on \<Longrightarrow> source_rank src = Some k \<Longrightarrow>
      lower_source so sc tr src = Inr (q :: 'j logical_plan) \<Longrightarrow> in_rank k q"
    and qry: "\<And>qr q k. op \<in> {OUnion qr, OExcept qr, OIntersect qr} \<Longrightarrow> query_rank qr = Some k \<Longrightarrow>
      lower_query so sc tr qr = Inr (q :: 'j logical_plan) \<Longrightarrow> in_rank k q"
  shows "in_rank st' n"
proof -
  have p: "ranked (fst st) p" using assms(3) by (simp add: in_rank_def)
  show ?thesis
  proof (cases op)
    case (OAggregate ps)
    then show ?thesis using lower_aggregate_ranked assms(1-3) by blast
  next
    case (OGroupBy es)
    then show ?thesis using lower_group_ranked assms(1-3) by blast
  next
    case (OSelect projs)
    then show ?thesis using assms(1,2) p ranked_select by (auto simp: rank_if_def in_rank_def split: if_splits)
  next
    case (OJoin s on)
    with assms(1,2) obtain k q c where q: "source_rank s = Some k" "lower_source so sc tr s = Inr q"
      and n: "n = LJoin Inner p q c" "st' = (0, False)" by auto
    show ?thesis using src [OF OJoin q] ranked_binary(1) [OF p] by (auto simp: in_rank_def n)
  next
    case (OUnion qr)
    with assms(1,2) obtain k q where q: "query_rank qr = Some k" "lower_query so sc tr qr = Inr q"
      and n: "n = LSetOp Union p q" "st' = (0, False)" by auto
    show ?thesis using qry [OF _ q] ranked_binary(2) [OF p] OUnion by (auto simp: in_rank_def n)
  next
    case (OExcept qr)
    with assms(1,2) obtain k q where q: "query_rank qr = Some k" "lower_query so sc tr qr = Inr q"
      and n: "n = LSetOp Except p q" "st' = (0, False)" by auto
    show ?thesis using qry [OF _ q] ranked_binary(2) [OF p] OExcept by (auto simp: in_rank_def n)
  next
    case (OIntersect qr)
    with assms(1,2) obtain k q where q: "query_rank qr = Some k" "lower_query so sc tr qr = Inr q"
      and n: "n = LSetOp Intersect p q" "st' = (0, False)" by auto
    show ?thesis using qry [OF _ q] ranked_binary(2) [OF p] OIntersect by (auto simp: in_rank_def n)
  qed (use assms(1,2) p in \<open>auto simp: rank_if_def in_rank_def lower_transform_def split: if_splits option.splits
        intro: ranked_nodes simp del: One_nat_def\<close>)
qed

lemma lower_ranked:
  "query_rank q = Some st \<Longrightarrow> lower_query so sc tr q = Inr (n :: 'j logical_plan) \<Longrightarrow> in_rank st n"
  "ops_rank ops st0 = Some st \<Longrightarrow> lower_ops so sc tr p ops = Inr (n :: 'j logical_plan) \<Longrightarrow> in_rank st0 p \<Longrightarrow> in_rank st n"
  "source_rank src = Some st \<Longrightarrow> lower_source so sc tr src = Inr (n :: 'j logical_plan) \<Longrightarrow> in_rank st n"
  "op_rank op st0 = Some st \<Longrightarrow> lower_op so sc tr p op = Inr (n :: 'j logical_plan) \<Longrightarrow> in_rank st0 p \<Longrightarrow> in_rank st n"
proof (induction q and ops st0 and src and op st0 arbitrary: st n and p st n and st n and p st n
    rule: query_rank_ops_rank_source_rank_op_rank.induct)
  case (1 src ops)
  from "1.prems" obtain st1 p where "source_rank src = Some st1" "ops_rank ops st1 = Some st"
    "lower_source so sc tr src = Inr p" "lower_ops so sc tr p ops = Inr n" by (auto split: option.splits)
  then show ?case using "1.IH" by blast
next
  case (3 op ops st0)
  from "3.prems" obtain st1 p1 where "op_rank op st0 = Some st1" "ops_rank ops st1 = Some st"
    "lower_op so sc tr p op = Inr p1" "lower_ops so sc tr p1 ops = Inr n" by (auto split: option.splits)
  then show ?case using "3.IH" "3.prems"(3) by blast
next
  case (4 q)
  then show ?case by simp
qed ((rule lower_op_ranked, assumption, assumption, assumption; simp)
    | (auto simp: Let_def in_rank_def ranked_scan; fail))+

text \<open>C22: a query from its syntax tree to its answer. If the stages of a pipeline, and of the pipelines in
  it, come in the order of a select, then however its sources are registered: once it is lowered and
  partitioned, the engine gives, over what the sources answer to the queries pushed to them, the
  batch the all-local evaluation gives.\<close>

theorem ordered_query_answer:
  assumes "query_rank q \<noteq> None" "lower_query so sc tr q = Inr plan" "partition_by_source plan reg = Inr pp"
    and "execute dj exec (local_plan plan) (answers dj data (local_plan plan)) = EvOk out []"
  shows "execute dj exec pp (answers dj data pp) = EvOk out []"
proof -
  obtain st where "query_rank q = Some st" using assms(1) by blast
  then have "in_rank st plan" using lower_ranked(1) assms(2) by blast
  then have "push_ordered reg plan" by (simp add: in_rank_def ranked_def)
  then show ?thesis using assms(3,4) partition_sound by (simp add: execute_value) blast
qed

definition demo_span :: span where
  "demo_span = \<lparr>sp_start = 0, sp_end = 0\<rparr>"

definition demo_source :: "string \<Rightarrow> source_expr" where
  "demo_source n = SrcPath \<lparr>pe_segments = [\<lparr>pg_name = n, pg_version = None, pg_glob = False, pg_selection = False\<rparr>],
     pe_as_of = None, pe_span = demo_span\<rparr>"

definition demo_pipeline :: pipeline where
  "demo_pipeline = Pipeline (demo_source ''s'')
     [OWhere (EBinary OpEq (ECol ''a'') (ELit (AInt 1))), ODistinct, OLimit 1,
      OJoin (demo_source ''t'') (EBinary OpEq (ECol ''a'') (ECol ''a''))]"

lemma demo_pipeline_lowers:
  "lower_query hd (\<lambda>_. rb_schema demo_batch) (\<lambda>_. None) demo_pipeline = Inr demo_push_plan"
  by (simp add: demo_pipeline_def demo_source_def demo_push_plan_def demo_scan_def demo_one_def addressed_path_def
      is_comparison_def)

theorem ordered_query_answer_witness:
  "\<exists>pp out. partition_by_source demo_push_plan demo_sources = Inr pp
     \<and> execute (\<lambda>_. []) None pp (answers (\<lambda>_. []) (\<lambda>_ _. demo_batch) pp) = EvOk out []
     \<and> out = demo_joined"
proof -
  obtain pp where pp: "partition_by_source demo_push_plan demo_sources = Inr pp" using demo_partitions by blast
  have "query_rank demo_pipeline \<noteq> None" by code_simp
  from ordered_query_answer [OF this demo_pipeline_lowers pp demo_runs(1)] pp show ?thesis by blast
qed

theorem lower_drops_witness:
  "lower_op hd (\<lambda>_. schema_empty) (\<lambda>_. None) demo_push_plan
     (OAggregate [PjExpr (EFn ''sum'' [EBinary OpMul (ECol ''a'') (ECol ''b'')] demo_span) (Some ''t'')]) =
     Inr (LAggregate demo_push_plan [] [\<lparr>ag_func = AggSum, ag_column = ''*'', ag_output = ''t''\<rparr>])
   \<and> ev_aggregate (\<lambda>_. []) demo_batch [] [\<lparr>ag_func = AggSum, ag_column = ''*'', ag_output = ''t''\<rparr>] =
     batch (Schema [column_new ''t'' TUnknown True]) [mk_row [VInt 0]]"
proof -
  have "\<not> is_column (EBinary OpMul (ECol ''a'') (ECol ''b''))" by simp
  moreover have "\<forall>c\<in>set (columns (rb_schema demo_batch)). col_name c \<noteq> ''*''" by code_simp
  moreover have "fold_aggregates demo_push_plan as = LAggregate demo_push_plan [] as" for as
    by (simp add: fold_aggregates_def demo_push_plan_def)
  ultimately show ?thesis
    using lower_drops [of "EBinary OpMul (ECol ''a'') (ECol ''b'')" hd "\<lambda>_. schema_empty" "\<lambda>_. None" demo_push_plan
        demo_span "''t''" demo_batch "\<lambda>_. []" _ _ _ _ _ _]
    by metis
qed

end
