(* ===== verification/Lang_Lex.thy ===== *)
theory Lang_Lex
  imports Lang_Token Types_Float
begin

text \<open>
  The lexer, \<open>crates/lang/src/lex.rs\<close>. The code's cursor into its vector of characters is the pair of
  its byte offset and the text left (\<open>cursor\<close>): the lexer never looks back into the text, only at
  the tokens emitted. Every scanner takes a cursor and gives the one behind what it consumed. The
  \<open>f64\<close> of a literal is the nearest double of its decimal value, ties to even.
\<close>

section \<open>Character classes\<close>

definition is_ascii_digit :: "char \<Rightarrow> bool" where
  "is_ascii_digit c \<longleftrightarrow> 48 \<le> (of_char c :: nat) \<and> (of_char c :: nat) \<le> 57"

definition is_ascii_alpha :: "char \<Rightarrow> bool" where
  "is_ascii_alpha c \<longleftrightarrow> 65 \<le> (of_char c :: nat) \<and> (of_char c :: nat) \<le> 90 \<or> 97 \<le> (of_char c :: nat) \<and> (of_char c :: nat) \<le> 122"

definition is_ident_start :: "char \<Rightarrow> bool" where
  "is_ident_start c \<longleftrightarrow> is_ascii_alpha c \<or> c = CHR ''_''"

definition is_ident_continue :: "char \<Rightarrow> bool" where
  "is_ident_continue c \<longleftrightarrow> is_ascii_alpha c \<or> is_ascii_digit c \<or> c = CHR ''_''"

definition is_path_delimiter :: "char \<Rightarrow> bool" where
  "is_path_delimiter c \<longleftrightarrow> is_ws c \<or> c \<in> set ''|=<>~(),#;'' \<or> c = CHR 0x27"

definition is_blank :: "char \<Rightarrow> bool" where
  "is_blank c \<longleftrightarrow> c = CHR '' '' \<or> c = CHR 0x09"

definition path_boundary_words :: "string list" where
  "path_boundary_words =
     [''as'', ''at'', ''call'', ''connect'', ''create'', ''disconnect'', ''except'', ''from'', ''insert'', ''into'',
      ''intersect'', ''join'', ''map'', ''on'', ''of'', ''over'', ''remove'', ''sql'', ''table'', ''to'', ''transform'',
      ''union'', ''update'', ''upsert'', ''view'', ''with'']"

definition path_boundary_word :: "string \<Rightarrow> bool" where
  "path_boundary_word s \<longleftrightarrow> ascii_lower s \<in> set path_boundary_words"

section \<open>Cursors\<close>

type_synonym cursor = "nat \<times> string"

definition u32_of :: "nat \<Rightarrow> u32" where
  "u32_of n = (if int n < 2 ^ 32 then word_of_nat n else - 1)"

definition mk_span :: "nat \<Rightarrow> nat \<Rightarrow> span" where
  "mk_span a b = \<lparr>sp_start = u32_of a, sp_end = u32_of b\<rparr>"

definition lex_err :: "cursor \<Rightarrow> nat \<Rightarrow> lex_error_kind \<Rightarrow> lex_error" where
  "lex_err cur start k =
     \<lparr>le_span = mk_span start (if start < fst cur then fst cur else fst cur + text_len (snd cur)), le_kind = k\<rparr>"

definition take_run :: "(char \<Rightarrow> bool) \<Rightarrow> cursor \<Rightarrow> string \<times> cursor" where
  "take_run P cur =
     (let w = takeWhile P (snd cur) in (w, (fst cur + text_len w, dropWhile P (snd cur))))"

section \<open>Paths\<close>

definition selection_char :: "char \<Rightarrow> bool" where
  "selection_char c \<longleftrightarrow> \<not> (c = CHR ''/'' \<or> c = CHR ''@'' \<or> is_path_delimiter c \<and> c \<noteq> CHR '','')"

text \<open>The cursor is behind the \<open>@\<close>, which stood at byte \<open>start\<close>.\<close>

definition consume_selection_segment :: "nat \<Rightarrow> cursor \<Rightarrow> lex_error + (path_seg \<times> cursor)" where
  "consume_selection_segment start cur =
     (case take_run selection_char cur of (raw, cur') \<Rightarrow>
        if raw = [] then Inl (lex_err cur' start LekEmptySelectionSegment)
        else Inr (path_seg_selection raw, cur'))"

definition reject_token_glued_to_quoted_segment :: "cursor \<Rightarrow> lex_error + unit" where
  "reject_token_glued_to_quoted_segment cur =
     (case snd cur of
        [] \<Rightarrow> Inr ()
      | c # cs \<Rightarrow>
          if c \<noteq> CHR ''/'' \<and> c \<noteq> CHR ''@'' \<and> \<not> is_path_delimiter c
          then Inl (lex_err (fst cur + char_len c, cs) (fst cur) (LekUnexpectedChar c))
          else Inr ())"

text \<open>The loop behind the opening quote at byte \<open>start\<close>.\<close>

fun quoted_segment_name :: "nat \<Rightarrow> string \<Rightarrow> nat \<Rightarrow> string \<Rightarrow> lex_error + (string \<times> cursor)" where
  "quoted_segment_name start name at [] = Inl (lex_err (at, []) start LekUnterminatedString)"
| "quoted_segment_name start name at (c # cs) =
     (if c = CHR 0x27 then
        (case cs of
           d # ds \<Rightarrow>
             if d = CHR 0x27 then quoted_segment_name start (name @ [CHR 0x27]) (at + 2) ds
             else (case reject_token_glued_to_quoted_segment (at + 1, cs) of
                     Inl e \<Rightarrow> Inl e | Inr _ \<Rightarrow> Inr (name, at + 1, cs))
         | [] \<Rightarrow> Inr (name, at + 1, []))
      else if c = CHR ''/'' then Inl (lex_err (at, c # cs) at LekPathSeparatorInQuotedSegment)
      else quoted_segment_name start (name @ [c]) (at + char_len c) cs)"

fun segment_run :: "bool \<Rightarrow> string \<Rightarrow> string" where
  "segment_run in_query [] = []"
| "segment_run in_query (c # cs) =
     (if c = CHR ''/'' \<or> c = CHR ''@'' then []
      else if is_path_delimiter c \<and> \<not> (in_query \<and> (c = CHR ''='' \<or> c = CHR ''&'')) then []
      else c # segment_run (in_query \<or> c = CHR ''?'') cs)"

definition is_glob_char :: "char \<Rightarrow> bool" where
  "is_glob_char c \<longleftrightarrow> c = CHR ''*'' \<or> c = CHR ''?''"

definition consume_path_segment_name :: "cursor \<Rightarrow> (string \<times> bool) \<times> cursor" where
  "consume_path_segment_name cur =
     (let name = segment_run False (snd cur)
      in ((name, list_ex is_glob_char name), (fst cur + text_len name, drop (length name) (snd cur))))"

definition version_char :: "char \<Rightarrow> bool" where
  "version_char c \<longleftrightarrow> \<not> (c = CHR ''/'' \<or> is_path_delimiter c \<and> c \<noteq> CHR ''~'')"

definition consume_path_version :: "cursor \<Rightarrow> string option \<times> cursor" where
  "consume_path_version cur =
     (case snd cur of
        [] \<Rightarrow> (None, cur)
      | c # cs \<Rightarrow>
          if c = CHR ''@'' then (case take_run version_char (fst cur + 1, cs) of (ver, cur') \<Rightarrow> (Some ver, cur'))
          else (None, cur))"

text \<open>One segment; the cursor is behind its \<open>/\<close>.\<close>

definition consume_path_segment :: "cursor \<Rightarrow> lex_error + (path_seg \<times> cursor)" where
  "consume_path_segment cur =
     (case cur of (at, rest) \<Rightarrow>
       if rest \<noteq> [] \<and> hd rest = CHR ''@'' then consume_selection_segment at (at + 1, tl rest)
       else
         (case (if rest \<noteq> [] \<and> hd rest = CHR 0x27
                then (case quoted_segment_name at [] (at + 1) (tl rest) of
                        Inl e \<Rightarrow> Inl e | Inr (name, cur1) \<Rightarrow> Inr ((name, False), cur1))
                else Inr (consume_path_segment_name cur)) of
            Inl e \<Rightarrow> Inl e
          | Inr ((name, glob), cur1) \<Rightarrow>
              (case consume_path_version cur1 of (ver, cur2) \<Rightarrow> Inr (path_seg_new name ver glob, cur2))))"

section \<open>What the scanners consume\<close>

text \<open>\<open>consumed cur cur' t\<close>: the cursor moved over the text \<open>t\<close>.\<close>

definition consumed :: "cursor \<Rightarrow> cursor \<Rightarrow> string \<Rightarrow> bool" where
  "consumed cur cur' t \<longleftrightarrow> snd cur = t @ snd cur' \<and> fst cur' = fst cur + text_len t"

lemma consumed_refl: "consumed cur cur []"
  by (simp add: consumed_def)

lemma consumed_trans: "consumed a b s \<Longrightarrow> consumed b c t \<Longrightarrow> consumed a c (s @ t)"
  by (simp add: consumed_def)

lemma consumed_one: "consumed (at, c # cs) (at + char_len c, cs) [c]"
  by (simp add: consumed_def)

lemma consumed_length: "consumed cur cur' t \<Longrightarrow> length (snd cur') + length t = length (snd cur)"
  by (simp add: consumed_def)

lemma take_run_consumed: "take_run P cur = (w, cur') \<Longrightarrow> consumed cur cur' w \<and> w = takeWhile P (snd cur)"
  by (auto simp: take_run_def consumed_def Let_def)

lemma ascii_len [simp]:
  "char_len (CHR ''@'') = 1" "char_len (CHR ''/'') = 1" "char_len (CHR 0x27) = 1" "char_len (CHR 0x5C) = 1"
  by (simp_all add: char_len_def)

lemma quoted_segment_consumed:
  "quoted_segment_name start name at rest = Inr (r, cur') \<Longrightarrow> \<exists>t. consumed (at, rest) cur' t \<and> t \<noteq> []"
proof (induction start name at rest rule: quoted_segment_name.induct)
  case (2 start name at c cs)
  show ?case
  proof (cases "c = CHR 0x27 \<and> (\<exists>ds. cs = CHR 0x27 # ds)")
    case True
    then obtain ds where cs: "c = CHR 0x27" "cs = CHR 0x27 # ds" by blast
    from 2(1) [OF cs(1,2)] 2(3) obtain t where "consumed (at + 2, ds) cur' t" using cs by auto
    then show ?thesis
      by (intro exI [of _ "CHR 0x27 # CHR 0x27 # t"]) (simp add: cs consumed_def)
  next
    case quote: False
    show ?thesis
    proof (cases "c = CHR 0x27")
      case True
      then have "cur' = (at + 1, cs)" using 2(3) quote by (auto split: list.splits sum.splits if_splits)
      then show ?thesis using True by (intro exI [of _ "[c]"]) (simp add: consumed_def)
    next
      case False
      with 2(2,3) obtain t where "consumed (at + char_len c, cs) cur' t" by (auto split: if_splits)
      then show ?thesis by (intro exI [of _ "c # t"]) (simp add: consumed_def)
    qed
  qed
qed simp

lemma segment_run_drop: "segment_run q s @ drop (length (segment_run q s)) s = s"
  by (induction q s rule: segment_run.induct) auto

lemma consumed_Cons: "consumed (at + char_len c, cs) cur' t \<Longrightarrow> consumed (at, c # cs) cur' (c # t)"
  by (simp add: consumed_def)

lemma consume_path_segment_name_consumed:
  "consume_path_segment_name cur = ((name, glob), cur') \<Longrightarrow> consumed cur cur' name"
  using segment_run_drop [of False "snd cur"] by (auto simp: consume_path_segment_name_def consumed_def Let_def)

lemma consume_path_version_consumed: "consume_path_version cur = (v, cur') \<Longrightarrow> \<exists>t. consumed cur cur' t"
proof (cases "snd cur")
  case (Cons c cs)
  assume r: "consume_path_version cur = (v, cur')"
  show ?thesis
  proof (cases "c = CHR ''@''")
    case True
    obtain w cur1 where w: "take_run version_char (fst cur + 1, cs) = (w, cur1)" by (cases "take_run version_char (fst cur + 1, cs)")
    then have "cur' = cur1" using r Cons True by (simp add: consume_path_version_def)
    moreover have "consumed (fst cur + char_len c, cs) cur1 w" using take_run_consumed [OF w, THEN conjunct1] True by simp
    ultimately show ?thesis using consumed_Cons [of "fst cur" c cs cur' w] Cons by (metis prod.collapse)
  next
    case False
    then show ?thesis using r Cons by (auto simp: consume_path_version_def consumed_def)
  qed
qed (auto simp: consume_path_version_def intro: consumed_refl)

lemma consume_selection_consumed:
  "consume_selection_segment start cur = Inr (seg, cur') \<Longrightarrow> \<exists>t. consumed cur cur' t"
  by (auto simp: consume_selection_segment_def split: prod.splits if_splits dest!: take_run_consumed)

lemma consume_path_segment_consumed:
  assumes "consume_path_segment (at, rest) = Inr (seg, cur')"
  shows "\<exists>t. consumed (at, rest) cur' t"
proof (cases "rest \<noteq> [] \<and> hd rest = CHR ''@''")
  case True
  then obtain cs where rest: "rest = CHR ''@'' # cs" by (cases rest) auto
  with assms obtain t where "consumed (at + 1, cs) cur' t"
    using consume_selection_consumed [of at "(at + 1, cs)"] by (auto simp: consume_path_segment_def)
  then have "consumed (at, rest) cur' (CHR ''@'' # t)" using rest consumed_Cons [of at "CHR ''@''"] by simp
  then show ?thesis ..
next
  case False
  obtain name glob cur1 where "consume_path_version cur1 = (ps_version seg, cur')"
    and n: "(if rest \<noteq> [] \<and> hd rest = CHR 0x27
             then (case quoted_segment_name at [] (at + 1) (tl rest) of
                     Inl e \<Rightarrow> Inl e | Inr (name, cur1) \<Rightarrow> Inr ((name, False), cur1))
             else Inr (consume_path_segment_name (at, rest))) = Inr ((name, glob), cur1)"
    using assms False unfolding consume_path_segment_def
    by (auto simp: path_seg_new_def split: sum.splits prod.splits if_splits)
  then obtain t2 where t2: "consumed cur1 cur' t2" using consume_path_version_consumed by blast
  have "\<exists>t. consumed (at, rest) cur1 t"
  proof (cases "rest \<noteq> [] \<and> hd rest = CHR 0x27")
    case True
    then obtain cs where rest: "rest = CHR 0x27 # cs" by (cases rest) auto
    then obtain t where "consumed (at + 1, cs) cur1 t"
      using n quoted_segment_consumed by (auto split: sum.splits prod.splits) blast
    then have "consumed (at, rest) cur1 (CHR 0x27 # t)" using rest consumed_Cons [of at "CHR 0x27"] by simp
    then show ?thesis ..
  next
    case False
    then have "consume_path_segment_name (at, rest) = ((name, glob), cur1)" using n by (auto split: if_splits)
    then show ?thesis using consume_path_segment_name_consumed by blast
  qed
  then show ?thesis using t2 consumed_trans by blast
qed

text \<open>The loop of \<open>lex_path\<close>.\<close>

function lex_path_loop :: "path_seg list \<Rightarrow> cursor \<Rightarrow> lex_error + (path_seg list \<times> cursor)" where
  "lex_path_loop segs (at, rest) =
     (if rest \<noteq> [] \<and> hd rest = CHR ''/'' then
        (case consume_path_segment (at + 1, tl rest) of
           Inl e \<Rightarrow> Inl e
         | Inr (seg, cur) \<Rightarrow> lex_path_loop (segs @ [seg]) cur)
      else Inr (segs, (at, rest)))"
  by pat_completeness auto

lemma consume_path_segment_length:
  "consume_path_segment cur = Inr (seg, cur') \<Longrightarrow> length (snd cur') \<le> length (snd cur)"
  using consume_path_segment_consumed consumed_length by (metis le_add1 prod.collapse)

termination lex_path_loop
  by (relation "measure (\<lambda>(segs, cur). length (snd cur))")
     (auto dest!: consume_path_segment_length simp: neq_Nil_conv)

declare lex_path_loop.simps [simp del]

lemma lex_path_loop_consumed: "lex_path_loop segs cur = Inr (segs', cur') \<Longrightarrow> \<exists>t. consumed cur cur' t"
proof (induction segs cur arbitrary: segs' rule: lex_path_loop.induct)
  case (1 segs at rest)
  show ?case
  proof (cases "rest \<noteq> [] \<and> hd rest = CHR ''/''")
    case True
    then obtain cs where rest: "rest = CHR ''/'' # cs" by (cases rest) auto
    then obtain seg cur1 where seg: "consume_path_segment (at + 1, cs) = Inr (seg, cur1)"
      using 1(2) by (auto simp: lex_path_loop.simps [of segs at "CHR ''/'' # cs"] split: sum.splits)
    then have "lex_path_loop (segs @ [seg]) cur1 = Inr (segs', cur')"
      using 1(2) rest by (simp add: lex_path_loop.simps [of segs at "CHR ''/'' # cs"])
    then have "\<exists>t. consumed cur1 cur' t" by (rule 1(1) [rotated -1]) (use seg rest in simp_all)
    then obtain t2 where "consumed cur1 cur' t2" ..
    moreover obtain t1 where "consumed (at + 1, cs) cur1 t1" using consume_path_segment_consumed seg by blast
    ultimately have "consumed (at + 1, cs) cur' (t1 @ t2)" using consumed_trans by blast
    then have "consumed (at, rest) cur' (CHR ''/'' # t1 @ t2)" using rest consumed_Cons [of at "CHR ''/''"] by simp
    then show ?thesis ..
  next
    case False
    then show ?thesis using 1(2) consumed_refl by (auto simp: lex_path_loop.simps [of segs at rest] split: if_splits)
  qed
qed

section \<open>Strings, numbers, words\<close>

definition unescape :: "char \<Rightarrow> char option" where
  "unescape c =
     (if c = CHR ''n'' then Some (CHR 0x0A)
      else if c = CHR ''t'' then Some (CHR 0x09)
      else if c = CHR ''r'' then Some (CHR 0x0D)
      else if c = CHR 0x5C then Some (CHR 0x5C)
      else if c = CHR 0x27 then Some (CHR 0x27)
      else if c = CHR ''0'' then Some (CHR 0x00)
      else None)"

text \<open>The loop of \<open>lex_string\<close>, behind the opening quote at byte \<open>start\<close>.\<close>

fun string_loop :: "nat \<Rightarrow> string \<Rightarrow> nat \<Rightarrow> string \<Rightarrow> lex_error + (string \<times> cursor)" where
  "string_loop start v at [] = Inl (lex_err (at, []) start LekUnterminatedString)"
| "string_loop start v at (c # cs) =
     (if c = CHR 0x27 then Inr (v, at + 1, cs)
      else if c = CHR 0x5C then
        (case cs of
           [] \<Rightarrow> Inl (lex_err (at + 1, []) start LekUnterminatedString)
         | e # es \<Rightarrow>
             (case unescape e of
                Some d \<Rightarrow> string_loop start (v @ [d]) (at + 1 + char_len e) es
              | None \<Rightarrow> Inl (lex_err (at + 1 + char_len e, es) at LekBadEscape)))
      else string_loop start (v @ [c]) (at + char_len c) cs)"

text \<open>The text of a string literal whose opening quote is at the cursor.\<close>

definition scan_string :: "cursor \<Rightarrow> lex_error + (string \<times> cursor)" where
  "scan_string cur = string_loop (fst cur) [] (fst cur + 1) (tl (snd cur))"

fun number_run :: "bool \<Rightarrow> string \<Rightarrow> string \<times> bool" where
  "number_run is_float [] = ([], is_float)"
| "number_run is_float (c # cs) =
     (if is_ascii_digit c then (case number_run is_float cs of (raw, f) \<Rightarrow> (c # raw, f))
      else if c = CHR ''.'' \<and> \<not> is_float \<and> cs \<noteq> [] \<and> is_ascii_digit (hd cs)
      then (case number_run True cs of (raw, f) \<Rightarrow> (c # raw, f))
      else ([], is_float))"

definition dec_value :: "string \<Rightarrow> nat" where
  "dec_value ds = foldl (\<lambda>v c. 10 * v + (of_char c - 48)) 0 ds"

definition parse_u64 :: "string \<Rightarrow> u64 option" where
  "parse_u64 ds = (let v = dec_value ds in if int v < 2 ^ 64 then Some (word_of_nat v) else None)"

definition parse_i64 :: "string \<Rightarrow> i64 option" where
  "parse_i64 ds = (let v = dec_value ds in if int v < 2 ^ 63 then Some (word_of_nat v) else None)"

text \<open>\<open>f64_of_ratio n d\<close>: the double nearest to \<open>n / d\<close>, ties to even. Below \<open>2^53\<close> units of \<open>2^-1074\<close> the
  quotient itself is rounded, above it two guard bits and a sticky bit are enough.\<close>

definition f64_of_ratio :: "nat \<Rightarrow> nat \<Rightarrow> f64" where
  "f64_of_ratio n d =
     (let q = n * 2 ^ 1074 div d; r = n * 2 ^ 1074 mod d;
          m = (if q < 2 ^ 53 then (if d < 2 * r \<or> d = 2 * r \<and> odd q then q + 1 else q)
               else round_sig (4 * q + (if r = 0 then 0 else 1)) div 4)
      in if 2 ^ (1024 + 1074) \<le> m then FInf False else FFin False m)"

definition parse_f64 :: "string \<Rightarrow> f64" where
  "parse_f64 raw =
     (let whole = takeWhile is_ascii_digit raw; frac = filter is_ascii_digit (dropWhile is_ascii_digit raw)
      in f64_of_ratio (dec_value (whole @ frac)) (10 ^ length frac))"

definition peek_size_unit :: "string \<Rightarrow> size_unit option" where
  "peek_size_unit rest =
     (let after = dropWhile is_blank rest
      in if after = rest then None else size_unit_from_word (takeWhile is_ident_continue after))"

definition consume_size_unit_word :: "cursor \<Rightarrow> cursor" where
  "consume_size_unit_word cur = snd (take_run is_ident_continue (snd (take_run is_blank cur)))"

definition lex_number :: "cursor \<Rightarrow> lex_error + (token \<times> cursor)" where
  "lex_number cur =
     (case number_run False (snd cur) of (raw, is_float) \<Rightarrow>
       (let cur1 = (fst cur + text_len raw, drop (length raw) (snd cur)) in
        if is_float then Inr (TkFloat (parse_f64 raw), cur1)
        else (case peek_size_unit (snd cur1) of
           Some unit \<Rightarrow>
             (case parse_u64 raw of
                Some v \<Rightarrow> Inr (TkSize v unit, consume_size_unit_word cur1)
              | None \<Rightarrow> Inl (lex_err cur1 (fst cur) LekBadNumber))
         | None \<Rightarrow>
             (case parse_i64 raw of
                Some v \<Rightarrow> Inr (TkInt v, cur1)
              | None \<Rightarrow> Inl (lex_err cur1 (fst cur) LekBadNumber)))))"

text \<open>\<open>to_digit(16)\<close>.\<close>

definition hex_value :: "char \<Rightarrow> nat option" where
  "hex_value c =
     (let n = of_char c :: nat in
      if 48 \<le> n \<and> n \<le> 57 then Some (n - 48)
      else if 97 \<le> n \<and> n \<le> 102 then Some (n - 87)
      else if 65 \<le> n \<and> n \<le> 70 then Some (n - 55)
      else None)"

text \<open>The code pairs up the bytes of the text; a byte outside ASCII is no hex digit, so the pairs of characters
  decide the same.\<close>

fun hex_pairs :: "string \<Rightarrow> u8 list option" where
  "hex_pairs [] = Some []"
| "hex_pairs [c] = None"
| "hex_pairs (c # d # cs) =
     (case (hex_value c, hex_value d, hex_pairs cs) of
        (Some hi, Some lo, Some bs) \<Rightarrow> Some (word_of_nat (hi * 16 + lo) # bs)
      | _ \<Rightarrow> None)"

definition decode_hex :: "string \<Rightarrow> u8 list option" where
  "decode_hex s = (if text_len s mod 2 \<noteq> 0 then None else hex_pairs s)"

text \<open>\<open>None\<close> when no string follows.\<close>

definition try_typed_literal_string :: "cursor \<Rightarrow> (lex_error + (string \<times> cursor)) option" where
  "try_typed_literal_string cur =
     (case snd (take_run is_blank cur) of (at, rest) \<Rightarrow>
        if rest \<noteq> [] \<and> hd rest = CHR 0x27 then Some (scan_string (at, rest)) else None)"

definition plain_word :: "string \<Rightarrow> token" where
  "plain_word w =
     (case literal_word w of
        Some tok \<Rightarrow> tok
      | None \<Rightarrow> (case keyword_from_word w of Some kw \<Rightarrow> TkKeyword kw | None \<Rightarrow> TkIdent w))"

definition lex_word :: "cursor \<Rightarrow> lex_error + (token \<times> cursor)" where
  "lex_word cur =
     (case take_run is_ident_continue cur of (w, cur1) \<Rightarrow>
        (case (lit_type_from_word w, try_typed_literal_string cur1) of
           (Some ty, Some (Inl e)) \<Rightarrow> Inl e
         | (Some ty, Some (Inr (raw, cur2))) \<Rightarrow> Inr (TkTypedLit ty raw, cur2)
         | _ \<Rightarrow>
             (if eq_ignore_case w ''x'' \<and> snd cur1 \<noteq> [] \<and> hd (snd cur1) = CHR 0x27
              then (case scan_string cur1 of
                      Inl e \<Rightarrow> Inl e
                    | Inr (raw, cur2) \<Rightarrow>
                        (case decode_hex raw of
                           Some bytes \<Rightarrow> Inr (TkBytes bytes, cur2)
                         | None \<Rightarrow> Inl (lex_err cur2 (fst cur) LekBadHexBytes)))
              else Inr (plain_word w, cur1))))"

section \<open>Symbols\<close>

definition two_char_symbols :: "((char \<times> char) \<times> token) list" where
  "two_char_symbols =
     [((CHR 0x7C, CHR 0x3E), TkPipe), ((CHR 0x3C, CHR 0x3D), TkLe), ((CHR 0x3E, CHR 0x3D), TkGe),
      ((CHR 0x3C, CHR 0x3E), TkNe), ((CHR 0x3D, CHR 0x3E), TkArrow), ((CHR 0x3D, CHR 0x3D), TkEqEq)]"

definition one_char_symbols :: "(char \<times> token) list" where
  "one_char_symbols =
     [(CHR 0x3D, TkEq), (CHR 0x3C, TkLt), (CHR 0x3E, TkGt), (CHR 0x7E, TkTilde), (CHR 0x2B, TkPlus), (CHR 0x2D, TkMinus),
      (CHR 0x2F, TkSlash), (CHR 0x28, TkLParen), (CHR 0x29, TkRParen), (CHR 0x7B, TkLBrace), (CHR 0x7D, TkRBrace),
      (CHR 0x5B, TkLBracket), (CHR 0x5D, TkRBracket), (CHR 0x3B, TkSemicolon), (CHR 0x2C, TkComma), (CHR 0x3A, TkColon),
      (CHR 0x2E, TkDot), (CHR 0x2A, TkStar)]"

definition lex_symbol :: "nat \<Rightarrow> char \<Rightarrow> string \<Rightarrow> lex_error + (token \<times> cursor)" where
  "lex_symbol at c cs =
     (case (if cs = [] then None else map_of two_char_symbols (c, hd cs)) of
        Some tok \<Rightarrow> Inr (tok, (at + 2, tl cs))
      | None \<Rightarrow>
          (case map_of one_char_symbols c of
             Some tok \<Rightarrow> Inr (tok, (at + 1, cs))
           | None \<Rightarrow> Inl (lex_err (at + char_len c, cs) at (LekUnexpectedChar c))))"

section \<open>The lexer\<close>

record lexer =
  lx_cur :: cursor
  lx_break :: bool
  lx_out :: "token spanned list"

definition lexer_new :: "string \<Rightarrow> lexer" where
  "lexer_new src = \<lparr>lx_cur = (0, src), lx_break = True, lx_out = []\<rparr>"

text \<open>The token spans from byte \<open>start\<close> to the cursor behind it.\<close>

definition push_token :: "nat \<Rightarrow> token \<Rightarrow> cursor \<Rightarrow> lexer \<Rightarrow> lexer" where
  "push_token start tok cur st =
     \<lparr>lx_cur = cur, lx_break = False,
      lx_out = lx_out st @ [\<lparr>sd_node = tok, sd_span = mk_span start (fst cur)\<rparr>]\<rparr>"

fun is_ident :: "token \<Rightarrow> bool" where
  "is_ident (TkIdent _) = True"
| "is_ident _ = False"

fun is_keyword :: "token \<Rightarrow> bool" where
  "is_keyword (TkKeyword _) = True"
| "is_keyword _ = False"

text \<open>The tokens emitted are given last first; \<open>depth\<close> counts the closing parentheses met.\<close>

fun matching_open :: "nat \<Rightarrow> token list \<Rightarrow> token list option" where
  "matching_open depth [] = None"
| "matching_open depth (t # ts) =
     (case t of
        TkRParen \<Rightarrow> matching_open (depth + 1) ts
      | TkLParen \<Rightarrow> if depth - 1 = 0 then Some ts else matching_open (depth - 1) ts
      | _ \<Rightarrow> matching_open depth ts)"

fun call_head :: "(token \<Rightarrow> bool) \<Rightarrow> token list \<Rightarrow> bool" where
  "call_head P (action # dot # driver # call # _) \<longleftrightarrow>
     P action \<and> dot = TkDot \<and> is_ident driver \<and> call = TkKeyword KwCall"
| "call_head P _ \<longleftrightarrow> False"

definition after_call_signature_params :: "token list \<Rightarrow> bool" where
  "after_call_signature_params ts =
     (case matching_open 0 ts of
        Some before \<Rightarrow> call_head (\<lambda>t. is_ident t \<or> is_keyword t) before
      | None \<Rightarrow> False)"

definition after_call_signature :: "token list \<Rightarrow> bool" where
  "after_call_signature ts = call_head is_ident ts"

fun is_operand_end :: "token \<Rightarrow> bool" where
  "is_operand_end (TkStr _) = True"
| "is_operand_end (TkInt _) = True"
| "is_operand_end (TkFloat _) = True"
| "is_operand_end (TkBool _) = True"
| "is_operand_end TkNull = True"
| "is_operand_end (TkSize _ _) = True"
| "is_operand_end (TkTypedLit _ _) = True"
| "is_operand_end (TkBytes _) = True"
| "is_operand_end TkRParen = True"
| "is_operand_end TkRBrace = True"
| "is_operand_end TkRBracket = True"
| "is_operand_end _ = False"

text \<open>From whether a line break was crossed and the tokens emitted, last first.\<close>

definition slash_starts_path :: "bool \<Rightarrow> token list \<Rightarrow> bool" where
  "slash_starts_path after_break ts \<longleftrightarrow>
     (if after_break then True
      else case ts of
             [] \<Rightarrow> True
           | prev # _ \<Rightarrow>
               (case prev of
                  TkIdent s \<Rightarrow> after_call_signature ts \<or> path_boundary_word s
                | _ \<Rightarrow> (if prev = TkRParen \<and> after_call_signature_params ts then True else \<not> is_operand_end prev)))"

definition emitted :: "lexer \<Rightarrow> token list" where
  "emitted st = rev (map sd_node (lx_out st))"

definition lex_token :: "bool \<Rightarrow> nat \<Rightarrow> char \<Rightarrow> string \<Rightarrow> lex_error + (token \<times> cursor)" where
  "lex_token slash_path at c cs =
     (if c = CHR ''/'' \<and> slash_path then
        (case lex_path_loop [] (at, c # cs) of Inl e \<Rightarrow> Inl e | Inr (segs, cur) \<Rightarrow> Inr (TkPath segs, cur))
      else if c = CHR 0x27 then
        (case scan_string (at, c # cs) of Inl e \<Rightarrow> Inl e | Inr (v, cur) \<Rightarrow> Inr (TkStr v, cur))
      else if is_ascii_digit c then lex_number (at, c # cs)
      else if is_ident_start c then lex_word (at, c # cs)
      else lex_symbol at c cs)"

text \<open>One iteration of the loop of \<open>run\<close>, at the character \<open>c\<close>.\<close>

definition lex_step :: "nat \<Rightarrow> char \<Rightarrow> string \<Rightarrow> lexer \<Rightarrow> lex_error + lexer" where
  "lex_step at c cs st =
     (if is_ws c then
        Inr (st\<lparr>lx_cur := (at + char_len c, cs), lx_break := (if c = CHR 0x0A \<or> c = CHR 0x0D then True else lx_break st)\<rparr>)
      else if c = CHR ''#'' \<or> c = CHR ''-'' \<and> cs \<noteq> [] \<and> hd cs = CHR ''-'' then
        Inr (st\<lparr>lx_cur := snd (take_run (\<lambda>d. d \<noteq> CHR 0x0A) (at, c # cs))\<rparr>)
      else (case lex_token (slash_starts_path (lx_break st) (emitted st)) at c cs of
              Inl e \<Rightarrow> Inl e
            | Inr (tok, cur) \<Rightarrow> Inr (push_token at tok cur st)))"

section \<open>Termination\<close>

lemma string_loop_consumed: "string_loop start v at rest = Inr (r, cur') \<Longrightarrow> \<exists>t. consumed (at, rest) cur' t"
proof (induction start v at rest rule: string_loop.induct)
  case (2 start v at c cs)
  show ?case
  proof (cases "c = CHR 0x5C")
    case True
    then obtain e es d where cs: "cs = e # es" "unescape e = Some d"
      using 2(3) by (auto split: list.splits option.splits)
    then obtain t where "consumed (at + char_len c + char_len e, es) cur' t" using 2(1,3) True by auto
    then have "consumed (at, c # cs) cur' (c # e # t)" unfolding cs by (intro consumed_Cons)
    then show ?thesis ..
  next
    case False
    show ?thesis
    proof (cases "c = CHR 0x27")
      case True
      then show ?thesis using 2(3) consumed_one [of at c cs] by auto
    next
      case f: False
      then obtain t where "consumed (at + char_len c, cs) cur' t" using 2(2,3) False by auto
      then show ?thesis using consumed_Cons by blast
    qed
  qed
qed simp

lemma scan_string_consumed:
  "scan_string (at, CHR 0x27 # cs) = Inr (r, cur') \<Longrightarrow> \<exists>t. consumed (at, CHR 0x27 # cs) cur' (CHR 0x27 # t)"
  using string_loop_consumed [of at "[]" "at + 1" cs r cur'] consumed_Cons [of at "CHR 0x27" cs cur']
  by (fastforce simp: scan_string_def)

lemma consumed_from: "consumed cur cur1 (c # s) \<Longrightarrow> consumed cur1 cur2 t \<Longrightarrow> \<exists>t. consumed cur cur2 (c # t)"
  using consumed_trans by fastforce

lemma number_run_drop:
  "number_run f s = (raw, f') \<Longrightarrow> raw @ drop (length raw) s = s"
  by (induction f s arbitrary: raw f' rule: number_run.induct) (auto split: if_splits prod.splits)

lemma number_run_consumed: "number_run f rest = (raw, f') \<Longrightarrow> consumed (at, rest) (at + text_len raw, drop (length raw) rest) raw"
  using number_run_drop by (auto simp: consumed_def)

lemma consume_size_unit_consumed:
  "consumed cur (consume_size_unit_word cur) (takeWhile is_blank (snd cur) @ takeWhile is_ident_continue (dropWhile is_blank (snd cur)))"
  by (auto simp: consume_size_unit_word_def take_run_def consumed_def Let_def)

lemma lex_number_consumed:
  assumes "lex_number (at, c # cs) = Inr (tok, cur')" "is_ascii_digit c"
  shows "\<exists>t. consumed (at, c # cs) cur' (c # t)"
proof -
  obtain raw f where r: "number_run False (c # cs) = (raw, f)" by (cases "number_run False (c # cs)")
  then obtain raw' where raw: "raw = c # raw'" using assms(2) by (auto split: prod.splits)
  let ?cur1 = "(at + text_len raw, drop (length raw) (c # cs))"
  have "consumed (at, c # cs) ?cur1 raw" using number_run_consumed [OF r] .
  moreover have "cur' = ?cur1 \<or> cur' = consume_size_unit_word ?cur1"
    using assms(1) r by (auto simp: lex_number_def Let_def split: if_splits option.splits)
  ultimately show ?thesis
    using consume_size_unit_consumed [of ?cur1] consumed_from [of "(at, c # cs)" ?cur1 c raw'] raw by blast
qed

lemma take_run_word:
  assumes "take_run is_ident_continue (at, c # cs) = (w, cur1)" "is_ident_start c"
  obtains w' where "w = c # w'" "consumed (at, c # cs) cur1 w"
  using assms take_run_consumed [OF assms(1)] by (auto simp: is_ident_start_def is_ident_continue_def)

lemma typed_literal_consumed:
  assumes "try_typed_literal_string cur = Some (Inr (raw, cur'))"
  shows "\<exists>b t. consumed cur cur' (b @ CHR 0x27 # t) \<and> list_all is_blank b"
proof -
  obtain b cur1 where b: "take_run is_blank cur = (b, cur1)" by (cases "take_run is_blank cur")
  obtain at cs where cur1: "cur1 = (at, CHR 0x27 # cs)" "scan_string cur1 = Inr (raw, cur')"
    using assms b by (auto simp: try_typed_literal_string_def neq_Nil_conv split: prod.splits if_splits)
  then obtain t where "consumed cur1 cur' (CHR 0x27 # t)" using scan_string_consumed by blast
  moreover have "consumed cur cur1 b" "b = takeWhile is_blank (snd cur)" using take_run_consumed [OF b] by blast+
  ultimately show ?thesis using consumed_trans by (metis list_all_iff set_takeWhileD)
qed

lemma lex_word_consumed:
  assumes "lex_word (at, c # cs) = Inr (tok, cur')" "is_ident_start c"
  shows "\<exists>t. consumed (at, c # cs) cur' (c # t)"
proof -
  obtain w cur1 where w: "take_run is_ident_continue (at, c # cs) = (w, cur1)"
    by (cases "take_run is_ident_continue (at, c # cs)")
  obtain w' where w': "w = c # w'" "consumed (at, c # cs) cur1 w" using take_run_word [OF w assms(2)] .
  have "\<exists>t. consumed cur1 cur' t"
  proof (cases "\<exists>raw. try_typed_literal_string cur1 = Some (Inr (raw, cur'))")
    case True
    then show ?thesis using typed_literal_consumed by blast
  next
    case False
    then have "cur' = cur1 \<or> (\<exists>at cs raw. cur1 = (at, CHR 0x27 # cs) \<and> scan_string cur1 = Inr (raw, cur'))"
      using assms(1) w
      by (auto simp: lex_word_def neq_Nil_conv prod_eq_iff split: if_splits option.splits sum.splits prod.splits)
    then show ?thesis using scan_string_consumed consumed_refl by blast
  qed
  then show ?thesis using w' consumed_from by blast
qed

lemma lex_symbol_consumed: "lex_symbol at c cs = Inr (tok, cur') \<Longrightarrow> \<exists>t. consumed (at, c # cs) cur' (c # t)"
  by (auto simp: lex_symbol_def two_char_symbols_def one_char_symbols_def consumed_def char_len_def neq_Nil_conv
      split: option.splits if_splits)

lemma lex_path_consumed:
  assumes "lex_path_loop [] (at, CHR ''/'' # cs) = Inr (segs, cur')"
  shows "\<exists>t. consumed (at, CHR ''/'' # cs) cur' (CHR ''/'' # t)"
proof -
  obtain seg cur1 where seg: "consume_path_segment (at + 1, cs) = Inr (seg, cur1)"
    and l: "lex_path_loop [seg] cur1 = Inr (segs, cur')"
    using assms by (auto simp: lex_path_loop.simps [of "[]" at "CHR ''/'' # cs"] split: sum.splits)
  obtain t where "consumed (at + 1, cs) cur1 t" using consume_path_segment_consumed [OF seg] by blast
  then have "consumed (at, CHR ''/'' # cs) cur1 (CHR ''/'' # t)" using consumed_Cons [of at "CHR ''/''"] by simp
  then show ?thesis using lex_path_loop_consumed [OF l] consumed_from by blast
qed

lemma lex_token_consumed: "lex_token sp at c cs = Inr (tok, cur') \<Longrightarrow> \<exists>t. consumed (at, c # cs) cur' (c # t)"
  using lex_symbol_consumed [of at c cs tok cur'] lex_word_consumed [of at c cs tok cur']
    lex_number_consumed [of at c cs tok cur'] scan_string_consumed [of at cs _ cur'] lex_path_consumed [of at cs _ cur']
  by (auto simp: lex_token_def split: if_splits sum.splits)

lemma lex_step_consumed:
  assumes "lex_step at c cs st = Inr st'"
  shows "\<exists>t. consumed (at, c # cs) (lx_cur st') (c # t)"
proof (cases "is_ws c \<or> c = CHR ''#'' \<or> c = CHR ''-'' \<and> cs \<noteq> [] \<and> hd cs = CHR ''-''")
  case True
  then show ?thesis
    using assms
    by (intro exI [of _ "if is_ws c then [] else takeWhile (\<lambda>d. d \<noteq> CHR 0x0A) cs"])
       (auto simp: lex_step_def consumed_def take_run_def Let_def split: if_splits)
next
  case False
  then obtain sp tok where "lex_token sp at c cs = Inr (tok, lx_cur st')"
    using assms by (auto simp: lex_step_def push_token_def split: sum.splits if_splits)
  then show ?thesis by (rule lex_token_consumed)
qed

function lex_run :: "lexer \<Rightarrow> lex_error + token spanned list" where
  "lex_run st =
     (case lx_cur st of
        (at, []) \<Rightarrow> Inr (lx_out st)
      | (at, c # cs) \<Rightarrow> (case lex_step at c cs st of Inl e \<Rightarrow> Inl e | Inr st' \<Rightarrow> lex_run st'))"
  by auto

termination lex_run
proof (relation "measure (\<lambda>st. length (snd (lx_cur st)))")
  fix st at rest c cs st'
  assume "(at, rest) = lx_cur st" "rest = c # cs" "lex_step at c cs st = Inr st'"
  then show "(st', st) \<in> measure (\<lambda>st. length (snd (lx_cur st)))"
    using lex_step_consumed consumed_length by (metis in_measure less_add_Suc1 length_Cons add_Suc_right snd_conv)
qed simp

declare lex_run.simps [simp del]

definition lex :: "string \<Rightarrow> lex_error + token spanned list" where
  "lex src = lex_run (lexer_new src)"

end
