(* ===== verification/Lang_Lex_Props.thy ===== *)
theory Lang_Lex_Props
  imports Lang_Lex "HOL-Library.Sublist"
begin

text \<open>
  What the lexer promises: the tokens tile the source (every span slices back to the text of its
  token, and only white space and comments lie between them), and a list of tokens written out with
  one space after each lexes back to itself, whatever characters its strings, bytes and path
  segments carry.
\<close>

section \<open>Strings and quoted names\<close>

fun unescape_text :: "string \<Rightarrow> string option" where
  "unescape_text [] = Some []"
| "unescape_text (c # cs) =
     (if c = CHR 0x27 then None
      else if c = CHR 0x5C then
        (case cs of
           [] \<Rightarrow> None
         | e # es \<Rightarrow> (case unescape e of Some d \<Rightarrow> map_option ((#) d) (unescape_text es) | None \<Rightarrow> None))
      else map_option ((#) c) (unescape_text cs))"

definition escape_text :: "string \<Rightarrow> string" where
  "escape_text s = concat (map (\<lambda>c. if c = CHR 0x27 \<or> c = CHR 0x5C then [CHR 0x5C, c] else [c]) s)"

lemma unescape_escape [simp]: "unescape_text (escape_text s) = Some s"
  by (induction s) (auto simp: escape_text_def unescape_def)

lemma string_loop_body:
  "unescape_text body = Some w \<Longrightarrow>
     string_loop start v at (body @ CHR 0x27 # rest) = Inr (v @ w, at + text_len body + 1, rest)"
proof (induction body arbitrary: v w at rule: unescape_text.induct)
  case (2 c cs)
  show ?case
  proof (cases "c = CHR 0x5C")
    case True
    then show ?thesis using 2 by (auto simp: char_len_def split: list.splits option.splits)
  next
    case False
    then show ?thesis using 2 by (auto split: if_splits)
  qed
qed (simp add: char_len_def)

lemma string_loop_inv:
  "string_loop start v at rest = Inr (r, cur') \<Longrightarrow>
     \<exists>body w. rest = body @ CHR 0x27 # snd cur' \<and> unescape_text body = Some w \<and> r = v @ w
       \<and> fst cur' = at + text_len body + 1"
proof (induction start v at rest rule: string_loop.induct)
  case (2 start v at c cs)
  consider (quote) "c = CHR 0x27" | (esc) "c = CHR 0x5C" | (plain) "c \<noteq> CHR 0x27" "c \<noteq> CHR 0x5C" by blast
  then show ?case
  proof cases
    case quote
    then show ?thesis using 2(3) by (intro exI [of _ "[]"]) auto
  next
    case esc
    then obtain e es d where cs: "cs = e # es" "unescape e = Some d"
      using 2(3) by (auto split: list.splits option.splits)
    then obtain body w where "es = body @ CHR 0x27 # snd cur'" "unescape_text body = Some w" "r = (v @ [d]) @ w"
      "fst cur' = at + 1 + char_len e + text_len body + 1"
      using 2(1) [OF _ esc cs(1,2)] 2(3) esc by auto
    then show ?thesis using cs esc by (intro exI [of _ "CHR 0x5C # e # body"] exI [of _ "d # w"]) simp
  next
    case plain
    then obtain body w where "cs = body @ CHR 0x27 # snd cur'" "unescape_text body = Some w" "r = (v @ [c]) @ w"
      "fst cur' = at + char_len c + text_len body + 1"
      using 2(2,3) by auto
    then show ?thesis using plain by (intro exI [of _ "c # body"] exI [of _ "c # w"]) simp
  qed
qed simp

lemma scan_string_body:
  "unescape_text body = Some w \<Longrightarrow>
     scan_string (at, CHR 0x27 # body @ CHR 0x27 # rest) = Inr (w, at + text_len body + 2, rest)"
  using string_loop_body [of body w at "[]" "at + 1" rest] by (simp add: scan_string_def)

definition double_quotes :: "string \<Rightarrow> string" where
  "double_quotes s = concat (map (\<lambda>c. if c = CHR 0x27 then [CHR 0x27, CHR 0x27] else [c]) s)"

lemma quoted_segment_body:
  assumes "CHR ''/'' \<notin> set s" "rest = [] \<or> hd rest = CHR ''/'' \<or> hd rest = CHR ''@'' \<or> is_path_delimiter (hd rest)"
    "rest = [] \<or> hd rest \<noteq> CHR 0x27"
  shows "quoted_segment_name start name at (double_quotes s @ CHR 0x27 # rest) =
    Inr (name @ s, at + text_len (double_quotes s) + 1, rest)"
  using assms(1)
proof (induction s arbitrary: name at)
  case Nil
  then show ?case
    using assms(2,3) by (cases rest) (auto simp: double_quotes_def reject_token_glued_to_quoted_segment_def)
next
  case (Cons c s)
  then show ?case by (auto simp: double_quotes_def)
qed

section \<open>Tiling\<close>

inductive gap :: "string \<Rightarrow> bool" where
  gap_nil: "gap []"
| gap_ws: "is_ws c \<Longrightarrow> gap g \<Longrightarrow> gap (c # g)"
| gap_comment: "prefix ''#'' t \<or> prefix ''--'' t \<Longrightarrow> CHR 0x0A \<notin> set t \<Longrightarrow> gap g \<Longrightarrow> gap (t @ g)"

fun symbol_text :: "token \<Rightarrow> string option" where
  "symbol_text TkPipe = Some ''|>''"
| "symbol_text TkEq = Some ''=''"
| "symbol_text TkEqEq = Some ''==''"
| "symbol_text TkNe = Some ''<>''"
| "symbol_text TkLt = Some ''<''"
| "symbol_text TkGt = Some ''>''"
| "symbol_text TkLe = Some ''<=''"
| "symbol_text TkGe = Some ''>=''"
| "symbol_text TkTilde = Some ''~''"
| "symbol_text TkPlus = Some ''+''"
| "symbol_text TkMinus = Some ''-''"
| "symbol_text TkSlash = Some ''/''"
| "symbol_text TkLParen = Some ''(''"
| "symbol_text TkRParen = Some '')''"
| "symbol_text TkLBrace = Some ''{''"
| "symbol_text TkRBrace = Some ''}''"
| "symbol_text TkLBracket = Some ''[''"
| "symbol_text TkRBracket = Some '']''"
| "symbol_text TkSemicolon = Some '';''"
| "symbol_text TkComma = Some '',''"
| "symbol_text TkColon = Some '':''"
| "symbol_text TkDot = Some ''.''"
| "symbol_text TkStar = Some ''*''"
| "symbol_text TkArrow = Some ''=>''"
| "symbol_text _ = None"

definition string_literal :: "string \<Rightarrow> string \<Rightarrow> bool" where
  "string_literal t s \<longleftrightarrow> (\<exists>body. t = CHR 0x27 # body @ [CHR 0x27] \<and> unescape_text body = Some s)"

definition is_word :: "string \<Rightarrow> bool" where
  "is_word w \<longleftrightarrow> w \<noteq> [] \<and> is_ident_start (hd w) \<and> list_all is_ident_continue w"

text \<open>\<open>spells t tok\<close>: the text \<open>t\<close> is a spelling of the token.\<close>

fun spells :: "string \<Rightarrow> token \<Rightarrow> bool" where
  "spells t (TkKeyword k) \<longleftrightarrow> is_word t \<and> ascii_lower t = keyword_text k"
| "spells t (TkIdent w) \<longleftrightarrow> is_word t \<and> t = w \<and> keyword_from_word w = None \<and> literal_word w = None"
| "spells t (TkBool b) \<longleftrightarrow> is_word t \<and> ascii_lower t = (if b then ''true'' else ''false'')"
| "spells t TkNull \<longleftrightarrow> is_word t \<and> ascii_lower t = ''null''"
| "spells t (TkInt v) \<longleftrightarrow> t \<noteq> [] \<and> list_all is_ascii_digit t \<and> dec_value t < 2 ^ 63 \<and> sint v = int (dec_value t)"
| "spells t (TkSize v u) \<longleftrightarrow>
     (\<exists>ds bs. t = ds @ bs @ size_unit_text u \<and> ds \<noteq> [] \<and> list_all is_ascii_digit ds \<and> bs \<noteq> [] \<and> list_all is_blank bs
        \<and> unat v = dec_value ds)"
| "spells t (TkFloat v) \<longleftrightarrow>
     (\<exists>a b. t = a @ CHR ''.'' # b \<and> a \<noteq> [] \<and> b \<noteq> [] \<and> list_all is_ascii_digit a \<and> list_all is_ascii_digit b \<and> v = parse_f64 t)"
| "spells t (TkStr s) \<longleftrightarrow> string_literal t s"
| "spells t (TkTypedLit ty raw) \<longleftrightarrow>
     (\<exists>bs lit. t = lit_type_text ty @ bs @ lit \<and> list_all is_blank bs \<and> string_literal lit raw)"
| "spells t (TkBytes bytes) \<longleftrightarrow>
     (\<exists>x lit raw. t = x # lit \<and> (x = CHR ''x'' \<or> x = CHR ''X'') \<and> string_literal lit raw \<and> decode_hex raw = Some bytes)"
| "spells t (TkPath segs) \<longleftrightarrow> segs \<noteq> [] \<and> t \<noteq> [] \<and> hd t = CHR ''/''"
| "spells t tok \<longleftrightarrow> symbol_text tok = Some t"

fun tiles :: "nat \<Rightarrow> string \<Rightarrow> token spanned list \<Rightarrow> bool" where
  "tiles at src [] \<longleftrightarrow> gap src"
| "tiles at src (tok # toks) \<longleftrightarrow>
     (\<exists>g t rest. src = g @ t @ rest \<and> gap g \<and> t \<noteq> [] \<and> spells t (sd_node tok)
        \<and> sd_span tok = mk_span (at + text_len g) (at + text_len g + text_len t)
        \<and> tiles (at + text_len g + text_len t) rest toks)"

lemma number_run_True: "number_run True s = (takeWhile is_ascii_digit s, True)"
  by (induction s) auto

lemma number_run_False:
  "number_run False s =
     (let a = takeWhile is_ascii_digit s; r = dropWhile is_ascii_digit s in
      if r \<noteq> [] \<and> hd r = CHR ''.'' \<and> tl r \<noteq> [] \<and> is_ascii_digit (hd (tl r))
      then (a @ CHR ''.'' # takeWhile is_ascii_digit (tl r), True) else (a, False))"
  by (induction s) (auto simp: number_run_True Let_def is_ascii_digit_def)

lemma size_unit_word: "size_unit_from_word w = Some u \<longleftrightarrow> w = size_unit_text u"
  by (cases u) (auto simp: size_unit_from_word_def split: if_splits)

lemma lit_type_word: "lit_type_from_word w = Some ty \<longleftrightarrow> w = lit_type_text ty"
  by (cases ty) (auto simp: lit_type_from_word_def split: if_splits)

lemma sint_of_nat64: "n < 2 ^ 63 \<Longrightarrow> sint (of_nat n :: i64) = int n"
  using signed_take_bit_int_eq_self [of 63 "int n"] by (simp add: signed_of_nat)

lemma parse_i64_value: "parse_i64 ds = Some v \<Longrightarrow> dec_value ds < 2 ^ 63 \<and> sint v = int (dec_value ds)"
  using sint_of_nat64 [of "dec_value ds"] by (auto simp: parse_i64_def Let_def split: if_splits)

lemma parse_u64_value: "parse_u64 ds = Some v \<Longrightarrow> unat v = dec_value ds"
  by (auto simp: parse_u64_def Let_def unat_of_nat take_bit_eq_mod split: if_splits)

lemma takeWhile_NilD: "takeWhile P s = [] \<Longrightarrow> dropWhile P s = s"
  by (cases s) (auto split: if_splits)

lemma all_takeWhile: "list_all P (takeWhile P s)"
  by (induction s) auto

lemma lex_number_spells:
  assumes "lex_number (at, c # cs) = Inr (tok, cur')" "is_ascii_digit c"
  shows "\<exists>t. consumed (at, c # cs) cur' (c # t) \<and> spells (c # t) tok"
proof -
  obtain raw f where r: "number_run False (c # cs) = (raw, f)" by (cases "number_run False (c # cs)")
  have cons: "consumed (at, c # cs) (at + text_len raw, drop (length raw) (c # cs)) raw" (is "consumed _ ?cur1 _")
    using number_run_consumed [OF r] .
  have raw: "\<exists>raw'. raw = c # raw'" using r assms(2) by (auto split: prod.splits)
  show ?thesis
  proof (cases f)
    case True
    then obtain b where "raw = takeWhile is_ascii_digit (c # cs) @ CHR ''.'' # b" "b \<noteq> []" "list_all is_ascii_digit b"
      using r assms(2) all_takeWhile [of is_ascii_digit]
      by (auto simp: number_run_False Let_def neq_Nil_conv split: if_splits)
    moreover have "list_all is_ascii_digit (takeWhile is_ascii_digit (c # cs))" by (rule all_takeWhile)
    moreover have "takeWhile is_ascii_digit (c # cs) \<noteq> []" using assms(2) by simp
    ultimately have "spells raw (TkFloat (parse_f64 raw))" unfolding spells.simps by blast
    moreover have "tok = TkFloat (parse_f64 raw)" "cur' = ?cur1"
      using assms(1) r True by (auto simp: lex_number_def Let_def)
    ultimately show ?thesis using cons raw by blast
  next
    case False
    then have digits: "list_all is_ascii_digit raw"
      using r all_takeWhile [of is_ascii_digit "c # cs"] unfolding number_run_False Let_def by (simp split: if_splits)
    show ?thesis
    proof (cases "peek_size_unit (snd ?cur1)")
      case None
      then have "cur' = ?cur1" "\<exists>v. parse_i64 raw = Some v \<and> tok = TkInt v"
        using assms(1) r False by (auto simp: lex_number_def Let_def split: option.splits)
      then show ?thesis using cons raw digits parse_i64_value by fastforce
    next
      case (Some u)
      then obtain v where v: "parse_u64 raw = Some v" "tok = TkSize v u" and cur': "cur' = consume_size_unit_word ?cur1"
        using assms(1) r False by (auto simp: lex_number_def Let_def split: option.splits)
      let ?bs = "takeWhile is_blank (snd ?cur1)" and ?w = "takeWhile is_ident_continue (dropWhile is_blank (snd ?cur1))"
      have "consumed (at, c # cs) cur' (raw @ ?bs @ ?w)"
        using consumed_trans [OF cons consume_size_unit_consumed] cur' by simp
      moreover have "?w = size_unit_text u" "?bs \<noteq> []"
        using Some by (auto simp: peek_size_unit_def Let_def size_unit_word dest: takeWhile_NilD split: if_splits)
      then have "spells (raw @ ?bs @ ?w) tok"
        using v digits all_takeWhile parse_u64_value [OF v(1)] raw by auto
      ultimately show ?thesis using raw by auto
    qed
  qed
qed

lemma lex_symbol_spells:
  "lex_symbol at c cs = Inr (tok, cur') \<Longrightarrow> \<exists>t. consumed (at, c # cs) cur' (c # t) \<and> spells (c # t) tok"
  by (auto simp: lex_symbol_def two_char_symbols_def one_char_symbols_def consumed_def char_len_def neq_Nil_conv
      split: option.splits if_splits)

lemma scan_string_literal:
  assumes "scan_string (at, CHR 0x27 # cs) = Inr (s, cur')"
  shows "\<exists>t. consumed (at, CHR 0x27 # cs) cur' (CHR 0x27 # t) \<and> string_literal (CHR 0x27 # t) s"
proof -
  obtain body where "cs = body @ CHR 0x27 # snd cur'" "unescape_text body = Some s" "fst cur' = at + text_len body + 2"
    using string_loop_inv assms by (fastforce simp: scan_string_def)
  then show ?thesis
    by (intro exI [of _ "body @ [CHR 0x27]"]) (simp add: consumed_def string_literal_def)
qed

lemma ascii_lower_length [simp]: "length (ascii_lower s) = length s"
  by (simp add: ascii_lower_def)

lemma plain_word_spells: "is_word w \<Longrightarrow> spells w (plain_word w)"
proof -
  assume w: "is_word w"
  have single: "keyword_from_word w = Some k \<Longrightarrow> ascii_lower w = keyword_text k" for k
    unfolding keyword_from_word_def by (drule map_of_SomeD) (auto simp: single_word_keywords_def)
  have low: "ascii_lower ''TRUE'' = ''true''" "ascii_lower ''FALSE'' = ''false''" "ascii_lower ''NULL'' = ''null''" by code_simp+
  show ?thesis
    using w single by (auto simp: plain_word_def literal_word_def eq_ignore_case_def low split: option.splits if_splits)
qed

lemma typed_literal_spells:
  assumes "try_typed_literal_string cur = Some (Inr (raw, cur'))"
  shows "\<exists>b t. consumed cur cur' (b @ t) \<and> list_all is_blank b \<and> string_literal t raw"
proof -
  obtain b cur1 where b: "take_run is_blank cur = (b, cur1)" by (cases "take_run is_blank cur")
  obtain at cs where cur1: "cur1 = (at, CHR 0x27 # cs)" "scan_string cur1 = Inr (raw, cur')"
    using assms b by (auto simp: try_typed_literal_string_def neq_Nil_conv split: prod.splits if_splits)
  then obtain t where "consumed cur1 cur' t" "string_literal t raw" using scan_string_literal by blast
  moreover have "consumed cur cur1 b" "list_all is_blank b"
    using take_run_consumed [OF b] all_takeWhile by auto
  ultimately show ?thesis using consumed_trans by blast
qed

lemma lower_x: "eq_ignore_case [c] ''x'' \<Longrightarrow> c = CHR ''x'' \<or> c = CHR ''X''"
proof -
  assume eq: "eq_ignore_case [c] ''x''"
  show ?thesis
  proof (cases "65 \<le> (of_char c :: nat) \<and> (of_char c :: nat) \<le> 90")
    case True
    then have "char_of ((of_char c :: nat) + 32) = CHR ''x''" using eq by (simp add: eq_ignore_case_def ascii_lower_def Let_def)
    then have "of_char (char_of ((of_char c :: nat) + 32)) = (120 :: nat)" by simp
    then have "(of_char c :: nat) = 88" using True by simp
    then have "c = char_of (88 :: nat)" by (metis char_of_char)
    moreover have "char_of (88 :: nat) = CHR ''X''" by code_simp
    ultimately show ?thesis by simp
  next
    case False
    then show ?thesis using eq by (simp add: eq_ignore_case_def ascii_lower_def Let_def split: if_splits)
  qed
qed

lemma lex_word_spells:
  assumes "lex_word (at, c # cs) = Inr (tok, cur')" "is_ident_start c"
  shows "\<exists>t. consumed (at, c # cs) cur' (c # t) \<and> spells (c # t) tok"
proof -
  obtain w cur1 where w: "take_run is_ident_continue (at, c # cs) = (w, cur1)"
    by (cases "take_run is_ident_continue (at, c # cs)")
  obtain w' where w': "w = c # w'" "consumed (at, c # cs) cur1 w" using take_run_word [OF w assms(2)] .
  have word: "is_word w"
    using w' assms(2) take_run_consumed [OF w] all_takeWhile [of is_ident_continue "c # cs"] by (simp add: is_word_def)
  consider (typed) ty raw where "lit_type_from_word w = Some ty" "try_typed_literal_string cur1 = Some (Inr (raw, cur'))"
        "tok = TkTypedLit ty raw"
    | (hex) raw bytes where "eq_ignore_case w ''x''" "snd cur1 \<noteq> []" "hd (snd cur1) = CHR 0x27"
        "scan_string cur1 = Inr (raw, cur')" "decode_hex raw = Some bytes" "tok = TkBytes bytes"
    | (plain) "tok = plain_word w" "cur' = cur1"
    using assms(1) w by (auto simp: lex_word_def split: if_splits option.splits sum.splits prod.splits)
  then show ?thesis
  proof cases
    case typed
    then obtain b t where "consumed cur1 cur' (b @ t)" "list_all is_blank b" "string_literal t raw"
      using typed_literal_spells by blast
    then have "consumed (at, c # cs) cur' (w @ b @ t)" "spells (w @ b @ t) tok"
      using consumed_trans [OF w'(2)] typed(1,3) by (auto simp: lit_type_word)
    then show ?thesis using w'(1) by auto
  next
    case hex
    then obtain at1 cs1 where cur1: "cur1 = (at1, CHR 0x27 # cs1)" by (cases cur1) (auto simp: neq_Nil_conv)
    obtain t where "consumed cur1 cur' (CHR 0x27 # t)" "string_literal (CHR 0x27 # t) raw"
      using scan_string_literal hex(4) unfolding cur1 by blast
    moreover have "length w = length ''x''" using hex(1) unfolding eq_ignore_case_def by (metis ascii_lower_length)
    then have "w = ''x'' \<or> w = ''X''" using lower_x [of c] hex(1) w'(1) by simp
    ultimately have "consumed (at, c # cs) cur' (w @ CHR 0x27 # t)" "spells (w @ CHR 0x27 # t) tok"
      using hex(5,6) consumed_trans [OF w'(2)] by auto
    then show ?thesis using w'(1) by auto
  next
    case plain
    then show ?thesis using w' word plain_word_spells by auto
  qed
qed

lemma lex_token_spells:
  assumes "lex_token sp at c cs = Inr (tok, cur')"
  shows "\<exists>t. consumed (at, c # cs) cur' (c # t) \<and> spells (c # t) tok"
proof -
  have path: "segs \<noteq> []" if l: "lex_path_loop [] (at, CHR ''/'' # cs) = Inr (segs, cur')" for segs
  proof -
    have grow: "segs1 \<noteq> [] \<Longrightarrow> lex_path_loop segs1 cur = Inr (segs2, cur2) \<Longrightarrow> segs2 \<noteq> []" for segs1 segs2 cur cur2
      by (induction segs1 cur rule: lex_path_loop.induct)
         (auto simp: lex_path_loop.simps split: if_splits sum.splits prod.splits)
    obtain seg cur1 where "lex_path_loop [seg] cur1 = Inr (segs, cur')"
      using l by (auto simp: lex_path_loop.simps [of "[]" at "CHR ''/'' # cs"] split: sum.splits)
    then show ?thesis using grow [of "[seg]"] by blast
  qed
  show ?thesis
    using assms path lex_path_consumed [of at cs _ cur'] scan_string_literal [of at cs _ cur']
      lex_number_spells [of at c cs tok cur'] lex_word_spells [of at c cs tok cur'] lex_symbol_spells [of at c cs tok cur']
    by (auto simp: lex_token_def split: if_splits sum.splits)
qed

lemma gap_append: "gap g \<Longrightarrow> gap h \<Longrightarrow> gap (g @ h)"
  by (induction rule: gap.induct) (auto intro: gap.intros)

lemma tiles_gap: "gap g \<Longrightarrow> tiles (at + text_len g) rest toks \<Longrightarrow> tiles at (g @ rest) toks"
  by (cases toks) (auto simp: gap_append add.assoc, metis append.assoc gap_append text_len_append add.assoc)

lemma lex_step_skip_or_token:
  assumes "lex_step at c cs st = Inr st'"
  shows "(\<exists>g. consumed (at, c # cs) (lx_cur st') g \<and> gap g \<and> lx_out st' = lx_out st)
    \<or> (\<exists>t tok. consumed (at, c # cs) (lx_cur st') (c # t) \<and> spells (c # t) tok
         \<and> lx_out st' = lx_out st @ [\<lparr>sd_node = tok, sd_span = mk_span at (at + text_len (c # t))\<rparr>])"
proof (cases "is_ws c")
  case True
  then have "consumed (at, c # cs) (lx_cur st') [c]" "lx_out st' = lx_out st"
    using assms by (auto simp: lex_step_def consumed_def)
  then show ?thesis using True gap.intros(1,2) by blast
next
  case ws: False
  show ?thesis
  proof (cases "c = CHR ''#'' \<or> c = CHR ''-'' \<and> cs \<noteq> [] \<and> hd cs = CHR ''-''")
    case True
    let ?t = "takeWhile (\<lambda>d. d \<noteq> CHR 0x0A) (c # cs)"
    have cons: "consumed (at, c # cs) (lx_cur st') ?t" "lx_out st' = lx_out st"
      using assms ws True by (auto simp: lex_step_def consumed_def take_run_def Let_def)
    have "prefix ''#'' ?t \<or> prefix ''--'' ?t" using True by (auto simp: neq_Nil_conv)
    moreover have "CHR 0x0A \<notin> set ?t" using set_takeWhileD by fastforce
    ultimately have "gap (?t @ [])" using gap_nil by (intro gap_comment)
    then show ?thesis using cons by (metis append_Nil2)
  next
    case False
    then obtain sp tok cur' where t: "lex_token sp at c cs = Inr (tok, cur')" and st': "st' = push_token at tok cur' st"
      using assms ws by (auto simp: lex_step_def split: sum.splits if_splits)
    then obtain t where "consumed (at, c # cs) cur' (c # t)" "spells (c # t) tok" using lex_token_spells by blast
    then show ?thesis using st' by (auto simp: push_token_def consumed_def)
  qed
qed

lemma lex_run_tiles:
  "lex_run st = Inr toks \<Longrightarrow> \<exists>new. toks = lx_out st @ new \<and> tiles (fst (lx_cur st)) (snd (lx_cur st)) new"
proof (induction st rule: lex_run.induct)
  case (1 st)
  show ?case
  proof (cases "snd (lx_cur st)")
    case Nil
    then show ?thesis using 1(2) by (auto simp: lex_run.simps [of st] gap_nil split: prod.splits)
  next
    case (Cons c cs)
    obtain at where cur: "lx_cur st = (at, c # cs)" using Cons by (cases "lx_cur st") simp
    obtain st' where st': "lex_step at c cs st = Inr st'" "lex_run st' = Inr toks"
      using 1(2) cur by (auto simp: lex_run.simps [of st] split: sum.splits)
    obtain new where new: "toks = lx_out st' @ new" "tiles (fst (lx_cur st')) (snd (lx_cur st')) new"
      using 1(1) [OF cur [symmetric] refl st'(1,2)] by blast
    from lex_step_skip_or_token [OF st'(1)] show ?thesis
    proof (elim disjE exE conjE)
      fix g assume "consumed (at, c # cs) (lx_cur st') g" "gap g" "lx_out st' = lx_out st"
      then show ?thesis using new tiles_gap cur by (auto simp: consumed_def)
    next
      fix t tok assume "consumed (at, c # cs) (lx_cur st') (c # t)" "spells (c # t) tok"
        "lx_out st' = lx_out st @ [\<lparr>sd_node = tok, sd_span = mk_span at (at + text_len (c # t))\<rparr>]"
      moreover from this have "tiles at (c # cs) (\<lparr>sd_node = tok, sd_span = mk_span at (at + text_len (c # t))\<rparr> # new)"
        unfolding tiles.simps using new(2) gap_nil
        by (intro exI [of _ "[]"] exI [of _ "c # t"] exI [of _ "snd (lx_cur st')"]) (simp add: consumed_def)
      ultimately show ?thesis using new(1) cur by auto
    qed
  qed
qed

lemma unat_u32_of: "n < 2 ^ 32 \<Longrightarrow> unat (u32_of n) = n"
  by (simp add: u32_of_def unat_of_nat take_bit_eq_mod)

lemma tiles_spans:
  "tiles at src toks \<Longrightarrow> at + text_len src < 2 ^ 32 \<Longrightarrow>
     (\<forall>s\<in>set (map sd_span toks). at \<le> unat (sp_start s) \<and> sp_start s < sp_end s \<and> unat (sp_end s) \<le> at + text_len src)
     \<and> sorted_wrt (\<lambda>a b. sp_end a \<le> sp_start b) (map sd_span toks)"
proof (induction toks arbitrary: at src)
  case (Cons tok toks)
  obtain g t rest where src: "src = g @ t @ rest" and t: "t \<noteq> []"
    and sp: "sd_span tok = mk_span (at + text_len g) (at + text_len g + text_len t)"
    and rest: "tiles (at + text_len g + text_len t) rest toks"
    using Cons.prems(1) by auto
  let ?a = "at + text_len g" and ?b = "at + text_len g + text_len t"
  have ab: "unat (sp_start (sd_span tok)) = ?a" "unat (sp_end (sd_span tok)) = ?b" "?a < ?b"
    using Cons.prems(2) t text_len_zero [of t] by (simp_all add: sp mk_span_def src unat_u32_of del: text_len_zero)
  have "(\<forall>s\<in>set (map sd_span toks). ?b \<le> unat (sp_start s) \<and> sp_start s < sp_end s \<and> unat (sp_end s) \<le> ?b + text_len rest)
     \<and> sorted_wrt (\<lambda>a b. sp_end a \<le> sp_start b) (map sd_span toks)"
    using Cons.IH [OF rest] Cons.prems(2) by (simp add: src)
  then show ?case
    using ab by (force simp: src word_less_nat_alt word_le_nat_alt)
qed simp


section \<open>Writing tokens out\<close>

definition render_segment :: "path_seg \<Rightarrow> string" where
  "render_segment s =
     CHR ''/'' #
     (if ps_selection s then CHR ''@'' # ps_name s
      else (if ps_glob s then ps_name s else CHR 0x27 # double_quotes (ps_name s) @ [CHR 0x27]) @
           (case ps_version s of Some v \<Rightarrow> CHR ''@'' # v | None \<Rightarrow> []))"

definition valid_segment :: "path_seg \<Rightarrow> bool" where
  "valid_segment s \<longleftrightarrow>
     (if ps_selection s then ps_name s \<noteq> [] \<and> list_all selection_char (ps_name s) \<and> ps_version s = None \<and> \<not> ps_glob s
      else (if ps_glob s then segment_run False (ps_name s) = ps_name s \<and> list_ex is_glob_char (ps_name s)
            else CHR ''/'' \<notin> set (ps_name s))
        \<and> (case ps_version s of Some v \<Rightarrow> list_all version_char v | None \<Rightarrow> True))"

definition render_bytes :: "u8 list \<Rightarrow> string" where
  "render_bytes bs = concat (map (\<lambda>b. [hex_digit (unat b div 16), hex_digit (unat b mod 16)]) bs)"

definition quote_text :: "string \<Rightarrow> string" where
  "quote_text s = CHR 0x27 # escape_text s @ [CHR 0x27]"

fun render_token :: "token \<Rightarrow> string" where
  "render_token (TkKeyword k) = keyword_text k"
| "render_token (TkIdent w) = w"
| "render_token (TkBool b) = (if b then ''true'' else ''false'')"
| "render_token TkNull = ''null''"
| "render_token (TkInt v) = show_nat (unat v)"
| "render_token (TkSize v u) = show_nat (unat v) @ '' '' @ size_unit_text u"
| "render_token (TkStr s) = quote_text s"
| "render_token (TkTypedLit ty raw) = lit_type_text ty @ '' '' @ quote_text raw"
| "render_token (TkBytes bs) = CHR ''X'' # quote_text (render_bytes bs)"
| "render_token (TkPath segs) = concat (map render_segment segs)"
| "render_token (TkFloat _) = ''0.0''"
| "render_token tok = (case symbol_text tok of Some t \<Rightarrow> t | None \<Rightarrow> [])"

fun valid_token :: "token \<Rightarrow> bool" where
  "valid_token (TkKeyword k) = (CHR '' '' \<notin> set (keyword_text k))"
| "valid_token (TkIdent w) = (is_word w \<and> literal_word w = None \<and> keyword_from_word w = None)"
| "valid_token (TkInt v) = (0 \<le> sint v)"
| "valid_token (TkPath segs) = (segs \<noteq> [] \<and> list_all valid_segment segs)"
| "valid_token (TkFloat _) = False"
| "valid_token _ = True"

text \<open>\<open>valid_tokens ts out\<close>: the tokens \<open>ts\<close> can follow the tokens \<open>out\<close> (last first). What a slash means depends on
  the tokens before it, and an integer or a word may fold with the token behind it.\<close>

fun folds_with :: "token \<Rightarrow> token list \<Rightarrow> bool" where
  "folds_with (TkInt _) (TkIdent w # _) = (size_unit_from_word w \<noteq> None)"
| "folds_with (TkIdent w) (TkStr _ # _) = (lit_type_from_word w \<noteq> None)"
| "folds_with _ _ = False"

fun valid_tokens :: "token list \<Rightarrow> token list \<Rightarrow> bool" where
  "valid_tokens out [] = True"
| "valid_tokens out (t # ts) =
     (valid_token t \<and> \<not> folds_with t ts
      \<and> (case t of TkPath _ \<Rightarrow> slash_starts_path (out = []) out
           | TkSlash \<Rightarrow> \<not> slash_starts_path (out = []) out | _ \<Rightarrow> True)
      \<and> valid_tokens (t # out) ts)"

definition render_tokens :: "token list \<Rightarrow> string" where
  "render_tokens ts = concat (map (\<lambda>t. render_token t @ '' '') ts)"

section \<open>Written tokens lex back\<close>

lemma digit_char_digit: "d < 10 \<Longrightarrow> is_ascii_digit (digit_char d)"
  by (simp add: is_ascii_digit_def digit_char_def)

lemma show_nat_digits: "list_all is_ascii_digit (show_nat n) \<and> show_nat n \<noteq> []"
proof (induction n rule: show_nat.induct)
  case (1 n)
  then show ?case by (subst (1 2) show_nat.simps) (simp add: digit_char_digit)
qed

lemma dec_value_show [simp]: "dec_value (show_nat n) = n"
  using show_nat_value [of n] by (simp add: dec_value_def)

lemma takeWhile_all: "list_all P w \<Longrightarrow> takeWhile P (w @ s) = w @ takeWhile P s"
  by (induction w) auto

lemma dropWhile_all: "list_all P w \<Longrightarrow> dropWhile P (w @ s) = dropWhile P s"
  by (induction w) auto

lemma char_classes:
  "is_ascii_digit c \<Longrightarrow> is_ident_continue c" "is_ident_start c \<Longrightarrow> is_ident_continue c"
  "is_ident_continue c \<Longrightarrow> \<not> is_ws c \<and> \<not> is_blank c \<and> c \<noteq> CHR ''/'' \<and> c \<noteq> CHR 0x27 \<and> c \<noteq> CHR ''#'' \<and> c \<noteq> CHR ''-'' \<and> c \<noteq> CHR ''.''"
  "is_ident_start c \<Longrightarrow> \<not> is_ascii_digit c" "is_blank c \<Longrightarrow> is_ws c"
  by (auto simp: is_ident_continue_def is_ident_start_def is_ascii_alpha_def is_ascii_digit_def is_ws_def is_blank_def)

lemma space_classes [simp]:
  "is_ws CHR '' ''" "is_blank CHR '' ''" "\<not> is_ident_continue CHR '' ''" "\<not> is_ascii_digit CHR '' ''"
  "is_path_delimiter CHR '' ''" "char_len CHR '' '' = 1"
  by (simp_all add: is_ws_def is_blank_def is_ident_continue_def is_ascii_alpha_def is_ascii_digit_def is_path_delimiter_def
      char_len_def)

lemma keyword_is_word: "CHR '' '' \<notin> set (keyword_text k) \<Longrightarrow> is_word (keyword_text k)"
  by (cases k) (simp_all add: is_word_def is_ident_start_def is_ident_continue_def is_ascii_alpha_def)

lemma fixed_words: "is_word ''true''" "is_word ''false''" "is_word ''null''" "is_word (lit_type_text ty)" "is_word ''X''"
  by (cases ty; simp add: is_word_def is_ident_start_def is_ident_continue_def is_ascii_alpha_def)+

lemma render_bytes_len: "length (render_bytes bs) = 2 * length bs"
  by (induction bs) (simp_all add: render_bytes_def)

lemma render_hd:
  assumes "valid_token t"
  shows "render_token t \<noteq> [] \<and> \<not> is_ws (hd (render_token t)) \<and> (hd (render_token t) = CHR 0x27 \<longleftrightarrow> (\<exists>s. t = TkStr s))
    \<and> hd (render_token t) \<noteq> CHR ''#'' \<and> (hd (render_token t) = CHR ''-'' \<longrightarrow> t = TkMinus)"
proof -
  have word: "w \<noteq> [] \<and> \<not> is_ws (hd (w @ s)) \<and> hd (w @ s) \<noteq> CHR 0x27 \<and> hd (w @ s) \<noteq> CHR ''#'' \<and> hd (w @ s) \<noteq> CHR ''-''"
    if "is_word w" for w s
    using that char_classes by (cases w) (auto simp: is_word_def)
  have num: "\<not> is_ws (hd (show_nat n @ s)) \<and> hd (show_nat n @ s) \<noteq> CHR 0x27 \<and> hd (show_nat n @ s) \<noteq> CHR ''#''
      \<and> hd (show_nat n @ s) \<noteq> CHR ''-''" for n s
    using show_nat_digits [of n] char_classes by (cases "show_nat n") auto
  show ?thesis
  proof (cases t)
    case (TkPath segs)
    then show ?thesis using assms by (cases segs) (auto simp: render_segment_def is_ws_def)
  qed (use assms word [of _ "[]"] word [OF fixed_words(4)] num num [of _ "[]"] show_nat_digits keyword_is_word fixed_words in
      \<open>auto simp: quote_text_def is_ws_def\<close>)
qed

lemma hex_value_digit: "d < 16 \<Longrightarrow> hex_value (hex_digit d) = Some d"
  by (auto simp: hex_value_def hex_digit_def Let_def)

lemma hex_digit_ascii: "d < 16 \<Longrightarrow> char_len (hex_digit d) = 1"
  by (auto simp: char_len_def hex_digit_def)

lemma byte_bounds: "unat (b :: u8) div 16 < 16" "unat (b :: u8) mod 16 < 16"
  using unsigned_less [of b, where 'a = nat] by (simp_all add: less_mult_imp_div_less)

lemma decode_render_bytes: "decode_hex (render_bytes bs) = Some bs"
proof -
  have "text_len (render_bytes bs) = 2 * length bs"
    by (induction bs) (simp_all add: render_bytes_def hex_digit_ascii byte_bounds)
  moreover have "hex_pairs (render_bytes bs) = Some bs"
    by (induction bs) (simp_all add: render_bytes_def hex_value_digit byte_bounds)
  ultimately show ?thesis by (simp add: decode_hex_def)
qed

lemma lex_quoted:
  "scan_string (at, quote_text s @ rest) = Inr (s, at + text_len (quote_text s), rest)"
  using scan_string_body [OF unescape_escape, of at s rest] by (simp add: quote_text_def)

lemma next_hd:
  assumes "valid_tokens out ts" "render_tokens ts \<noteq> []"
  shows "\<exists>t ts'. ts = t # ts' \<and> valid_token t \<and> hd (render_tokens ts) = hd (render_token t)
    \<and> \<not> is_blank (hd (render_tokens ts))"
proof -
  obtain t ts' where ts: "ts = t # ts'" using assms(2) by (cases ts) (auto simp: render_tokens_def)
  then have "valid_token t" using assms(1) by simp
  then show ?thesis using render_hd [of t] char_classes(5) by (auto simp: ts render_tokens_def)
qed

lemma blanks_before: "valid_tokens out ts \<Longrightarrow> dropWhile is_blank (render_tokens ts) = render_tokens ts"
  using next_hd [of out ts] by (cases "render_tokens ts = []") (auto simp: neq_Nil_conv)

lemma not_typed:
  assumes "valid_tokens out ts" "\<nexists>s ts'. ts = TkStr s # ts'"
  shows "try_typed_literal_string (at, CHR '' '' # render_tokens ts) = None"
proof (cases "render_tokens ts")
  case Nil
  then show ?thesis by (simp add: try_typed_literal_string_def take_run_def Let_def)
next
  case (Cons c cs)
  then obtain t ts' where "ts = t # ts'" "valid_token t" "hd (render_tokens ts) = hd (render_token t)"
    using next_hd [OF assms(1)] by force
  then have "hd (render_tokens ts) \<noteq> CHR 0x27" using render_hd assms(2) by auto
  then show ?thesis
    using blanks_before [OF assms(1)] by (simp add: try_typed_literal_string_def take_run_def Let_def)
qed

lemma lex_word_plain:
  assumes "is_word w" "valid_tokens out ts" "lit_type_from_word w \<noteq> None \<Longrightarrow> \<nexists>s ts'. ts = TkStr s # ts'"
  shows "lex_word (at, w @ CHR '' '' # render_tokens ts) = Inr (plain_word w, at + text_len w, CHR '' '' # render_tokens ts)"
proof -
  have "take_run is_ident_continue (at, w @ CHR '' '' # render_tokens ts) = (w, at + text_len w, CHR '' '' # render_tokens ts)"
    using assms(1) by (simp add: take_run_def takeWhile_all dropWhile_all is_word_def)
  then show ?thesis
    using not_typed [OF assms(2)] assms(3) by (auto simp: lex_word_def split: option.splits)
qed

lemma word_run: "list_all is_ident_continue w \<Longrightarrow> \<not> is_ident_continue c \<Longrightarrow> takeWhile is_ident_continue (w @ c # r) = w"
  by (simp add: takeWhile_all)

definition leading_word :: "token \<Rightarrow> string" where
  "leading_word t =
     (case t of
        TkInt v \<Rightarrow> show_nat (unat v) | TkSize v _ \<Rightarrow> show_nat (unat v) | TkTypedLit ty _ \<Rightarrow> lit_type_text ty
      | TkBytes _ \<Rightarrow> ''X'' | TkKeyword k \<Rightarrow> keyword_text k | TkIdent w \<Rightarrow> w | TkBool b \<Rightarrow> (if b then ''true'' else ''false'')
      | TkNull \<Rightarrow> ''null'' | _ \<Rightarrow> [])"

lemma leading_word_run:
  assumes "valid_token t"
  shows "takeWhile is_ident_continue (render_token t @ CHR '' '' # r) = leading_word t"
proof -
  have words: "is_word w \<Longrightarrow> list_all is_ident_continue w" for w by (simp add: is_word_def)
  have digits: "list_all is_ident_continue (show_nat n)" for n
    using show_nat_digits [of n] char_classes(1) by (auto simp: list_all_iff)
  have quote: "\<not> is_ident_continue (CHR 0x27)" "\<not> is_ident_continue (CHR ''/'')" using char_classes(3) by blast+
  show ?thesis
  proof (cases t)
    case (TkPath segs)
    then show ?thesis using assms quote by (cases segs) (auto simp: render_segment_def leading_word_def)
  next
    case (TkBytes bs)
    then show ?thesis using words [OF fixed_words(5)] quote by (simp add: leading_word_def quote_text_def)
  qed (use assms words [OF keyword_is_word] words fixed_words digits quote in
        \<open>auto simp: leading_word_def word_run quote_text_def is_ident_continue_def is_ascii_alpha_def is_ascii_digit_def\<close>)
qed

lemma leading_word_unit:
  assumes "valid_token t" "leading_word t = size_unit_text u"
  shows "t = TkIdent (size_unit_text u)"
proof -
  have "show_nat n \<noteq> size_unit_text u" for n
    using show_nat_digits [of n] by (cases u; cases "show_nat n") (auto simp: is_ascii_digit_def)
  moreover have "keyword_text k \<noteq> size_unit_text u" for k by (cases k; cases u) simp_all
  moreover have "lit_type_text ty \<noteq> size_unit_text u" for ty by (cases ty; cases u) simp_all
  moreover have "[] \<noteq> size_unit_text u" "''X'' \<noteq> size_unit_text u" "''true'' \<noteq> size_unit_text u"
    "''false'' \<noteq> size_unit_text u" "''null'' \<noteq> size_unit_text u" by (cases u; simp)+
  ultimately show ?thesis using assms by (cases t) (auto simp: leading_word_def split: if_splits)
qed

lemma unit_word_next:
  assumes "valid_tokens out ts" "\<not> folds_with (TkInt v) ts"
  shows "size_unit_from_word (takeWhile is_ident_continue (render_tokens ts)) = None"
proof (cases ts)
  case Nil
  then show ?thesis by (simp add: render_tokens_def size_unit_from_word_def)
next
  case (Cons t ts')
  then have "takeWhile is_ident_continue (render_tokens ts) = leading_word t" "valid_token t"
    using assms(1) leading_word_run [of t] by (auto simp: render_tokens_def)
  then show ?thesis
    using leading_word_unit [of t] assms(2) Cons by (cases "size_unit_from_word (leading_word t)") (auto simp: size_unit_word)
qed

lemma segment_run_stop:
  "segment_run q name = name \<Longrightarrow> c = CHR ''/'' \<or> c = CHR ''@'' \<or> c = CHR '' '' \<Longrightarrow> segment_run q (name @ c # r) = name"
  by (induction q name rule: segment_run.induct) (auto split: if_splits)

definition version_text :: "string option \<Rightarrow> string" where
  "version_text v = (case v of Some v \<Rightarrow> CHR ''@'' # v | None \<Rightarrow> [])"

lemma version_read:
  assumes "case v of Some v \<Rightarrow> list_all version_char v | None \<Rightarrow> True" "c = CHR ''/'' \<or> c = CHR '' ''"
  shows "consume_path_version (at, version_text v @ c # r) = (v, at + text_len (version_text v), c # r)"
proof -
  have "\<not> version_char c" "c \<noteq> CHR ''@''" using assms(2) by (auto simp: version_char_def)
  then show ?thesis
    using assms(1)
    by (auto simp: consume_path_version_def version_text_def take_run_def takeWhile_all dropWhile_all split: option.splits)
qed

lemma segment_read:
  assumes "valid_segment s" "c = CHR ''/'' \<or> c = CHR '' ''"
  shows "consume_path_segment (at + 1, tl (render_segment s) @ c # r) = Inr (s, at + text_len (render_segment s), c # r)"
proof (cases "ps_selection s")
  case True
  have "\<not> selection_char c" using assms(2) by (auto simp: selection_char_def)
  then show ?thesis
    using assms(1) True
    by (cases s) (simp add: consume_path_segment_def consume_selection_segment_def render_segment_def valid_segment_def
        take_run_def takeWhile_all dropWhile_all path_seg_selection_def)
next
  case sel: False
  let ?v = "version_text (ps_version s)"
  let ?name = "if ps_glob s then ps_name s else CHR 0x27 # double_quotes (ps_name s) @ [CHR 0x27]"
  have render: "render_segment s = CHR ''/'' # ?name @ ?v" using sel by (simp add: render_segment_def version_text_def)
  have ver: "consume_path_version (at', ?v @ c # r) = (ps_version s, at' + text_len ?v, c # r)" for at'
    using version_read assms sel by (simp add: valid_segment_def)
  have s: "path_seg_new (ps_name s) (ps_version s) (ps_glob s) = s" using sel by (cases s) (simp add: path_seg_new_def)
  obtain d ds where d: "?v @ c # r = d # ds" "d = CHR ''/'' \<or> d = CHR ''@'' \<or> d = CHR '' ''"
    using assms(2) by (cases "ps_version s") (auto simp: version_text_def)
  show ?thesis
  proof (cases "ps_glob s")
    case True
    have name: "segment_run False (ps_name s) = ps_name s" "list_ex is_glob_char (ps_name s)"
      using assms(1) sel True by (auto simp: valid_segment_def)
    then obtain n ns where n: "ps_name s = n # ns" by (cases "ps_name s") auto
    have "n \<noteq> CHR ''@''" "n \<noteq> CHR 0x27" using name(1) n by (auto simp: is_path_delimiter_def split: if_splits)
    moreover have "consume_path_segment_name (at + 1, ps_name s @ ?v @ c # r) =
        ((ps_name s, True), (at + 1 + text_len (ps_name s), ?v @ c # r))"
      using segment_run_stop [OF name(1) d(2)] name(2) by (simp add: consume_path_segment_name_def d(1) Let_def)
    ultimately show ?thesis
      using ver [of "at + 1 + text_len (ps_name s)"] s True n render
      by (simp add: consume_path_segment_def)
  next
    case False
    have "quoted_segment_name (at + 1) [] (at + 2) (double_quotes (ps_name s) @ CHR 0x27 # ?v @ c # r) =
        Inr (ps_name s, at + 2 + text_len (double_quotes (ps_name s)) + 1, ?v @ c # r)"
      using quoted_segment_body [of "ps_name s" "?v @ c # r" "at + 1" "[]" "at + 2"] assms(1) sel False d
      by (auto simp: valid_segment_def)
    then show ?thesis
      using ver [of "at + 2 + text_len (double_quotes (ps_name s)) + 1"] s False render
      by (simp add: consume_path_segment_def)
  qed
qed

lemma path_read:
  "list_all valid_segment ss \<Longrightarrow>
     lex_path_loop segs (at, concat (map render_segment ss) @ CHR '' '' # r) =
       Inr (segs @ ss, at + text_len (concat (map render_segment ss)), CHR '' '' # r)"
proof (induction ss arbitrary: segs at)
  case Nil
  then show ?case by (simp add: lex_path_loop.simps)
next
  case (Cons s ss)
  obtain c r' where c: "concat (map render_segment ss) @ CHR '' '' # r = c # r'" "c = CHR ''/'' \<or> c = CHR '' ''"
    by (cases ss) (auto simp: render_segment_def)
  have hd: "render_segment s = CHR ''/'' # tl (render_segment s)" by (simp add: render_segment_def)
  have "lex_path_loop segs (at, render_segment s @ c # r') = lex_path_loop (segs @ [s]) (at + text_len (render_segment s), c # r')"
    using segment_read [of s c at r'] Cons.prems c(2)
    by (subst hd, subst append_Cons, subst lex_path_loop.simps) simp
  then show ?case using Cons.IH [of "segs @ [s]" "at + text_len (render_segment s)"] Cons.prems c(1) by (simp add: add.assoc)
qed

lemma symbol_render: "symbol_text t = Some w \<Longrightarrow> render_token t = w \<and> w \<noteq> []"
  by (cases t) auto

lemma symbol_read:
  assumes "symbol_text t = Some (c # w)" "t = TkSlash \<Longrightarrow> \<not> sp"
  shows "lex_token sp at c (w @ CHR '' '' # r) = Inr (t, at + text_len (c # w), CHR '' '' # r)"
  using assms
  by (cases t; clarsimp simp: lex_token_def lex_symbol_def two_char_symbols_def one_char_symbols_def char_len_def
        is_ident_start_def is_ascii_alpha_def is_ascii_digit_def)

lemma ascii_x: "char_len CHR ''X'' = 1"
  by (simp add: char_len_def)

lemma number_read:
  assumes "valid_tokens out ts"
  shows "number_run False (show_nat n @ CHR '' '' # r) = (show_nat n, False)"
  using show_nat_digits [of n] by (simp add: number_run_False takeWhile_all dropWhile_all Let_def)

lemma int_read:
  assumes "0 \<le> sint v" "\<not> folds_with (TkInt v) ts" "valid_tokens out ts"
  shows "lex_number (at, show_nat (unat v) @ CHR '' '' # render_tokens ts) =
    Inr (TkInt v, at + text_len (show_nat (unat v)), CHR '' '' # render_tokens ts)"
proof -
  have "peek_size_unit (CHR '' '' # render_tokens ts) = None"
    using unit_word_next [OF assms(3,2)] blanks_before [OF assms(3)] by (simp add: peek_size_unit_def Let_def)
  moreover have "int (unat v) = sint v"
    using take_bit_int_eq_self [of "sint v" 64] assms(1) sint_lt [of v] uint_sint [of v] by simp
  then have "unat v < 2 ^ 63" using sint_lt [of v] by (simp flip: nat_uint_eq add: nat_less_iff)
  then have "parse_i64 (show_nat (unat v)) = Some v" by (simp add: parse_i64_def Let_def)
  ultimately show ?thesis
    using number_read [OF assms(3)] by (simp add: lex_number_def Let_def)
qed

lemma size_read:
  assumes "valid_tokens out ts"
  shows "lex_number (at, show_nat (unat v) @ CHR '' '' # size_unit_text u @ CHR '' '' # render_tokens ts) =
    Inr (TkSize v u, at + text_len (show_nat (unat v)) + 1 + text_len (size_unit_text u), CHR '' '' # render_tokens ts)"
proof -
  have w: "list_all is_ident_continue (size_unit_text u)" "size_unit_text u \<noteq> []" "\<not> is_blank (hd (size_unit_text u))"
    by (cases u; simp add: is_ident_continue_def is_ascii_alpha_def is_blank_def)+
  have unit: "dropWhile is_blank (size_unit_text u @ s) = size_unit_text u @ s" "takeWhile is_blank (size_unit_text u @ s) = []" for s
    using w by (cases "size_unit_text u"; simp)+
  have "peek_size_unit (CHR '' '' # size_unit_text u @ CHR '' '' # render_tokens ts) = Some u"
    using w unit by (simp add: peek_size_unit_def Let_def word_run size_unit_word)
  moreover have "parse_u64 (show_nat (unat v)) = Some v"
    using unsigned_less [of v, where 'a = nat] by (simp add: parse_u64_def Let_def)
  ultimately show ?thesis
    using number_read [OF assms] w unit
    by (simp add: lex_number_def Let_def consume_size_unit_word_def take_run_def takeWhile_all dropWhile_all)
qed

lemma lit_type_not_other:
  "lit_type_from_word (keyword_text k) = None" "lit_type_from_word ''true'' = None" "lit_type_from_word ''false'' = None"
  "lit_type_from_word ''null'' = None" "lit_type_from_word ''X'' = None"
  by (cases k) (simp_all add: lit_type_from_word_def)

lemma plain_word_fixed:
  "plain_word ''true'' = TkBool True" "plain_word ''false'' = TkBool False" "plain_word ''null'' = TkNull"
  by code_simp+

lemma plain_word_keyword: "CHR '' '' \<notin> set (keyword_text k) \<Longrightarrow> plain_word (keyword_text k) = TkKeyword k"
proof -
  have "ascii_lower (keyword_text k) = keyword_text k" by (cases k; simp add: ascii_lower_def Let_def)
  moreover have "ascii_lower ''TRUE'' = ''true''" "ascii_lower ''FALSE'' = ''false''" "ascii_lower ''NULL'' = ''null''"
    by code_simp+
  moreover have "keyword_text k \<noteq> ''true''" "keyword_text k \<noteq> ''false''" "keyword_text k \<noteq> ''null''" by (cases k; simp)+
  ultimately have "literal_word (keyword_text k) = None" by (simp add: literal_word_def eq_ignore_case_def)
  then show "CHR '' '' \<notin> set (keyword_text k) \<Longrightarrow> ?thesis" by (simp add: plain_word_def keyword_word_roundtrip)
qed

lemma typed_read:
  "lex_word (at, lit_type_text ty @ CHR '' '' # quote_text raw @ r) =
     Inr (TkTypedLit ty raw, at + text_len (lit_type_text ty) + 1 + text_len (quote_text raw), r)"
proof -
  let ?at = "at + text_len (lit_type_text ty)"
  have w: "list_all is_ident_continue (lit_type_text ty)" using fixed_words(4) by (simp add: is_word_def)
  then have word: "take_run is_ident_continue (at, lit_type_text ty @ CHR '' '' # quote_text raw @ r) =
      (lit_type_text ty, ?at, CHR '' '' # quote_text raw @ r)"
    by (simp add: take_run_def takeWhile_all dropWhile_all Let_def)
  have "take_run is_blank (?at, CHR '' '' # quote_text raw @ r) = ('' '', ?at + 1, quote_text raw @ r)"
    by (simp add: take_run_def quote_text_def is_blank_def Let_def)
  then have "try_typed_literal_string (?at, CHR '' '' # quote_text raw @ r) =
      Some (Inr (raw, ?at + 1 + text_len (quote_text raw), r))"
    using lex_quoted [of "?at + 1" raw r] by (simp add: try_typed_literal_string_def) (simp add: quote_text_def)
  moreover have "lit_type_from_word (lit_type_text ty) = Some ty" by (simp add: lit_type_word)
  ultimately show ?thesis by (simp add: lex_word_def word)
qed

lemma bytes_read:
  "lex_word (at, CHR ''X'' # quote_text (render_bytes bs) @ r) =
     Inr (TkBytes bs, at + 1 + text_len (quote_text (render_bytes bs)), r)"
proof -
  have w: "takeWhile is_ident_continue (CHR ''X'' # quote_text (render_bytes bs) @ r) = ''X''"
    "dropWhile is_ident_continue (CHR ''X'' # quote_text (render_bytes bs) @ r) = quote_text (render_bytes bs) @ r"
    by (simp_all add: quote_text_def is_ident_continue_def is_ascii_alpha_def is_ascii_digit_def)
  have "eq_ignore_case ''X'' ''x''" "char_len CHR ''X'' = 1" by code_simp+
  then show ?thesis
    using lex_quoted [of "at + 1" "render_bytes bs" r] w lit_type_not_other(5) decode_render_bytes
    by (simp add: lex_word_def take_run_def Let_def) (simp add: quote_text_def)
qed

text \<open>The token behind the cursor, and the cursor on the space behind its text.\<close>

lemma token_read:
  assumes valid: "valid_token t" and folds: "\<not> folds_with t ts" and rest: "valid_tokens out ts"
    and slash: "case t of TkPath _ \<Rightarrow> sp | TkSlash \<Rightarrow> \<not> sp | _ \<Rightarrow> True"
    and c: "render_token t @ CHR '' '' # render_tokens ts = c # cs"
  shows "lex_token sp at c cs = Inr (t, at + text_len (render_token t), CHR '' '' # render_tokens ts)"
proof -
  let ?r = "CHR '' '' # render_tokens ts"
  have word: "lex_token sp at c cs = lex_word (at, w @ s)" if "is_word w" "w @ s = c # cs" for w s
    using that char_classes by (cases w) (auto simp: lex_token_def is_word_def)
  have plain: "lex_token sp at c cs = Inr (plain_word w, at + text_len w, ?r)"
    if "is_word w" "render_token t = w" "lit_type_from_word w \<noteq> None \<Longrightarrow> \<nexists>s ts'. ts = TkStr s # ts'" for w
    using word [of w ?r] lex_word_plain [OF that(1) rest that(3), of at] that(1,2) c by simp
  have number: "lex_token sp at c cs = lex_number (at, show_nat n @ s)" if "show_nat n @ s = c # cs" for n s
    using that show_nat_digits [of n] char_classes by (cases "show_nat n") (auto simp: lex_token_def)
  show ?thesis
  proof (cases "symbol_text t")
    case (Some w)
    then have "render_token t = w" "w \<noteq> []" using symbol_render by auto
    then obtain w' where "w = c # w'" "cs = w' @ ?r" using c by (cases w) auto
    moreover have "t = TkSlash \<Longrightarrow> \<not> sp" using slash by simp
    ultimately show ?thesis using symbol_read [of t c w' sp at] Some \<open>render_token t = w\<close> by auto
  next
    case None
    then show ?thesis
    proof (cases t)
      case (TkKeyword k)
      then show ?thesis
        using plain [of "keyword_text k"] valid keyword_is_word plain_word_keyword lit_type_not_other by simp
    next
      case (TkIdent w)
      have "\<nexists>s ts'. ts = TkStr s # ts'" if "lit_type_from_word w \<noteq> None" using folds TkIdent that by auto
      then show ?thesis using plain [of w] valid TkIdent by (simp add: plain_word_def)
    next
      case (TkBool b)
      then show ?thesis
        using plain [of "if b then ''true'' else ''false''"] fixed_words plain_word_fixed lit_type_not_other by (cases b) auto
    next
      case TkNull
      then show ?thesis using plain [of "''null''"] fixed_words plain_word_fixed lit_type_not_other by auto
    next
      case (TkInt v)
      then show ?thesis using number [of "unat v" ?r] int_read [OF _ _ rest, of v at] valid folds c by simp
    next
      case (TkSize v u)
      then show ?thesis
        using number [of "unat v" "CHR '' '' # size_unit_text u @ ?r"] size_read [OF rest, of at v u] c by simp
    next
      case (TkStr s)
      then show ?thesis using lex_quoted [of at s ?r] c by (auto simp: lex_token_def quote_text_def)
    next
      case (TkTypedLit ty raw)
      then show ?thesis
        using word [OF fixed_words(4), of ty "CHR '' '' # quote_text raw @ ?r"] typed_read [of at ty raw ?r] c by simp
    next
      case (TkBytes bs)
      then show ?thesis
        using word [OF fixed_words(5), of "quote_text (render_bytes bs) @ ?r"] bytes_read [of at bs ?r] c
        by (auto simp: ascii_x)
    next
      case (TkPath segs)
      then have "c = CHR ''/''" using valid c by (cases segs) (auto simp: render_segment_def)
      then show ?thesis using path_read [of segs "[]" at "render_tokens ts"] valid slash TkPath c by (simp add: lex_token_def)
    qed (use None valid in simp_all)
  qed
qed

lemma no_comment_start:
  assumes "valid_token t" "render_token t @ CHR '' '' # r = c # cs"
  shows "\<not> is_ws c \<and> c \<noteq> CHR ''#'' \<and> \<not> (c = CHR ''-'' \<and> cs \<noteq> [] \<and> hd cs = CHR ''-'')"
proof -
  have hd: "c = hd (render_token t)" using render_hd [OF assms(1)] assms(2) by (cases "render_token t") auto
  show ?thesis using render_hd [OF assms(1)] hd assms(2) by auto
qed

lemma lex_run_render:
  "valid_tokens (emitted st) ts \<Longrightarrow> lx_break st = (lx_out st = []) \<Longrightarrow> snd (lx_cur st) = render_tokens ts \<Longrightarrow>
     \<exists>toks. lex_run st = Inr (lx_out st @ toks) \<and> map sd_node toks = ts"
proof (induction ts arbitrary: st)
  case Nil
  then show ?case by (auto simp: lex_run.simps [of st] render_tokens_def split: prod.splits)
next
  case (Cons t ts)
  obtain at where cur: "lx_cur st = (at, render_tokens (t # ts))" using Cons.prems(3) by (cases "lx_cur st") simp
  obtain c cs where c: "render_token t @ CHR '' '' # render_tokens ts = c # cs"
    by (cases "render_token t @ CHR '' '' # render_tokens ts") auto
  have valid: "valid_token t" "\<not> folds_with t ts" "valid_tokens (t # emitted st) ts"
    and slash: "case t of TkPath _ \<Rightarrow> slash_starts_path (lx_break st) (emitted st)
      | TkSlash \<Rightarrow> \<not> slash_starts_path (lx_break st) (emitted st) | _ \<Rightarrow> True"
    using Cons.prems(1,2) by (auto simp: emitted_def split: token.splits)
  let ?cur1 = "(at + text_len (render_token t), CHR '' '' # render_tokens ts)"
  let ?st1 = "push_token at t ?cur1 st"
  let ?st2 = "?st1\<lparr>lx_cur := (at + text_len (render_token t) + 1, render_tokens ts)\<rparr>"
  have "lex_step at c cs st = Inr ?st1"
    using no_comment_start [OF valid(1) c] token_read [OF valid slash c, of at] by (auto simp: lex_step_def)
  then have "lex_run st = lex_run ?st1" using cur c by (simp add: lex_run.simps [of st] render_tokens_def)
  also have "\<dots> = lex_run ?st2"
    by (subst lex_run.simps) (simp add: lex_step_def push_token_def)
  finally have run: "lex_run st = lex_run ?st2" .
  have "\<exists>toks. lex_run ?st2 = Inr (lx_out ?st2 @ toks) \<and> map sd_node toks = ts"
    using valid(3) by (intro Cons.IH) (simp_all add: push_token_def emitted_def)
  then show ?case unfolding run by (auto simp: push_token_def)
qed


definition demo_tokens :: "token list" where
  "demo_tokens =
     [TkPath [path_seg_new ''drive'' None False, path_seg_new (''a'' @ [CHR 0x27] @ ''b ?.txt'') (Some ''v1'') False],
      TkPipe, TkKeyword KwWhere, TkIdent ''size'', TkGe, TkSize 25 UMB, TkIdent ''and'', TkIdent ''n'', TkSlash, TkInt 2,
      TkEqEq, TkStr ([CHR 0x27] @ '' or 1 == 1 --'')]"



end
