(* ===== verification/Ast_Walk.thy ===== *)
theory Ast_Walk
  imports Parser_Ast Engine_Eval
begin

text \<open>
  The walk over a statement that the parameter rewrite of \<open>crates/http/src/rewrite.rs\<close> and the
  \<open>NEW.*\<close> binding of \<open>crates/watchtower/src/bind.rs\<close> share: which expressions of a pipeline are
  visited (\<open>map_pipeline\<close>, in place there, by replacement here) and collected (\<open>pipeline_exprs\<close>), and
  the walk into the subexpressions with the columns and paths as leaves. Both modules leave out the
  body of a \<open>POST\<close> stage and everything inside a path.
\<close>

section \<open>Expressions\<close>

fun subst_expr :: "(expr \<Rightarrow> expr) \<Rightarrow> expr \<Rightarrow> expr" where
  "subst_expr f (ELit l) = ELit l"
| "subst_expr f (ECol c) = f (ECol c)"
| "subst_expr f (EPath p) = f (EPath p)"
| "subst_expr f (EFn n args sp) = EFn n (map (subst_expr f) args) sp"
| "subst_expr f (EBinary op l r) = EBinary op (subst_expr f l) (subst_expr f r)"
| "subst_expr f (EUnary op e) = EUnary op (subst_expr f e)"
| "subst_expr f (EIn e es) = EIn (subst_expr f e) (map (subst_expr f) es)"
| "subst_expr f (EBetween e l h) = EBetween (subst_expr f e) (subst_expr f l) (subst_expr f h)"
| "subst_expr f (ELike e p) = ELike (subst_expr f e) (subst_expr f p)"
| "subst_expr f (EAnyOp op e es) = EAnyOp op (subst_expr f e) (map (subst_expr f) es)"
| "subst_expr f (ELambda ps e) = ELambda ps (subst_expr f e)"
| "subst_expr f (EArray es) = EArray (map (subst_expr f) es)"
| "subst_expr f (EStruct fs) = EStruct (map (\<lambda>(n, e). (n, subst_expr f e)) fs)"

text \<open>The leaves the walk reaches, in order.\<close>

fun expr_leaves :: "expr \<Rightarrow> expr list" where
  "expr_leaves (ELit l) = []"
| "expr_leaves (ECol c) = [ECol c]"
| "expr_leaves (EPath p) = [EPath p]"
| "expr_leaves (EFn n args sp) = concat (map expr_leaves args)"
| "expr_leaves (EBinary op l r) = expr_leaves l @ expr_leaves r"
| "expr_leaves (EUnary op e) = expr_leaves e"
| "expr_leaves (EIn e es) = expr_leaves e @ concat (map expr_leaves es)"
| "expr_leaves (EBetween e l h) = expr_leaves e @ expr_leaves l @ expr_leaves h"
| "expr_leaves (ELike e p) = expr_leaves e @ expr_leaves p"
| "expr_leaves (EAnyOp op e es) = expr_leaves e @ concat (map expr_leaves es)"
| "expr_leaves (ELambda ps e) = expr_leaves e"
| "expr_leaves (EArray es) = concat (map expr_leaves es)"
| "expr_leaves (EStruct fs) = concat (map (\<lambda>(n, e). expr_leaves e) fs)"

text \<open>The tree with its literals forgotten.\<close>

fun erase_literals :: "expr \<Rightarrow> expr" where
  "erase_literals (ELit l) = ELit ANull"
| "erase_literals (ECol c) = ECol c"
| "erase_literals (EPath p) = EPath p"
| "erase_literals (EFn n args sp) = EFn n (map erase_literals args) sp"
| "erase_literals (EBinary op l r) = EBinary op (erase_literals l) (erase_literals r)"
| "erase_literals (EUnary op e) = EUnary op (erase_literals e)"
| "erase_literals (EIn e es) = EIn (erase_literals e) (map erase_literals es)"
| "erase_literals (EBetween e l h) = EBetween (erase_literals e) (erase_literals l) (erase_literals h)"
| "erase_literals (ELike e p) = ELike (erase_literals e) (erase_literals p)"
| "erase_literals (EAnyOp op e es) = EAnyOp op (erase_literals e) (map erase_literals es)"
| "erase_literals (ELambda ps e) = ELambda ps (erase_literals e)"
| "erase_literals (EArray es) = EArray (map erase_literals es)"
| "erase_literals (EStruct fs) = EStruct (map (\<lambda>(n, e). (n, erase_literals e)) fs)"

section \<open>Pipelines\<close>

definition map_projection :: "(expr \<Rightarrow> expr) \<Rightarrow> projection \<Rightarrow> projection" where
  "map_projection f p = (case p of PjStar \<Rightarrow> PjStar | PjExpr e alias \<Rightarrow> PjExpr (f e) alias)"

definition map_assignment :: "(expr \<Rightarrow> expr) \<Rightarrow> assignment \<Rightarrow> assignment" where
  "map_assignment f a = a\<lparr>as_value := f (as_value a)\<rparr>"

definition map_order_key :: "(expr \<Rightarrow> expr) \<Rightarrow> ast_order_key \<Rightarrow> ast_order_key" where
  "map_order_key f k = k\<lparr>ak_expr := f (ak_expr k)\<rparr>"

definition map_values :: "(expr \<Rightarrow> expr) \<Rightarrow> ast_values \<Rightarrow> ast_values" where
  "map_values f v = v\<lparr>av_rows := map (map f) (av_rows v)\<rparr>"

definition map_call :: "(expr \<Rightarrow> expr) \<Rightarrow> call_ref \<Rightarrow> call_ref" where
  "map_call f c = c\<lparr>cr_args := map (\<lambda>a. a\<lparr>na_value := f (na_value a)\<rparr>) (cr_args c)\<rparr>"

definition map_arm_write :: "(expr \<Rightarrow> expr) \<Rightarrow> arm_write \<Rightarrow> arm_write" where
  "map_arm_write f w = w\<lparr>aw_returning := map_option (map (map_projection f)) (aw_returning w)\<rparr>"

primrec map_pipe_op :: "(expr \<Rightarrow> expr) \<Rightarrow> pipe_op \<Rightarrow> pipe_op"
  and map_source :: "(expr \<Rightarrow> expr) \<Rightarrow> source_expr \<Rightarrow> source_expr"
  and map_pipeline :: "(expr \<Rightarrow> expr) \<Rightarrow> pipeline \<Rightarrow> pipeline"
  and map_arm :: "(expr \<Rightarrow> expr) \<Rightarrow> switch_arm \<Rightarrow> switch_arm"
where
  "map_pipe_op f (OWhere e) = OWhere (f e)"
| "map_pipe_op f (OSelect ps) = OSelect (map (map_projection f) ps)"
| "map_pipe_op f (OExtend as) = OExtend (map (map_assignment f) as)"
| "map_pipe_op f (OSet as) = OSet (map (map_assignment f) as)"
| "map_pipe_op f (OAggregate ps) = OAggregate (map (map_projection f) ps)"
| "map_pipe_op f (OGroupBy es) = OGroupBy (map f es)"
| "map_pipe_op f (OOrderBy ks) = OOrderBy (map (map_order_key f) ks)"
| "map_pipe_op f (OLimit n) = OLimit n"
| "map_pipe_op f ODistinct = ODistinct"
| "map_pipe_op f (OJoin src on) = OJoin (map_source f src) (f on)"
| "map_pipe_op f (OUnion p) = OUnion (map_pipeline f p)"
| "map_pipe_op f (OExcept p) = OExcept (map_pipeline f p)"
| "map_pipe_op f (OIntersect p) = OIntersect (map_pipeline f p)"
| "map_pipe_op f (OAs n) = OAs n"
| "map_pipe_op f (OExpand p) = OExpand p"
| "map_pipe_op f (ODecode c) = ODecode c"
| "map_pipe_op f (OEncode c) = OEncode c"
| "map_pipe_op f (OCall c) = OCall (map_call f c)"
| "map_pipe_op f (OTransform t) = OTransform t"
| "map_pipe_op f (OSwitch d arms sp) = OSwitch d (map (map_arm f) arms) sp"
| "map_pipe_op f (OFollow r) = OFollow r"
| "map_pipe_op f (OPost r) = OPost r"
| "map_pipe_op f (OOf r) = OOf r"
| "map_source f (SrcPath p) = SrcPath p"
| "map_source f (SrcValues v) = SrcValues (map_values f v)"
| "map_source f (SrcSubquery p) = SrcSubquery (map_pipeline f p)"
| "map_source f (SrcName n) = SrcName n"
| "map_pipeline f (Pipeline src ops) = Pipeline (map_source f src) (map (map_pipe_op f) ops)"
| "map_arm f (SwitchArm label ops wr sp) =
     SwitchArm label (map (map_pipe_op f) ops) (map_option (map_arm_write f) wr) sp"

definition projection_exprs :: "projection \<Rightarrow> expr list" where
  "projection_exprs p = (case p of PjStar \<Rightarrow> [] | PjExpr e _ \<Rightarrow> [e])"

definition returning_exprs :: "projection list option \<Rightarrow> expr list" where
  "returning_exprs r = (case r of None \<Rightarrow> [] | Some ps \<Rightarrow> concat (map projection_exprs ps))"

primrec op_exprs :: "pipe_op \<Rightarrow> expr list"
  and source_exprs :: "source_expr \<Rightarrow> expr list"
  and pipeline_exprs :: "pipeline \<Rightarrow> expr list"
  and arm_exprs :: "switch_arm \<Rightarrow> expr list"
where
  "op_exprs (OWhere e) = [e]"
| "op_exprs (OSelect ps) = concat (map projection_exprs ps)"
| "op_exprs (OExtend as) = map as_value as"
| "op_exprs (OSet as) = map as_value as"
| "op_exprs (OAggregate ps) = concat (map projection_exprs ps)"
| "op_exprs (OGroupBy es) = es"
| "op_exprs (OOrderBy ks) = map ak_expr ks"
| "op_exprs (OLimit n) = []"
| "op_exprs ODistinct = []"
| "op_exprs (OJoin src on) = source_exprs src @ [on]"
| "op_exprs (OUnion p) = pipeline_exprs p"
| "op_exprs (OExcept p) = pipeline_exprs p"
| "op_exprs (OIntersect p) = pipeline_exprs p"
| "op_exprs (OAs n) = []"
| "op_exprs (OExpand p) = []"
| "op_exprs (ODecode c) = []"
| "op_exprs (OEncode c) = []"
| "op_exprs (OCall c) = map na_value (cr_args c)"
| "op_exprs (OTransform t) = []"
| "op_exprs (OSwitch d arms sp) = concat (map arm_exprs arms)"
| "op_exprs (OFollow r) = []"
| "op_exprs (OPost r) = []"
| "op_exprs (OOf r) = []"
| "source_exprs (SrcPath p) = []"
| "source_exprs (SrcValues v) = concat (av_rows v)"
| "source_exprs (SrcSubquery p) = pipeline_exprs p"
| "source_exprs (SrcName n) = []"
| "pipeline_exprs (Pipeline src ops) = source_exprs src @ concat (map op_exprs ops)"
| "arm_exprs (SwitchArm label ops wr sp) =
     concat (map op_exprs ops) @ (case wr of None \<Rightarrow> [] | Some w \<Rightarrow> returning_exprs (aw_returning w))"

section \<open>Effects\<close>

definition map_effect :: "(expr \<Rightarrow> expr) \<Rightarrow> effect_stmt \<Rightarrow> effect_stmt" where
  "map_effect f e =
     e\<lparr>es_body := (case es_body e of
                    EbValues v \<Rightarrow> EbValues (map_values f v)
                  | EbPipeline p \<Rightarrow> EbPipeline (map_pipeline f p)
                  | EbSetWhere as flt \<Rightarrow> EbSetWhere (map (map_assignment f) as) (map_option f flt)),
       es_returning := map_option (map (map_projection f)) (es_returning e)\<rparr>"

definition effect_exprs :: "effect_stmt \<Rightarrow> expr list" where
  "effect_exprs e =
     (case es_body e of
        EbValues v \<Rightarrow> concat (av_rows v)
      | EbPipeline p \<Rightarrow> pipeline_exprs p
      | EbSetWhere as flt \<Rightarrow> map as_value as @ (case flt of None \<Rightarrow> [] | Some c \<Rightarrow> [c]))
     @ returning_exprs (es_returning e)"

section \<open>The walk\<close>

named_theorems walk_simps "the parts of a statement under the walk"

lemma projection_walk [walk_simps]: "projection_exprs (map_projection f p) = map f (projection_exprs p)"
  by (cases p) (simp_all add: projection_exprs_def map_projection_def)

lemma part_walk [walk_simps]:
  "as_value (map_assignment f a) = f (as_value a)"
  "ak_expr (map_order_key f k) = f (ak_expr k)"
  "aw_returning (map_arm_write f w) = map_option (map (map_projection f)) (aw_returning w)"
  by (simp_all add: map_assignment_def map_order_key_def map_arm_write_def)

lemma returning_walk [walk_simps]:
  "returning_exprs (map_option (map (map_projection f)) r) = map f (returning_exprs r)"
  by (cases r) (simp_all add: returning_exprs_def map_concat walk_simps comp_def)

lemma pipeline_walk [walk_simps]:
  "op_exprs (map_pipe_op f op) = map f (op_exprs op)"
  "source_exprs (map_source f src) = map f (source_exprs src)"
  "pipeline_exprs (map_pipeline f p) = map f (pipeline_exprs p)"
  "arm_exprs (map_arm f arm) = map f (arm_exprs arm)"
proof (induction op and src and p and arm)
  case (SwitchArm label ops wr sp)
  then show ?case
    by (cases wr) (simp_all add: map_concat walk_simps comp_def cong: map_cong)
qed (simp_all add: map_values_def map_call_def map_concat walk_simps comp_def cong: map_cong)

lemma effect_walk [walk_simps]: "effect_exprs (map_effect f e) = map f (effect_exprs e)"
  by (auto simp: effect_exprs_def map_effect_def map_values_def map_assignment_def map_concat walk_simps comp_def
      split: effect_body.split option.split)

section \<open>Statements\<close>

text \<open>\<open>guards\<close> tells whether the guard of a server declaration is visited: the binding of an event visits
  it, the parameter rewrite of a request does not.\<close>

fun map_statement :: "bool \<Rightarrow> (expr \<Rightarrow> expr) \<Rightarrow> statement \<Rightarrow> statement" where
  "map_statement guards f (StQuery p) = StQuery (map_pipeline f p)"
| "map_statement guards f (StEffect e) = StEffect (map_effect f e)"
| "map_statement guards f (StDdl d do_plan as_query where_pred) =
     StDdl d (map_option (map_statement guards f) do_plan) (map_option (map_statement guards f) as_query)
       (if guards then map_option (map_statement guards f) where_pred else where_pred)"
| "map_statement guards f (StPlan c s sp) = StPlan c (map_statement guards f s) sp"
| "map_statement guards f (StLet n v b) = StLet n (map_statement guards f v) (map_statement guards f b)"
| "map_statement guards f (StTransaction b sp) = StTransaction (map (map_statement guards f) b) sp"

fun statement_exprs :: "bool \<Rightarrow> statement \<Rightarrow> expr list" where
  "statement_exprs guards (StQuery p) = pipeline_exprs p"
| "statement_exprs guards (StEffect e) = effect_exprs e"
| "statement_exprs guards (StDdl d do_plan as_query where_pred) =
     (case map_option (statement_exprs guards) do_plan of None \<Rightarrow> [] | Some es \<Rightarrow> es)
     @ (case map_option (statement_exprs guards) as_query of None \<Rightarrow> [] | Some es \<Rightarrow> es)
     @ (if guards then case map_option (statement_exprs guards) where_pred of None \<Rightarrow> [] | Some es \<Rightarrow> es else [])"
| "statement_exprs guards (StPlan c s sp) = statement_exprs guards s"
| "statement_exprs guards (StLet n v b) = statement_exprs guards v @ statement_exprs guards b"
| "statement_exprs guards (StTransaction b sp) = concat (map (statement_exprs guards) b)"

lemma statement_walk [walk_simps]: "statement_exprs guards (map_statement guards f s) = map f (statement_exprs guards s)"
proof (induction s)
  case (StDdl d a b c)
  then show ?case by (auto split: option.split)
qed (simp_all add: walk_simps map_concat comp_def cong: map_cong)

section \<open>Two walks\<close>

named_theorems walk_comp "a walk after a walk"
named_theorems walk_cong "two walks that agree on the visited expressions"

lemma projection_comp [walk_comp]: "map_projection f (map_projection g p) = map_projection (\<lambda>e. f (g e)) p"
  by (cases p) (simp_all add: map_projection_def)

lemma part_comp [walk_comp]:
  "map_assignment f (map_assignment g a) = map_assignment (\<lambda>e. f (g e)) a"
  "map_order_key f (map_order_key g k) = map_order_key (\<lambda>e. f (g e)) k"
  "map_values f (map_values g v) = map_values (\<lambda>e. f (g e)) v"
  "map_call f (map_call g c) = map_call (\<lambda>e. f (g e)) c"
  "map_arm_write f (map_arm_write g w) = map_arm_write (\<lambda>e. f (g e)) w"
  by (simp_all add: map_assignment_def map_order_key_def map_values_def map_call_def map_arm_write_def option.map_comp
      comp_def projection_comp)

lemma pipeline_comp [walk_comp]:
  "map_pipe_op f (map_pipe_op g op) = map_pipe_op (\<lambda>e. f (g e)) op"
  "map_source f (map_source g src) = map_source (\<lambda>e. f (g e)) src"
  "map_pipeline f (map_pipeline g p) = map_pipeline (\<lambda>e. f (g e)) p"
  "map_arm f (map_arm g arm) = map_arm (\<lambda>e. f (g e)) arm"
proof (induction op and src and p and arm)
  case (OSwitch d arms sp)
  then show ?case by (simp add: comp_def cong: map_cong)
next
  case (Pipeline src ops)
  then show ?case by (simp add: comp_def cong: map_cong)
next
  case (SwitchArm label ops wr sp)
  then show ?case by (simp add: comp_def walk_comp option.map_comp cong: map_cong)
qed (simp_all add: walk_comp comp_def)

lemma effect_comp [walk_comp]: "map_effect f (map_effect g e) = map_effect (\<lambda>x. f (g x)) e"
  by (cases "es_body e") (simp_all add: map_effect_def walk_comp option.map_comp comp_def)

lemma statement_comp [walk_comp]:
  "map_statement guards f (map_statement guards g s) = map_statement guards (\<lambda>e. f (g e)) s"
proof (induction s)
  case (StDdl d a b c)
  then show ?case by (cases guards; cases a; cases b; cases c; simp)
qed (simp_all add: walk_comp comp_def cong: map_cong)

lemma projection_cong [walk_cong]:
  "(\<And>e. e \<in> set (projection_exprs p) \<Longrightarrow> f e = g e) \<Longrightarrow> map_projection f p = map_projection g p"
  by (cases p) (simp_all add: projection_exprs_def map_projection_def)

lemma part_cong [walk_cong]:
  "f (as_value a) = g (as_value a) \<Longrightarrow> map_assignment f a = map_assignment g a"
  "f (ak_expr k) = g (ak_expr k) \<Longrightarrow> map_order_key f k = map_order_key g k"
  by (simp_all add: map_assignment_def map_order_key_def)

lemma values_cong [walk_cong]: "(\<And>e. e \<in> set (concat (av_rows v)) \<Longrightarrow> f e = g e) \<Longrightarrow> map_values f v = map_values g v"
proof -
  assume "\<And>e. e \<in> set (concat (av_rows v)) \<Longrightarrow> f e = g e"
  then have "map (map f) (av_rows v) = map (map g) (av_rows v)" by auto
  then show ?thesis by (simp only: map_values_def)
qed

lemma call_cong [walk_cong]: "(\<And>e. e \<in> set (map na_value (cr_args c)) \<Longrightarrow> f e = g e) \<Longrightarrow> map_call f c = map_call g c"
proof -
  assume "\<And>e. e \<in> set (map na_value (cr_args c)) \<Longrightarrow> f e = g e"
  then have "map (\<lambda>a. a\<lparr>na_value := f (na_value a)\<rparr>) (cr_args c) = map (\<lambda>a. a\<lparr>na_value := g (na_value a)\<rparr>) (cr_args c)"
    by auto
  then show ?thesis by (simp only: map_call_def)
qed

lemma returning_cong [walk_cong]:
  "(\<And>e. e \<in> set (returning_exprs r) \<Longrightarrow> f e = g e) \<Longrightarrow>
     map_option (map (map_projection f)) r = map_option (map (map_projection g)) r"
  by (cases r) (auto simp: returning_exprs_def intro: projection_cong)

lemma pipeline_cong [walk_cong]:
  "(\<And>e. e \<in> set (op_exprs op) \<Longrightarrow> f e = g e) \<Longrightarrow> map_pipe_op f op = map_pipe_op g op"
  "(\<And>e. e \<in> set (source_exprs src) \<Longrightarrow> f e = g e) \<Longrightarrow> map_source f src = map_source g src"
  "(\<And>e. e \<in> set (pipeline_exprs p) \<Longrightarrow> f e = g e) \<Longrightarrow> map_pipeline f p = map_pipeline g p"
  "(\<And>e. e \<in> set (arm_exprs arm) \<Longrightarrow> f e = g e) \<Longrightarrow> map_arm f arm = map_arm g arm"
proof (induction op and src and p and arm)
  case (SwitchArm label ops wr sp)
  have "map_arm_write f w = map_arm_write g w" if "wr = Some w" for w
  proof -
    have "map_option (map (map_projection f)) (aw_returning w) = map_option (map (map_projection g)) (aw_returning w)"
      using SwitchArm.prems that by (intro returning_cong) simp
    then show ?thesis by (simp only: map_arm_write_def)
  qed
  moreover have "map_pipe_op f op = map_pipe_op g op" if "op \<in> set ops" for op
    by (rule SwitchArm.IH [OF that]) (use that SwitchArm.prems in auto)
  ultimately show ?case by (cases wr) simp_all
next
  case (SrcValues v)
  have "map_values f v = map_values g v" by (rule values_cong) (use SrcValues in simp)
  then show ?case by simp
next
  case (OCall c)
  have "map_call f c = map_call g c" by (rule call_cong) (use OCall in simp)
  then show ?case by simp
next
  case (OSelect ps)
  then show ?case by (auto intro!: projection_cong)
next
  case (OAggregate ps)
  then show ?case by (auto intro!: projection_cong)
next
  case (OExtend as)
  then show ?case by (auto intro!: part_cong)
next
  case (OSet as)
  then show ?case by (auto intro!: part_cong)
next
  case (OOrderBy ks)
  then show ?case by (auto intro!: part_cong)
next
  case (OSwitch d arms sp)
  have "map_arm f arm = map_arm g arm" if "arm \<in> set arms" for arm
    by (rule OSwitch.IH [OF that]) (use that OSwitch.prems in auto)
  then show ?case by simp
next
  case (Pipeline src ops)
  have "map_pipe_op f op = map_pipe_op g op" if "op \<in> set ops" for op
    by (rule Pipeline.IH(2) [OF that]) (use that Pipeline.prems in auto)
  moreover have "map_source f src = map_source g src"
    by (rule Pipeline.IH(1)) (use Pipeline.prems in auto)
  ultimately show ?case by simp
next
  case (OJoin src on)
  have "map_source f src = map_source g src" by (rule OJoin.IH) (use OJoin.prems in auto)
  moreover have "f on = g on" by (rule OJoin.prems) simp
  ultimately show ?case by simp
qed simp_all

lemma effect_cong [walk_cong]:
  "(\<And>x. x \<in> set (effect_exprs e) \<Longrightarrow> f x = g x) \<Longrightarrow> map_effect f e = map_effect g e"
proof -
  assume a: "\<And>x. x \<in> set (effect_exprs e) \<Longrightarrow> f x = g x"
  then have "map_option (map (map_projection f)) (es_returning e) = map_option (map (map_projection g)) (es_returning e)"
    by (intro returning_cong) (simp add: effect_exprs_def)
  moreover have "(case es_body e of EbValues v \<Rightarrow> EbValues (map_values f v) | EbPipeline p \<Rightarrow> EbPipeline (map_pipeline f p)
        | EbSetWhere as flt \<Rightarrow> EbSetWhere (map (map_assignment f) as) (map_option f flt)) =
      (case es_body e of EbValues v \<Rightarrow> EbValues (map_values g v) | EbPipeline p \<Rightarrow> EbPipeline (map_pipeline g p)
        | EbSetWhere as flt \<Rightarrow> EbSetWhere (map (map_assignment g) as) (map_option g flt))"
  proof (cases "es_body e")
    case (EbValues v)
    then have "map_values f v = map_values g v" using a by (intro values_cong) (simp add: effect_exprs_def)
    then show ?thesis using EbValues by simp
  next
    case (EbPipeline p)
    then have "map_pipeline f p = map_pipeline g p" using a by (intro pipeline_cong(3)) (simp add: effect_exprs_def)
    then show ?thesis using EbPipeline by simp
  next
    case (EbSetWhere as flt)
    then have "map (map_assignment f) as = map (map_assignment g) as"
      using a by (auto simp: effect_exprs_def intro: part_cong)
    moreover have "map_option f flt = map_option g flt"
      using a EbSetWhere by (cases flt) (simp_all add: effect_exprs_def)
    ultimately show ?thesis using EbSetWhere by simp
  qed
  ultimately show ?thesis by (simp only: map_effect_def)
qed

lemma statement_cong [walk_cong]:
  "(\<And>e. e \<in> set (statement_exprs guards s) \<Longrightarrow> f e = g e) \<Longrightarrow> map_statement guards f s = map_statement guards g s"
proof (induction s)
  case (StQuery p)
  have "map_pipeline f p = map_pipeline g p" by (rule pipeline_cong(3)) (use StQuery in simp)
  then show ?case by simp
next
  case (StEffect e)
  have "map_effect f e = map_effect g e" by (rule effect_cong) (use StEffect in simp)
  then show ?case by simp
next
  case (StDdl d a b c)
  then show ?case by (cases guards; cases a; cases b; cases c; simp)
next
  case (StTransaction b sp)
  have "map_statement guards f x = map_statement guards g x" if "x \<in> set b" for x
    by (rule StTransaction.IH [OF that]) (use that StTransaction.prems in auto)
  then show ?case by simp
qed simp_all

section \<open>Substitution\<close>

text \<open>A substitution of leaves: what it leaves behind, and that the shape of the result depends on the
  shapes of the replacements only.\<close>

lemma subst_leaves: "set (expr_leaves (subst_expr f e)) = (\<Union>l\<in>set (expr_leaves e). set (expr_leaves (f l)))"
proof (induction e)
  case (EStruct fs)
  then have "\<forall>p\<in>set fs. set (expr_leaves (subst_expr f (snd p))) = (\<Union>l\<in>set (expr_leaves (snd p)). set (expr_leaves (f l)))"
    by force
  then show ?case by (induction fs) auto
qed auto

lemma erase_subst_cong:
  "(\<And>l. l \<in> set (expr_leaves e) \<Longrightarrow> erase_literals (f l) = erase_literals (g l)) \<Longrightarrow>
     erase_literals (subst_expr f e) = erase_literals (subst_expr g e)"
proof (induction e)
  case (EStruct fs)
  have "erase_literals (subst_expr f e) = erase_literals (subst_expr g e)" if "(n, e) \<in> set fs" for n e
    by (rule EStruct.IH [OF that]) (use that EStruct.prems in \<open>force+\<close>)
  then show ?case by auto
next
  case (EFn n args sp)
  have "erase_literals (subst_expr f e) = erase_literals (subst_expr g e)" if "e \<in> set args" for e
    by (rule EFn.IH [OF that]) (use that EFn.prems in auto)
  then show ?case by simp
next
  case (EArray args)
  have "erase_literals (subst_expr f e) = erase_literals (subst_expr g e)" if "e \<in> set args" for e
    by (rule EArray.IH [OF that]) (use that EArray.prems in auto)
  then show ?case by simp
next
  case (EIn x args)
  have "erase_literals (subst_expr f e) = erase_literals (subst_expr g e)" if "e \<in> set args" for e
    by (rule EIn.IH(2) [OF that]) (use that EIn.prems in auto)
  then show ?case using EIn by simp
next
  case (EAnyOp op x args)
  have "erase_literals (subst_expr f e) = erase_literals (subst_expr g e)" if "e \<in> set args" for e
    by (rule EAnyOp.IH(2) [OF that]) (use that EAnyOp.prems in auto)
  then show ?case using EAnyOp by simp
qed simp_all

lemma statement_shape:
  assumes "\<And>l. l \<in> set (concat (map expr_leaves (statement_exprs guards s))) \<Longrightarrow> erase_literals (f l) = erase_literals (g l)"
  shows "map_statement guards erase_literals (map_statement guards (subst_expr f) s) =
    map_statement guards erase_literals (map_statement guards (subst_expr g) s)"
  unfolding walk_comp
proof (rule statement_cong)
  fix e assume "e \<in> set (statement_exprs guards s)"
  then show "erase_literals (subst_expr f e) = erase_literals (subst_expr g e)"
    using assms by (intro erase_subst_cong) auto
qed

text \<open>The identity.\<close>

lemma part_ident [simp]:
  "map_projection (\<lambda>e. e) p = p" "map_assignment (\<lambda>e. e) a = a" "map_order_key (\<lambda>e. e) k = k"
  "map_values (\<lambda>e. e) v = v" "map_call (\<lambda>e. e) c = c"
  by (simp_all add: map_projection_def map_assignment_def map_order_key_def map_values_def map_call_def
      split: projection.split)

lemma arm_write_ident [simp]: "map_arm_write (\<lambda>e. e) w = w"
proof -
  have "map (map_projection (\<lambda>e. e)) = (\<lambda>ps. ps)" by (rule ext) (simp add: map_idI)
  then show ?thesis by (simp add: map_arm_write_def option.map_ident)
qed

lemma pipeline_ident [simp]:
  "map_pipe_op (\<lambda>e. e) op = op" "map_source (\<lambda>e. e) src = src" "map_pipeline (\<lambda>e. e) p = p" "map_arm (\<lambda>e. e) arm = arm"
proof (induction op and src and p and arm)
  case (SwitchArm label ops wr sp)
  then show ?case by (cases wr) (simp_all add: map_idI)
qed (simp_all add: map_idI)

lemma effect_ident [simp]: "map_effect (\<lambda>e. e) e = e"
proof -
  have "map (map_projection (\<lambda>e. e)) = (\<lambda>ps. ps)" by (rule ext) (simp add: map_idI)
  then show ?thesis by (cases "es_body e") (simp_all add: map_effect_def option.map_ident map_idI)
qed

lemma statement_ident: "map_statement guards (\<lambda>e. e) s = s"
proof (induction s)
  case (StDdl d a b c)
  then show ?case by (cases guards; cases a; cases b; cases c; simp)
qed (simp_all add: map_idI)

lemma subst_ident: "(\<And>l. l \<in> set (expr_leaves e) \<Longrightarrow> f l = l) \<Longrightarrow> subst_expr f e = e"
proof (induction e)
  case (EStruct fs)
  have "subst_expr f e = e" if "(n, e) \<in> set fs" for n e
    by (rule EStruct.IH [OF that]) (use that EStruct.prems in \<open>force+\<close>)
  then show ?case by (auto intro!: map_idI)
next
  case (EFn n args sp)
  have "subst_expr f e = e" if "e \<in> set args" for e
    by (rule EFn.IH [OF that]) (use that EFn.prems in auto)
  then show ?case by (simp add: map_idI)
next
  case (EArray args)
  have "subst_expr f e = e" if "e \<in> set args" for e
    by (rule EArray.IH [OF that]) (use that EArray.prems in auto)
  then show ?case by (simp add: map_idI)
next
  case (EIn x args)
  have "subst_expr f e = e" if "e \<in> set args" for e
    by (rule EIn.IH(2) [OF that]) (use that EIn.prems in auto)
  then show ?case using EIn by (simp add: map_idI)
next
  case (EAnyOp op x args)
  have "subst_expr f e = e" if "e \<in> set args" for e
    by (rule EAnyOp.IH(2) [OF that]) (use that EAnyOp.prems in auto)
  then show ?case using EAnyOp by (simp add: map_idI)
qed simp_all

lemma statement_subst_ident:
  assumes "\<And>l. l \<in> set (concat (map expr_leaves (statement_exprs guards s))) \<Longrightarrow> f l = l"
  shows "map_statement guards (subst_expr f) s = s"
proof -
  have "map_statement guards (subst_expr f) s = map_statement guards (\<lambda>e. e) s"
  proof (rule statement_cong)
    fix e assume "e \<in> set (statement_exprs guards s)"
    then show "subst_expr f e = e" using assms by (intro subst_ident) auto
  qed
  then show ?thesis by (simp add: statement_ident)
qed

section \<open>Values as literals\<close>

text \<open>\<open>value_to_literal\<close>, the same in both modules.\<close>

fun value_to_literal :: "('j \<Rightarrow> string) \<Rightarrow> 'j val \<Rightarrow> ast_literal" where
  "value_to_literal dj VNull = ANull"
| "value_to_literal dj (VBool b) = ABool b"
| "value_to_literal dj (VInt i) = AInt i"
| "value_to_literal dj (VTimestamp i) = AInt i"
| "value_to_literal dj (VFloat f) = AFloat f"
| "value_to_literal dj (VText s) = AStr s"
| "value_to_literal dj v = AStr (dbg_value dj v)"

end
