(* ===== verification/Watch_Bind.thy ===== *)
theory Watch_Bind
  imports Ast_Walk
begin

text \<open>
  The \<open>NEW.*\<close> binding of a trigger's handler, \<open>crates/watchtower/src/bind.rs\<close>, on the walk of
  \<open>Ast_Walk\<close>: a path \<open>NEW.col\<close> of two segments becomes the literal of the event's value.
\<close>

type_synonym 'j new_bindings = "string \<rightharpoonup> 'j val"

definition new_bindings_from_row :: "string list \<Rightarrow> 'j val list \<Rightarrow> 'j new_bindings" where
  "new_bindings_from_row cols vals = fold (\<lambda>(n, v) m. m(n \<mapsto> v)) (zip cols vals) Map.empty"

definition new_field :: "ident list \<Rightarrow> 'j new_bindings \<Rightarrow> 'j val option" where
  "new_field segs binds = (case segs of [head, col] \<Rightarrow> if head = ''NEW'' then binds col else None | _ \<Rightarrow> None)"

definition new_slot :: "('j \<Rightarrow> string) \<Rightarrow> 'j new_bindings \<Rightarrow> expr \<Rightarrow> expr" where
  "new_slot dj binds leaf =
     (case leaf of
        EPath segs \<Rightarrow> (case new_field segs binds of Some v \<Rightarrow> ELit (value_to_literal dj v) | None \<Rightarrow> leaf)
      | _ \<Rightarrow> leaf)"

definition bind_new :: "('j \<Rightarrow> string) \<Rightarrow> 'j new_bindings \<Rightarrow> statement \<Rightarrow> statement" where
  "bind_new dj binds s = map_statement True (subst_expr (new_slot dj binds)) s"

lemma new_bindings_dom: "dom (new_bindings_from_row cols (vals :: 'j val list)) = set (take (length vals) cols)"
proof -
  have "dom (fold (\<lambda>(n, v) m. m(n \<mapsto> v)) ps m) = dom m \<union> fst ` set ps" for ps and m :: "'j new_bindings"
    by (induction ps arbitrary: m) auto
  moreover have "fst ` set (zip cols vals) = set (take (length vals) cols)"
    by (induction cols vals rule: list_induct2') auto
  ultimately show ?thesis by (simp add: new_bindings_from_row_def)
qed

lemma new_slot_bound: "c \<in> dom binds \<Longrightarrow> \<exists>l. new_slot dj binds (EPath [''NEW'', c]) = ELit l"
  by (auto simp: new_slot_def new_field_def)

lemma new_slot_cases: "new_slot dj binds leaf = leaf \<or> (\<exists>c l. leaf = EPath [''NEW'', c] \<and> c \<in> dom binds \<and> new_slot dj binds leaf = ELit l)"
  by (auto simp: new_slot_def new_field_def split: expr.splits option.splits list.splits if_splits)

lemma leaf_shape: "l \<in> set (expr_leaves e) \<Longrightarrow> (\<exists>c. l = ECol c) \<or> (\<exists>p. l = EPath p)"
  by (induction e) auto



end
