(* ===== verification/Watch_Guard.thy ===== *)
theory Watch_Guard
  imports Push_Lower
begin

text \<open>
  The evaluator of a trigger's \<open>WHERE\<close> guard, \<open>crates/watchtower/src/predicate.rs\<close>: the first
  stage of the guard's query is lowered to a predicate and evaluated over the event's \<open>NEW\<close> row. The
  module has an evaluator of its own beside the engine's (\<open>Engine_Eval\<close>); the last section says where
  the two agree. \<open>GuardError::Lower\<close> carries the lowering error itself here, not its text.
\<close>

section \<open>The evaluator\<close>

datatype guard_error = NotAPredicate | GuardLower lower_error

text \<open>\<open>resolve\<close>: a leading \<open>NEW\<close> is dropped if something follows it.\<close>

definition strip_new :: "name list \<Rightarrow> name list" where
  "strip_new path =
     (case path of head # rest \<Rightarrow> if head = ''NEW'' \<and> rest \<noteq> [] then rest else path | [] \<Rightarrow> path)"

definition guard_resolve :: "col_ref \<Rightarrow> string list \<Rightarrow> 'j row \<Rightarrow> 'j val option" where
  "guard_resolve c cols r =
     (case strip_new (col_path c) of
        [] \<Rightarrow> None
      | head # rest \<Rightarrow>
          (case position (\<lambda>n. n = head) cols of
             None \<Rightarrow> None
           | Some idx \<Rightarrow> (case value_at r idx of None \<Rightarrow> None | Some v \<Rightarrow> navigate v rest)))"

fun guard_value_cmp :: "'j val \<Rightarrow> literal \<Rightarrow> ordering option" where
  "guard_value_cmp VNull _ = None"
| "guard_value_cmp _ LNull = None"
| "guard_value_cmp (VInt a) (LInt b) = Some (cmp_of (sint a) (sint b))"
| "guard_value_cmp (VInt a) (LFloat b) = f64_partial_cmp (f64_of_int (sint a)) b"
| "guard_value_cmp (VFloat a) (LFloat b) = f64_partial_cmp a b"
| "guard_value_cmp (VFloat a) (LInt b) = f64_partial_cmp a (f64_of_int (sint b))"
| "guard_value_cmp (VTimestamp a) (LInt b) = Some (cmp_of (sint a) (sint b))"
| "guard_value_cmp (VText a) (LText b) = Some (cmp_of a b)"
| "guard_value_cmp (VBool a) (LBool b) = Some (cmp_of a b)"
| "guard_value_cmp _ _ = None"

fun guard_cmp :: "'j val \<Rightarrow> cmp_op \<Rightarrow> literal \<Rightarrow> bool" where
  "guard_cmp v op lit =
     (case (op, guard_value_cmp v lit) of
        (Eq, Some OEqual) \<Rightarrow> True
      | (Ne, Some ord) \<Rightarrow> ord \<noteq> OEqual
      | (Lt, Some OLess) \<Rightarrow> True
      | (Le, Some ord) \<Rightarrow> ord = OLess \<or> ord = OEqual
      | (Gt, Some OGreater) \<Rightarrow> True
      | (Ge, Some ord) \<Rightarrow> ord = OGreater \<or> ord = OEqual
      | _ \<Rightarrow> False)"

text \<open>\<open>glob\<close>, over the characters of the text.\<close>

fun guard_glob :: "string \<Rightarrow> string \<Rightarrow> bool" where
  "guard_glob s [] = (s = [])"
| "guard_glob s (c # rest) =
     (if c = CHR ''%'' then list_ex (\<lambda>i. guard_glob (drop i s) rest) [0..<Suc (length s)]
      else if c = CHR ''_'' then s \<noteq> [] \<and> guard_glob (drop 1 s) rest
      else s \<noteq> [] \<and> s ! 0 = c \<and> guard_glob (drop 1 s) rest)"

definition guard_like_match :: "string \<Rightarrow> pattern \<Rightarrow> bool" where
  "guard_like_match s p = guard_glob s (pattern_str p)"

fun guard_eval :: "predicate \<Rightarrow> string list \<Rightarrow> 'j row \<Rightarrow> bool" where
  "guard_eval (PAnd a b) cols r = (guard_eval a cols r \<and> guard_eval b cols r)"
| "guard_eval (POr a b) cols r = (guard_eval a cols r \<or> guard_eval b cols r)"
| "guard_eval (PNot p) cols r = (\<not> guard_eval p cols r)"
| "guard_eval (PCmp c op l) cols r = (case guard_resolve c cols r of Some v \<Rightarrow> guard_cmp v op l | None \<Rightarrow> False)"
| "guard_eval (PIn c ls) cols r =
     (case guard_resolve c cols r of Some v \<Rightarrow> list_ex (guard_cmp v Eq) ls | None \<Rightarrow> False)"
| "guard_eval (PBetween c low high) cols r =
     (case guard_resolve c cols r of Some v \<Rightarrow> guard_cmp v Ge low \<and> guard_cmp v Le high | None \<Rightarrow> False)"
| "guard_eval (PLike c p) cols r =
     (case guard_resolve c cols r of Some (VText t) \<Rightarrow> guard_like_match t p | _ \<Rightarrow> False)"

definition guard_matches :: "statement \<Rightarrow> string list \<Rightarrow> 'j row \<Rightarrow> guard_error + bool" where
  "guard_matches g cols r =
     (case g of
        StQuery p \<Rightarrow>
          (case pl_ops p of
             OWhere e # _ \<Rightarrow>
               (case lower_predicate e of Inl err \<Rightarrow> Inl (GuardLower err) | Inr pred \<Rightarrow> Inr (guard_eval pred cols r))
           | _ \<Rightarrow> Inl NotAPredicate)
      | _ \<Rightarrow> Inl NotAPredicate)"

section \<open>Against the engine's evaluator\<close>

text \<open>The predicate the engine would evaluate: \<open>NEW\<close> dropped from every reference.\<close>

primrec without_new :: "predicate \<Rightarrow> predicate" where
  "without_new (PCmp c op l) = PCmp (ColRef (strip_new (col_path c))) op l"
| "without_new (PAnd a b) = PAnd (without_new a) (without_new b)"
| "without_new (POr a b) = POr (without_new a) (without_new b)"
| "without_new (PNot p) = PNot (without_new p)"
| "without_new (PIn c ls) = PIn (ColRef (strip_new (col_path c))) ls"
| "without_new (PBetween c l h) = PBetween (ColRef (strip_new (col_path c))) l h"
| "without_new (PLike c p) = PLike (ColRef (strip_new (col_path c))) p"

definition ascii :: "string \<Rightarrow> bool" where
  "ascii s \<longleftrightarrow> list_all (\<lambda>c. (of_char c :: nat) < 128) s"

text \<open>Guards the two evaluators read alike at a row: no \<open>~\<close>, and \<open>LIKE\<close> between ASCII texts.\<close>

primrec guard_plain :: "predicate \<Rightarrow> string list \<Rightarrow> 'j row \<Rightarrow> bool" where
  "guard_plain (PCmp c op l) cols r = (op \<noteq> Match)"
| "guard_plain (PAnd a b) cols r = (guard_plain a cols r \<and> guard_plain b cols r)"
| "guard_plain (POr a b) cols r = (guard_plain a cols r \<and> guard_plain b cols r)"
| "guard_plain (PNot p) cols r = guard_plain p cols r"
| "guard_plain (PIn c ls) cols r = True"
| "guard_plain (PBetween c l h) cols r = True"
| "guard_plain (PLike c p) cols r =
     (ascii (pattern_str p) \<and> (case guard_resolve c cols r of Some (VText t) \<Rightarrow> ascii t | _ \<Rightarrow> True))"

lemma guard_value_cmp_engine: "guard_value_cmp v l = value_cmp v l"
  by (cases v; cases l) simp_all

lemma guard_cmp_engine: "op \<noteq> Match \<Longrightarrow> guard_cmp v op l = cmp_value v op l"
  by (cases op) (auto simp: guard_value_cmp_engine cmp_value_def Let_def split: option.splits ordering.splits)

lemma guard_cmp_match: "\<not> guard_cmp v Match l"
  by simp

lemma position_map: "position P (map f xs) = position (\<lambda>x. P (f x)) xs"
  by (induction xs) auto

lemma guard_resolve_engine:
  "column_names s = cols \<Longrightarrow> guard_resolve c cols r = resolve (ColRef (strip_new (col_path c))) s r"
  by (auto simp: guard_resolve_def resolve_def col_position_def column_names_def position_map split: list.split)

definition ascii_byte :: "char \<Rightarrow> u8" where
  "ascii_byte c = of_nat (of_char c)"

lemma utf8_ascii: "ascii s \<Longrightarrow> utf8 s = map ascii_byte s"
  by (induction s) (simp_all add: ascii_def utf8_def utf8_char_def ascii_byte_def Let_def)

lemma ascii_byte_eq: "ascii [c] \<Longrightarrow> ascii [d] \<Longrightarrow> ascii_byte c = ascii_byte d \<longleftrightarrow> c = d"
proof -
  assume "ascii [c]" "ascii [d]"
  then have "(of_char c :: nat) < 2 ^ 8" "(of_char d :: nat) < 2 ^ 8" by (simp_all add: ascii_def)
  then have "ascii_byte c = ascii_byte d \<longleftrightarrow> (of_char c :: nat) = of_char d"
    by (simp add: ascii_byte_def word_of_nat_eq_iff take_bit_nat_eq_self)
  then show ?thesis by simp
qed

lemma guard_glob_like: "ascii s \<Longrightarrow> ascii p \<Longrightarrow> guard_glob s p = like_inner (map ascii_byte s) (map ascii_byte p)"
proof (induction s p rule: guard_glob.induct)
  case (2 s c rest)
  have c: "ascii [c]" "ascii rest" using "2.prems" by (simp_all add: ascii_def)
  have sfx: "ascii (drop i s)" for i
    using "2.prems" by (simp add: ascii_def list_all_iff) (meson in_set_dropD)
  have byte: "ascii_byte c = 37 \<longleftrightarrow> c = CHR ''%''" "ascii_byte c = 95 \<longleftrightarrow> c = CHR ''_''"
    using ascii_byte_eq [OF c(1), of "CHR ''%''"] ascii_byte_eq [OF c(1), of "CHR ''_''"]
    by (simp_all add: ascii_def ascii_byte_def)
  have hd: "s \<noteq> [] \<Longrightarrow> map ascii_byte s ! 0 = ascii_byte c \<longleftrightarrow> s ! 0 = c"
    using "2.prems"(1) ascii_byte_eq c(1) by (cases s) (simp_all add: ascii_def)
  show ?case
  proof (cases "c = CHR ''%''")
    case True
    have "guard_glob (drop i s) rest = like_inner (map ascii_byte (drop i s)) (map ascii_byte rest)"
      if "i \<in> set [0..<Suc (length s)]" for i
      using "2.IH"(1) [OF True that sfx c(2)] .
    then show ?thesis using True byte by (simp add: list_ex_iff drop_map del: upt_Suc)
  next
    case not_any: False
    show ?thesis
    proof (cases "c = CHR ''_''")
      case True
      then show ?thesis using "2.IH"(2) [OF not_any True sfx c(2)] byte by (cases s) (simp_all add: drop_map)
    next
      case False
      then show ?thesis using "2.IH"(3) [OF not_any False sfx c(2)] byte not_any hd by (cases s) (simp_all add: drop_map)
    qed
  qed
qed simp

lemma guard_like_engine: "ascii s \<Longrightarrow> ascii (pattern_str p) \<Longrightarrow> guard_like_match s p = like_match s p"
  by (simp add: guard_like_match_def like_match_def guard_glob_like utf8_ascii)

lemma guard_eval_engine:
  assumes "column_names s = cols"
  shows "guard_plain p cols r \<Longrightarrow> guard_eval p cols r = eval_predicate (without_new p) s r"
  by (induction p) (auto simp: guard_resolve_engine [OF assms] guard_cmp_engine guard_like_engine list_ex_iff
    simp del: guard_cmp.simps split: option.splits val.splits)

section \<open>Properties\<close>


definition demo_guard :: expr where
  "demo_guard = ELike (EPath [''NEW'', ''body'']) (ELit (AStr ''%urgent%''))"

definition demo_guard_event :: "unit row" where
  "demo_guard_event = mk_row [VText ''an urgent note'']"


end
