(* ===== verification/Core_Spec.thy ===== *)
theory Core_Spec
  imports Parser_Ast
begin

text \<open>
  The stored form of a deferred body, \<open>crates/core/src/ddl/server/spec.rs\<close>. A specification is a
  statement whose source spans are zeroed, so that the same body parsed from two places is stored
  alike. The walk of \<open>normalize_spans\<close> and its helpers is \<open>map_spans\<close> with the function applied to
  each span as an argument; \<open>guards\<close> tells whether the guard of a nested server declaration is
  visited, which \<open>normalize_spans\<close> does not do. The JSON text of a specification (serde) is a
  parameter \<open>canon\<close> of the definitions that store it.
\<close>

section \<open>The walk\<close>

fun expr_spans :: "(span \<Rightarrow> span) \<Rightarrow> expr \<Rightarrow> expr" where
  "expr_spans f (ELit l) = ELit l"
| "expr_spans f (ECol c) = ECol c"
| "expr_spans f (EPath p) = EPath p"
| "expr_spans f (EFn n args sp) = EFn n (map (expr_spans f) args) (f sp)"
| "expr_spans f (EBinary op l r) = EBinary op (expr_spans f l) (expr_spans f r)"
| "expr_spans f (EUnary op e) = EUnary op (expr_spans f e)"
| "expr_spans f (EIn e es) = EIn (expr_spans f e) (map (expr_spans f) es)"
| "expr_spans f (EBetween e l h) = EBetween (expr_spans f e) (expr_spans f l) (expr_spans f h)"
| "expr_spans f (ELike e p) = ELike (expr_spans f e) (expr_spans f p)"
| "expr_spans f (EAnyOp op e es) = EAnyOp op (expr_spans f e) (map (expr_spans f) es)"
| "expr_spans f (ELambda ps e) = ELambda ps (expr_spans f e)"
| "expr_spans f (EArray es) = EArray (map (expr_spans f) es)"
| "expr_spans f (EStruct fs) = EStruct (map (\<lambda>(n, e). (n, expr_spans f e)) fs)"

definition projection_spans :: "(span \<Rightarrow> span) \<Rightarrow> projection \<Rightarrow> projection" where
  "projection_spans f p = (case p of PjStar \<Rightarrow> PjStar | PjExpr e alias \<Rightarrow> PjExpr (expr_spans f e) alias)"

definition assignment_spans :: "(span \<Rightarrow> span) \<Rightarrow> assignment \<Rightarrow> assignment" where
  "assignment_spans f a = a\<lparr>as_value := expr_spans f (as_value a)\<rparr>"

definition order_key_spans :: "(span \<Rightarrow> span) \<Rightarrow> ast_order_key \<Rightarrow> ast_order_key" where
  "order_key_spans f k = k\<lparr>ak_expr := expr_spans f (ak_expr k)\<rparr>"

definition values_spans :: "(span \<Rightarrow> span) \<Rightarrow> ast_values \<Rightarrow> ast_values" where
  "values_spans f v = v\<lparr>av_rows := map (map (expr_spans f)) (av_rows v)\<rparr>"

definition path_spans :: "(span \<Rightarrow> span) \<Rightarrow> path_expr \<Rightarrow> path_expr" where
  "path_spans f p = p\<lparr>pe_span := f (pe_span p)\<rparr>"

definition codec_spans :: "(span \<Rightarrow> span) \<Rightarrow> codec_ref \<Rightarrow> codec_ref" where
  "codec_spans f c = c\<lparr>cd_span := f (cd_span c)\<rparr>"

definition call_spans :: "(span \<Rightarrow> span) \<Rightarrow> call_ref \<Rightarrow> call_ref" where
  "call_spans f c =
     c\<lparr>cr_span := f (cr_span c), cr_args := map (\<lambda>a. a\<lparr>na_value := expr_spans f (na_value a)\<rparr>) (cr_args c)\<rparr>"

definition arm_write_spans :: "(span \<Rightarrow> span) \<Rightarrow> arm_write \<Rightarrow> arm_write" where
  "arm_write_spans f w =
     w\<lparr>aw_span := f (aw_span w), aw_target := path_spans f (aw_target w),
       aw_returning := map_option (map (projection_spans f)) (aw_returning w)\<rparr>"

primrec pipe_op_spans :: "(span \<Rightarrow> span) \<Rightarrow> pipe_op \<Rightarrow> pipe_op"
  and source_spans :: "(span \<Rightarrow> span) \<Rightarrow> source_expr \<Rightarrow> source_expr"
  and pipeline_spans :: "(span \<Rightarrow> span) \<Rightarrow> pipeline \<Rightarrow> pipeline"
  and arm_spans :: "(span \<Rightarrow> span) \<Rightarrow> switch_arm \<Rightarrow> switch_arm"
where
  "pipe_op_spans f (OWhere e) = OWhere (expr_spans f e)"
| "pipe_op_spans f (OSelect ps) = OSelect (map (projection_spans f) ps)"
| "pipe_op_spans f (OExtend as) = OExtend (map (assignment_spans f) as)"
| "pipe_op_spans f (OSet as) = OSet (map (assignment_spans f) as)"
| "pipe_op_spans f (OAggregate ps) = OAggregate (map (projection_spans f) ps)"
| "pipe_op_spans f (OGroupBy es) = OGroupBy (map (expr_spans f) es)"
| "pipe_op_spans f (OOrderBy ks) = OOrderBy (map (order_key_spans f) ks)"
| "pipe_op_spans f (OLimit n) = OLimit n"
| "pipe_op_spans f ODistinct = ODistinct"
| "pipe_op_spans f (OJoin src on) = OJoin (source_spans f src) (expr_spans f on)"
| "pipe_op_spans f (OUnion p) = OUnion (pipeline_spans f p)"
| "pipe_op_spans f (OExcept p) = OExcept (pipeline_spans f p)"
| "pipe_op_spans f (OIntersect p) = OIntersect (pipeline_spans f p)"
| "pipe_op_spans f (OAs n) = OAs n"
| "pipe_op_spans f (OExpand p) = OExpand p"
| "pipe_op_spans f (ODecode c) = ODecode (codec_spans f c)"
| "pipe_op_spans f (OEncode c) = OEncode (codec_spans f c)"
| "pipe_op_spans f (OCall c) = OCall (call_spans f c)"
| "pipe_op_spans f (OTransform t) = OTransform (t\<lparr>tr_span := f (tr_span t)\<rparr>)"
| "pipe_op_spans f (OSwitch d arms sp) = OSwitch d (map (arm_spans f) arms) (f sp)"
| "pipe_op_spans f (OFollow r) = OFollow (r\<lparr>fr_span := f (fr_span r)\<rparr>)"
| "pipe_op_spans f (OPost r) = OPost (r\<lparr>pr_span := f (pr_span r)\<rparr>)"
| "pipe_op_spans f (OOf r) = OOf (r\<lparr>or_span := f (or_span r)\<rparr>)"
| "source_spans f (SrcPath p) = SrcPath (path_spans f p)"
| "source_spans f (SrcValues v) = SrcValues (values_spans f v)"
| "source_spans f (SrcSubquery p) = SrcSubquery (pipeline_spans f p)"
| "source_spans f (SrcName n) = SrcName n"
| "pipeline_spans f (Pipeline src ops) = Pipeline (source_spans f src) (map (pipe_op_spans f) ops)"
| "arm_spans f (SwitchArm label ops wr sp) =
     SwitchArm label (map (pipe_op_spans f) ops) (map_option (arm_write_spans f) wr) (f sp)"

definition effect_spans :: "(span \<Rightarrow> span) \<Rightarrow> effect_stmt \<Rightarrow> effect_stmt" where
  "effect_spans f e =
     e\<lparr>es_target := path_spans f (es_target e),
       es_body := (case es_body e of
                     EbValues v \<Rightarrow> EbValues (values_spans f v)
                   | EbPipeline p \<Rightarrow> EbPipeline (pipeline_spans f p)
                   | EbSetWhere as flt \<Rightarrow> EbSetWhere (map (assignment_spans f) as) (map_option (expr_spans f) flt)),
       es_returning := map_option (map (projection_spans f)) (es_returning e)\<rparr>"

fun map_spans :: "bool \<Rightarrow> (span \<Rightarrow> span) \<Rightarrow> statement \<Rightarrow> statement" where
  "map_spans guards f (StQuery p) = StQuery (pipeline_spans f p)"
| "map_spans guards f (StEffect e) = StEffect (effect_spans f e)"
| "map_spans guards f (StDdl d do_plan as_query where_pred) =
     StDdl d (map_option (map_spans guards f) do_plan) (map_option (map_spans guards f) as_query)
       (if guards then map_option (map_spans guards f) where_pred else where_pred)"
| "map_spans guards f (StPlan c s sp) = StPlan c (map_spans guards f s) (f sp)"
| "map_spans guards f (StLet n v b) = StLet n (map_spans guards f v) (map_spans guards f b)"
| "map_spans guards f (StTransaction b sp) = StTransaction (map (map_spans guards f) b) (f sp)"

definition span_zero :: span where
  "span_zero = \<lparr>sp_start = 0, sp_end = 0\<rparr>"

definition normalize_spans :: "statement \<Rightarrow> statement" where
  "normalize_spans s = map_spans False (\<lambda>_. span_zero) s"

text \<open>A specification is the statement it holds.\<close>

definition spec_from_statement :: "statement \<Rightarrow> statement" where
  "spec_from_statement s = normalize_spans s"

definition spec_canonical :: "(statement \<Rightarrow> string) \<Rightarrow> statement \<Rightarrow> string" where
  "spec_canonical canon s = canon (spec_from_statement s)"

section \<open>Two walks\<close>

named_theorems span_comp "a walk over the spans after another"

lemma expr_spans_comp [span_comp]: "expr_spans f (expr_spans g e) = expr_spans (\<lambda>x. f (g x)) e"
  by (induction e) auto

lemma projection_spans_comp [span_comp]: "projection_spans f (projection_spans g p) = projection_spans (\<lambda>x. f (g x)) p"
  by (cases p) (simp_all add: projection_spans_def span_comp)

lemma part_spans_comp [span_comp]:
  "assignment_spans f (assignment_spans g a) = assignment_spans (\<lambda>x. f (g x)) a"
  "order_key_spans f (order_key_spans g k) = order_key_spans (\<lambda>x. f (g x)) k"
  "values_spans f (values_spans g v) = values_spans (\<lambda>x. f (g x)) v"
  "path_spans f (path_spans g p) = path_spans (\<lambda>x. f (g x)) p"
  "codec_spans f (codec_spans g c) = codec_spans (\<lambda>x. f (g x)) c"
  "call_spans f (call_spans g r) = call_spans (\<lambda>x. f (g x)) r"
  "arm_write_spans f (arm_write_spans g w) = arm_write_spans (\<lambda>x. f (g x)) w"
  by (simp_all add: assignment_spans_def order_key_spans_def values_spans_def path_spans_def codec_spans_def
      call_spans_def arm_write_spans_def option.map_comp comp_def span_comp)

lemma pipeline_spans_comp [span_comp]:
  "pipe_op_spans f (pipe_op_spans g op) = pipe_op_spans (\<lambda>x. f (g x)) op"
  "source_spans f (source_spans g src) = source_spans (\<lambda>x. f (g x)) src"
  "pipeline_spans f (pipeline_spans g p) = pipeline_spans (\<lambda>x. f (g x)) p"
  "arm_spans f (arm_spans g arm) = arm_spans (\<lambda>x. f (g x)) arm"
  by (induction op and src and p and arm) (simp_all add: span_comp option.map_comp comp_def)

lemma effect_spans_comp [span_comp]: "effect_spans f (effect_spans g e) = effect_spans (\<lambda>x. f (g x)) e"
  by (simp add: effect_spans_def span_comp option.map_comp comp_def split: effect_body.split)

lemma map_spans_comp [span_comp]: "map_spans guards f (map_spans guards g s) = map_spans guards (\<lambda>x. f (g x)) s"
proof (induction s)
  case (StDdl d a b c)
  then show ?case by (cases guards; cases a; cases b; cases c) simp_all
qed (simp_all add: span_comp)

text \<open>The stored form does not depend on where the body was parsed, apart from the spans inside the
  guard of a nested declaration.\<close>

lemma normalize_respan: "normalize_spans (map_spans False f s) = normalize_spans s"
  by (simp add: normalize_spans_def span_comp)

lemma normalize_idem: "normalize_spans (normalize_spans s) = normalize_spans s"
  by (simp add: normalize_spans_def span_comp)

lemma normalize_misses_guards:
  "normalize_spans (map_spans True (\<lambda>_. span_zero) (StDdl d None None (Some (StPlan True s \<lparr>sp_start = 3, sp_end = 9\<rparr>))))
     \<noteq> normalize_spans (StDdl d None None (Some (StPlan True s \<lparr>sp_start = 3, sp_end = 9\<rparr>)))"
  by (simp add: normalize_spans_def span_zero_def)

end
