(* ===== verification/Btree_Util.thy ===== *)
theory Btree_Util
  imports Qfs_Prelude
begin

text \<open>
  \<open>BTreeMap\<close> as the list of its entries in key order: \<open>insert\<close>, \<open>remove\<close>, \<open>get\<close> (\<open>map_of\<close>), iteration
  (the list). The interface the components use of it is a locale; its client facts are what the
  replay of writes and the spool of the event bus rest on.
\<close>

section \<open>The interface\<close>

locale keyed_store =
  fixes ins :: "'k \<Rightarrow> 'v \<Rightarrow> 'm \<Rightarrow> 'm"
    and del :: "'k \<Rightarrow> 'm \<Rightarrow> 'm"
    and get :: "'m \<Rightarrow> 'k \<Rightarrow> 'v option"
    and good :: "'m \<Rightarrow> bool"
  assumes get_ins: "get (ins k v m) = (get m)(k \<mapsto> v)"
    and get_del: "get (del k m) = (get m)(k := None)"
    and good_ins: "good m \<Longrightarrow> good (ins k v m)"
    and good_del: "good m \<Longrightarrow> good (del k m)"
    and good_eqI: "good m \<Longrightarrow> good m' \<Longrightarrow> get m = get m' \<Longrightarrow> m = m'"
begin

lemma ins_again: "good m \<Longrightarrow> get m k = Some v \<Longrightarrow> ins k v m = m"
  by (rule good_eqI) (auto simp: good_ins get_ins)

lemma ins_ins: "good m \<Longrightarrow> ins k v (ins k w m) = ins k v m"
  by (rule good_eqI) (auto simp: good_ins get_ins)

lemma del_absent: "good m \<Longrightarrow> get m k = None \<Longrightarrow> del k m = m"
  by (rule good_eqI) (auto simp: good_del get_del)

lemma del_ins: "good m \<Longrightarrow> get m k = None \<Longrightarrow> del k (ins k v m) = m"
  by (rule good_eqI) (auto simp: good_del good_ins get_del get_ins)

lemma del_fold_absent:
  "good m \<Longrightarrow> \<forall>k\<in>set ks. get m k = None \<Longrightarrow> fold del ks m = m"
  by (induction ks) (auto simp: del_absent)

end

section \<open>Sorted association lists\<close>

type_synonym ('k, 'v) btree = "('k \<times> 'v) list"

fun bt_insert :: "'k::linorder \<Rightarrow> 'v \<Rightarrow> ('k, 'v) btree \<Rightarrow> ('k, 'v) btree" where
  "bt_insert k v [] = [(k, v)]"
| "bt_insert k v (e # m) =
     (if fst e < k then e # bt_insert k v m else if fst e = k then (k, v) # m else (k, v) # e # m)"

definition bt_remove :: "'k::linorder \<Rightarrow> ('k, 'v) btree \<Rightarrow> ('k, 'v) btree" where
  "bt_remove k m = filter (\<lambda>e. fst e \<noteq> k) m"

definition bt_sorted :: "('k::linorder, 'v) btree \<Rightarrow> bool" where
  "bt_sorted m \<longleftrightarrow> sorted_wrt (\<lambda>a b. fst a < fst b) m"

lemma bt_sorted_Nil [simp]: "bt_sorted []"
  by (simp add: bt_sorted_def)

lemma bt_get_insert: "map_of (bt_insert k v m) = (map_of m)(k \<mapsto> v)"
  by (induction m) auto

lemma bt_get_remove: "map_of (bt_remove k m) = (map_of m)(k := None)"
  by (induction m) (auto simp: bt_remove_def)

lemma bt_set_insert: "e \<in> set (bt_insert k v m) \<Longrightarrow> e = (k, v) \<or> e \<in> set m"
  by (induction m) (auto split: if_splits)

lemma bt_set_remove: "e \<in> set (bt_remove k m) \<longleftrightarrow> e \<in> set m \<and> fst e \<noteq> k"
  by (simp add: bt_remove_def)

lemma bt_sorted_insert: "bt_sorted m \<Longrightarrow> bt_sorted (bt_insert k v m)"
proof (induction m)
  case (Cons e m)
  then have "bt_sorted (bt_insert k v m)" "\<forall>x\<in>set m. fst e < fst x" by (simp_all add: bt_sorted_def)
  with Cons.prems show ?case
    by (auto simp: bt_sorted_def dest!: bt_set_insert)
qed (simp add: bt_sorted_def)

lemma bt_sorted_remove: "bt_sorted m \<Longrightarrow> bt_sorted (bt_remove k m)"
  by (simp add: bt_sorted_def bt_remove_def sorted_wrt_filter)

lemma bt_sorted_get: "bt_sorted m \<Longrightarrow> (k, v) \<in> set m \<longleftrightarrow> map_of m k = Some v"
proof (induction m)
  case (Cons e m)
  have "map_of m (fst e) = None" if "map_of m (fst e) \<noteq> Some w" for w
    using Cons.prems by (fastforce simp: bt_sorted_def map_of_eq_None_iff)
  with Cons show ?case
    by (cases e) (auto simp: bt_sorted_def dest: map_of_SomeD)
qed simp

lemma bt_sorted_eqI: "bt_sorted m \<Longrightarrow> bt_sorted m' \<Longrightarrow> map_of m = map_of m' \<Longrightarrow> m = m'"
proof -
  assume s: "bt_sorted m" "bt_sorted m'" and "map_of m = map_of m'"
  then have eq: "set m = set m'" by (auto simp: bt_sorted_get)
  show ?thesis using s eq
  proof (induction m arbitrary: m')
    case (Cons e m)
    then obtain e' m2 where m': "m' = e' # m2" by (cases m') auto
    have lt: "\<forall>x\<in>set m. fst e < fst x" "\<forall>x\<in>set m2. fst e' < fst x" "bt_sorted m" "bt_sorted m2"
      using Cons.prems m' by (auto simp: bt_sorted_def)
    have "e = e'" using Cons.prems(3) lt m' by (metis less_asym list.set_intros(1) set_ConsD)
    then have "set m = set m2" using Cons.prems(3) lt m' by auto
    with Cons.IH [of m2] lt \<open>e = e'\<close> m' show ?case by simp
  qed simp
qed

interpretation btree: keyed_store bt_insert bt_remove map_of bt_sorted
  by unfold_locales (simp_all add: bt_get_insert bt_get_remove bt_sorted_insert bt_sorted_remove bt_sorted_eqI)

end
