(* ===== verification/Core_ServerDdl.thy ===== *)
theory Core_ServerDdl
  imports Core_Spec Btree_Util Result_Util Plan_Model
begin

text \<open>
  The server declarations, \<open>crates/core/src/ddl/server.rs\<close>: a parsed \<open>CREATE\<close> is checked and becomes a
  binding, the binding a config row, the row a write plan of one node. Messages of the validation
  errors are left out: an error is told by its kind and its arguments. \<open>canon\<close> is the JSON text of a
  statement (serde).
\<close>

section \<open>Declarations\<close>

datatype http_method = MGet | MPost | MPut | MPatch | MDelete | MOther string

definition http_method_parse :: "string \<Rightarrow> http_method" where
  "http_method_parse tok =
     (let t = ascii_upper (trim tok) in
      if t = ''GET'' then MGet else if t = ''POST'' then MPost else if t = ''PUT'' then MPut
      else if t = ''PATCH'' then MPatch else if t = ''DELETE'' then MDelete else MOther t)"

fun http_method_str :: "http_method \<Rightarrow> string" where
  "http_method_str MGet = ''GET''"
| "http_method_str MPost = ''POST''"
| "http_method_str MPut = ''PUT''"
| "http_method_str MPatch = ''PATCH''"
| "http_method_str MDelete = ''DELETE''"
| "http_method_str (MOther s) = s"

text \<open>Bodies are specifications, statements without spans.\<close>

record endpoint_decl =
  epd_name :: string
  epd_method :: http_method
  epd_route :: string
  epd_query :: "statement option"
  epd_policy :: "string option"

record trigger_decl =
  tgd_name :: string
  tgd_event :: string
  tgd_predicate :: "statement option"
  tgd_plan :: "statement option"
  tgd_policy :: "string option"

record job_decl =
  jbd_name :: string
  jbd_every :: string
  jbd_plan :: "statement option"
  jbd_policy :: "string option"

record view_decl =
  vwd_name :: string
  vwd_query :: "statement option"
  vwd_materialized :: bool
  vwd_policy :: "string option"

record webhook_decl =
  whd_name :: string
  whd_route :: string
  whd_policy :: "string option"

record agent_decl =
  agd_name :: string
  agd_every :: "string option"
  agd_plan :: "statement option"
  agd_policy :: "string option"

datatype server_binding =
    BEndpoint endpoint_decl | BTrigger trigger_decl | BJob job_decl | BView view_decl
  | BWebhook webhook_decl | BAgent agent_decl

fun binding_node :: "server_binding \<Rightarrow> server_node" where
  "binding_node (BEndpoint _) = Endpoints"
| "binding_node (BTrigger _) = Triggers"
| "binding_node (BJob _) = Jobs"
| "binding_node (BView _) = Views"
| "binding_node (BWebhook _) = Webhooks"
| "binding_node (BAgent _) = Agents"

fun binding_name :: "server_binding \<Rightarrow> string" where
  "binding_name (BEndpoint d) = epd_name d"
| "binding_name (BTrigger d) = tgd_name d"
| "binding_name (BJob d) = jbd_name d"
| "binding_name (BView d) = vwd_name d"
| "binding_name (BWebhook d) = whd_name d"
| "binding_name (BAgent d) = agd_name d"

section \<open>Checking a declaration\<close>

datatype ddl_error =
    TransformInServerBody | MissingClause ddl_kind | UnsupportedDdl ddl_kind | NotDdl
  | UnknownConfigColumn server_node string

fun ddl_error_code :: "ddl_error \<Rightarrow> string" where
  "ddl_error_code TransformInServerBody = ''TRANSFORM_IN_SERVER_BODY''"
| "ddl_error_code (MissingClause _) = ''MISSING_CLAUSE''"
| "ddl_error_code (UnsupportedDdl _) = ''UNSUPPORTED_DDL''"
| "ddl_error_code NotDdl = ''NOT_DDL''"
| "ddl_error_code (UnknownConfigColumn _ _) = ''UNKNOWN_COLUMN''"

text \<open>The containment walk for \<open>TRANSFORM\<close> stages: sources, set operations and joins, but not the arms
  of a \<open>SWITCH\<close>.\<close>

primrec op_contains_transform :: "pipe_op \<Rightarrow> bool"
  and source_contains_transform :: "source_expr \<Rightarrow> bool"
  and pipeline_contains_transform :: "pipeline \<Rightarrow> bool"
where
  "op_contains_transform (OWhere e) = False"
| "op_contains_transform (OSelect ps) = False"
| "op_contains_transform (OExtend as) = False"
| "op_contains_transform (OSet as) = False"
| "op_contains_transform (OAggregate ps) = False"
| "op_contains_transform (OGroupBy es) = False"
| "op_contains_transform (OOrderBy ks) = False"
| "op_contains_transform (OLimit n) = False"
| "op_contains_transform ODistinct = False"
| "op_contains_transform (OJoin src on) = source_contains_transform src"
| "op_contains_transform (OUnion p) = pipeline_contains_transform p"
| "op_contains_transform (OExcept p) = pipeline_contains_transform p"
| "op_contains_transform (OIntersect p) = pipeline_contains_transform p"
| "op_contains_transform (OAs n) = False"
| "op_contains_transform (OExpand p) = False"
| "op_contains_transform (ODecode c) = False"
| "op_contains_transform (OEncode c) = False"
| "op_contains_transform (OCall c) = False"
| "op_contains_transform (OTransform t) = True"
| "op_contains_transform (OSwitch d arms sp) = False"
| "op_contains_transform (OFollow r) = False"
| "op_contains_transform (OPost r) = False"
| "op_contains_transform (OOf r) = False"
| "source_contains_transform (SrcPath p) = False"
| "source_contains_transform (SrcValues v) = False"
| "source_contains_transform (SrcSubquery p) = pipeline_contains_transform p"
| "source_contains_transform (SrcName n) = False"
| "pipeline_contains_transform (Pipeline src ops) =
     (source_contains_transform src \<or> list_ex (\<lambda>b. b) (map op_contains_transform ops))"

fun statement_contains_transform :: "statement \<Rightarrow> bool" where
  "statement_contains_transform (StQuery p) = pipeline_contains_transform p"
| "statement_contains_transform (StEffect e) =
     (case es_body e of EbPipeline p \<Rightarrow> pipeline_contains_transform p | _ \<Rightarrow> False)"
| "statement_contains_transform (StPlan _ s _) = statement_contains_transform s"
| "statement_contains_transform (StLet _ v b) = (statement_contains_transform v \<or> statement_contains_transform b)"
| "statement_contains_transform (StTransaction b _) = list_ex statement_contains_transform b"
| "statement_contains_transform (StDdl _ do_plan as_query where_pred) =
     (case_option False statement_contains_transform as_query
      \<or> case_option False statement_contains_transform do_plan
      \<or> case_option False statement_contains_transform where_pred)"

definition split_method_route :: "string \<Rightarrow> ddl_error + (http_method \<times> string)" where
  "split_method_route on =
     (let t = trim on in
      if t = [] then Inl (MissingClause DkEndpoint)
      else if list_ex is_ws t
      then Inr (http_method_parse (takeWhile (\<lambda>c. \<not> is_ws c) t), trim (drop 1 (dropWhile (\<lambda>c. \<not> is_ws c) t)))
      else Inr (MGet, t))"

definition from_server_ddl ::
  "server_ddl \<Rightarrow> statement option \<Rightarrow> statement option \<Rightarrow> statement option \<Rightarrow> ddl_error + server_binding" where
  "from_server_ddl d do_plan as_query where_pred =
     (if case_option False statement_contains_transform as_query
         \<or> case_option False statement_contains_transform do_plan
         \<or> case_option False statement_contains_transform where_pred
      then Inl TransformInServerBody
      else let spec = map_option spec_from_statement; name = sd_name d in
      case sd_kind d of
        DkEndpoint \<Rightarrow>
          (case sd_on d of
             None \<Rightarrow> Inl (MissingClause DkEndpoint)
           | Some on \<Rightarrow>
               res_bind (split_method_route on) (\<lambda>(m, route).
                 Inr (BEndpoint \<lparr>epd_name = name, epd_method = m, epd_route = route, epd_query = spec as_query,
                                 epd_policy = sd_policy d\<rparr>)))
      | DkTrigger \<Rightarrow>
          (case sd_on d of
             None \<Rightarrow> Inl (MissingClause DkTrigger)
           | Some on \<Rightarrow>
               Inr (BTrigger \<lparr>tgd_name = name, tgd_event = on, tgd_predicate = spec where_pred,
                              tgd_plan = spec do_plan, tgd_policy = sd_policy d\<rparr>))
      | DkJob \<Rightarrow>
          (case sd_every d of
             None \<Rightarrow> Inl (MissingClause DkJob)
           | Some every \<Rightarrow>
               Inr (BJob \<lparr>jbd_name = name, jbd_every = every, jbd_plan = spec do_plan, jbd_policy = sd_policy d\<rparr>))
      | DkView \<Rightarrow>
          Inr (BView \<lparr>vwd_name = name, vwd_query = spec as_query, vwd_materialized = False, vwd_policy = sd_policy d\<rparr>)
      | DkMaterializedView \<Rightarrow>
          Inr (BView \<lparr>vwd_name = name, vwd_query = spec as_query, vwd_materialized = True, vwd_policy = sd_policy d\<rparr>)
      | DkWebhook \<Rightarrow>
          (case sd_on d of
             None \<Rightarrow> Inl (MissingClause DkWebhook)
           | Some on \<Rightarrow> Inr (BWebhook \<lparr>whd_name = name, whd_route = on, whd_policy = sd_policy d\<rparr>))
      | DkAgent \<Rightarrow>
          Inr (BAgent \<lparr>agd_name = name, agd_every = sd_every d, agd_plan = spec do_plan, agd_policy = sd_policy d\<rparr>)
      | DkPolicy \<Rightarrow> Inl (UnsupportedDdl DkPolicy)
      | DkConnection \<Rightarrow> Inl (UnsupportedDdl DkConnection))"

definition binding_of_statement :: "statement \<Rightarrow> ddl_error + server_binding" where
  "binding_of_statement s =
     (case s of
        StDdl d do_plan as_query where_pred \<Rightarrow> from_server_ddl d do_plan as_query where_pred
      | _ \<Rightarrow> Inl NotDdl)"

section \<open>Config rows\<close>

type_synonym 'j config_row = "(string, 'j val) btree"

definition set_field :: "string \<Rightarrow> 'j val \<Rightarrow> 'j config_row \<Rightarrow> 'j config_row" where
  "set_field k v row = bt_insert k v row"

definition set_text :: "string \<Rightarrow> string \<Rightarrow> 'j config_row \<Rightarrow> 'j config_row" where
  "set_text k s row = bt_insert k (VText s) row"

definition set_opt :: "string \<Rightarrow> string option \<Rightarrow> 'j config_row \<Rightarrow> 'j config_row" where
  "set_opt k s row = (case s of Some t \<Rightarrow> set_text k t row | None \<Rightarrow> row)"

definition canonical_or_empty :: "(statement \<Rightarrow> string) \<Rightarrow> statement option \<Rightarrow> string" where
  "canonical_or_empty canon s = (case s of Some t \<Rightarrow> canon t | None \<Rightarrow> [])"

definition binding_config_row :: "(statement \<Rightarrow> string) \<Rightarrow> server_binding \<Rightarrow> 'j config_row" where
  "binding_config_row canon b =
     (let row = set_text ''name'' (binding_name b) [] in
      case b of
        BEndpoint d \<Rightarrow>
          set_opt ''policy'' (epd_policy d)
            (set_text ''query'' (canonical_or_empty canon (epd_query d))
              (set_text ''route'' (epd_route d) (set_text ''method'' (http_method_str (epd_method d)) row)))
      | BTrigger d \<Rightarrow>
          set_opt ''policy'' (tgd_policy d)
            (set_text ''plan'' (canonical_or_empty canon (tgd_plan d))
              (set_opt ''predicate'' (map_option canon (tgd_predicate d)) (set_text ''on'' (tgd_event d) row)))
      | BJob d \<Rightarrow>
          set_opt ''policy'' (jbd_policy d)
            (set_text ''plan'' (canonical_or_empty canon (jbd_plan d)) (set_text ''every'' (jbd_every d) row))
      | BView d \<Rightarrow>
          set_field ''materialized'' (VBool (vwd_materialized d))
            (set_text ''query'' (canonical_or_empty canon (vwd_query d)) row)
      | BWebhook d \<Rightarrow> set_text ''route'' (whd_route d) row
      | BAgent d \<Rightarrow>
          set_opt ''policy'' (agd_policy d)
            (set_text ''plan'' (canonical_or_empty canon (agd_plan d)) (set_opt ''every'' (agd_every d) row)))"

fun server_node_schema :: "server_node \<Rightarrow> schema" where
  "server_node_schema Endpoints =
     Schema [column_new ''name'' TText False, column_new ''method'' TText True, column_new ''route'' TText True,
             column_new ''query'' TText True, column_new ''policy'' TText True]"
| "server_node_schema Triggers =
     Schema [column_new ''name'' TText False, column_new ''on'' TText True, column_new ''predicate'' TText True,
             column_new ''plan'' TText True, column_new ''policy'' TText True]"
| "server_node_schema Jobs =
     Schema [column_new ''name'' TText False, column_new ''every'' TText True, column_new ''plan'' TText True,
             column_new ''last_run'' TTimestamp True, column_new ''policy'' TText True]"
| "server_node_schema Views =
     Schema [column_new ''name'' TText False, column_new ''query'' TText True, column_new ''materialized'' TBool False,
             column_new ''last_run'' TTimestamp True]"
| "server_node_schema Policies =
     Schema [column_new ''name'' TText False, column_new ''handler'' TText True,
             column_new ''allow'' (TArray TText) True]"
| "server_node_schema Agents =
     Schema [column_new ''name'' TText False, column_new ''every'' TText True, column_new ''plan'' TText True,
             column_new ''policy'' TText True, column_new ''last_run'' TTimestamp True]"
| "server_node_schema Webhooks =
     Schema [column_new ''name'' TText False, column_new ''route'' TText True, column_new ''secret'' TText True]"

definition job_runs_schema :: schema where
  "job_runs_schema =
     Schema [column_new ''scheduled_at'' TTimestamp False, column_new ''outcome'' TText False,
             column_new ''detail'' TText True, column_new ''affected'' TInt False, column_new ''principal'' TText True]"

definition config_row_batch :: "server_node \<Rightarrow> 'j config_row \<Rightarrow> ddl_error + 'j row_batch" where
  "config_row_batch node row =
     (let s = server_node_schema node in
      case find (\<lambda>k. k \<notin> set (column_names s)) (map fst row) of
        Some k \<Rightarrow> Inl (UnknownConfigColumn node k)
      | None \<Rightarrow>
          Inr \<lparr>rb_schema = Schema (map (\<lambda>c. column_new (col_name c) (col_ty c) (col_nullable c)) (columns s)),
               rb_rows = [\<lparr>row_values = map (\<lambda>c. case map_of row (col_name c) of Some v \<Rightarrow> v | None \<Rightarrow> VNull) (columns s)\<rparr>]\<rparr>)"

definition server_write_plan :: "server_node \<Rightarrow> server_write_op \<Rightarrow> 'j row_batch \<Rightarrow> 'j plan" where
  "server_write_plan node op args =
     (let (i, b) = builder_next_id builder_new;
          effect = with_affected (with_args (node_new i (KServerConfigWrite node op)
                     \<lparr>tgt_driver = ''server'', tgt_path = server_path node\<rparr>) args) (Exact 1);
          (_, b') = builder_push b effect
      in builder_build b')"

definition create_write_op :: server_write_op where
  "create_write_op = OpUpsert"

definition desugar_to_insert :: "(statement \<Rightarrow> string) \<Rightarrow> server_binding \<Rightarrow> ddl_error + 'j plan" where
  "desugar_to_insert canon b =
     res_bind (config_row_batch (binding_node b) (binding_config_row canon b))
       (\<lambda>args. Inr (server_write_plan (binding_node b) create_write_op args))"

section \<open>Rows and their batches\<close>

lemmas row_ops = set_field_def set_text_def set_opt_def

text \<open>A batch is determined by the fields the node's schema declares.\<close>

lemma server_schema_columns [simp]:
  "map (\<lambda>c. column_new (col_name c) (col_ty c) (col_nullable c)) (columns (server_node_schema node)) = columns (server_node_schema node)"
  by (cases node) (simp_all add: column_new_def)

lemma config_row_batch_get:
  assumes "config_row_batch node row = Inr args"
  shows "columns (rb_schema args) = columns (server_node_schema node)"
    "rb_rows args = [\<lparr>row_values = map (\<lambda>c. case map_of row (col_name c) of Some v \<Rightarrow> v | None \<Rightarrow> VNull)
                                      (columns (server_node_schema node))\<rparr>]"
  using assms by (auto simp: config_row_batch_def Let_def split: option.splits)

lemma config_row_batch_ok:
  "fst ` set row \<subseteq> set (column_names (server_node_schema node)) \<Longrightarrow> \<exists>args. config_row_batch node row = Inr args"
  by (auto simp: config_row_batch_def Let_def find_None_iff split: option.splits)

lemma keys_insert: "fst ` set (bt_insert k v m) = insert k (fst ` set m)"
  by (induction m) auto

lemma row_sorted [simp]:
  "bt_sorted m \<Longrightarrow> bt_sorted (set_field k v m)"
  "bt_sorted m \<Longrightarrow> bt_sorted (set_text k s m)"
  "bt_sorted m \<Longrightarrow> bt_sorted (set_opt k t m)"
  by (simp_all add: row_ops bt_sorted_insert split: option.split)

lemma row_get [simp]:
  "map_of (set_field k v m) = (map_of m)(k \<mapsto> v)"
  "map_of (set_text k s m) = (map_of m)(k \<mapsto> VText s)"
  "map_of (set_opt k t m) = (case t of Some u \<Rightarrow> (map_of m)(k \<mapsto> VText u) | None \<Rightarrow> map_of m)"
  by (simp_all add: row_ops bt_get_insert split: option.split)

lemma row_keys [simp]:
  "fst ` set (set_field k v m) = insert k (fst ` set m)"
  "fst ` set (set_text k s m) = insert k (fst ` set m)"
  "fst ` set (set_opt k t m) = (if t = None then fst ` set m else insert k (fst ` set m))"
  by (simp_all add: row_ops keys_insert split: option.split)

lemma binding_row_sorted: "bt_sorted (binding_config_row canon b)"
  by (cases b) (simp_all add: binding_config_row_def Let_def)

lemma binding_row_columns:
  "fst ` set (binding_config_row canon b) \<subseteq> set (column_names (server_node_schema (binding_node b)))"
  by (cases b) (simp_all add: binding_config_row_def Let_def column_names_def column_new_def)

lemma desugar_total: "\<exists>plan. desugar_to_insert canon b = Inr plan"
  using config_row_batch_ok [OF binding_row_columns] by (fastforce simp: desugar_to_insert_def)

end
