(* ===== verification/Server_Lower.thy ===== *)
theory Server_Lower
  imports Core_ServerDdl Policy_Text
begin

text \<open>
  Server statements to write plans, \<open>crates/server/src/lower.rs\<close>: a \<open>CREATE\<close> through its declaration,
  an explicit \<open>INSERT\<close>, \<open>UPSERT\<close>, \<open>UPDATE\<close> or \<open>REMOVE\<close> of a \<open>/server\<close> path through its literals. The
  parser of body texts is the parameter \<open>parse\<close>, the JSON text of a statement the parameter \<open>canon\<close>.
\<close>

section \<open>Literals and bodies\<close>

datatype config_error = CfgDdl ddl_error | CfgText string

fun expr_kind :: "expr \<Rightarrow> string" where
  "expr_kind (ELit _) = ''literal''"
| "expr_kind (ECol _) = ''column reference''"
| "expr_kind (EPath _) = ''path''"
| "expr_kind (EFn _ _ _) = ''function call''"
| "expr_kind (EBinary _ _ _) = ''binary op''"
| "expr_kind (EUnary _ _) = ''unary op''"
| "expr_kind (EIn _ _) = ''IN''"
| "expr_kind (EBetween _ _ _) = ''BETWEEN''"
| "expr_kind (ELike _ _) = ''LIKE''"
| "expr_kind (EAnyOp _ _ _) = ''ANY''"
| "expr_kind (ELambda _ _) = ''lambda''"
| "expr_kind (EArray _) = ''array''"
| "expr_kind (EStruct _) = ''struct''"

fun literal_value :: "expr \<Rightarrow> config_error + 'j val" where
  "literal_value (ELit (AStr s)) = Inr (VText s)"
| "literal_value (ELit (AInt n)) = Inr (VInt n)"
| "literal_value (ELit (AFloat f)) = Inr (VFloat f)"
| "literal_value (ELit (ABool b)) = Inr (VBool b)"
| "literal_value (ELit ANull) = Inr VNull"
| "literal_value (ELit (ASize n u)) = Inr (VText (show_nat (unat n) @ '' '' @ u))"
| "literal_value (ELit (ATyped _ raw)) = Inr (VText raw)"
| "literal_value (ELit (ABytes _)) =
     Inl (CfgText ''/server config values must be scalar literals (a bytes literal is not a valid config value)'')"
| "literal_value e = Inl (CfgText (''/server config values must be literals, got '' @ expr_kind e))"

definition is_body_column :: "server_node \<Rightarrow> string \<Rightarrow> bool" where
  "is_body_column node col \<longleftrightarrow>
     node \<in> {Endpoints, Views} \<and> col = ''query''
     \<or> node \<in> {Triggers, Jobs, Agents} \<and> col = ''plan''
     \<or> node = Triggers \<and> col = ''predicate''"

definition normalize_body_column ::
  "(string \<Rightarrow> 'e + statement) \<Rightarrow> (statement \<Rightarrow> string) \<Rightarrow> server_node \<Rightarrow> string \<Rightarrow> 'j val \<Rightarrow> 'j val" where
  "normalize_body_column parse canon node col v =
     (if \<not> is_body_column node col then v
      else case v of
        VText src \<Rightarrow>
          (if src = [] then v
           else case parse src of Inr s \<Rightarrow> VText (spec_canonical canon s) | Inl _ \<Rightarrow> v)
      | _ \<Rightarrow> v)"

section \<open>Explicit writes\<close>

fun set_columns ::
  "(string \<Rightarrow> 'e + statement) \<Rightarrow> (statement \<Rightarrow> string) \<Rightarrow> server_node \<Rightarrow> (string \<times> expr) list
     \<Rightarrow> 'j config_row \<Rightarrow> config_error + 'j config_row" where
  "set_columns parse canon node [] row = Inr row"
| "set_columns parse canon node ((col, e) # ces) row =
     res_bind (literal_value e) (\<lambda>v.
       set_columns parse canon node ces (set_field col (normalize_body_column parse canon node col v) row))"

definition collect_values_row ::
  "(string \<Rightarrow> 'e + statement) \<Rightarrow> (statement \<Rightarrow> string) \<Rightarrow> server_node \<Rightarrow> ast_values
     \<Rightarrow> 'j config_row \<Rightarrow> config_error + 'j config_row" where
  "collect_values_row parse canon node vs row =
     (case av_columns vs of
        None \<Rightarrow> Inl (CfgText ''/server INSERT requires explicit column names, e.g. VALUES (name, every) (...)'')
      | Some cols \<Rightarrow>
          (case av_rows vs of
             [] \<Rightarrow> Inl (CfgText ''/server INSERT requires one VALUES row'')
           | first # _ \<Rightarrow>
               if length cols \<noteq> length first
               then Inl (CfgText (''/server INSERT column/value count mismatch ('' @ show_nat (length cols)
                      @ '' cols, '' @ show_nat (length first) @ '' vals)''))
               else set_columns parse canon node (zip cols first) row))"

fun write_op_of :: "effect_verb \<Rightarrow> server_write_op" where
  "write_op_of EvInsert = OpInsert"
| "write_op_of EvUpsert = OpUpsert"
| "write_op_of EvUpdate = OpUpdate"
| "write_op_of EvRemove = OpRemove"

definition lower_body ::
  "(string \<Rightarrow> 'e + statement) \<Rightarrow> (statement \<Rightarrow> string) \<Rightarrow> server_node \<Rightarrow> effect_body
     \<Rightarrow> 'j config_row \<Rightarrow> config_error + 'j config_row" where
  "lower_body parse canon node body row =
     (case body of
        EbValues vs \<Rightarrow> collect_values_row parse canon node vs row
      | EbSetWhere as _ \<Rightarrow> set_columns parse canon node (map (\<lambda>a. (as_name a, as_value a)) as) row
      | EbPipeline _ \<Rightarrow> Inl (CfgText ''/server writes take VALUES / SET, not a sub-pipeline''))"

definition lower_effect ::
  "(string \<Rightarrow> 'e + statement) \<Rightarrow> (statement \<Rightarrow> string) \<Rightarrow> effect_stmt \<Rightarrow> config_error + 'j plan" where
  "lower_effect parse canon e =
     (let segs = map pg_name (pe_segments (es_target e)) in
      if length segs < 2 then Inl (CfgText ''/server write needs a collection, e.g. /server/jobs'')
      else case server_from_segment (segs ! 1) of
        None \<Rightarrow> Inl (CfgText (''unknown /server collection `'' @ segs ! 1 @ ''`''))
      | Some node \<Rightarrow>
          res_bind (lower_body parse canon node (es_body e)
              (if length segs < 3 then [] else set_text ''name'' (segs ! 2) [])) (\<lambda>row.
            case config_row_batch node row of
              Inl err \<Rightarrow> Inl (CfgDdl err)
            | Inr args \<Rightarrow> Inr (server_write_plan node (write_op_of (es_verb e)) args)))"

section \<open>\<open>CREATE\<close>\<close>

text \<open>The parser's rules as the policy builder reads them.\<close>

fun policy_expr_of :: "expr \<Rightarrow> expr policy_expr" where
  "policy_expr_of (EFn n args _) = PEFn n (map policy_expr_of args)"
| "policy_expr_of (ELit (AStr s)) = PEStr s"
| "policy_expr_of e = PEOther e"

definition rule_ast_of :: "policy_rule_ast \<Rightarrow> expr rule_ast" where
  "rule_ast_of a =
     \<lparr>ra_allow = pra_allow a, ra_verbs = pra_verbs a, ra_all_token = pra_all_token a, ra_driver = pra_driver a,
      ra_subject = map_option (\<lambda>s. \<lparr>sa_kind = psa_kind s, sa_name = psa_name s\<rparr>) (pra_subject a),
      ra_scope = pra_scope a, ra_condition = map_option policy_expr_of (pra_condition a)\<rparr>"

definition lower_policy :: "server_ddl \<Rightarrow> config_error + 'j plan" where
  "lower_policy d =
     (case policy_from_ddl (sd_name d) (map rule_ast_of (sd_policy_rules d)) of
        Inl e \<Rightarrow> Inl (CfgText e)
      | Inr p \<Rightarrow>
          (let row = set_field ''allow'' (VArray (map VText (policy_to_rule_strings p)))
                       (set_text ''handler'' (case sd_on d of Some h \<Rightarrow> h | None \<Rightarrow> []) (set_text ''name'' (sd_name d) []));
               args = (case config_row_batch Policies row of
                         Inr a \<Rightarrow> a
                       | Inl _ \<Rightarrow> (case config_row_batch Policies [] of
                                    Inr a \<Rightarrow> a | Inl _ \<Rightarrow> \<lparr>rb_schema = Schema [], rb_rows = []\<rparr>))
           in Inr (server_write_plan Policies create_write_op args)))"

definition lower_ddl ::
  "(statement \<Rightarrow> string) \<Rightarrow> server_ddl \<Rightarrow> statement option \<Rightarrow> statement option \<Rightarrow> statement option
     \<Rightarrow> config_error + 'j plan" where
  "lower_ddl canon d do_plan as_query where_pred =
     (if sd_kind d = DkPolicy then lower_policy d
      else case from_server_ddl d do_plan as_query where_pred of
        Inl e \<Rightarrow> Inl (CfgDdl e)
      | Inr b \<Rightarrow>
          (case config_row_batch (binding_node b) (binding_config_row canon b) of
             Inl e \<Rightarrow> Inl (CfgDdl e)
           | Inr args \<Rightarrow> Inr (server_write_plan (binding_node b) create_write_op args)))"

definition targets_server :: "effect_stmt \<Rightarrow> bool" where
  "targets_server e = (case pe_segments (es_target e) of [] \<Rightarrow> False | s # _ \<Rightarrow> pg_name s = ''server'')"

fun lower_statement ::
  "(string \<Rightarrow> 'e + statement) \<Rightarrow> (statement \<Rightarrow> string) \<Rightarrow> statement \<Rightarrow> config_error + 'j plan option" where
  "lower_statement parse canon (StDdl d do_plan as_query where_pred) =
     map_sum id Some (lower_ddl canon d do_plan as_query where_pred)"
| "lower_statement parse canon (StEffect e) =
     (if targets_server e then map_sum id Some (lower_effect parse canon e) else Inr None)"
| "lower_statement parse canon (StPlan _ s _) = lower_statement parse canon s"
| "lower_statement parse canon _ = Inr None"

section \<open>A declaration and its written twin\<close>

text \<open>The body a column of a binding holds, and the other texts and flags.\<close>

fun binding_body :: "server_binding \<Rightarrow> string \<Rightarrow> statement option" where
  "binding_body (BEndpoint d) col = (if col = ''query'' then epd_query d else None)"
| "binding_body (BTrigger d) col =
     (if col = ''plan'' then tgd_plan d else if col = ''predicate'' then tgd_predicate d else None)"
| "binding_body (BJob d) col = (if col = ''plan'' then jbd_plan d else None)"
| "binding_body (BView d) col = (if col = ''query'' then vwd_query d else None)"
| "binding_body (BWebhook d) col = None"
| "binding_body (BAgent d) col = (if col = ''plan'' then agd_plan d else None)"

text \<open>A literal that spells a column of the binding: source text of the column's body, or the column's text
  or flag.\<close>

definition spells :: "(string \<Rightarrow> 'e + statement) \<Rightarrow> statement option \<Rightarrow> 'j val option \<Rightarrow> ast_literal \<Rightarrow> bool" where
  "spells parse body v lit =
     (case body of
        Some t \<Rightarrow>
          (case lit of
             AStr src \<Rightarrow> src \<noteq> [] \<and> (case parse src of Inr u \<Rightarrow> normalize_spans u = t | Inl _ \<Rightarrow> False)
           | _ \<Rightarrow> False)
      | None \<Rightarrow> (case v of Some (VText s) \<Rightarrow> lit = AStr s | Some (VBool f) \<Rightarrow> lit = ABool f | _ \<Rightarrow> False))"

definition server_segment_ast :: "string \<Rightarrow> path_segment" where
  "server_segment_ast n = \<lparr>pg_name = n, pg_version = None, pg_glob = False, pg_selection = False\<rparr>"

definition twin_write :: "effect_verb \<Rightarrow> server_node \<Rightarrow> (string \<times> ast_literal) list \<Rightarrow> statement" where
  "twin_write verb node fs =
     StEffect \<lparr>es_verb = verb,
       es_target = \<lparr>pe_segments = [server_segment_ast ''server'', server_segment_ast (server_segment node)],
                    pe_as_of = None, pe_span = span_zero\<rparr>,
       es_body = EbValues \<lparr>av_columns = Some (map fst fs), av_rows = [map (\<lambda>f. ELit (snd f)) fs]\<rparr>,
       es_returning = None\<rparr>"

lemma spelled_column:
  fixes canon :: "statement \<Rightarrow> string" and b :: server_binding
  defines "row \<equiv> (binding_config_row canon b :: 'j config_row)"
  assumes "spells parse (binding_body b col) (map_of row col) lit" "col \<in> fst ` set row"
  obtains v where "literal_value (ELit lit) = Inr v"
    "map_of row col = Some (normalize_body_column parse canon (binding_node b) col v)"
proof -
  have col: "col \<in> dom (map_of row)" using assms(3) by (simp add: dom_map_of_conv_image_fst)
  have "\<exists>v. literal_value (ELit lit) = Inr v
      \<and> map_of row col = Some (normalize_body_column parse canon (binding_node b) col v)"
  proof (cases "binding_body b col")
    case None
    have "map_of row col = Some (VText [])" if "is_body_column (binding_node b) col"
      using col None that
      by (cases b) (auto simp: row_def binding_config_row_def Let_def is_body_column_def canonical_or_empty_def
          split: if_splits option.splits)
    with assms(2) None col show ?thesis
      by (cases "is_body_column (binding_node b) col")
        (auto simp: spells_def normalize_body_column_def split: option.splits val.splits)
  next
    case (Some t)
    then obtain src u where src: "lit = AStr src" "src \<noteq> []" "parse src = Inr u" "normalize_spans u = t"
      using assms(2) by (auto simp: spells_def split: ast_literal.splits sum.splits)
    have "is_body_column (binding_node b) col \<and> map_of row col = Some (VText (canon t))"
      using Some
      by (cases b) (auto simp: row_def binding_config_row_def Let_def is_body_column_def canonical_or_empty_def
          split: if_splits option.splits)
    with src show ?thesis by (simp add: normalize_body_column_def spec_canonical_def spec_from_statement_def)
  qed
  with that show thesis by blast
qed

lemma set_columns_spelled:
  fixes canon :: "statement \<Rightarrow> string" and b :: server_binding
  defines "row \<equiv> (binding_config_row canon b :: 'j config_row)"
  assumes "\<forall>(c, l)\<in>set fs. c \<in> fst ` set row \<and> spells parse (binding_body b c) (map_of row c) l" "bt_sorted r"
  shows "\<exists>r'. set_columns parse canon (binding_node b) (map (\<lambda>f. (fst f, ELit (snd f))) fs) r = Inr r' \<and> bt_sorted r'
      \<and> map_of r' = (\<lambda>c. if c \<in> fst ` set fs then map_of row c else map_of r c)"
  using assms(2,3)
proof (induction fs arbitrary: r)
  case (Cons f fs)
  obtain c l where f: "f = (c, l)" by (cases f)
  have "spells parse (binding_body b c) (map_of row c) l" "c \<in> fst ` set row" using Cons.prems f by auto
  then obtain v where v: "literal_value (ELit l) = Inr v"
      "map_of row c = Some (normalize_body_column parse canon (binding_node b) c v)"
    unfolding row_def by (rule spelled_column)
  let ?r = "set_field c (normalize_body_column parse canon (binding_node b) c v) r"
  obtain r' where r': "set_columns parse canon (binding_node b) (map (\<lambda>f. (fst f, ELit (snd f))) fs) ?r = Inr r'"
      "bt_sorted r'" "map_of r' = (\<lambda>c. if c \<in> fst ` set fs then map_of row c else map_of ?r c)"
    using Cons.IH [of ?r] Cons.prems by auto
  then show ?case using v f by auto
qed simp

lemma twin_row:
  fixes canon :: "statement \<Rightarrow> string" and b :: server_binding
  defines "row \<equiv> (binding_config_row canon b :: 'j config_row)"
  assumes "fst ` set fs = fst ` set row" "\<forall>(c, l)\<in>set fs. spells parse (binding_body b c) (map_of row c) l"
  shows "set_columns parse canon (binding_node b) (map (\<lambda>f. (fst f, ELit (snd f))) fs) [] = Inr row"
proof -
  have "\<forall>(c, l)\<in>set fs. c \<in> fst ` set row \<and> spells parse (binding_body b c) (map_of row c) l"
    using assms(2,3) by force
  from set_columns_spelled [where canon = canon and b = b and fs = fs and parse = parse and r = "[]", OF this [unfolded row_def]]
  obtain r' where r': "set_columns parse canon (binding_node b) (map (\<lambda>f. (fst f, ELit (snd f))) fs) [] = Inr r'"
      "bt_sorted r'" "map_of r' = (\<lambda>c. if c \<in> fst ` set fs then map_of row c else map_of [] c)"
    unfolding row_def by auto
  have "map_of r' = map_of row"
  proof
    fix c
    show "map_of r' c = map_of row c"
    proof (cases "c \<in> fst ` set row")
      case True
      then show ?thesis using r'(3) assms(2) by simp
    next
      case False
      then have "map_of row c = None" by (simp add: map_of_eq_None_iff)
      then show ?thesis using r'(3) assms(2) False by simp
    qed
  qed
  then have "r' = row" using r'(2) binding_row_sorted unfolding row_def by (intro bt_sorted_eqI)
  with r'(1) show ?thesis by simp
qed

lemma lower_twin:
  fixes canon :: "statement \<Rightarrow> string" and b :: server_binding
  defines "row \<equiv> (binding_config_row canon b :: 'j config_row)"
  assumes "fst ` set fs = fst ` set row" "\<forall>(c, l)\<in>set fs. spells parse (binding_body b c) (map_of row c) l"
    and "config_row_batch (binding_node b) row = Inr args"
  shows "lower_statement parse canon (twin_write verb (binding_node b) fs)
    = Inr (Some (server_write_plan (binding_node b) (write_op_of verb) args))"
proof -
  have "zip (map fst fs) (map (\<lambda>f. ELit (snd f)) fs) = map (\<lambda>f. (fst f, ELit (snd f))) fs" by (induction fs) auto
  then show ?thesis
    using twin_row [where canon = canon and b = b, OF assms(2,3) [unfolded row_def]] assms(4)
    by (simp add: twin_write_def targets_server_def server_segment_ast_def lower_effect_def lower_body_def
        collect_values_row_def row_def Let_def server_from_segment_segment)
qed

lemma write_plan_node:
  "pl_nodes (server_write_plan node op args) =
     [\<lparr>en_id = 0, en_kind = KServerConfigWrite node op, en_target = \<lparr>tgt_driver = ''server'', tgt_path = server_path node\<rparr>,
       en_args = args, en_selector = None, en_irreversible = False, en_est_affected = Exact 1\<rparr>]"
  by (simp add: server_write_plan_def builder_next_id_def builder_push_def builder_build_def builder_new_def
      plan_pure_def with_affected_def with_args_def node_new_def is_inherently_irreversible_def Let_def)

lemma view_policy_unread:
  "binding_config_row canon (BView v) = binding_config_row canon (BView (v\<lparr>vwd_policy := pol\<rparr>))"
  "binding_config_row canon (BWebhook h) = binding_config_row canon (BWebhook (h\<lparr>whd_policy := pol\<rparr>))"
  by (simp_all add: binding_config_row_def)

lemma from_view_policy:
  "from_server_ddl (d\<lparr>sd_kind := DkView, sd_policy := pol\<rparr>) a q w
     = map_sum id (\<lambda>b. case b of BView v \<Rightarrow> BView (v\<lparr>vwd_policy := pol\<rparr>) | _ \<Rightarrow> b)
         (from_server_ddl (d\<lparr>sd_kind := DkView, sd_policy := None\<rparr>) a q w)"
  "from_server_ddl (d\<lparr>sd_kind := DkMaterializedView, sd_policy := pol\<rparr>) a q w
     = map_sum id (\<lambda>b. case b of BView v \<Rightarrow> BView (v\<lparr>vwd_policy := pol\<rparr>) | _ \<Rightarrow> b)
         (from_server_ddl (d\<lparr>sd_kind := DkMaterializedView, sd_policy := None\<rparr>) a q w)"
  "from_server_ddl (d\<lparr>sd_kind := DkWebhook, sd_policy := pol\<rparr>) a q w
     = map_sum id (\<lambda>b. case b of BWebhook h \<Rightarrow> BWebhook (h\<lparr>whd_policy := pol\<rparr>) | _ \<Rightarrow> b)
         (from_server_ddl (d\<lparr>sd_kind := DkWebhook, sd_policy := None\<rparr>) a q w)"
  unfolding from_server_ddl_def Let_def by (simp_all split: option.split)

lemma policy_dropped:
  assumes "k = DkView \<or> k = DkMaterializedView \<or> k = DkWebhook"
  shows "(lower_ddl canon (d\<lparr>sd_kind := k, sd_policy := pol\<rparr>) a q w :: config_error + 'j plan)
    = lower_ddl canon (d\<lparr>sd_kind := k, sd_policy := None\<rparr>) a q w"
proof -
  obtain f where f: "from_server_ddl (d\<lparr>sd_kind := k, sd_policy := pol\<rparr>) a q w
      = map_sum id f (from_server_ddl (d\<lparr>sd_kind := k, sd_policy := None\<rparr>) a q w)"
      "\<And>b. binding_node (f b) = binding_node b" "\<And>b. (binding_config_row canon (f b) :: 'j config_row) = binding_config_row canon b"
  proof -
    have view: "binding_node (case b of BView v \<Rightarrow> BView (v\<lparr>vwd_policy := pol\<rparr>) | _ \<Rightarrow> b) = binding_node b"
        "binding_config_row canon (case b of BView v \<Rightarrow> BView (v\<lparr>vwd_policy := pol\<rparr>) | _ \<Rightarrow> b) = binding_config_row canon b" for b
      by (cases b; simp flip: view_policy_unread)+
    have hook: "binding_node (case b of BWebhook v \<Rightarrow> BWebhook (v\<lparr>whd_policy := pol\<rparr>) | _ \<Rightarrow> b) = binding_node b"
        "binding_config_row canon (case b of BWebhook v \<Rightarrow> BWebhook (v\<lparr>whd_policy := pol\<rparr>) | _ \<Rightarrow> b) = binding_config_row canon b" for b
      by (cases b; simp flip: view_policy_unread)+
    show thesis using assms that from_view_policy view hook by blast
  qed
  have k: "k \<noteq> DkPolicy" using assms by auto
  show ?thesis
  proof (cases "from_server_ddl (d\<lparr>sd_kind := k, sd_policy := None\<rparr>) a q w")
    case (Inr b)
    show ?thesis
      by (cases "config_row_batch (binding_node b) (binding_config_row canon b) :: ddl_error + 'j row_batch")
        (simp_all add: lower_ddl_def f Inr k cong: sum.case_cong)
  qed (auto simp: lower_ddl_def f k)
qed

lemma from_server_ddl_not_policy: "from_server_ddl d a q w = Inr b \<Longrightarrow> sd_kind d \<noteq> DkPolicy"
  by (auto simp: from_server_ddl_def split: if_splits)

section \<open>Properties\<close>

text \<open>C25: \<open>CREATE\<close> is sugar. A declaration that is accepted lowers to the same plan as the \<open>UPSERT\<close> into
  its collection whose literals spell the fields of the declaration, the bodies as any source text that
  parses to them up to source positions; where the declaration and the text stand does not matter. The
  \<open>INSERT\<close> with the same literals is a different plan: it differs in the operation.\<close>

theorem create_upsert_twin:
  fixes canon :: "statement \<Rightarrow> string"
  assumes "from_server_ddl d do_plan as_query where_pred = Inr b"
    and "fst ` set fs = fst ` set (binding_config_row canon b :: 'j config_row)"
    and "\<forall>(c, l)\<in>set fs. spells parse (binding_body b c) (map_of (binding_config_row canon b :: 'j config_row) c) l"
  shows "\<exists>args :: 'j row_batch.
      lower_statement parse canon (StDdl d do_plan as_query where_pred)
        = Inr (Some (server_write_plan (binding_node b) OpUpsert args))
      \<and> lower_statement parse canon (twin_write EvUpsert (binding_node b) fs)
        = Inr (Some (server_write_plan (binding_node b) OpUpsert args))
      \<and> lower_statement parse canon (twin_write EvInsert (binding_node b) fs)
        = Inr (Some (server_write_plan (binding_node b) OpInsert args))
      \<and> server_write_plan (binding_node b) OpInsert args \<noteq> server_write_plan (binding_node b) OpUpsert args"
proof -
  obtain args :: "'j row_batch" where args: "config_row_batch (binding_node b) (binding_config_row canon b) = Inr args"
    using config_row_batch_ok [OF binding_row_columns] by blast
  have "lower_statement parse canon (StDdl d do_plan as_query where_pred)
      = Inr (Some (server_write_plan (binding_node b) OpUpsert args))"
    using assms(1) args from_server_ddl_not_policy [OF assms(1)] by (simp add: lower_ddl_def create_write_op_def)
  moreover have "server_write_plan (binding_node b) OpInsert args \<noteq> server_write_plan (binding_node b) OpUpsert args"
    by (auto simp: write_plan_node dest!: arg_cong [where f = pl_nodes])
  ultimately show ?thesis using lower_twin [OF assms(2,3) args] by force
qed

definition demo_job :: server_ddl where
  "demo_job =
     \<lparr>sd_kind = DkJob, sd_name = ''nightly'', sd_target = [], sd_every = Some ''1d'', sd_on = None,
      sd_policy_rules = [], sd_policy = Some ''ops'', sd_connection = None\<rparr>"

definition demo_body :: "span \<Rightarrow> statement" where
  "demo_body sp = StQuery (Pipeline (SrcPath \<lparr>pe_segments = [server_segment_ast ''log''], pe_as_of = None, pe_span = sp\<rparr>) [])"

theorem create_upsert_twin_witness:
  "\<exists>args :: unit row_batch.
     lower_statement (\<lambda>_. Inr (demo_body \<lparr>sp_start = 0, sp_end = 4\<rparr>) :: unit + statement) (\<lambda>_. ''ast'')
       (StDdl demo_job (Some (demo_body \<lparr>sp_start = 33, sp_end = 37\<rparr>)) None None)
     = Inr (Some (server_write_plan Jobs OpUpsert args))
   \<and> lower_statement (\<lambda>_. Inr (demo_body \<lparr>sp_start = 0, sp_end = 4\<rparr>) :: unit + statement) (\<lambda>_. ''ast'')
       (twin_write EvUpsert Jobs [(''name'', AStr ''nightly''), (''plan'', AStr ''/log''), (''every'', AStr ''1d''),
          (''policy'', AStr ''ops'')])
     = Inr (Some (server_write_plan Jobs OpUpsert args))"
proof -
  let ?b = "BJob \<lparr>jbd_name = ''nightly'', jbd_every = ''1d'', jbd_plan = Some (demo_body span_zero), jbd_policy = Some ''ops''\<rparr>"
  let ?fs = "[(''name'', AStr ''nightly''), (''plan'', AStr ''/log''), (''every'', AStr ''1d''), (''policy'', AStr ''ops'')]"
  have norm: "normalize_spans (demo_body sp) = demo_body span_zero" for sp
    by (simp add: normalize_spans_def demo_body_def path_spans_def)
  have b: "from_server_ddl demo_job (Some (demo_body \<lparr>sp_start = 33, sp_end = 37\<rparr>)) None None = Inr ?b"
    by (simp add: from_server_ddl_def demo_job_def spec_from_statement_def norm Let_def)
      (simp add: demo_body_def)
  have row: "(binding_config_row (\<lambda>_. ''ast'') ?b :: unit config_row) =
      [(''every'', VText ''1d''), (''name'', VText ''nightly''), (''plan'', VText ''ast''), (''policy'', VText ''ops'')]"
    by (simp add: binding_config_row_def row_ops canonical_or_empty_def Let_def)
  have keys: "fst ` set ?fs = fst ` set (binding_config_row (\<lambda>_. ''ast'') ?b :: unit config_row)"
    unfolding row by auto
  have sp: "\<forall>(c, l)\<in>set ?fs. spells (\<lambda>_. Inr (demo_body \<lparr>sp_start = 0, sp_end = 4\<rparr>) :: unit + statement) (binding_body ?b c)
      (map_of (binding_config_row (\<lambda>_. ''ast'') ?b :: unit config_row) c) l"
    unfolding row by (simp add: spells_def norm)
  show ?thesis using create_upsert_twin [OF b keys sp] by auto
qed

text \<open>C26: what the check of declarations misses. A body with a \<open>TRANSFORM\<close> stage is refused in a \<open>CREATE\<close>, so
  that no fire spends model tokens unattended. The same body is accepted as the text of an \<open>INSERT\<close> or
  \<open>UPSERT\<close>, and a transform inside the arm of a \<open>SWITCH\<close> is not seen by the walk. The policy attached to
  a view or a webhook is dropped.\<close>

theorem create_check_gaps:
  fixes canon :: "statement \<Rightarrow> string"
  assumes "parse src = Inr t" and "src \<noteq> []" and "statement_contains_transform t" and "sd_kind d \<noteq> DkPolicy"
    and "verb \<in> {EvInsert, EvUpsert}"
  shows "lower_statement parse canon (StDdl d (Some t) as_query where_pred) = (Inl (CfgDdl TransformInServerBody) :: config_error + 'j plan option)
    \<and> (\<exists>args :: 'j row_batch.
        lower_statement parse canon (twin_write verb Jobs [(''name'', AStr n), (''plan'', AStr src)])
          = Inr (Some (server_write_plan Jobs (write_op_of verb) args))
        \<and> rb_rows args = [\<lparr>row_values = [VText n, VNull, VText (canon (normalize_spans t)), VNull, VNull]\<rparr>])
    \<and> \<not> statement_contains_transform
        (StQuery (Pipeline (SrcPath p) [OSwitch c [SwitchArm label [OTransform tr] w sp] sp']))
    \<and> (k \<in> {DkView, DkMaterializedView, DkWebhook} \<longrightarrow>
        lower_ddl canon (d\<lparr>sd_kind := k, sd_policy := Some pol\<rparr>) do_plan as_query where_pred
          = (lower_ddl canon (d\<lparr>sd_kind := k, sd_policy := None\<rparr>) do_plan as_query where_pred :: config_error + 'j plan))"
proof (intro conjI impI)
  show "lower_statement parse canon (StDdl d (Some t) as_query where_pred) = (Inl (CfgDdl TransformInServerBody) :: config_error + 'j plan option)"
    using assms(3,4) by (simp add: lower_ddl_def from_server_ddl_def)
  let ?row = "set_text ''plan'' (canon (normalize_spans t)) (set_text ''name'' n []) :: 'j config_row"
  have "fst ` set ?row \<subseteq> set (column_names (server_node_schema Jobs))"
    by (simp add: column_names_def column_new_def)
  then obtain args :: "'j row_batch" where args: "config_row_batch Jobs ?row = Inr args"
    using config_row_batch_ok by blast
  have "set_columns parse canon Jobs [(''name'', ELit (AStr n)), (''plan'', ELit (AStr src))] [] = Inr ?row"
    using assms(1,2) by (simp add: normalize_body_column_def is_body_column_def spec_canonical_def spec_from_statement_def row_ops)
  then have "lower_statement parse canon (twin_write verb Jobs [(''name'', AStr n), (''plan'', AStr src)])
      = Inr (Some (server_write_plan Jobs (write_op_of verb) args))"
    using args by (simp add: twin_write_def targets_server_def server_segment_ast_def lower_effect_def lower_body_def
        collect_values_row_def server_from_segment_def Let_def)
  moreover have "rb_rows args = [\<lparr>row_values = [VText n, VNull, VText (canon (normalize_spans t)), VNull, VNull]\<rparr>]"
    using config_row_batch_get [OF args] by (simp add: column_new_def)
  ultimately show "\<exists>args :: 'j row_batch.
      lower_statement parse canon (twin_write verb Jobs [(''name'', AStr n), (''plan'', AStr src)])
        = Inr (Some (server_write_plan Jobs (write_op_of verb) args))
      \<and> rb_rows args = [\<lparr>row_values = [VText n, VNull, VText (canon (normalize_spans t)), VNull, VNull]\<rparr>]"
    by blast
  show "\<not> statement_contains_transform (StQuery (Pipeline (SrcPath p) [OSwitch c [SwitchArm label [OTransform tr] w sp] sp']))"
    by simp
next
  assume "k \<in> {DkView, DkMaterializedView, DkWebhook}"
  then show "lower_ddl canon (d\<lparr>sd_kind := k, sd_policy := Some pol\<rparr>) do_plan as_query where_pred
      = (lower_ddl canon (d\<lparr>sd_kind := k, sd_policy := None\<rparr>) do_plan as_query where_pred :: config_error + 'j plan)"
    by (intro policy_dropped) simp
qed

theorem create_check_gaps_witness:
  "lower_statement (\<lambda>_. Inr (StQuery (Pipeline (SrcName ''x'') [OTransform \<lparr>tr_name = ''m'', tr_span = span_zero\<rparr>])) :: unit + statement)
     (\<lambda>_. ''ast'') (StDdl demo_job (Some (StQuery (Pipeline (SrcName ''x'') [OTransform \<lparr>tr_name = ''m'', tr_span = span_zero\<rparr>]))) None None)
   = (Inl (CfgDdl TransformInServerBody) :: config_error + unit plan option)"
proof -
  let ?t = "StQuery (Pipeline (SrcName ''x'') [OTransform \<lparr>tr_name = ''m'', tr_span = span_zero\<rparr>])"
  have h: "(Inr ?t :: unit + statement) = Inr ?t" "''src'' \<noteq> []" "statement_contains_transform ?t"
      "sd_kind demo_job \<noteq> DkPolicy" "EvInsert \<in> {EvInsert, EvUpsert}"
    by (simp_all add: demo_job_def)
  show ?thesis
    by (rule conjunct1 [OF create_check_gaps [where parse = "\<lambda>_. Inr ?t :: unit + statement", OF h]])
qed

end
