(* ===== verification/Server_State.thy ===== *)
theory Server_State
  imports Btree_Util Policy_Text
begin

text \<open>
  The registry of a server, \<open>crates/server/src/state.rs\<close>: seven collections of definitions by name,
  and the bounded histories of job and agent runs. A \<open>StatementSource\<close> is its text. The record of
  policies, \<open>policy_def\<close>, is in \<open>Policy_Text\<close>.
\<close>

section \<open>Definitions of the collections\<close>

record endpoint_def =
  ed_name :: string
  ed_method :: string
  ed_route :: string
  ed_query :: string
  ed_policy :: "string option"

record trigger_def =
  td_name :: string
  td_on :: string
  td_predicate :: string
  td_plan :: string
  td_policy :: "string option"

record job_def =
  jd_name :: string
  jd_every :: string
  jd_plan :: string
  jd_last_run :: "i64 option"
  jd_policy :: "string option"

record job_run_record =
  jr_scheduled_at :: i64
  jr_outcome :: string
  jr_detail :: string
  jr_affected :: i64
  jr_principal :: string

record view_def =
  vd_name :: string
  vd_query :: string
  vd_materialized :: bool
  vd_last_run :: "i64 option"
  vd_cache_json :: "string option"

record webhook_def =
  wd_name :: string
  wd_route :: string
  wd_secret :: string

record agent_def =
  ad_name :: string
  ad_every :: string
  ad_last_run :: "i64 option"
  ad_plan :: string
  ad_policy :: "string option"

section \<open>The state\<close>

record server_state =
  ss_endpoints :: "(string, endpoint_def) btree"
  ss_triggers :: "(string, trigger_def) btree"
  ss_jobs :: "(string, job_def) btree"
  ss_views :: "(string, view_def) btree"
  ss_policies :: "(string, policy_def) btree"
  ss_webhooks :: "(string, webhook_def) btree"
  ss_agents :: "(string, agent_def) btree"
  ss_agent_runs :: "(string, job_run_record list) btree"
  ss_job_runs :: "(string, job_run_record list) btree"

definition server_state_new :: server_state where
  "server_state_new =
     \<lparr>ss_endpoints = [], ss_triggers = [], ss_jobs = [], ss_views = [], ss_policies = [], ss_webhooks = [],
      ss_agents = [], ss_agent_runs = [], ss_job_runs = []\<rparr>"

definition row_count :: "server_state \<Rightarrow> nat" where
  "row_count st =
     length (ss_endpoints st) + length (ss_triggers st) + length (ss_jobs st) + length (ss_views st)
       + length (ss_policies st) + length (ss_webhooks st) + length (ss_agents st)"

definition state_summary :: "server_state \<Rightarrow> string" where
  "state_summary st =
     ''endpoints='' @ show_nat (length (ss_endpoints st)) @ '' triggers='' @ show_nat (length (ss_triggers st))
       @ '' jobs='' @ show_nat (length (ss_jobs st)) @ '' views='' @ show_nat (length (ss_views st))
       @ '' policies='' @ show_nat (length (ss_policies st)) @ '' webhooks='' @ show_nat (length (ss_webhooks st))
       @ '' agents='' @ show_nat (length (ss_agents st))"

definition job_run_history_cap :: nat where
  "job_run_history_cap = 50"

text \<open>A run appended to its history, whose oldest records go once it is longer than the cap.\<close>

definition push_run :: "string \<Rightarrow> job_run_record \<Rightarrow> (string, job_run_record list) btree
    \<Rightarrow> (string, job_run_record list) btree" where
  "push_run n r m =
     (let runs = (case map_of m n of Some rs \<Rightarrow> rs | None \<Rightarrow> []) @ [r];
          runs' = (if length runs > job_run_history_cap then drop (length runs - job_run_history_cap) runs else runs)
      in bt_insert n runs' m)"

definition record_job_run :: "string \<Rightarrow> job_run_record \<Rightarrow> server_state \<Rightarrow> server_state" where
  "record_job_run job r st = st\<lparr>ss_job_runs := push_run job r (ss_job_runs st)\<rparr>"

definition record_agent_run :: "string \<Rightarrow> job_run_record \<Rightarrow> server_state \<Rightarrow> server_state" where
  "record_agent_run agent r st = st\<lparr>ss_agent_runs := push_run agent r (ss_agent_runs st)\<rparr>"

section \<open>Well-formed states\<close>

text \<open>Every collection is keyed by the name its definitions carry, which is not empty; a history is not
  longer than the cap.\<close>

definition keyed :: "('d \<Rightarrow> string) \<Rightarrow> (string, 'd) btree \<Rightarrow> bool" where
  "keyed nm m \<longleftrightarrow> bt_sorted m \<and> (\<forall>(k, d)\<in>set m. nm d = k \<and> k \<noteq> [])"

definition histories_ok :: "(string, job_run_record list) btree \<Rightarrow> bool" where
  "histories_ok m \<longleftrightarrow> bt_sorted m \<and> (\<forall>(k, rs)\<in>set m. length rs \<le> job_run_history_cap)"

definition server_ok :: "server_state \<Rightarrow> bool" where
  "server_ok st \<longleftrightarrow>
     keyed ed_name (ss_endpoints st) \<and> keyed td_name (ss_triggers st) \<and> keyed jd_name (ss_jobs st)
     \<and> keyed vd_name (ss_views st) \<and> keyed pd_name (ss_policies st) \<and> keyed wd_name (ss_webhooks st)
     \<and> keyed ad_name (ss_agents st) \<and> histories_ok (ss_agent_runs st) \<and> histories_ok (ss_job_runs st)"

lemma keyed_insert: "keyed nm m \<Longrightarrow> nm d = k \<Longrightarrow> k \<noteq> [] \<Longrightarrow> keyed nm (bt_insert k d m)"
  unfolding keyed_def by (fastforce simp: bt_sorted_insert dest!: bt_set_insert)

lemma keyed_remove: "keyed nm m \<Longrightarrow> keyed nm (bt_remove k m)"
  unfolding keyed_def by (auto simp: bt_sorted_remove bt_set_remove)

lemma histories_remove: "histories_ok m \<Longrightarrow> histories_ok (bt_remove k m)"
  unfolding histories_ok_def by (auto simp: bt_sorted_remove bt_set_remove)

lemma histories_push: "histories_ok m \<Longrightarrow> histories_ok (push_run n r m)"
  unfolding histories_ok_def push_run_def Let_def
  by (auto simp: bt_sorted_insert dest!: bt_set_insert split: if_splits)

lemma server_ok_new: "server_ok server_state_new"
  by (simp add: server_ok_def server_state_new_def keyed_def histories_ok_def)

lemma server_ok_runs: "server_ok st \<Longrightarrow> server_ok (record_job_run n r st) \<and> server_ok (record_agent_run n r st)"
  by (simp add: server_ok_def record_job_run_def record_agent_run_def histories_push)

end
