(* ===== verification/Server_Driver.thy ===== *)
theory Server_Driver
  imports Server_State Engine_Eval Plan_Commit
begin

text \<open>
  The \<open>/server\<close> driver, \<open>crates/server/src/driver.rs\<close>: which node a path names, the verbs a path
  takes, and \<open>apply_server_write\<close>, the one way the registry changes. A config row travels as the
  arguments of the effect node, read by column name.
\<close>

section \<open>Paths and verbs\<close>

definition server_rest :: "string \<Rightarrow> string option" where
  "server_rest path =
     (case strip_prefix ''/server/'' path of Some r \<Rightarrow> Some r | None \<Rightarrow> strip_prefix ''server/'' path)"

definition node_for_path :: "string \<Rightarrow> server_node option" where
  "node_for_path path =
     (case server_rest path of None \<Rightarrow> None | Some rest \<Rightarrow> server_from_segment (hd (split_char CHR ''/'' rest)))"

definition runs_path_of :: "string \<Rightarrow> string \<Rightarrow> string option" where
  "runs_path_of collection path =
     (case server_rest path of
        None \<Rightarrow> None
      | Some rest \<Rightarrow>
          (case split_char CHR ''/'' rest of
             [c, n, r] \<Rightarrow> if c = collection \<and> n \<noteq> [] \<and> r = ''runs'' then Some n else None
           | _ \<Rightarrow> None))"

definition job_runs_path_job :: "string \<Rightarrow> string option" where
  "job_runs_path_job = runs_path_of ''jobs''"

definition agent_runs_path_agent :: "string \<Rightarrow> string option" where
  "agent_runs_path_agent = runs_path_of ''agents''"

record capabilities =
  cp_select :: bool
  cp_insert :: bool
  cp_upsert :: bool
  cp_update :: bool
  cp_remove :: bool
  cp_ls :: bool
  cp_cp :: bool
  cp_mv :: bool
  cp_rm :: bool

definition capabilities_none :: capabilities where
  "capabilities_none =
     \<lparr>cp_select = False, cp_insert = False, cp_upsert = False, cp_update = False, cp_remove = False,
      cp_ls = False, cp_cp = False, cp_mv = False, cp_rm = False\<rparr>"

definition server_node_capabilities :: capabilities where
  "server_node_capabilities =
     capabilities_none\<lparr>cp_select := True, cp_insert := True, cp_upsert := True, cp_update := True, cp_remove := True\<rparr>"

definition server_capabilities :: "string \<Rightarrow> capabilities" where
  "server_capabilities path =
     (if job_runs_path_job path \<noteq> None \<or> agent_runs_path_agent path \<noteq> None
      then capabilities_none\<lparr>cp_select := True\<rparr>
      else case node_for_path path of Some _ \<Rightarrow> server_node_capabilities | None \<Rightarrow> capabilities_none)"

section \<open>Reading a config row\<close>

definition config_cell :: "'j row_batch \<Rightarrow> string \<Rightarrow> 'j val option" where
  "config_cell args col =
     (case col_position (rb_schema args) col of
        None \<Rightarrow> None
      | Some i \<Rightarrow> (case rb_rows args of [] \<Rightarrow> None | r # _ \<Rightarrow> value_at r i))"

definition row_name :: "'j row_batch \<Rightarrow> string option" where
  "row_name args = (case config_cell args ''name'' of Some (VText s) \<Rightarrow> Some s | _ \<Rightarrow> None)"

definition cell_text :: "'j row_batch \<Rightarrow> string \<Rightarrow> string" where
  "cell_text args col = (case config_cell args col of Some (VText s) \<Rightarrow> s | _ \<Rightarrow> [])"

definition cell_policy :: "'j row_batch \<Rightarrow> string option" where
  "cell_policy args = (case config_cell args ''policy'' of Some (VText s) \<Rightarrow> if s \<noteq> [] then Some s else None | _ \<Rightarrow> None)"

definition cell_last_run :: "'j row_batch \<Rightarrow> i64 option" where
  "cell_last_run args =
     (case config_cell args ''last_run'' of Some (VTimestamp t) \<Rightarrow> Some t | Some (VInt t) \<Rightarrow> Some t | _ \<Rightarrow> None)"

definition cell_allow :: "'j row_batch \<Rightarrow> string list" where
  "cell_allow args =
     (case config_cell args ''allow'' of
        Some (VArray items) \<Rightarrow> List.map_filter (\<lambda>v. case v of VText s \<Rightarrow> Some s | _ \<Rightarrow> None) items
      | _ \<Rightarrow> [])"

definition kept_last_run :: "'j row_batch \<Rightarrow> i64 option \<Rightarrow> i64 option" where
  "kept_last_run args old = (case cell_last_run args of Some t \<Rightarrow> Some t | None \<Rightarrow> old)"

section \<open>Writing the registry\<close>

fun collection_contains :: "server_state \<Rightarrow> server_node \<Rightarrow> string \<Rightarrow> bool" where
  "collection_contains st Endpoints n = (map_of (ss_endpoints st) n \<noteq> None)"
| "collection_contains st Triggers n = (map_of (ss_triggers st) n \<noteq> None)"
| "collection_contains st Jobs n = (map_of (ss_jobs st) n \<noteq> None)"
| "collection_contains st Views n = (map_of (ss_views st) n \<noteq> None)"
| "collection_contains st Policies n = (map_of (ss_policies st) n \<noteq> None)"
| "collection_contains st Webhooks n = (map_of (ss_webhooks st) n \<noteq> None)"
| "collection_contains st Agents n = (map_of (ss_agents st) n \<noteq> None)"

fun remove_row :: "server_state \<Rightarrow> server_node \<Rightarrow> string \<Rightarrow> server_state" where
  "remove_row st Endpoints n = st\<lparr>ss_endpoints := bt_remove n (ss_endpoints st)\<rparr>"
| "remove_row st Triggers n = st\<lparr>ss_triggers := bt_remove n (ss_triggers st)\<rparr>"
| "remove_row st Jobs n = st\<lparr>ss_jobs := bt_remove n (ss_jobs st), ss_job_runs := bt_remove n (ss_job_runs st)\<rparr>"
| "remove_row st Views n = st\<lparr>ss_views := bt_remove n (ss_views st)\<rparr>"
| "remove_row st Policies n = st\<lparr>ss_policies := bt_remove n (ss_policies st)\<rparr>"
| "remove_row st Webhooks n = st\<lparr>ss_webhooks := bt_remove n (ss_webhooks st)\<rparr>"
| "remove_row st Agents n = st\<lparr>ss_agents := bt_remove n (ss_agents st), ss_agent_runs := bt_remove n (ss_agent_runs st)\<rparr>"

fun put_row :: "server_state \<Rightarrow> server_node \<Rightarrow> string \<Rightarrow> 'j row_batch \<Rightarrow> server_state" where
  "put_row st Endpoints n args =
     st\<lparr>ss_endpoints := bt_insert n
         \<lparr>ed_name = n, ed_method = cell_text args ''method'', ed_route = cell_text args ''route'',
          ed_query = cell_text args ''query'', ed_policy = cell_policy args\<rparr> (ss_endpoints st)\<rparr>"
| "put_row st Triggers n args =
     st\<lparr>ss_triggers := bt_insert n
         \<lparr>td_name = n, td_on = cell_text args ''on'', td_predicate = cell_text args ''predicate'',
          td_plan = cell_text args ''plan'', td_policy = cell_policy args\<rparr> (ss_triggers st)\<rparr>"
| "put_row st Jobs n args =
     st\<lparr>ss_jobs := bt_insert n
         \<lparr>jd_name = n, jd_every = cell_text args ''every'', jd_plan = cell_text args ''plan'',
          jd_last_run = kept_last_run args (Option.bind (map_of (ss_jobs st) n) jd_last_run),
          jd_policy = cell_policy args\<rparr> (ss_jobs st)\<rparr>"
| "put_row st Views n args =
     st\<lparr>ss_views := bt_insert n
         \<lparr>vd_name = n, vd_query = cell_text args ''query'',
          vd_materialized = (case config_cell args ''materialized'' of Some (VBool b) \<Rightarrow> b | _ \<Rightarrow> False),
          vd_last_run = kept_last_run args (Option.bind (map_of (ss_views st) n) vd_last_run),
          vd_cache_json = Option.bind (map_of (ss_views st) n) vd_cache_json\<rparr> (ss_views st)\<rparr>"
| "put_row st Policies n args =
     st\<lparr>ss_policies := bt_insert n
         \<lparr>pd_name = n, pd_handler = cell_text args ''handler'', pd_allow = cell_allow args\<rparr> (ss_policies st)\<rparr>"
| "put_row st Webhooks n args =
     st\<lparr>ss_webhooks := bt_insert n
         \<lparr>wd_name = n, wd_route = cell_text args ''route'', wd_secret = cell_text args ''secret''\<rparr> (ss_webhooks st)\<rparr>"
| "put_row st Agents n args =
     st\<lparr>ss_agents := bt_insert n
         \<lparr>ad_name = n, ad_every = cell_text args ''every'',
          ad_last_run = kept_last_run args (Option.bind (map_of (ss_agents st) n) ad_last_run),
          ad_plan = cell_text args ''plan'', ad_policy = cell_policy args\<rparr> (ss_agents st)\<rparr>"

definition insert_row :: "server_state \<Rightarrow> server_node \<Rightarrow> 'j row_batch \<Rightarrow> string + server_state" where
  "insert_row st node args =
     (case row_name args of
        Some n \<Rightarrow> if n \<noteq> [] then Inr (put_row st node n args)
                  else Inl (''/server/'' @ server_segment node @ '' row requires a `name`'')
      | None \<Rightarrow> Inl (''/server/'' @ server_segment node @ '' row requires a `name`''))"

record config_change =
  ch_node :: server_node
  ch_op :: server_write_op
  ch_name :: "string option"
  ch_existed_before :: bool
  ch_exists_after :: bool

definition contains_opt :: "server_state \<Rightarrow> server_node \<Rightarrow> string option \<Rightarrow> bool" where
  "contains_opt st node n = (case n of Some k \<Rightarrow> collection_contains st node k | None \<Rightarrow> False)"

definition apply_server_write ::
  "server_state \<Rightarrow> server_node \<Rightarrow> server_write_op \<Rightarrow> 'j row_batch \<Rightarrow> string + (server_state \<times> config_change)" where
  "apply_server_write st node op args =
     (let n = row_name args; existed = contains_opt st node n; shown = (case n of Some k \<Rightarrow> k | None \<Rightarrow> []) in
      case (case op of
              OpRemove \<Rightarrow> (case n of Some k \<Rightarrow> Inr (remove_row st node k) | None \<Rightarrow> Inl ''REMOVE /server requires a `name`'')
            | _ \<Rightarrow>
                if op = OpInsert \<and> existed
                then Inl (''INSERT into /server/'' @ server_segment node @ '' would duplicate `'' @ shown @ ''` (use UPSERT)'')
                else if op = OpUpdate \<and> \<not> existed
                then Inl (''UPDATE /server/'' @ server_segment node @ '' has no row `'' @ shown @ ''`'')
                else insert_row st node args) of
        Inl e \<Rightarrow> Inl e
      | Inr st' \<Rightarrow>
          Inr (st', \<lparr>ch_node = node, ch_op = op, ch_name = n, ch_existed_before = existed,
                     ch_exists_after = contains_opt st' node n\<rparr>))"

section \<open>The registry is well-formed\<close>

lemma server_ok_remove: "server_ok st \<Longrightarrow> server_ok (remove_row st node n)"
  by (cases node) (simp_all add: server_ok_def keyed_remove histories_remove)

lemma server_ok_put: "server_ok st \<Longrightarrow> n \<noteq> [] \<Longrightarrow> server_ok (put_row st node n args)"
  by (cases node) (simp_all add: server_ok_def keyed_insert)

lemma apply_server_write_cases:
  assumes "apply_server_write st node op args = Inr (st', ch)"
  obtains (remove) n where "op = OpRemove" "row_name args = Some n" "st' = remove_row st node n"
  | (put) n where "op \<noteq> OpRemove" "row_name args = Some n" "n \<noteq> []" "st' = put_row st node n args"
      "op = OpInsert \<longrightarrow> \<not> collection_contains st node n" "op = OpUpdate \<longrightarrow> collection_contains st node n"
  using assms
  by (auto simp: apply_server_write_def Let_def insert_row_def contains_opt_def
      split: server_write_op.splits option.splits sum.splits if_splits)

lemma server_ok_write: "apply_server_write st node op args = Inr (st', ch) \<Longrightarrow> server_ok st \<Longrightarrow> server_ok st'"
  by (erule apply_server_write_cases) (auto simp: server_ok_remove server_ok_put)

end
