(* ===== verification/Server_Replay.thy ===== *)
theory Server_Replay
  imports Server_Driver
begin

text \<open>
  The registry as an abstract table of rows by collection and name, with the run histories beside it:
  \<open>apply_server_write\<close> refines one update of this table. Replaying a list of writes, which is what a
  boot does, then converges: what \<open>UPSERT\<close>s and \<open>REMOVE\<close>s leave is a fixed point of the list.
\<close>

section \<open>The abstract registry\<close>

datatype server_row =
    SrEndpoint endpoint_def | SrTrigger trigger_def | SrJob job_def | SrView view_def
  | SrPolicy policy_def | SrWebhook webhook_def | SrAgent agent_def

record registry =
  rg_rows :: "server_node \<Rightarrow> string \<Rightarrow> server_row option"
  rg_runs :: "server_node \<Rightarrow> string \<Rightarrow> job_run_record list option"

fun server_table :: "server_state \<Rightarrow> server_node \<Rightarrow> string \<Rightarrow> server_row option" where
  "server_table st Endpoints n = map_option SrEndpoint (map_of (ss_endpoints st) n)"
| "server_table st Triggers n = map_option SrTrigger (map_of (ss_triggers st) n)"
| "server_table st Jobs n = map_option SrJob (map_of (ss_jobs st) n)"
| "server_table st Views n = map_option SrView (map_of (ss_views st) n)"
| "server_table st Policies n = map_option SrPolicy (map_of (ss_policies st) n)"
| "server_table st Webhooks n = map_option SrWebhook (map_of (ss_webhooks st) n)"
| "server_table st Agents n = map_option SrAgent (map_of (ss_agents st) n)"

definition server_runs :: "server_state \<Rightarrow> server_node \<Rightarrow> string \<Rightarrow> job_run_record list option" where
  "server_runs st node n =
     (if node = Jobs then map_of (ss_job_runs st) n
      else if node = Agents then map_of (ss_agent_runs st) n else None)"

definition registry_of :: "server_state \<Rightarrow> registry" where
  "registry_of st = \<lparr>rg_rows = server_table st, rg_runs = server_runs st\<rparr>"

text \<open>The two attributes a write may keep of the row it replaces.\<close>

fun row_last_run :: "server_row \<Rightarrow> i64 option" where
  "row_last_run (SrJob d) = jd_last_run d"
| "row_last_run (SrView d) = vd_last_run d"
| "row_last_run (SrAgent d) = ad_last_run d"
| "row_last_run _ = None"

fun row_cache :: "server_row \<Rightarrow> string option" where
  "row_cache (SrView d) = vd_cache_json d"
| "row_cache _ = None"

fun with_kept :: "i64 option \<Rightarrow> string option \<Rightarrow> server_row \<Rightarrow> server_row" where
  "with_kept t c (SrJob d) = SrJob (d\<lparr>jd_last_run := t\<rparr>)"
| "with_kept t c (SrView d) = SrView (d\<lparr>vd_last_run := t, vd_cache_json := c\<rparr>)"
| "with_kept t c (SrAgent d) = SrAgent (d\<lparr>ad_last_run := t\<rparr>)"
| "with_kept t c r = r"

text \<open>The row the arguments alone describe.\<close>

fun written_row :: "server_node \<Rightarrow> string \<Rightarrow> 'j row_batch \<Rightarrow> server_row" where
  "written_row Endpoints n args =
     SrEndpoint \<lparr>ed_name = n, ed_method = cell_text args ''method'', ed_route = cell_text args ''route'',
       ed_query = cell_text args ''query'', ed_policy = cell_policy args\<rparr>"
| "written_row Triggers n args =
     SrTrigger \<lparr>td_name = n, td_on = cell_text args ''on'', td_predicate = cell_text args ''predicate'',
       td_plan = cell_text args ''plan'', td_policy = cell_policy args\<rparr>"
| "written_row Jobs n args =
     SrJob \<lparr>jd_name = n, jd_every = cell_text args ''every'', jd_plan = cell_text args ''plan'',
       jd_last_run = None, jd_policy = cell_policy args\<rparr>"
| "written_row Views n args =
     SrView \<lparr>vd_name = n, vd_query = cell_text args ''query'',
       vd_materialized = (case config_cell args ''materialized'' of Some (VBool b) \<Rightarrow> b | _ \<Rightarrow> False),
       vd_last_run = None, vd_cache_json = None\<rparr>"
| "written_row Policies n args =
     SrPolicy \<lparr>pd_name = n, pd_handler = cell_text args ''handler'', pd_allow = cell_allow args\<rparr>"
| "written_row Webhooks n args =
     SrWebhook \<lparr>wd_name = n, wd_route = cell_text args ''route'', wd_secret = cell_text args ''secret''\<rparr>"
| "written_row Agents n args =
     SrAgent \<lparr>ad_name = n, ad_every = cell_text args ''every'', ad_last_run = None,
       ad_plan = cell_text args ''plan'', ad_policy = cell_policy args\<rparr>"

definition replaced_row :: "server_node \<Rightarrow> string \<Rightarrow> 'j row_batch \<Rightarrow> server_row option \<Rightarrow> server_row" where
  "replaced_row node n args old =
     with_kept (kept_last_run args (Option.bind old row_last_run)) (Option.bind old row_cache) (written_row node n args)"

definition registry_put :: "registry \<Rightarrow> server_node \<Rightarrow> string \<Rightarrow> 'j row_batch \<Rightarrow> registry" where
  "registry_put rg node n args =
     rg\<lparr>rg_rows := (rg_rows rg)(node := (rg_rows rg node)(n \<mapsto> replaced_row node n args (rg_rows rg node n)))\<rparr>"

definition registry_remove :: "registry \<Rightarrow> server_node \<Rightarrow> string \<Rightarrow> registry" where
  "registry_remove rg node n =
     \<lparr>rg_rows = (rg_rows rg)(node := (rg_rows rg node)(n := None)),
      rg_runs = (rg_runs rg)(node := (rg_runs rg node)(n := None))\<rparr>"

text \<open>What a write promises: which error, or which single row changes and what is reported.\<close>

definition registry_write ::
  "registry \<Rightarrow> server_node \<Rightarrow> server_write_op \<Rightarrow> 'j row_batch \<Rightarrow> string + (registry \<times> config_change)" where
  "registry_write rg node op args =
     (case row_name args of
        None \<Rightarrow>
          Inl (if op = OpRemove then ''REMOVE /server requires a `name`''
               else if op = OpUpdate then ''UPDATE /server/'' @ server_segment node @ '' has no row ``''
               else ''/server/'' @ server_segment node @ '' row requires a `name`'')
      | Some n \<Rightarrow>
          (let existed = rg_rows rg node n \<noteq> None;
               change = (\<lambda>after. \<lparr>ch_node = node, ch_op = op, ch_name = Some n, ch_existed_before = existed,
                                  ch_exists_after = after\<rparr>)
           in
           if op = OpRemove then Inr (registry_remove rg node n, change False)
           else if op = OpInsert \<and> existed
           then Inl (''INSERT into /server/'' @ server_segment node @ '' would duplicate `'' @ n @ ''` (use UPSERT)'')
           else if op = OpUpdate \<and> \<not> existed
           then Inl (''UPDATE /server/'' @ server_segment node @ '' has no row `'' @ n @ ''`'')
           else if n = [] then Inl (''/server/'' @ server_segment node @ '' row requires a `name`'')
           else Inr (registry_put rg node n args, change True)))"

section \<open>The writes refine it\<close>

lemma contains_table: "collection_contains st node n \<longleftrightarrow> server_table st node n \<noteq> None"
  by (cases node) simp_all

lemma table_remove: "server_table (remove_row st node n) = (server_table st)(node := (server_table st node)(n := None))"
proof (intro ext)
  fix node' n'
  show "server_table (remove_row st node n) node' n' = ((server_table st)(node := (server_table st node)(n := None))) node' n'"
    by (cases node; cases node') (simp_all add: bt_get_remove)
qed

lemma runs_remove: "server_runs (remove_row st node n) = (server_runs st)(node := (server_runs st node)(n := None))"
  by (intro ext, cases node) (auto simp: server_runs_def bt_get_remove)

lemma put_row_table: "server_table (put_row st node n args) node n = Some (replaced_row node n args (server_table st node n))"
  by (cases node) (simp_all add: bt_get_insert replaced_row_def Option.bind_map_option comp_def)

lemma table_put:
  "server_table (put_row st node n args)
     = (server_table st)(node := (server_table st node)(n \<mapsto> replaced_row node n args (server_table st node n)))"
proof (intro ext)
  fix node' n'
  have "server_table (put_row st node n args) node' n' = server_table st node' n'" if "node' \<noteq> node \<or> n' \<noteq> n"
    using that by (cases node; cases node') (simp_all add: bt_get_insert)
  then show "server_table (put_row st node n args) node' n'
      = ((server_table st)(node := (server_table st node)(n \<mapsto> replaced_row node n args (server_table st node n)))) node' n'"
    by (auto simp: put_row_table)
qed

lemma runs_put: "server_runs (put_row st node n args) = server_runs st"
  by (intro ext, cases node) (auto simp: server_runs_def)

lemma registry_of_put: "registry_of (put_row st node n args) = registry_put (registry_of st) node n args"
  by (simp add: registry_of_def registry_put_def table_put runs_put)

lemma registry_of_remove: "registry_of (remove_row st node n) = registry_remove (registry_of st) node n"
  by (simp add: registry_of_def registry_remove_def table_remove runs_remove)

section \<open>Replaying writes\<close>

type_synonym 'j server_write = "server_node \<times> server_write_op \<times> 'j row_batch"

fun server_replay :: "server_state \<Rightarrow> 'j server_write list \<Rightarrow> string + server_state" where
  "server_replay st [] = Inr st"
| "server_replay st ((node, op, args) # ws) =
     (case apply_server_write st node op args of Inl e \<Rightarrow> Inl e | Inr (st', _) \<Rightarrow> server_replay st' ws)"

text \<open>The writes of a declarative document: \<open>UPSERT\<close> of a named row, or \<open>REMOVE\<close> of one.\<close>

fun declarative :: "'j server_write \<Rightarrow> bool" where
  "declarative (node, op, args) \<longleftrightarrow>
     (op = OpUpsert \<or> op = OpRemove) \<and> (case row_name args of Some n \<Rightarrow> n \<noteq> [] | None \<Rightarrow> False)"

definition write_key :: "'j server_write \<Rightarrow> string" where
  "write_key w = (case row_name (snd (snd w)) of Some n \<Rightarrow> n | None \<Rightarrow> [])"

text \<open>What one write does to one row of the table.\<close>

definition row_step :: "server_node \<Rightarrow> string \<Rightarrow> 'j server_write \<Rightarrow> server_row option \<Rightarrow> server_row option" where
  "row_step node n w old =
     (case w of (node', op, args) \<Rightarrow>
        if node' = node \<and> write_key w = n
        then (if op = OpRemove then None else Some (replaced_row node n args old)) else old)"

definition runs_step :: "server_node \<Rightarrow> string \<Rightarrow> 'j server_write
    \<Rightarrow> job_run_record list option \<Rightarrow> job_run_record list option" where
  "runs_step node n w old =
     (case w of (node', op, args) \<Rightarrow> if node' = node \<and> write_key w = n \<and> op = OpRemove then None else old)"

lemma declarative_write:
  assumes "declarative w" and "w = (node, op, args)"
  obtains st' ch where "apply_server_write st node op args = Inr (st', ch)"
    "\<And>node' n. server_table st' node' n = row_step node' n w (server_table st node' n)"
    "\<And>node' n. server_runs st' node' n = runs_step node' n w (server_runs st node' n)"
proof -
  obtain n where n: "row_name args = Some n" "n \<noteq> []" using assms by (auto split: option.splits)
  have key: "write_key w = n" using assms(2) n by (simp add: write_key_def)
  note key' = key [unfolded assms(2)]
  consider "op = OpRemove" | "op = OpUpsert" using assms by auto
  then show thesis
  proof cases
    case 1
    show thesis
      by (rule that [of "remove_row st node n"]) (auto simp: apply_server_write_def Let_def n 1 assms(2) key' [unfolded 1]
          table_remove runs_remove row_step_def runs_step_def)
  next
    case 2
    show thesis
      by (rule that [of "put_row st node n args"]) (auto simp: apply_server_write_def insert_row_def Let_def n 2 assms(2) key' [unfolded 2]
          table_put runs_put row_step_def runs_step_def)
  qed
qed

lemma declarative_replay:
  assumes "\<forall>w\<in>set ws. declarative w" and "server_ok st"
  shows "\<exists>st'. server_replay st ws = Inr st' \<and> server_ok st'
    \<and> (\<forall>node n. server_table st' node n = fold (row_step node n) ws (server_table st node n)
               \<and> server_runs st' node n = fold (runs_step node n) ws (server_runs st node n))"
  using assms
proof (induction ws arbitrary: st)
  case (Cons w ws)
  obtain node op args where w: "w = (node, op, args)" by (cases w)
  have "declarative w" using Cons.prems(1) by simp
  then obtain st' ch where st': "apply_server_write st node op args = Inr (st', ch)"
    "\<And>node' n. server_table st' node' n = row_step node' n w (server_table st node' n)"
    "\<And>node' n. server_runs st' node' n = runs_step node' n w (server_runs st node' n)"
    using w by (rule declarative_write [where st = st]) blast
  from Cons.IH [of st'] server_ok_write [OF st'(1)] Cons.prems show ?case
    by (simp add: w st')
qed simp

section \<open>A list of row steps is idempotent\<close>

fun row_kind :: "server_row \<Rightarrow> server_node" where
  "row_kind (SrEndpoint _) = Endpoints"
| "row_kind (SrTrigger _) = Triggers"
| "row_kind (SrJob _) = Jobs"
| "row_kind (SrView _) = Views"
| "row_kind (SrPolicy _) = Policies"
| "row_kind (SrWebhook _) = Webhooks"
| "row_kind (SrAgent _) = Agents"

lemma kind_written [simp]: "row_kind (written_row node n args) = node"
  by (cases node) simp_all

lemma kept_again:
  "row_kind r = row_kind r' \<Longrightarrow> with_kept (row_last_run (with_kept t c r')) c' r = with_kept t c' r"
  "row_kind r = row_kind r' \<Longrightarrow> with_kept t' (row_cache (with_kept t c r')) r = with_kept t' c r"
  by (cases r; cases r'; simp)+

text \<open>The normal forms: the row stays, goes, or is replaced by a row whose kept attributes are given or
  taken over.\<close>

datatype row_effect = KeepRow | DropRow | PutRow server_row "i64 option option" "string option option"

fun run_effect :: "row_effect \<Rightarrow> server_row option \<Rightarrow> server_row option" where
  "run_effect KeepRow x = x"
| "run_effect DropRow x = None"
| "run_effect (PutRow r t c) x =
     Some (with_kept (case t of Some u \<Rightarrow> u | None \<Rightarrow> Option.bind x row_last_run)
                     (case c of Some u \<Rightarrow> u | None \<Rightarrow> Option.bind x row_cache) r)"

fun effect_of_kind :: "server_node \<Rightarrow> row_effect \<Rightarrow> bool" where
  "effect_of_kind node (PutRow r _ _) = (row_kind r = node)"
| "effect_of_kind node _ = True"

lemma step_effect: "\<exists>e. effect_of_kind node e \<and> row_step node n w = run_effect e"
proof -
  obtain node' op args where w: "w = (node', op, args)" by (cases w)
  consider "\<not> (node' = node \<and> write_key w = n)" | "node' = node \<and> write_key w = n" "op = OpRemove"
    | "node' = node \<and> write_key w = n" "op \<noteq> OpRemove" by blast
  then show ?thesis
  proof cases
    case 1
    then show ?thesis by (intro exI [of _ KeepRow]) (auto simp: row_step_def w)
  next
    case 2
    then show ?thesis by (intro exI [of _ DropRow]) (auto simp: row_step_def w)
  next
    case 3
    then show ?thesis
      by (intro exI [of _ "PutRow (written_row node n args) (map_option Some (cell_last_run args)) None"])
        (auto simp: row_step_def w replaced_row_def kept_last_run_def split: option.split)
  qed
qed

lemma row_effect_comp:
  assumes "effect_of_kind node e1" "effect_of_kind node e2"
  shows "\<exists>e. effect_of_kind node e \<and> (\<forall>x. run_effect e2 (run_effect e1 x) = run_effect e x)"
proof (cases e2)
  case KeepRow
  with assms show ?thesis by auto
next
  case DropRow
  with assms show ?thesis by (intro exI [of _ DropRow]) auto
next
  case (PutRow r2 t2 c2)
  show ?thesis
  proof (cases e1)
    case KeepRow
    with assms show ?thesis by (intro exI [of _ e2]) auto
  next
    case DropRow
    with assms PutRow show ?thesis
      by (intro exI [of _ "PutRow r2 (Some (case t2 of Some u \<Rightarrow> u | None \<Rightarrow> None)) (Some (case c2 of Some u \<Rightarrow> u | None \<Rightarrow> None))"])
        (auto split: option.split)
  next
    case (PutRow r1 t1 c1)
    with assms \<open>e2 = PutRow r2 t2 c2\<close> show ?thesis
      by (intro exI [of _ "PutRow r2 (case t2 of Some u \<Rightarrow> Some u | None \<Rightarrow> t1) (case c2 of Some u \<Rightarrow> Some u | None \<Rightarrow> c1)"])
        (auto simp: kept_again split: option.split)
  qed
qed

lemma fold_effect: "\<exists>e. effect_of_kind node e \<and> (\<forall>x. fold (row_step node n) ws x = run_effect e x)"
proof (induction ws)
  case Nil
  show ?case by (intro exI [of _ KeepRow]) simp
next
  case (Cons w ws)
  obtain e1 where "effect_of_kind node e1" "row_step node n w = run_effect e1" using step_effect by blast
  moreover obtain e2 where "effect_of_kind node e2" "\<forall>x. fold (row_step node n) ws x = run_effect e2 x" using Cons.IH by blast
  ultimately show ?case using row_effect_comp [of node e1 e2] by simp
qed

lemma effect_idem: "effect_of_kind node e \<Longrightarrow> run_effect e (run_effect e x) = run_effect e x"
  by (cases e) (auto simp: kept_again split: option.split)

lemma fold_rows_idem: "fold (row_step node n) ws (fold (row_step node n) ws x) = fold (row_step node n) ws x"
  using fold_effect [of node n ws] by (auto simp: effect_idem)

lemma fold_runs: "fold (runs_step node n) ws x = x \<or> (\<forall>y. fold (runs_step node n) ws y = None)"
proof (induction ws arbitrary: x)
  case (Cons w ws)
  have "runs_step node n w x = x \<or> (\<forall>y. runs_step node n w y = None)" by (auto simp: runs_step_def split: prod.split)
  moreover have "fold (runs_step node n) ws None = None" using Cons.IH [of None] by auto
  ultimately show ?case using Cons.IH [of x] by auto
qed simp

lemma fold_runs_idem: "fold (runs_step node n) ws (fold (runs_step node n) ws x) = fold (runs_step node n) ws x"
  using fold_runs [of node n ws x] by auto

lemma server_ok_eqI:
  assumes "server_ok st" "server_ok st'" "server_table st = server_table st'" "server_runs st = server_runs st'"
  shows "st = st'"
proof -
  have tab: "map_of (ss_endpoints st) n = map_of (ss_endpoints st') n" "map_of (ss_triggers st) n = map_of (ss_triggers st') n"
    "map_of (ss_jobs st) n = map_of (ss_jobs st') n" "map_of (ss_views st) n = map_of (ss_views st') n"
    "map_of (ss_policies st) n = map_of (ss_policies st') n" "map_of (ss_webhooks st) n = map_of (ss_webhooks st') n"
    "map_of (ss_agents st) n = map_of (ss_agents st') n" for n
    using fun_cong [OF fun_cong [OF assms(3), of Endpoints], of n] fun_cong [OF fun_cong [OF assms(3), of Triggers], of n]
      fun_cong [OF fun_cong [OF assms(3), of Jobs], of n] fun_cong [OF fun_cong [OF assms(3), of Views], of n]
      fun_cong [OF fun_cong [OF assms(3), of Policies], of n] fun_cong [OF fun_cong [OF assms(3), of Webhooks], of n]
      fun_cong [OF fun_cong [OF assms(3), of Agents], of n]
    by (auto simp: option.map_sel elim!: option.inj_map_strong [rotated])
  have runs: "map_of (ss_job_runs st) n = map_of (ss_job_runs st') n" "map_of (ss_agent_runs st) n = map_of (ss_agent_runs st') n" for n
    using fun_cong [OF fun_cong [OF assms(4), of Jobs], of n] fun_cong [OF fun_cong [OF assms(4), of Agents], of n]
    by (simp_all add: server_runs_def)
  have "ss_endpoints st = ss_endpoints st'" "ss_triggers st = ss_triggers st'" "ss_jobs st = ss_jobs st'"
    "ss_views st = ss_views st'" "ss_policies st = ss_policies st'" "ss_webhooks st = ss_webhooks st'"
    "ss_agents st = ss_agents st'" "ss_job_runs st = ss_job_runs st'" "ss_agent_runs st = ss_agent_runs st'"
    using assms(1,2) tab runs by (auto simp: server_ok_def keyed_def histories_ok_def fun_eq_iff intro!: bt_sorted_eqI)
  then show ?thesis by (cases st, cases st') simp
qed

section \<open>Properties\<close>

text \<open>C27: \<open>apply_server_write\<close> refines the abstract registry. Whether it is refused, with which message,
  and on success the new table of rows, the new run histories and the reported change are those of one
  update of the table at the written collection and name: no other row, no history of another job is
  touched, \<open>UPSERT\<close> keeps the stamps the arguments do not set, \<open>REMOVE\<close> drops the history.\<close>

theorem server_write_refines:
  "map_sum id (map_prod registry_of id) (apply_server_write st node op args) = registry_write (registry_of st) node op args"
proof -
  have tab: "collection_contains st node n = (rg_rows (registry_of st) node n \<noteq> None)" for n
    by (simp add: contains_table registry_of_def)
  have after: "collection_contains (put_row st node n args) node n" "\<not> collection_contains (remove_row st node n) node n" for n
    by (simp_all add: contains_table table_put table_remove)
  show ?thesis
    by (cases "row_name args"; cases op)
      (auto simp: apply_server_write_def registry_write_def insert_row_def contains_opt_def Let_def tab
        after [unfolded tab] after registry_of_put registry_of_remove)
qed

text \<open>C28: boot is replay. From a well-formed registry, a list of declarative writes (\<open>UPSERT\<close>s and \<open>REMOVE\<close>s
  of named rows, what a document of \<open>CREATE\<close>s lowers to) is accepted whole, the result is well-formed, and
  it is a fixed point: replaying the same list over it changes nothing, stamps and caches included.\<close>

theorem server_replay_converges:
  assumes "\<forall>w\<in>set ws. declarative w" and "server_ok st"
  shows "\<exists>st'. server_replay st ws = Inr st' \<and> server_ok st' \<and> server_replay st' ws = Inr st'"
proof -
  obtain st' where st': "server_replay st ws = Inr st'" "server_ok st'"
      "\<And>node n. server_table st' node n = fold (row_step node n) ws (server_table st node n)"
      "\<And>node n. server_runs st' node n = fold (runs_step node n) ws (server_runs st node n)"
    using declarative_replay [OF assms] by blast
  obtain st2 where st2: "server_replay st' ws = Inr st2" "server_ok st2"
      "\<And>node n. server_table st2 node n = fold (row_step node n) ws (server_table st' node n)"
      "\<And>node n. server_runs st2 node n = fold (runs_step node n) ws (server_runs st' node n)"
    using declarative_replay [OF assms(1) st'(2)] by blast
  have "st2 = st'"
    by (intro server_ok_eqI st2 st' ext) (simp_all add: st2 st' fold_rows_idem fold_runs_idem)
  with st' st2 show ?thesis by blast
qed

definition demo_batch :: "unit row_batch" where
  "demo_batch = \<lparr>rb_schema = Schema [column_new ''name'' TText False, column_new ''every'' TText True],
                 rb_rows = [\<lparr>row_values = [VText ''nightly'', VText ''1d'']\<rparr>]\<rparr>"

lemma demo_batch_name: "row_name demo_batch = Some ''nightly''"
  by (simp add: row_name_def config_cell_def demo_batch_def col_position_def column_new_def value_at_def)

theorem server_replay_converges_witness:
  "\<exists>st'. server_replay server_state_new [(Jobs, OpUpsert, demo_batch), (Views, OpRemove, demo_batch)] = Inr st' \<and> server_ok st'
     \<and> server_replay st' [(Jobs, OpUpsert, demo_batch), (Views, OpRemove, demo_batch)] = Inr st'"
  by (rule server_replay_converges) (simp_all add: demo_batch_name server_ok_new)

end
