(* ===== verification/Core_Document.thy ===== *)
theory Core_Document
  imports Lang_Lex_Props
begin

text \<open>
  The document splitter, \<open>crates/core/src/ddl/document.rs\<close>: a \<open>.qfs\<close> document is lexed, and its text cut at
  the semicolon tokens. Offsets are in bytes of the text.
\<close>

section \<open>Slices and lines\<close>

definition newlines :: "string \<Rightarrow> nat" where
  "newlines s = length (filter (\<lambda>c. c = CHR 0x0A) s)"

fun take_bytes :: "nat \<Rightarrow> string \<Rightarrow> string" where
  "take_bytes n [] = []"
| "take_bytes n (c # cs) = (if n < char_len c then [] else c # take_bytes (n - char_len c) cs)"

fun drop_bytes :: "nat \<Rightarrow> string \<Rightarrow> string" where
  "drop_bytes n [] = []"
| "drop_bytes n (c # cs) = (if n < char_len c then c # cs else drop_bytes (n - char_len c) cs)"

definition byte_slice :: "string \<Rightarrow> nat \<Rightarrow> nat \<Rightarrow> string" where
  "byte_slice src a b = take_bytes (b - a) (drop_bytes a src)"

definition line_of :: "string \<Rightarrow> nat \<Rightarrow> nat" where
  "line_of src offset = 1 + newlines (take_bytes offset src)"

section \<open>The splitter\<close>

record split_error =
  spe_line :: nat
  spe_code :: string
  spe_message :: string

definition push_stmt :: "string \<Rightarrow> nat \<Rightarrow> nat \<Rightarrow> (nat \<times> string) list \<Rightarrow> (nat \<times> string) list" where
  "push_stmt src start stop out =
     (let text = trim (byte_slice src start stop) in if text \<noteq> [] then out @ [(line_of src start, text)] else out)"

fun split_loop ::
  "string \<Rightarrow> nat option \<Rightarrow> nat \<Rightarrow> (nat \<times> string) list \<Rightarrow> token spanned list \<Rightarrow> (nat \<times> string) list" where
  "split_loop src first last_end out [] =
     (case first of Some start \<Rightarrow> push_stmt src start last_end out | None \<Rightarrow> out)"
| "split_loop src first last_end out (t # ts) =
     (if sd_node t = TkSemicolon
      then split_loop src None last_end
             (case first of Some start \<Rightarrow> push_stmt src start last_end out | None \<Rightarrow> out) ts
      else split_loop src
             (Some (case first of Some start \<Rightarrow> start | None \<Rightarrow> unat (sp_start (sd_span t))))
             (unat (sp_end (sd_span t))) out ts)"

definition split_document :: "string \<Rightarrow> split_error + (nat \<times> string) list" where
  "split_document src =
     (case lex src of
        Inl e \<Rightarrow> Inl \<lparr>spe_line = line_of src (unat (sp_start (le_span e))), spe_code = lex_error_kind_str (le_kind e),
                     spe_message = ''lexing failed: '' @ lex_error_kind_str (le_kind e)\<rparr>
      | Inr toks \<Rightarrow> Inr (split_loop src None 0 [] toks))"

section \<open>What a split is\<close>

text \<open>The text of a statement: tokens other than semicolons, with gaps between them.\<close>

inductive stmt_text :: "string \<Rightarrow> bool" where
  st_token: "t \<noteq> [] \<Longrightarrow> spells t tok \<Longrightarrow> tok \<noteq> TkSemicolon \<Longrightarrow> stmt_text t"
| st_more: "stmt_text x \<Longrightarrow> gap g \<Longrightarrow> t \<noteq> [] \<Longrightarrow> spells t tok \<Longrightarrow> tok \<noteq> TkSemicolon \<Longrightarrow> stmt_text (x @ g @ t)"

text \<open>\<open>doc_split l src ss\<close>: the text from line \<open>l\<close> on is the statements \<open>ss\<close>, each at its line, with only gaps
  and semicolons around them and a semicolon between any two.\<close>

inductive doc_split :: "nat \<Rightarrow> string \<Rightarrow> (nat \<times> string) list \<Rightarrow> bool" where
  ds_end: "gap g \<Longrightarrow> doc_split l g []"
| ds_semi: "gap g \<Longrightarrow> doc_split (l + newlines g) rest ss \<Longrightarrow> doc_split l (g @ '';'' @ rest) ss"
| ds_last: "gap g \<Longrightarrow> stmt_text x \<Longrightarrow> gap h \<Longrightarrow> doc_split l (g @ x @ h) [(l + newlines g, trim x)]"
| ds_stmt: "gap g \<Longrightarrow> stmt_text x \<Longrightarrow> gap h \<Longrightarrow> doc_split (l + newlines (g @ x @ h)) rest ss
    \<Longrightarrow> doc_split l (g @ x @ h @ '';'' @ rest) ((l + newlines g, trim x) # ss)"

lemma take_bytes_append: "take_bytes (text_len a) (a @ b) = a"
proof (induction a)
  case Nil
  have "char_len c > 0" for c by (simp add: char_len_def)
  then show ?case by (cases b) auto
qed simp

lemma drop_bytes_append: "drop_bytes (text_len a) (a @ b) = b"
proof (induction a)
  case Nil
  have "char_len c > 0" for c by (simp add: char_len_def)
  then show ?case by (cases b) auto
qed simp

lemma byte_slice_append: "byte_slice (a @ x @ b) (text_len a) (text_len a + text_len x) = x"
  by (simp add: byte_slice_def drop_bytes_append take_bytes_append)

lemma newlines_append [simp]: "newlines (a @ b) = newlines a + newlines b" "newlines [] = 0"
  by (simp_all add: newlines_def)

lemma line_of_append: "line_of (a @ b) (text_len a) = 1 + newlines a"
  by (simp add: line_of_def take_bytes_append)

lemma ident_start_not_ws: "is_ident_start c \<Longrightarrow> \<not> is_ws c"
  by (auto simp: is_ident_start_def is_ascii_alpha_def is_ws_def)

lemma digit_not_ws: "is_ascii_digit c \<Longrightarrow> \<not> is_ws c"
  by (auto simp: is_ascii_digit_def is_ws_def)

lemma plain_not_ws: "\<not> is_ws CHR 0x27" "\<not> is_ws CHR ''/''" "\<not> is_ws CHR ''x''" "\<not> is_ws CHR ''X''"
  by (simp_all add: is_ws_def)

lemma symbol_not_ws: "symbol_text tok = Some t \<Longrightarrow> t \<noteq> [] \<and> \<not> is_ws (hd t)"
  by (erule symbol_text.elims) (auto simp: is_ws_def)

lemma lit_type_not_ws: "lit_type_text ty \<noteq> [] \<and> \<not> is_ws (hd (lit_type_text ty))"
  by (cases ty) (simp_all add: is_ws_def)

lemma spells_not_ws: "spells t tok \<Longrightarrow> t \<noteq> [] \<Longrightarrow> \<not> is_ws (hd t)"
  using symbol_not_ws [of tok t] lit_type_not_ws
  by (cases tok) (auto simp: is_word_def ident_start_not_ws string_literal_def plain_not_ws list_all_iff digit_not_ws hd_append)

lemma stmt_text_start: "stmt_text x \<Longrightarrow> x \<noteq> [] \<and> \<not> is_ws (hd x)"
  by (induction rule: stmt_text.induct) (auto simp: spells_not_ws)

lemma trim_stmt: "stmt_text x \<Longrightarrow> trim x \<noteq> []"
  using stmt_text_start [of x] by (cases x) (auto simp: trim_def)

lemma push_stmt_slice:
  assumes "stmt_text x" and "src = a @ x @ b"
  shows "push_stmt src (text_len a) (text_len a + text_len x) out = out @ [(1 + newlines a, trim x)]"
  using trim_stmt [OF assms(1)] line_of_append [of a "x @ b"]
  by (simp add: push_stmt_def assms(2) byte_slice_append Let_def)

lemma split_loop_tiles:
  assumes "text_len src < 2 ^ 32"
  shows "src = pre @ rest \<Longrightarrow> tiles (text_len pre) rest toks \<Longrightarrow>
      \<exists>ss. split_loop src None last_end out toks = out @ ss \<and> doc_split (1 + newlines pre) rest ss"
    and "src = pre @ g @ x @ rest \<Longrightarrow> gap g \<Longrightarrow> stmt_text x \<Longrightarrow> tiles (text_len (pre @ g @ x)) rest toks \<Longrightarrow>
      \<exists>ss. split_loop src (Some (text_len (pre @ g))) (text_len (pre @ g @ x)) out toks = out @ ss
        \<and> doc_split (1 + newlines pre) (g @ x @ rest) ss"
proof (induction toks arbitrary: pre g x rest last_end out)
  case Nil
  {
    case 1
    then show ?case by (auto intro: doc_split.intros)
  next
    case (2 pre g x rest out)
    then show ?case
      using push_stmt_slice [OF 2(3) trans [OF 2(1) append_assoc [symmetric]]] ds_last [OF 2(2,3), where l = "Suc (newlines pre)"]
      by (auto simp: add.assoc)
  }
next
  case (Cons tok toks)
  {
    case 1
    obtain h t r where t: "rest = h @ t @ r" "gap h" "t \<noteq> []" "spells t (sd_node tok)"
      "sd_span tok = mk_span (text_len pre + text_len h) (text_len pre + text_len h + text_len t)"
      "tiles (text_len pre + text_len h + text_len t) r toks"
      using 1(2) by auto
    have sp: "unat (sp_start (sd_span tok)) = text_len (pre @ h)" "unat (sp_end (sd_span tok)) = text_len (pre @ h @ t)"
      using assms 1(1) by (simp_all add: t mk_span_def unat_u32_of)
    show ?case
    proof (cases "sd_node tok = TkSemicolon")
      case True
      then have "t = '';''" using t(4) by simp
      then show ?thesis
        using Cons.IH(1) [where pre = "pre @ h @ t" and rest = r] 1(1) t True ds_semi [of h "1 + newlines pre" r]
        by (fastforce simp: newlines_def add.assoc)
    next
      case False
      have "src = pre @ h @ t @ r" "stmt_text t" "tiles (text_len (pre @ h @ t)) r toks"
        using 1(1) t False st_token by (auto simp: add.assoc)
      then show ?thesis
        using Cons.IH(2) [of pre h t r out] t(1,2) False sp by simp
    qed
  next
    case (2 pre g x rest out)
    obtain h t r where t: "rest = h @ t @ r" "gap h" "t \<noteq> []" "spells t (sd_node tok)"
      "sd_span tok = mk_span (text_len (pre @ g @ x) + text_len h) (text_len (pre @ g @ x) + text_len h + text_len t)"
      "tiles (text_len (pre @ g @ x) + text_len h + text_len t) r toks"
      using 2(4) by auto
    have sp: "unat (sp_end (sd_span tok)) = text_len (pre @ g @ x @ h @ t)"
      using assms 2(1) by (simp add: t mk_span_def unat_u32_of add.assoc)
    show ?case
    proof (cases "sd_node tok = TkSemicolon")
      case True
      then have semi: "t = '';''" using t(4) by simp
      have push: "push_stmt src (text_len (pre @ g)) (text_len (pre @ g @ x)) out = out @ [(1 + newlines (pre @ g), trim x)]"
        using push_stmt_slice [of x src "pre @ g" rest out] 2(1,3) by (simp add: add.assoc)
      obtain ss where ss: "split_loop src None (text_len (pre @ g @ x)) (out @ [(1 + newlines (pre @ g), trim x)]) toks
          = (out @ [(1 + newlines (pre @ g), trim x)]) @ ss" "doc_split (1 + newlines (pre @ g @ x @ h @ t)) r ss"
        using Cons.IH(1) [where pre = "pre @ g @ x @ h @ t" and rest = r] 2(1) t by (fastforce simp: add.assoc)
      then have "doc_split (1 + newlines pre) (g @ x @ h @ '';'' @ r) ((1 + newlines pre + newlines g, trim x) # ss)"
        using 2 t(2) semi by (intro ds_stmt) (simp_all add: newlines_def add.assoc)
      then show ?thesis using ss(1) True push t(1) semi by (simp add: add.assoc)
    next
      case False
      have "src = pre @ g @ (x @ h @ t) @ r" "stmt_text (x @ h @ t)" "tiles (text_len (pre @ g @ x @ h @ t)) r toks"
        using 2(1,3) t False st_more by (auto simp: add.assoc)
      then show ?thesis
        using Cons.IH(2) [of pre g "x @ h @ t" r out] 2(2) t(1) False sp by simp
    qed
  }
qed

section \<open>Properties\<close>



end
