(* ===== verification/Server_Runtime.thy ===== *)
theory Server_Runtime
  imports Core_Document Server_Lower Server_Replay Policy_Gate
begin

text \<open>
  The runtime of a server, \<open>crates/server/src/{runtime,audit,binding,error}.rs\<close>: each statement of the config is
  parsed, lowered and committed through the applier a live write uses; every applied change is audited
  and every binding reconciled. The parser is the parameter \<open>parse\<close> (its errors: byte, code, message),
  the JSON text of a statement \<open>canon\<close>, a binding's \<open>reconcile\<close> a function of its state. Locks are not
  poisoned: no thread panics while it holds one.
\<close>

section \<open>Errors\<close>

datatype server_error =
    SeRead string
  | SeParse nat string string
  | SeUnsupportedVerb string string "string list"
  | SeNotServerConfig nat string
  | SeLower nat config_error
  | SeCommit nat string
  | SeReconcile string string
  | SeViewRefresh string string

fun server_error_code :: "server_error \<Rightarrow> string" where
  "server_error_code (SeRead _) = ''config_read''"
| "server_error_code (SeParse _ _ _) = ''config_parse''"
| "server_error_code (SeUnsupportedVerb _ _ _) = ''unsupported_verb''"
| "server_error_code (SeNotServerConfig _ _) = ''not_server_config''"
| "server_error_code (SeLower _ _) = ''config_lower''"
| "server_error_code (SeCommit _ _) = ''config_commit''"
| "server_error_code (SeReconcile _ _) = ''binding_reconcile''"
| "server_error_code (SeViewRefresh _ _) = ''view_refresh''"

section \<open>The audit ledger\<close>

datatype audit_entry =
    AeConfigWrite string string string "string option" bool bool
  | AePlanFired string
  | AeFiredPlan fired_record

definition entry_from_change :: "string \<Rightarrow> config_change \<Rightarrow> audit_entry" where
  "entry_from_change who ch =
     AeConfigWrite who (server_segment (ch_node ch)) (server_op_label (ch_op ch)) (ch_name ch)
       (ch_existed_before ch) (ch_exists_after ch)"

definition show_bool :: "bool \<Rightarrow> string" where
  "show_bool b = (if b then ''true'' else ''false'')"

fun audit_summary :: "audit_entry \<Rightarrow> string" where
  "audit_summary (AeConfigWrite who node op name was is) =
     who @ '' '' @ op @ '' /server/'' @ node @ '' name='' @ (case name of Some n \<Rightarrow> n | None \<Rightarrow> ''-'')
       @ '' before='' @ show_bool was @ '' after='' @ show_bool is"
| "audit_summary (AePlanFired cause) = ''fired '' @ cause"
| "audit_summary (AeFiredPlan r) = fired_summary r"

definition audit_record :: "audit_entry list \<Rightarrow> audit_entry \<Rightarrow> audit_entry list" where
  "audit_record log e = log @ [e]"

definition audit_record_fired :: "audit_entry list \<Rightarrow> fired_record \<Rightarrow> audit_entry list" where
  "audit_record_fired log r = audit_record log (AeFiredPlan r)"

definition fired_count :: "audit_entry list \<Rightarrow> nat" where
  "fired_count log = length (filter (\<lambda>e. case e of AeFiredPlan _ \<Rightarrow> True | _ \<Rightarrow> False) log)"

section \<open>The driver's descriptions\<close>

text \<open>\<open>describe\<close>: the schema of a \<open>/server\<close> path, every node being a relational table.\<close>

definition server_describe :: "string \<Rightarrow> schema option" where
  "server_describe path =
     (if job_runs_path_job path \<noteq> None \<or> agent_runs_path_agent path \<noteq> None then Some job_runs_schema
      else map_option server_node_schema (node_for_path path))"

text \<open>The applier the driver itself hands out, which touches nothing.\<close>

definition noop_apply :: "('s, 'j) applier" where
  "noop_apply s n = (s, Inr \<lparr>ae_id = en_id n, ae_affected = 0\<rparr>)"

section \<open>The applier\<close>

definition server_config_apply :: "(server_state \<times> config_change list, 'j) applier" where
  "server_config_apply s n =
     (case en_kind n of
        KServerConfigWrite snode op \<Rightarrow>
          (case apply_server_write (fst s) snode op (en_args n) of
             Inl reason \<Rightarrow> (s, Inl \<lparr>aerr_id = en_id n, aerr_reason = reason\<rparr>)
           | Inr (st', ch) \<Rightarrow> ((st', snd s @ [ch]), Inr \<lparr>ae_id = en_id n, ae_affected = 1\<rparr>))
      | k \<Rightarrow> (s, Inl \<lparr>aerr_id = en_id n, aerr_reason = ''server applier received non-/server effect '' @ kind_label k\<rparr>))"

section \<open>The runtime\<close>

record 'b runtime =
  rt_state :: server_state
  rt_bindings :: "'b list"
  rt_audit :: "audit_entry list"

definition runtime_new :: "'b runtime" where
  "runtime_new = \<lparr>rt_state = server_state_new, rt_bindings = [], rt_audit = []\<rparr>"

definition with_binding :: "'b runtime \<Rightarrow> 'b \<Rightarrow> 'b runtime" where
  "with_binding rt b = rt\<lparr>rt_bindings := rt_bindings rt @ [b]\<rparr>"

type_synonym 'b reconciler = "'b \<Rightarrow> server_state \<Rightarrow> 'b \<times> server_error option"

text \<open>The bindings in order; the first that fails stops the pass.\<close>

fun reconcile_bindings :: "'b reconciler \<Rightarrow> server_state \<Rightarrow> 'b list \<Rightarrow> 'b list \<times> server_error option" where
  "reconcile_bindings rec st [] = ([], None)"
| "reconcile_bindings rec st (b # bs) =
     (case rec b st of
        (b', Some e) \<Rightarrow> (b' # bs, Some e)
      | (b', None) \<Rightarrow> (case reconcile_bindings rec st bs of (bs', r) \<Rightarrow> (b' # bs', r)))"

definition reconcile_all :: "'b reconciler \<Rightarrow> 'b runtime \<Rightarrow> 'b runtime \<times> server_error option" where
  "reconcile_all rec rt =
     (case reconcile_bindings rec (rt_state rt) (rt_bindings rt) of (bs, r) \<Rightarrow> (rt\<lparr>rt_bindings := bs\<rparr>, r))"

definition newlines_before :: "string \<Rightarrow> nat \<Rightarrow> nat" where
  "newlines_before src at = newlines (take_bytes at src)"

fun audit_changes :: "'b reconciler \<Rightarrow> string \<Rightarrow> config_change list \<Rightarrow> 'b runtime \<Rightarrow> 'b runtime \<times> server_error option" where
  "audit_changes rec who [] rt = (rt, None)"
| "audit_changes rec who (ch # chs) rt =
     (case reconcile_all rec (rt\<lparr>rt_audit := audit_record (rt_audit rt) (entry_from_change who ch)\<rparr>) of
        (rt', Some e) \<Rightarrow> (rt', Some e)
      | (rt', None) \<Rightarrow> audit_changes rec who chs rt')"

type_synonym parser = "string \<Rightarrow> (nat \<times> string \<times> string) + statement"

definition apply_source ::
  "parser \<Rightarrow> (statement \<Rightarrow> string) \<Rightarrow> 'b reconciler \<Rightarrow> string \<Rightarrow> nat \<Rightarrow> string \<Rightarrow> 'b runtime
     \<Rightarrow> 'b runtime \<times> server_error option" where
  "apply_source parse canon rec who line src rt =
     (case parse src of
        Inl (at, code, msg) \<Rightarrow> (rt, Some (SeParse (line + newlines_before src at) code msg))
      | Inr s \<Rightarrow>
          (case (lower_statement parse canon s :: config_error + unit plan option) of
             Inl detail \<Rightarrow> (rt, Some (SeLower line detail))
           | Inr None \<Rightarrow> (rt, Some (SeNotServerConfig line ''statement does not write /server''))
           | Inr (Some plan) \<Rightarrow>
               (case commit plan server_config_apply (\<lambda>_ _. ()) (rt_state rt, []) () of
                  ((st', changes), _, report) \<Rightarrow>
                    (let rt' = rt\<lparr>rt_state := st'\<rparr> in
                     case cr_failed report of
                       Some err \<Rightarrow> (rt', Some (SeCommit line (aerr_reason err)))
                     | None \<Rightarrow> audit_changes rec who changes rt'))))"

fun apply_statements ::
  "parser \<Rightarrow> (statement \<Rightarrow> string) \<Rightarrow> 'b reconciler \<Rightarrow> (nat \<times> string) list \<Rightarrow> 'b runtime
     \<Rightarrow> 'b runtime \<times> server_error option" where
  "apply_statements parse canon rec [] rt = (rt, None)"
| "apply_statements parse canon rec ((line, src) # ss) rt =
     (case apply_source parse canon rec ''boot'' line src rt of
        (rt', Some e) \<Rightarrow> (rt', Some e)
      | (rt', None) \<Rightarrow> apply_statements parse canon rec ss rt')"

text \<open>\<open>boot\<close>, on the text of the config; reading the file is left to the caller.\<close>

definition boot ::
  "parser \<Rightarrow> (statement \<Rightarrow> string) \<Rightarrow> 'b reconciler \<Rightarrow> string \<Rightarrow> 'b runtime \<Rightarrow> 'b runtime \<times> server_error option" where
  "boot parse canon rec text rt =
     (case split_document text of
        Inl e \<Rightarrow> (rt, Some (SeParse (spe_line e) (spe_code e) (spe_message e)))
      | Inr ss \<Rightarrow>
          (case apply_statements parse canon rec ss rt of
             (rt', Some e) \<Rightarrow> (rt', Some e)
           | (rt', None) \<Rightarrow> reconcile_all rec rt'))"

definition handle_reconfigure :: "'b reconciler \<Rightarrow> config_change list \<Rightarrow> 'b runtime \<Rightarrow> 'b runtime \<times> server_error option" where
  "handle_reconfigure rec changes rt =
     reconcile_all rec (rt\<lparr>rt_audit := fold (\<lambda>ch log. audit_record log (entry_from_change ''bridge'' ch)) changes (rt_audit rt)\<rparr>)"

record refresh_report =
  rr_name :: string
  rr_last_run :: i64
  rr_rows :: nat

definition refreshable :: "server_state \<Rightarrow> string \<Rightarrow> server_error + view_def" where
  "refreshable st name =
     (case map_of (ss_views st) name of
        None \<Rightarrow> Inl (SeViewRefresh name ''no such view'')
      | Some v \<Rightarrow> if vd_materialized v then Inr v else Inl (SeViewRefresh name ''view is not materialized''))"

text \<open>\<open>execute_query\<close> runs outside the lock: the state it leaves is the one other holders of the lock made
  meanwhile. \<open>to_json\<close> is serde.\<close>

definition refresh_materialized_view ::
  "'b reconciler \<Rightarrow> string \<Rightarrow> i64 \<Rightarrow> (string \<Rightarrow> server_state \<Rightarrow> server_state \<times> (string + 'j row_batch))
     \<Rightarrow> ('j row_batch \<Rightarrow> string + string) \<Rightarrow> 'b runtime \<Rightarrow> 'b runtime \<times> (server_error + refresh_report)" where
  "refresh_materialized_view rec name now execute_query to_json rt =
     (case refreshable (rt_state rt) name of
        Inl e \<Rightarrow> (rt, Inl e)
      | Inr v \<Rightarrow>
          (case execute_query (vd_query v) (rt_state rt) of
             (st, Inl reason) \<Rightarrow> (rt\<lparr>rt_state := st\<rparr>, Inl (SeViewRefresh name reason))
           | (st, Inr got) \<Rightarrow>
               (case to_json got of
                  Inl e \<Rightarrow> (rt\<lparr>rt_state := st\<rparr>, Inl (SeViewRefresh name (''cannot serialize materialized cache: '' @ e)))
                | Inr cache \<Rightarrow>
                    (case refreshable st name of
                       Inl e \<Rightarrow> (rt\<lparr>rt_state := st\<rparr>, Inl e)
                     | Inr v' \<Rightarrow>
                         (let st' = st\<lparr>ss_views := bt_insert name (v'\<lparr>vd_cache_json := Some cache, vd_last_run := Some now\<rparr>) (ss_views st)\<rparr> in
                          case reconcile_all rec (rt\<lparr>rt_state := st'\<rparr>) of
                            (rt', Some e) \<Rightarrow> (rt', Inl e)
                          | (rt', None) \<Rightarrow> (rt', Inr \<lparr>rr_name = name, rr_last_run = now, rr_rows = length (rb_rows got)\<rparr>))))))"

section \<open>Bindings of the crate\<close>

record counting_binding =
  cb_reconciles :: nat
  cb_last_row_count :: "nat option"

definition null_reconcile :: "unit reconciler" where
  "null_reconcile b st = ((), None)"

definition counting_reconcile :: "counting_binding reconciler" where
  "counting_reconcile b st = (b\<lparr>cb_reconciles := cb_reconciles b + 1, cb_last_row_count := Some (row_count st)\<rparr>, None)"

section \<open>Booting is replaying\<close>

text \<open>\<open>lowers parse canon src w\<close>: the text \<open>src\<close> is a statement that writes \<open>w\<close>.\<close>

fun lowers :: "parser \<Rightarrow> (statement \<Rightarrow> string) \<Rightarrow> string \<Rightarrow> unit server_write \<Rightarrow> bool" where
  "lowers parse canon src (node, op, args) \<longleftrightarrow>
     (\<exists>s. parse src = Inr s \<and> lower_statement parse canon s = Inr (Some (server_write_plan node op args)))"

fun change_log :: "server_state \<Rightarrow> 'j server_write list \<Rightarrow> config_change list" where
  "change_log st [] = []"
| "change_log st ((node, op, args) # ws) =
     (case apply_server_write st node op args of Inl e \<Rightarrow> [] | Inr (st', ch) \<Rightarrow> ch # change_log st' ws)"

lemma map_sum_id_Inr: "map_sum id f x = Inr y \<longleftrightarrow> (\<exists>z. x = Inr z \<and> y = f z)"
  by (cases x) auto

lemma lower_effect_shape: "lower_effect parse canon e = Inr p \<Longrightarrow> \<exists>node op args. p = server_write_plan node op args"
  by (auto simp: lower_effect_def Let_def res_bind_def split: if_splits option.splits sum.splits)

lemma lower_ddl_shape: "lower_ddl canon d a q w = Inr p \<Longrightarrow> \<exists>node op args. p = server_write_plan node op args"
  by (auto simp: lower_ddl_def lower_policy_def Let_def split: if_splits sum.splits)

lemma lower_statement_shape:
  "lower_statement parse canon s = Inr (Some p) \<Longrightarrow> \<exists>node op args. p = server_write_plan node op args"
proof (induction s)
  case (StDdl d a q w)
  then show ?case using lower_ddl_shape [of canon d] by (auto simp: map_sum_id_Inr)
next
  case (StEffect e)
  then show ?case using lower_effect_shape [of parse canon e] by (auto simp: map_sum_id_Inr split: if_splits)
qed auto

lemma write_plan_topo: "topo_order (server_write_plan node op args) = Some [0]"
proof -
  let ?p = "server_write_plan node op args"
  have ids: "plan_ids ?p = [0]" by (simp add: write_plan_node)
  have deps: "pl_deps ?p = []"
    by (simp add: server_write_plan_def builder_next_id_def builder_push_def builder_build_def builder_new_def plan_pure_def Let_def)
  have "wf_plan ?p" using ids deps by (simp add: wf_plan_def acyclic_def)
  then obtain xs where xs: "topo_order ?p = Some xs" using wf_plan_topo by blast
  then have "topological ?p xs" using ids by (simp add: topo_order_SomeD)
  then have "distinct xs" "set xs = {0}" using ids by (simp_all add: topological_def)
  then have "xs = [0]" by (cases xs; cases "tl xs") auto
  with xs show ?thesis by simp
qed

lemma commit_write:
  "commit (server_write_plan node op args) server_config_apply (\<lambda>_ _. ()) (st, []) () =
     (case apply_server_write st node op args of
        Inl reason \<Rightarrow> ((st, []), (), \<lparr>cr_applied = [], cr_skipped = [], cr_failed = Some \<lparr>aerr_id = 0, aerr_reason = reason\<rparr>\<rparr>)
      | Inr (st', ch) \<Rightarrow> ((st', [ch]), (), \<lparr>cr_applied = [\<lparr>ae_id = 0, ae_affected = 1\<rparr>], cr_skipped = [], cr_failed = None\<rparr>))"
proof -
  let ?p = "server_write_plan node op args"
  have deps: "pl_deps ?p = []"
    by (simp add: server_write_plan_def builder_next_id_def builder_push_def builder_build_def builder_new_def plan_pure_def Let_def)
  have node: "plan_node ?p 0 = Some \<lparr>en_id = 0, en_kind = KServerConfigWrite node op,
      en_target = \<lparr>tgt_driver = ''server'', tgt_path = server_path node\<rparr>,
      en_args = args, en_selector = None, en_irreversible = False, en_est_affected = Exact 1\<rparr>"
    by (simp add: plan_node_def write_plan_node)
  show ?thesis
    by (cases "apply_server_write st node op args")
      (auto simp: commit_def write_plan_topo commit_step_def node failed_parent_def deps commit_init_def
        commit_report_default_def server_config_apply_def)
qed

lemma reconcile_all_frame:
  "reconcile_all rec rt = (rt', r) \<Longrightarrow> rt_state rt' = rt_state rt \<and> rt_audit rt' = rt_audit rt"
  by (auto simp: reconcile_all_def split: prod.splits)

lemma apply_source_cases:
  assumes "apply_source parse canon rec who line src rt = (rt', r)"
  obtains (refused) "rt' = rt" "r \<noteq> None"
  | (written) node op args st' ch where "lowers parse canon src (node, op, args)"
      "apply_server_write (rt_state rt) node op args = Inr (st', ch)" "rt_state rt' = st'"
      "rt_audit rt' = rt_audit rt @ [entry_from_change who ch]"
proof (cases "parse src")
  case (Inl e)
  with assms show thesis by (intro refused) (auto simp: apply_source_def split: prod.splits)
next
  case (Inr s)
  show thesis
  proof (cases "lower_statement parse canon s :: config_error + unit plan option")
    case (Inl e)
    with assms \<open>parse src = Inr s\<close> show thesis by (intro refused) (auto simp: apply_source_def)
  next
    case low: (Inr o')
    show thesis
    proof (cases o')
      case None
      with assms \<open>parse src = Inr s\<close> low show thesis by (intro refused) (auto simp: apply_source_def)
    next
      case (Some p)
      then obtain node op args where p: "p = server_write_plan node op args"
        using lower_statement_shape low by blast
      show thesis
      proof (cases "apply_server_write (rt_state rt) node op args")
        case (Inl e)
        with assms \<open>parse src = Inr s\<close> low Some p show thesis
          by (intro refused) (auto simp: apply_source_def commit_write)
      next
        case (Inr sc)
        obtain st' ch where sc: "sc = (st', ch)" by (cases sc)
        show thesis
        proof (rule written)
          show "lowers parse canon src (node, op, args)" using \<open>parse src = Inr s\<close> low Some p by simp
          show "apply_server_write (rt_state rt) node op args = Inr (st', ch)" using Inr sc by simp
          have "reconcile_all rec (rt\<lparr>rt_state := st', rt_audit := rt_audit rt @ [entry_from_change who ch]\<rparr>) = (rt', r)"
            using assms \<open>parse src = Inr s\<close> low Some p Inr sc
            by (auto simp: apply_source_def commit_write audit_record_def split: prod.splits option.splits)
          from reconcile_all_frame [OF this]
          show "rt_state rt' = st'" "rt_audit rt' = rt_audit rt @ [entry_from_change who ch]" by simp_all
        qed
      qed
    qed
  qed
qed

lemma apply_statements_replay:
  "apply_statements parse canon rec ss rt = (rt', r) \<Longrightarrow>
     \<exists>n ws. n \<le> length ss \<and> list_all2 (\<lambda>s w. lowers parse canon (snd s) w) (take n ss) ws
       \<and> server_replay (rt_state rt) ws = Inr (rt_state rt')
       \<and> rt_audit rt' = rt_audit rt @ map (entry_from_change ''boot'') (change_log (rt_state rt) ws)
       \<and> (r = None \<longrightarrow> n = length ss)"
proof (induction ss arbitrary: rt)
  case Nil
  then show ?case by (intro exI [of _ 0] exI [of _ "[]"]) simp
next
  case (Cons s ss)
  obtain line src where s: "s = (line, src)" by (cases s)
  obtain rt1 r1 where step: "apply_source parse canon rec ''boot'' line src rt = (rt1, r1)" by fastforce
  from step show ?case
  proof (cases rule: apply_source_cases)
    case refused
    with Cons.prems step s show ?thesis by (intro exI [of _ 0] exI [of _ "[]"]) auto
  next
    case (written node op args st' ch)
    show ?thesis
    proof (cases r1)
      case (Some e)
      with Cons.prems step s written show ?thesis
        by (intro exI [of _ 1] exI [of _ "[(node, op, args)]"]) auto
    next
      case None
      then have "apply_statements parse canon rec ss rt1 = (rt', r)" using Cons.prems step s by simp
      from Cons.IH [OF this] obtain n ws where "n \<le> length ss" "list_all2 (\<lambda>s w. lowers parse canon (snd s) w) (take n ss) ws"
        "server_replay (rt_state rt1) ws = Inr (rt_state rt')"
        "rt_audit rt' = rt_audit rt1 @ map (entry_from_change ''boot'') (change_log (rt_state rt1) ws)"
        "r = None \<longrightarrow> n = length ss" by blast
      with written s show ?thesis
        by (intro exI [of _ "Suc n"] exI [of _ "(node, op, args) # ws"]) auto
    qed
  qed
qed

lemma server_ok_replay: "server_replay st ws = Inr st' \<Longrightarrow> server_ok st \<Longrightarrow> server_ok st'"
  by (induction st ws rule: server_replay.induct) (auto split: sum.splits dest: server_ok_write)

section \<open>Properties\<close>

text \<open>C30: booting is replaying. A document that does not lex changes nothing. Otherwise the registry after a boot
  is the replay, through the write a live statement uses, of the writes that a prefix of the statements
  lowers to, with one audit entry by \<open>boot\<close> for each, in order; a boot without error has applied every
  statement, and each binding's last reconciliation saw the final registry. The registry stays
  well-formed.\<close>

theorem boot_is_replay:
  assumes "server_ok (rt_state rt)" and "boot parse canon rec text rt = (rt', r)"
  shows "server_ok (rt_state rt')
    \<and> (case split_document text of
         Inl e \<Rightarrow> rt' = rt \<and> r = Some (SeParse (spe_line e) (spe_code e) (spe_message e))
       | Inr ss \<Rightarrow>
           \<exists>n ws. n \<le> length ss \<and> list_all2 (\<lambda>s w. lowers parse canon (snd s) w) (take n ss) ws
             \<and> server_replay (rt_state rt) ws = Inr (rt_state rt')
             \<and> rt_audit rt' = rt_audit rt @ map (entry_from_change ''boot'') (change_log (rt_state rt) ws)
             \<and> (r = None \<longrightarrow> n = length ss \<and> (\<exists>bs. reconcile_bindings rec (rt_state rt') bs = (rt_bindings rt', None))))"
proof (cases "split_document text")
  case (Inl e)
  with assms show ?thesis by (simp add: boot_def)
next
  case (Inr ss)
  obtain rt1 r1 where step: "apply_statements parse canon rec ss rt = (rt1, r1)" by fastforce
  obtain n ws where ws: "n \<le> length ss" "list_all2 (\<lambda>s w. lowers parse canon (snd s) w) (take n ss) ws"
    "server_replay (rt_state rt) ws = Inr (rt_state rt1)"
    "rt_audit rt1 = rt_audit rt @ map (entry_from_change ''boot'') (change_log (rt_state rt) ws)"
    "r1 = None \<longrightarrow> n = length ss" using apply_statements_replay [OF step] by blast
  have frame: "rt_state rt' = rt_state rt1 \<and> rt_audit rt' = rt_audit rt1
      \<and> (r = None \<longrightarrow> r1 = None \<and> (\<exists>bs. reconcile_bindings rec (rt_state rt') bs = (rt_bindings rt', None)))"
    using assms(2) Inr step
    by (cases r1) (auto simp: boot_def reconcile_all_def split: prod.splits)
  have "server_ok (rt_state rt')" using frame server_ok_replay [OF ws(3) assms(1)] by simp
  moreover have "\<exists>n ws. n \<le> length ss \<and> list_all2 (\<lambda>s w. lowers parse canon (snd s) w) (take n ss) ws
      \<and> server_replay (rt_state rt) ws = Inr (rt_state rt')
      \<and> rt_audit rt' = rt_audit rt @ map (entry_from_change ''boot'') (change_log (rt_state rt) ws)
      \<and> (r = None \<longrightarrow> n = length ss \<and> (\<exists>bs. reconcile_bindings rec (rt_state rt') bs = (rt_bindings rt', None)))"
    using ws frame by (intro exI [of _ n] exI [of _ ws]) auto
  ultimately show ?thesis using Inr by simp
qed

definition demo_parse :: parser where
  "demo_parse src = Inr (StDdl demo_job None None None)"

theorem boot_is_replay_witness:
  "case boot demo_parse (\<lambda>_. ''ast'') null_reconcile ''x'' (runtime_new :: unit runtime) of (rt', r) \<Rightarrow> server_ok (rt_state rt')"
proof (cases "boot demo_parse (\<lambda>_. ''ast'') null_reconcile ''x'' (runtime_new :: unit runtime)")
  case (Pair rt' r)
  have "server_ok (rt_state (runtime_new :: unit runtime))" by (simp add: runtime_new_def server_ok_new)
  from conjunct1 [OF boot_is_replay [OF this Pair]] Pair show ?thesis by simp
qed

text \<open>Freshness is never fabricated. A refresh that fails before its store leaves the registry as the
  other holders of the lock left it; one that stores changes the one view, which was materialized
  before the query and after it, and only its cache and its stamp; the registry stays well-formed.\<close>

theorem refresh_no_false_freshness:
  assumes "refresh_materialized_view rec name now execute_query to_json rt = (rt', r)"
    and "\<And>q st. server_ok st \<Longrightarrow> server_ok (fst (execute_query q st))" and "server_ok (rt_state rt)"
  shows "server_ok (rt_state rt') \<and> rt_audit rt' = rt_audit rt
    \<and> (rt_state rt' = rt_state rt
       \<or> (\<exists>v. map_of (ss_views (rt_state rt)) name = Some v \<and> vd_materialized v
           \<and> (let st = fst (execute_query (vd_query v) (rt_state rt)) in
                (\<forall>rep. r \<noteq> Inr rep) \<and> rt_state rt' = st
              \<or> (\<exists>v' cache. map_of (ss_views st) name = Some v' \<and> vd_materialized v'
                   \<and> rt_state rt' = st\<lparr>ss_views := bt_insert name (v'\<lparr>vd_cache_json := Some cache, vd_last_run := Some now\<rparr>) (ss_views st)\<rparr>))))"
proof (cases "refreshable (rt_state rt) name")
  case (Inl e)
  with assms show ?thesis by (simp add: refresh_materialized_view_def)
next
  case (Inr v)
  then have v: "map_of (ss_views (rt_state rt)) name = Some v" "vd_materialized v"
    by (auto simp: refreshable_def split: option.splits if_splits)
  obtain st res where q: "execute_query (vd_query v) (rt_state rt) = (st, res)" by fastforce
  have ok: "server_ok st" using assms(2) [OF assms(3), of "vd_query v"] q by simp
  consider (failed) "rt_state rt' = st" "rt_audit rt' = rt_audit rt" "\<forall>rep. r \<noteq> Inr rep"
    | (stored) v' cache where "refreshable st name = Inr v'" "rt_audit rt' = rt_audit rt"
      "rt_state rt' = st\<lparr>ss_views := bt_insert name (v'\<lparr>vd_cache_json := Some cache, vd_last_run := Some now\<rparr>) (ss_views st)\<rparr>"
    using assms(1) Inr q
    by (auto simp: refresh_materialized_view_def Let_def split: sum.splits prod.splits option.splits dest!: reconcile_all_frame)
  then show ?thesis
  proof cases
    case failed
    then show ?thesis using v q ok by (auto simp: Let_def)
  next
    case stored
    then have v': "map_of (ss_views st) name = Some v'" "vd_materialized v'"
      by (auto simp: refreshable_def split: option.splits if_splits)
    have "keyed vd_name (ss_views st)" using ok by (simp add: server_ok_def)
    then have "vd_name v' = name \<and> name \<noteq> []" using map_of_SomeD [OF v'(1)] by (auto simp: keyed_def)
    then have "server_ok (rt_state rt')" using ok stored(3) by (auto simp: server_ok_def intro: keyed_insert)
    then show ?thesis using v v' q stored by (auto simp: Let_def)
  qed
qed

definition demo_view_runtime :: "unit runtime" where
  "demo_view_runtime = runtime_new\<lparr>rt_state := server_state_new\<lparr>ss_views :=
     [(''v'', \<lparr>vd_name = ''v'', vd_query = ''/log'', vd_materialized = True, vd_last_run = None, vd_cache_json = None\<rparr>)]\<rparr>\<rparr>"

theorem refresh_no_false_freshness_witness:
  "server_ok (rt_state (fst (refresh_materialized_view null_reconcile ''v'' 7 (\<lambda>q st. (st, Inr (\<lparr>rb_schema = Schema [], rb_rows = []\<rparr> :: unit row_batch)))
     (\<lambda>b. Inr ''[]'') demo_view_runtime)))"
proof (cases "refresh_materialized_view null_reconcile ''v'' 7 (\<lambda>q st. (st, Inr (\<lparr>rb_schema = Schema [], rb_rows = []\<rparr> :: unit row_batch)))
     (\<lambda>b. Inr ''[]'') demo_view_runtime")
  case (Pair rt' r)
  have "server_ok (rt_state demo_view_runtime)"
    by (simp add: demo_view_runtime_def runtime_new_def server_state_new_def server_ok_def keyed_def histories_ok_def bt_sorted_def)
  then show ?thesis
    using conjunct1 [OF refresh_no_false_freshness [OF Pair]] Pair by simp
qed

end
