(* ===== verification/Crypto_Core.thy ===== *)
theory Crypto_Core
  imports Text_Util "HOL-Library.Word"
begin

unbundle bit_operations_syntax

text \<open>
  The pure cryptographic leaf, \<open>crates/crypto-core/src/lib.rs\<close>: SHA-256, HMAC-SHA256, hexadecimal text, and
  the timing-safe comparison. Bytes are \<open>8 word\<close>s, the working words \<open>32 word\<close>s.
\<close>

type_synonym byte = "8 word"

section \<open>SHA-256\<close>

definition sha_k :: "32 word list" where
  "sha_k = concat
     [[0x428a2f98, 0x71374491, 0xb5c0fbcf, 0xe9b5dba5, 0x3956c25b, 0x59f111f1, 0x923f82a4, 0xab1c5ed5],
      [0xd807aa98, 0x12835b01, 0x243185be, 0x550c7dc3, 0x72be5d74, 0x80deb1fe, 0x9bdc06a7, 0xc19bf174],
      [0xe49b69c1, 0xefbe4786, 0x0fc19dc6, 0x240ca1cc, 0x2de92c6f, 0x4a7484aa, 0x5cb0a9dc, 0x76f988da],
      [0x983e5152, 0xa831c66d, 0xb00327c8, 0xbf597fc7, 0xc6e00bf3, 0xd5a79147, 0x06ca6351, 0x14292967],
      [0x27b70a85, 0x2e1b2138, 0x4d2c6dfc, 0x53380d13, 0x650a7354, 0x766a0abb, 0x81c2c92e, 0x92722c85],
      [0xa2bfe8a1, 0xa81a664b, 0xc24b8b70, 0xc76c51a3, 0xd192e819, 0xd6990624, 0xf40e3585, 0x106aa070],
      [0x19a4c116, 0x1e376c08, 0x2748774c, 0x34b0bcb5, 0x391c0cb3, 0x4ed8aa4a, 0x5b9cca4f, 0x682e6ff3],
      [0x748f82ee, 0x78a5636f, 0x84c87814, 0x8cc70208, 0x90befffa, 0xa4506ceb, 0xbef9a3f7, 0xc67178f2]]"

type_synonym sha_state = "32 word \<times> 32 word \<times> 32 word \<times> 32 word \<times> 32 word \<times> 32 word \<times> 32 word \<times> 32 word"

definition sha_h0 :: sha_state where
  "sha_h0 =
     (0x6a09e667, 0xbb67ae85, 0x3c6ef372, 0xa54ff53a, 0x510e527f, 0x9b05688c, 0x1f83d9ab, 0x5be0cd19)"

definition rotr :: "nat \<Rightarrow> 32 word \<Rightarrow> 32 word" where
  "rotr n w = (drop_bit n w) OR (push_bit (32 - n) w)"

definition from_be_bytes :: "byte \<Rightarrow> byte \<Rightarrow> byte \<Rightarrow> byte \<Rightarrow> 32 word" where
  "from_be_bytes a b c d = push_bit 24 (ucast a) OR push_bit 16 (ucast b) OR push_bit 8 (ucast c) OR ucast d"

definition to_be_bytes32 :: "32 word \<Rightarrow> byte list" where
  "to_be_bytes32 w = map (\<lambda>i. ucast (drop_bit (8 * i) w)) [3, 2, 1, 0]"

definition to_be_bytes64 :: "64 word \<Rightarrow> byte list" where
  "to_be_bytes64 w = map (\<lambda>i. ucast (drop_bit (8 * i) w)) [7, 6, 5, 4, 3, 2, 1, 0]"

function pad_zeros :: "byte list \<Rightarrow> byte list" where
  "pad_zeros msg = (if length msg mod 64 \<noteq> 56 then pad_zeros (msg @ [0]) else msg)"
  by auto
termination
proof (relation "measure (\<lambda>msg. if length msg mod 64 \<le> 56 then 56 - length msg mod 64 else 120 - length msg mod 64)")
  fix msg :: "byte list"
  assume r: "length msg mod 64 \<noteq> 56"
  have "r < 64 \<Longrightarrow> r \<noteq> 56 \<Longrightarrow> r' = (if r = 63 then 0 else Suc r)
      \<Longrightarrow> (if r' \<le> 56 then 56 - r' else 120 - r') < (if r \<le> 56 then 56 - r else 120 - r)" for r r' :: nat
    by (auto split: if_splits)
  from this [OF _ r, of "length (msg @ [0]) mod 64"]
  have "(if length (msg @ [0]) mod 64 \<le> 56 then 56 - length (msg @ [0]) mod 64 else 120 - length (msg @ [0]) mod 64)
      < (if length msg mod 64 \<le> 56 then 56 - length msg mod 64 else 120 - length msg mod 64)"
    using mod_Suc [of "length msg" 64] by simp
  then show "(msg @ [0], msg)
      \<in> measure (\<lambda>msg. if length msg mod 64 \<le> 56 then 56 - length msg mod 64 else 120 - length msg mod 64)"
    unfolding in_measure .
qed simp

declare pad_zeros.simps [simp del]

definition sha_pad :: "byte list \<Rightarrow> byte list" where
  "sha_pad data = pad_zeros (data @ [0x80]) @ to_be_bytes64 (of_nat (length data) * 8)"

text \<open>\<open>as_chunks\<close>: the whole chunks, an incomplete last one left out.\<close>

function chunks64 :: "'a list \<Rightarrow> 'a list list" where
  "chunks64 xs = (if length xs < 64 then [] else take 64 xs # chunks64 (drop 64 xs))"
  by auto
termination
  by (relation "measure length") auto

declare chunks64.simps [simp del]

definition sha_word :: "byte list \<Rightarrow> nat \<Rightarrow> 32 word" where
  "sha_word chunk i = from_be_bytes (chunk ! (4 * i)) (chunk ! (4 * i + 1)) (chunk ! (4 * i + 2)) (chunk ! (4 * i + 3))"

definition small_sigma0 :: "32 word \<Rightarrow> 32 word" where
  "small_sigma0 x = rotr 7 x XOR rotr 18 x XOR drop_bit 3 x"

definition small_sigma1 :: "32 word \<Rightarrow> 32 word" where
  "small_sigma1 x = rotr 17 x XOR rotr 19 x XOR drop_bit 10 x"

text \<open>One word added to the table \<open>w\<close>, at the index its length gives.\<close>

definition schedule_step :: "32 word list \<Rightarrow> 32 word list" where
  "schedule_step w =
     (let i = length w in
      w @ [w ! (i - 16) + small_sigma0 (w ! (i - 15)) + w ! (i - 7) + small_sigma1 (w ! (i - 2))])"

definition schedule :: "byte list \<Rightarrow> 32 word list" where
  "schedule chunk = (schedule_step ^^ 48) (map (sha_word chunk) [0..<16])"

fun sha_round :: "32 word \<times> 32 word \<Rightarrow> sha_state \<Rightarrow> sha_state" where
  "sha_round (k, w) (a, b, c, d, e, f, g, hh) =
     (let s1 = rotr 6 e XOR rotr 11 e XOR rotr 25 e;
          ch = (e AND f) XOR ((NOT e) AND g);
          t1 = hh + s1 + ch + k + w;
          s0 = rotr 2 a XOR rotr 13 a XOR rotr 22 a;
          maj = (a AND b) XOR (a AND c) XOR (b AND c);
          t2 = s0 + maj
      in (t1 + t2, a, b, c, d + t1, e, f, g))"

fun sha_add :: "sha_state \<Rightarrow> sha_state \<Rightarrow> sha_state" where
  "sha_add (a, b, c, d, e, f, g, h) (a', b', c', d', e', f', g', h') =
     (a + a', b + b', c + c', d + d', e + e', f + f', g + g', h + h')"

definition compress :: "byte list \<Rightarrow> sha_state \<Rightarrow> sha_state" where
  "compress chunk h = sha_add h (fold sha_round (zip sha_k (schedule chunk)) h)"

fun sha_words :: "sha_state \<Rightarrow> 32 word list" where
  "sha_words (a, b, c, d, e, f, g, h) = [a, b, c, d, e, f, g, h]"

definition sha256 :: "byte list \<Rightarrow> byte list" where
  "sha256 data = concat (map to_be_bytes32 (sha_words (fold compress (chunks64 (sha_pad data)) sha_h0)))"

section \<open>HMAC, hexadecimal, comparison\<close>

definition block_key :: "byte list \<Rightarrow> byte list" where
  "block_key key = (let k = (if length key > 64 then sha256 key else key) in k @ replicate (64 - length k) 0)"

definition hmac_sha256 :: "byte list \<Rightarrow> byte list \<Rightarrow> byte list" where
  "hmac_sha256 key data =
     (let k = block_key key;
          ipad = map (\<lambda>b. b XOR 0x36) k;
          opad = map (\<lambda>b. b XOR 0x5c) k
      in sha256 (opad @ sha256 (ipad @ data)))"

definition hex_lower :: "byte list \<Rightarrow> string" where
  "hex_lower bytes = concat (map (\<lambda>b. [hex_digit (unat (drop_bit 4 b)), hex_digit (unat (b AND 0x0f))]) bytes)"

definition sha256_hex :: "byte list \<Rightarrow> string" where
  "sha256_hex data = hex_lower (sha256 data)"

definition get_or_zero :: "byte list \<Rightarrow> nat \<Rightarrow> byte" where
  "get_or_zero a i = (if i < length a then a ! i else 0)"

definition constant_time_eq :: "byte list \<Rightarrow> byte list \<Rightarrow> bool" where
  "constant_time_eq a b =
     (let diff = ucast ((of_nat (length a) :: 64 word) XOR of_nat (length b)) :: byte;
          n = max (length a) (length b)
      in fold (\<lambda>i diff. diff OR (get_or_zero a i XOR get_or_zero b i)) [0..<n] diff = 0)"

section \<open>The published definition of SHA-256\<close>

text \<open>FIPS 180-4 in its own terms: its functions over the rotation of the word library, the least padding, the
  message schedule and the working variables as recurrences, the hash value of block \<open>i\<close>. The constants and
  the big-endian reading of bytes are those of the code.\<close>

definition fips_ch :: "32 word \<Rightarrow> 32 word \<Rightarrow> 32 word \<Rightarrow> 32 word" where
  "fips_ch x y z = (x AND y) XOR (NOT x AND z)"

definition fips_maj :: "32 word \<Rightarrow> 32 word \<Rightarrow> 32 word \<Rightarrow> 32 word" where
  "fips_maj x y z = (x AND y) XOR (x AND z) XOR (y AND z)"

definition fips_big_sigma0 :: "32 word \<Rightarrow> 32 word" where
  "fips_big_sigma0 x = word_rotr 2 x XOR word_rotr 13 x XOR word_rotr 22 x"

definition fips_big_sigma1 :: "32 word \<Rightarrow> 32 word" where
  "fips_big_sigma1 x = word_rotr 6 x XOR word_rotr 11 x XOR word_rotr 25 x"

definition fips_sigma0 :: "32 word \<Rightarrow> 32 word" where
  "fips_sigma0 x = word_rotr 7 x XOR word_rotr 18 x XOR drop_bit 3 x"

definition fips_sigma1 :: "32 word \<Rightarrow> 32 word" where
  "fips_sigma1 x = word_rotr 17 x XOR word_rotr 19 x XOR drop_bit 10 x"

definition pad_count :: "nat \<Rightarrow> nat" where
  "pad_count l = (if l mod 64 \<le> 55 then 55 - l mod 64 else 119 - l mod 64)"

definition fips_pad :: "byte list \<Rightarrow> byte list" where
  "fips_pad data = data @ [0x80] @ replicate (pad_count (length data)) 0 @ to_be_bytes64 (of_nat (8 * length data))"

fun fips_w :: "byte list \<Rightarrow> nat \<Rightarrow> 32 word" where
  "fips_w block t =
     (if t < 16 then sha_word block t
      else fips_sigma1 (fips_w block (t - 2)) + fips_w block (t - 7) + fips_sigma0 (fips_w block (t - 15)) + fips_w block (t - 16))"

declare fips_w.simps [simp del]

definition fips_step :: "32 word \<Rightarrow> 32 word \<Rightarrow> sha_state \<Rightarrow> sha_state" where
  "fips_step k w s =
     (case s of (a, b, c, d, e, f, g, h) \<Rightarrow>
        (let t1 = h + fips_big_sigma1 e + fips_ch e f g + k + w; t2 = fips_big_sigma0 a + fips_maj a b c
         in (t1 + t2, a, b, c, d + t1, e, f, g)))"

primrec fips_vars :: "byte list \<Rightarrow> sha_state \<Rightarrow> nat \<Rightarrow> sha_state" where
  "fips_vars block h 0 = h"
| "fips_vars block h (Suc t) = fips_step (sha_k ! t) (fips_w block t) (fips_vars block h t)"

definition fips_block :: "byte list \<Rightarrow> nat \<Rightarrow> byte list" where
  "fips_block m i = take 64 (drop (64 * i) m)"

primrec fips_hash :: "byte list \<Rightarrow> nat \<Rightarrow> sha_state" where
  "fips_hash m 0 = sha_h0"
| "fips_hash m (Suc i) = sha_add (fips_hash m i) (fips_vars (fips_block m i) (fips_hash m i) 64)"

definition fips_digest :: "byte list \<Rightarrow> byte list" where
  "fips_digest data =
     concat (map to_be_bytes32 (sha_words (fips_hash (fips_pad data) (length (fips_pad data) div 64))))"

lemma pad_zeros_count: "pad_zeros msg = msg @ replicate (if length msg mod 64 \<le> 56 then 56 - length msg mod 64 else 120 - length msg mod 64) 0"
proof (induction msg rule: pad_zeros.induct)
  case (1 msg)
  show ?case
  proof (cases "length msg mod 64 = 56")
    case True
    then show ?thesis by (simp add: pad_zeros.simps [of msg])
  next
    case False
    define r where "r = length msg mod 64"
    have r: "r < 64" "r \<noteq> 56" "length (msg @ [0]) mod 64 = (if r = 63 then 0 else Suc r)"
      using False mod_Suc [of "length msg" 64] by (auto simp: r_def)
    let ?x = "if length (msg @ [0]) mod 64 \<le> 56 then 56 - length (msg @ [0]) mod 64 else 120 - length (msg @ [0]) mod 64"
    have eq: "Suc ?x = (if r \<le> 56 then 56 - r else 120 - r)"
      using r by (auto split: if_splits)
    have "pad_zeros msg = pad_zeros (msg @ [0])" using False by (subst pad_zeros.simps) simp
    also have "\<dots> = (msg @ [0]) @ replicate ?x 0" using False by (rule 1)
    also have "\<dots> = msg @ replicate (Suc ?x) 0" by (simp del: length_append)
    finally show ?thesis unfolding eq by (simp add: r_def)
  qed
qed

lemma sha_pad_fips: "sha_pad data = fips_pad data"
proof -
  define r where "r = length data mod 64"
  have "r < 64" "length (data @ [0x80 :: byte]) mod 64 = (if r = 63 then 0 else Suc r)"
    using mod_Suc [of "length data" 64] by (auto simp: r_def)
  then have "(if length (data @ [0x80 :: byte]) mod 64 \<le> 56 then 56 - length (data @ [0x80 :: byte]) mod 64
      else 120 - length (data @ [0x80 :: byte]) mod 64) = pad_count (length data)"
    by (auto simp: pad_count_def r_def [symmetric] simp del: length_append)
  then show ?thesis
    by (simp add: sha_pad_def fips_pad_def pad_zeros_count mult.commute del: length_append)
qed

lemma fips_pad_length: "length (fips_pad data) mod 64 = 0"
proof -
  define r where "r = length data mod 64"
  have r: "r < 64" by (simp add: r_def)
  have "length (fips_pad data) mod 64 = (r + (1 + pad_count (length data) + 8)) mod 64"
    using mod_add_left_eq [of "length data" 64 "1 + pad_count (length data) + 8"]
    by (simp add: fips_pad_def to_be_bytes64_def r_def add.assoc add.commute add.left_commute)
  also have "r + (1 + pad_count (length data) + 8) = (if r \<le> 55 then 64 else 128)"
    using r by (auto simp: pad_count_def r_def [symmetric])
  finally show ?thesis by auto
qed

lemma chunks64_blocks: "chunks64 m = map (fips_block m) [0..<length m div 64]"
proof (induction m rule: chunks64.induct)
  case (1 m)
  show ?case
  proof (cases "length m < 64")
    case True
    then show ?thesis by (simp add: chunks64.simps [of m])
  next
    case False
    then have len: "length m div 64 = Suc ((length m - 64) div 64)" by (simp add: le_div_geq)
    have "chunks64 m = fips_block m 0 # map (fips_block (drop 64 m)) [0..<(length m - 64) div 64]"
      using 1 False by (simp add: chunks64.simps [of m] fips_block_def)
    also have "map (fips_block (drop 64 m)) [0..<(length m - 64) div 64] = map (fips_block m) (map Suc [0..<(length m - 64) div 64])"
      by (simp add: fips_block_def add.commute)
    finally show ?thesis by (simp only: len upt_rec [of 0 "Suc _"] map_Suc_upt) simp
  qed
qed

lemma rotr_word_rotr: "n < 32 \<Longrightarrow> rotr n w = word_rotr n w"
proof (rule bit_word_eqI)
  fix k :: nat
  assume n: "n < 32" and "k < LENGTH(32)"
  then have k: "k < 32" by simp
  have "bit (rotr n w) k = (if k + n < 32 then bit w (k + n) else bit w (k + n - 32))"
    using n k bit_imp_le_length [of w "k + n"] by (auto simp: rotr_def bit_simps add.commute)
  also have "... = bit w ((k + n) mod 32)" using n k by (simp add: mod_if)
  finally show "bit (rotr n w) k = bit (word_rotr n w) k" using k by (simp add: bit_word_rotr_iff)
qed

lemma small_sigma_fips: "small_sigma0 = fips_sigma0" "small_sigma1 = fips_sigma1"
  by (rule ext, simp add: small_sigma0_def small_sigma1_def fips_sigma0_def fips_sigma1_def rotr_word_rotr)+

lemma schedule_fips: "schedule block = map (fips_w block) [0..<64]"
proof -
  have "(schedule_step ^^ n) (map (sha_word block) [0..<16]) = map (fips_w block) [0..<16 + n]" for n
  proof (induction n)
    case 0
    show ?case by (auto simp: fips_w.simps)
  next
    case (Suc n)
    have "fips_w block (16 + n) = fips_w block n + small_sigma0 (fips_w block (n + 1)) + fips_w block (n + 9)
        + small_sigma1 (fips_w block (n + 14))"
      by (subst fips_w.simps) (simp add: small_sigma_fips add.commute add.left_commute)
    then have "schedule_step (map (fips_w block) [0..<16 + n]) = map (fips_w block) ([0..<16 + n] @ [16 + n])"
      by (simp add: schedule_step_def Let_def add.commute)
    also have "[0..<16 + n] @ [16 + n] = [0..<16 + Suc n]" by (simp only: add_Suc_right upt_Suc) simp
    finally have "schedule_step (map (fips_w block) [0..<16 + n]) = map (fips_w block) [0..<16 + Suc n]" .
    then show ?case using Suc by simp
  qed
  from this [of 48] show ?thesis by (simp add: schedule_def)
qed

lemma compress_fips: "compress block h = sha_add h (fips_vars block h 64)"
proof -
  have step: "sha_round (k, w) s = fips_step k w s" for k w s
    by (cases s rule: sha_words.cases) (simp add: fips_step_def Let_def fips_big_sigma0_def fips_big_sigma1_def fips_ch_def fips_maj_def rotr_word_rotr)
  have "fold sha_round (zip (take n sha_k) (map (fips_w block) [0..<n])) h = fips_vars block h n" if "n \<le> 64" for n
    using that
  proof (induction n)
    case (Suc n)
    have "length sha_k = 64" by (simp add: sha_k_def)
    then have "take (Suc n) sha_k = take n sha_k @ [sha_k ! n]" "length (take n sha_k) = n"
      using Suc.prems by (auto simp: take_Suc_conv_app_nth)
    then show ?case using Suc step by simp
  qed simp
  from this [of 64] show ?thesis by (simp add: compress_def schedule_fips sha_k_def)
qed

lemma fold_compress: "fold compress (map (fips_block m) [0..<n]) sha_h0 = fips_hash m n"
  by (induction n) (simp_all add: compress_fips)

lemma xor_zero_iff: "x XOR y = 0 \<longleftrightarrow> x = (y :: 'a::len word)"
  by (auto simp: bit_eq_iff bit_simps)

lemma length_ucast: "(ucast (of_nat n :: 64 word) :: byte) = of_nat n"
  by (rule bit_word_eqI) (simp add: bit_simps)

lemma fold_or_zero: "fold (\<lambda>i d. d OR f i) is d = 0 \<longleftrightarrow> d = 0 \<and> (\<forall>i\<in>set is. f i = (0 :: byte))"
  by (induction "is" arbitrary: d) (auto simp: or_eq_0_iff)

lemma padded_eq:
  assumes "length a \<le> length b"
  shows "(\<forall>i<max (length a) (length b). get_or_zero a i = get_or_zero b i) \<longleftrightarrow> b = a @ replicate (length b - length a) 0"
proof
  assume eq: "\<forall>i<max (length a) (length b). get_or_zero a i = get_or_zero b i"
  show "b = a @ replicate (length b - length a) 0"
  proof (rule nth_equalityI)
    fix i assume "i < length b"
    then show "b ! i = (a @ replicate (length b - length a) 0) ! i"
      using eq assms by (auto simp: get_or_zero_def nth_append max_def split: if_splits dest!: spec [of _ i])
  qed (use assms in simp)
next
  assume "b = a @ replicate (length b - length a) 0"
  then obtain n where b: "b = a @ replicate n 0" by blast
  show "\<forall>i<max (length a) (length b). get_or_zero a i = get_or_zero b i"
    by (auto simp: b get_or_zero_def nth_append)
qed

lemma length_sha256: "length (sha256 data) = 32"
  by (cases "fold compress (chunks64 (sha_pad data)) sha_h0" rule: sha_words.cases) (simp add: sha256_def to_be_bytes32_def)

lemma constant_time_eq_iff:
  "constant_time_eq a b \<longleftrightarrow> (\<exists>k. a = b @ replicate (256 * k) 0 \<or> b = a @ replicate (256 * k) 0)"
proof -
  have mod: "(of_nat m :: byte) = of_nat n \<longleftrightarrow> m mod 256 = n mod 256" for m n
    by (simp add: word_of_nat_eq_iff take_bit_eq_mod)
  have eq: "constant_time_eq a b \<longleftrightarrow>
      length a mod 256 = length b mod 256 \<and> (\<forall>i<max (length a) (length b). get_or_zero a i = get_or_zero b i)" for a b
    by (auto simp: constant_time_eq_def Let_def fold_or_zero unsigned_xor_eq length_ucast mod xor_zero_iff)
  have le: "constant_time_eq a b \<longleftrightarrow> (\<exists>k. b = a @ replicate (256 * k) 0)" if ab: "length a \<le> length b" for a b
  proof -
    have "length a mod 256 = length b mod 256 \<longleftrightarrow> 256 dvd length b - length a"
      using ab by (metis mod_eq_dvd_iff_nat)
    then have "constant_time_eq a b \<longleftrightarrow> 256 dvd length b - length a \<and> b = a @ replicate (length b - length a) 0"
      using eq padded_eq [OF ab] by auto
    also have "\<dots> \<longleftrightarrow> (\<exists>k. b = a @ replicate (256 * k) 0)"
    proof
      assume "256 dvd length b - length a \<and> b = a @ replicate (length b - length a) 0"
      then show "\<exists>k. b = a @ replicate (256 * k) 0" by (metis dvd_def)
    next
      assume "\<exists>k. b = a @ replicate (256 * k) 0"
      then obtain k where "b = a @ replicate (256 * k) 0" by blast
      then show "256 dvd length b - length a \<and> b = a @ replicate (length b - length a) 0" by simp
    qed
    finally show ?thesis .
  qed
  have sym: "constant_time_eq a b = constant_time_eq b a" for a b
    by (auto simp: eq max.commute)
  show ?thesis
  proof (cases "length a \<le> length b")
    case True
    then show ?thesis using le [of a b] by (auto intro: exI [of _ 0])
  next
    case False
    then show ?thesis using le [of b a] sym [of a b] by (auto intro: exI [of _ 0])
  qed
qed

section \<open>Hexadecimal text and keys\<close>

lemma hex_digit_inj: "a < 16 \<Longrightarrow> b < 16 \<Longrightarrow> hex_digit a = hex_digit b \<Longrightarrow> a = b"
proof -
  assume ab: "a < 16" "b < 16" "hex_digit a = hex_digit b"
  have "(of_char (hex_digit d) :: nat) = (if d < 10 then 48 + d else 87 + d)" if "d < 16" for d
    using that by (simp add: hex_digit_def)
  then have "(if a < 10 then 48 + a else 87 + a) = (if b < 10 then 48 + b else 87 + b)"
    using ab by metis
  then show "a = b" by (simp split: if_splits)
qed

lemma length_hex_lower [simp]: "length (hex_lower bs) = 2 * length bs"
  by (induction bs) (simp_all add: hex_lower_def)

lemma byte_nibbles: "drop_bit 4 a = drop_bit 4 b \<Longrightarrow> a AND 0x0f = b AND 0x0f \<Longrightarrow> a = (b :: byte)"
proof (rule bit_word_eqI)
  fix n assume eq: "drop_bit 4 a = drop_bit 4 b" "a AND 0x0f = b AND 0x0f" and n: "n < LENGTH(8)"
  have mask: "(0x0f :: byte) = mask 4" by (simp add: mask_eq_exp_minus_1)
  show "bit a n = bit b n"
  proof (cases "n < 4")
    case True
    then have "bit (a AND 0x0f) n = bit a n" "bit (b AND 0x0f) n = bit b n"
      by (simp_all add: mask bit_simps)
    then show ?thesis using eq(2) by simp
  next
    case False
    then have "bit (drop_bit 4 a) (n - 4) = bit a n" "bit (drop_bit 4 b) (n - 4) = bit b n"
      by (simp_all add: bit_simps)
    then show ?thesis using eq(1) by simp
  qed
qed

lemma nibbles_small: "unat (drop_bit 4 (a :: byte)) < 16" "unat (a AND 0x0f) < 16"
proof -
  show "unat (a AND 0x0f) < 16" using word_and_le1 [of a "0x0f"] by (simp add: word_le_nat_alt)
  have "unat (drop_bit 4 a) = unat a div 16" by (simp add: drop_bit_eq_div unat_div_distrib)
  then show "unat (drop_bit 4 a) < 16" using unsigned_less [where w = a and ?'a = nat] by simp
qed

lemma hex_lower_inj: "hex_lower a = hex_lower b \<Longrightarrow> a = b"
proof (induction a arbitrary: b)
  case Nil
  then show ?case by (cases b) (simp_all add: hex_lower_def)
next
  case (Cons x a)
  then obtain y b' where b: "b = y # b'" by (cases b) (simp_all add: hex_lower_def)
  have "hex_digit (unat (drop_bit 4 x)) = hex_digit (unat (drop_bit 4 y))"
    "hex_digit (unat (x AND 0x0f)) = hex_digit (unat (y AND 0x0f))" "hex_lower a = hex_lower b'"
    using Cons.prems b by (simp_all add: hex_lower_def)
  then have "unat (drop_bit 4 x) = unat (drop_bit 4 y)" "unat (x AND 0x0f) = unat (y AND 0x0f)" "a = b'"
    using hex_digit_inj nibbles_small Cons.IH by blast+
  then show ?case using byte_nibbles [of x y] b by (simp add: unsigned_word_eqI)
qed

section \<open>Properties\<close>

text \<open>C31: \<open>sha256\<close> is the digest of FIPS 180-4: its padding loop, its in-place schedule table and its rounds
  compute the least padding, the recurrence of the message schedule and the working variables of the
  standard, over every block of the padded message, with no byte left out; the digest has 32 bytes.\<close>

theorem sha256_is_fips:
  "sha256 data = fips_digest data \<and> length (sha256 data) = 32 \<and> concat (chunks64 (sha_pad data)) = sha_pad data"
proof (intro conjI)
  have "concat (map (fips_block m) [0..<n]) = take (64 * n) m" for m n
  proof (induction n)
    case (Suc n)
    have "64 * Suc n = 64 * n + 64" by simp
    then show ?case using Suc by (simp only: take_add) (simp add: fips_block_def)
  qed simp
  moreover have "64 * (length (sha_pad data) div 64) = length (sha_pad data)"
    using fips_pad_length [of data] by (simp add: sha_pad_fips mod_eq_0_iff_dvd)
  ultimately show "concat (chunks64 (sha_pad data)) = sha_pad data" by (simp add: chunks64_blocks)
  show "sha256 data = fips_digest data"
    by (simp add: sha256_def fips_digest_def chunks64_blocks fold_compress sha_pad_fips)
  show "length (sha256 data) = 32" by (rule length_sha256)
qed

text \<open>C32: what \<open>constant_time_eq\<close> decides. It compares the lengths by the low byte of their exclusive or, so it
  holds exactly if the inputs are equal or one is the other followed by zero bytes whose number is a
  multiple of 256; for inputs of equal length it is equality, but the empty input equals 256 zeros.\<close>

theorem constant_time_eq_exact:
  "(constant_time_eq a b \<longleftrightarrow> (\<exists>k. a = b @ replicate (256 * k) 0 \<or> b = a @ replicate (256 * k) 0))
   \<and> (length a = length b \<longrightarrow> constant_time_eq a b = (a = b))
   \<and> constant_time_eq [] (replicate 256 0)"
proof (intro conjI impI)
  show "constant_time_eq a b \<longleftrightarrow> (\<exists>k. a = b @ replicate (256 * k) 0 \<or> b = a @ replicate (256 * k) 0)"
    by (rule constant_time_eq_iff)
  show "constant_time_eq a b = (a = b)" if "length a = length b"
    unfolding constant_time_eq_iff using that by (auto intro: exI [of _ 0])
  show "constant_time_eq [] (replicate 256 0)"
    unfolding constant_time_eq_iff by (auto intro: exI [of _ 1])
qed

theorem constant_time_eq_exact_witness:
  "constant_time_eq [1, 2] [1, 2] \<and> \<not> constant_time_eq [1, 2] [1, 3]"
  using constant_time_eq_exact [of "[1, 2]" "[1, 2]"] constant_time_eq_exact [of "[1, 2]" "[1, 3]"] by simp

end
