(* ===== verification/Core_Security.thy ===== *)
theory Core_Security
  imports Plan_Model Text_Util
begin

text \<open>
  The gate on irreversible effects, \<open>crates/core/src/security.rs\<close>: the safety modes an operator selects, the
  decision on a plan under a mode, the older gate by run mode, and the settings keys kept out of every
  configuration surface.
\<close>

section \<open>Safety modes\<close>

datatype safety_mode = AutonomousInPolicy | ApproveEverything | PolicyOnly

datatype safety_decision = AutoCommit | NeedApproval | SafetyDeny

definition safety_mode_default :: safety_mode where
  "safety_mode_default = AutonomousInPolicy"

fun safety_label :: "safety_mode \<Rightarrow> string" where
  "safety_label AutonomousInPolicy = ''autonomous-in-policy''"
| "safety_label ApproveEverything = ''approve-everything''"
| "safety_label PolicyOnly = ''policy-only''"

definition safety_all :: "safety_mode list" where
  "safety_all = [ApproveEverything, AutonomousInPolicy, PolicyOnly]"

definition safety_norm :: "string \<Rightarrow> string" where
  "safety_norm s = map (\<lambda>c. if c = CHR ''_'' then CHR ''-'' else c) (ascii_lower (trim s))"

definition safety_from_label :: "string \<Rightarrow> safety_mode option" where
  "safety_from_label s = find (\<lambda>m. safety_label m = safety_norm s) safety_all"

definition safety_from_label_or_default :: "string \<Rightarrow> safety_mode" where
  "safety_from_label_or_default s = (case safety_from_label s of Some m \<Rightarrow> m | None \<Rightarrow> safety_mode_default)"

definition mode_decide :: "safety_mode \<Rightarrow> bool \<Rightarrow> bool \<Rightarrow> safety_decision" where
  "mode_decide m irreversible within_policy =
     (if \<not> within_policy then SafetyDeny
      else case m of
             AutonomousInPolicy \<Rightarrow> if irreversible then NeedApproval else AutoCommit
           | ApproveEverything \<Rightarrow> NeedApproval
           | PolicyOnly \<Rightarrow> AutoCommit)"

section \<open>The irreversible guard\<close>

datatype run_mode = RmCli | RmCliOneShot | RmCi | RmServer

definition is_interactive :: "run_mode \<Rightarrow> bool" where
  "is_interactive m \<longleftrightarrow> m = RmCli"

datatype commit_ack = AckGranted | AckAbsent

datatype needs_preview = NpBlocked | NpPrompt

fun needs_reason :: "needs_preview \<Rightarrow> string" where
  "needs_reason NpBlocked =
     ''plan contains an irreversible effect (REMOVE / CALL); refusing to apply unattended without --commit-irreversible''"
| "needs_reason NpPrompt = ''plan contains an irreversible effect (REMOVE / CALL); confirm after PREVIEW''"

definition require_ack :: "'j plan \<Rightarrow> run_mode \<Rightarrow> commit_ack \<Rightarrow> needs_preview + unit" where
  "require_ack p m ack =
     (if \<not> plan_is_irreversible p then Inr ()
      else if ack = AckGranted then Inr ()
      else if is_interactive m then Inl NpPrompt else Inl NpBlocked)"

definition safety_decide :: "'j plan \<Rightarrow> safety_mode \<Rightarrow> bool \<Rightarrow> commit_ack \<Rightarrow> safety_decision" where
  "safety_decide p m within_policy ack =
     (case mode_decide m (plan_is_irreversible p) within_policy of
        NeedApproval \<Rightarrow> if ack = AckGranted then AutoCommit else NeedApproval
      | d \<Rightarrow> d)"

section \<open>Settings that may hold key material\<close>

fun contains_text :: "string \<Rightarrow> string \<Rightarrow> bool" where
  "contains_text sub [] = (sub = [])"
| "contains_text sub (c # cs) = (strip_prefix sub (c # cs) \<noteq> None \<or> contains_text sub cs)"

definition secretish_setting_key :: "string \<Rightarrow> bool" where
  "secretish_setting_key key =
     (let lower = ascii_lower key in
      lower \<noteq> ''secret_ref''
      \<and> (contains_text ''secret'' lower \<or> contains_text ''token'' lower \<or> contains_text ''password'' lower
         \<or> contains_text ''passphrase'' lower \<or> contains_text ''ciphertext'' lower \<or> contains_text ''nonce'' lower))"

section \<open>Properties\<close>

text \<open>How restrictive a mode is for plans within policy.\<close>

fun mode_rank :: "safety_mode \<Rightarrow> nat" where
  "mode_rank ApproveEverything = 0"
| "mode_rank AutonomousInPolicy = 1"
| "mode_rank PolicyOnly = 2"

text \<open>C33: a safety mode configures the floor and never lowers it. A plan outside policy is refused in every mode
  whatever the acknowledgement; what is refused is exactly that. A plan commits at once exactly if it is
  within policy and was acknowledged, or the mode asks for nothing on it; a more permissive mode commits
  whatever a stricter one does. A label in any case, with underscores or blanks around it, resolves to
  its mode, and only a spelling of \<open>policy-only\<close> resolves to it: everything else fails to a mode that
  holds irreversible plans.\<close>

theorem safety_floor:
  "(safety_decide p m within ack = SafetyDeny \<longleftrightarrow> \<not> within)
   \<and> (safety_decide p m within ack = AutoCommit \<longleftrightarrow>
        within \<and> (ack = AckGranted \<or> m = PolicyOnly \<or> (m = AutonomousInPolicy \<and> require_ack p RmServer ack = Inr ())))
   \<and> (\<not> (mode_rank m \<le> mode_rank m' \<and> safety_decide p m within ack = AutoCommit \<and> safety_decide p m' within ack \<noteq> AutoCommit))
   \<and> safety_from_label (safety_label m) = Some m
   \<and> (safety_from_label_or_default s = PolicyOnly \<longleftrightarrow> safety_norm s = ''policy-only'')"
proof (intro conjI)
  show "safety_decide p m within ack = SafetyDeny \<longleftrightarrow> \<not> within"
    by (cases m) (simp_all add: safety_decide_def mode_decide_def)
  show "safety_decide p m within ack = AutoCommit \<longleftrightarrow>
      within \<and> (ack = AckGranted \<or> m = PolicyOnly \<or> (m = AutonomousInPolicy \<and> require_ack p RmServer ack = Inr ()))"
    by (cases m; cases ack) (simp_all add: safety_decide_def mode_decide_def require_ack_def is_interactive_def)
  show "\<not> (mode_rank m \<le> mode_rank m' \<and> safety_decide p m within ack = AutoCommit \<and> safety_decide p m' within ack \<noteq> AutoCommit)"
    by (cases m; cases m'; cases ack) (simp_all add: safety_decide_def mode_decide_def)
  show "safety_from_label (safety_label m) = Some m"
    by (cases m; hypsubst; code_simp)
  show "safety_from_label_or_default s = PolicyOnly \<longleftrightarrow> safety_norm s = ''policy-only''"
    by (cases "safety_norm s = ''policy-only''")
      (auto simp: safety_from_label_or_default_def safety_from_label_def safety_all_def safety_mode_default_def)
qed

end
