(* ===== verification/Watch_Fire.thy ===== *)
theory Watch_Fire
  imports Core_Security Crypto_Core Policy_Gate Parser_Ast Plan_Commit
begin

text \<open>
  Firing a handler's plan unattended, \<open>crates/watchtower/src/commit.rs\<close> and the committer of
  \<open>crates/qfs/src/sweeper.rs\<close>: build the plan, gate it by the bound policy, refuse irreversible effects, then
  apply. Parameters: \<open>build\<close> makes a plan of a statement, \<open>reason\<close> words a denial (its text holds
  characters outside the modelled ones), \<open>render\<close> is the debug text of a preview, \<open>apply_plan\<close> the live
  interpreter on a state of its own.
\<close>

record fire_outcome =
  fo_plan_summary :: string
  fo_affected :: u64
  fo_effects :: "string list"

datatype fire_error =
    FeBuild string
  | FePolicyDenied string string driver_id "nat option" "string list"
  | FeApply string
  | FeIrreversibleBlocked string

type_synonym 's committer = "string \<Rightarrow> statement \<Rightarrow> string option \<Rightarrow> string option \<Rightarrow> 's \<Rightarrow> 's \<times> (fire_error + fire_outcome)"

text \<open>The gates both committers pass a statement through, up to the apply.\<close>

definition gate_fire ::
  "(statement \<Rightarrow> string + 'j plan) \<Rightarrow> (policy_decision \<Rightarrow> string) \<Rightarrow> (string \<rightharpoonup> policy_def)
     \<Rightarrow> statement \<Rightarrow> string option \<Rightarrow> string option \<Rightarrow> fire_error + ('j plan \<times> string list)" where
  "gate_fire build reason table stmt pol who =
     (case build stmt of
        Inl e \<Rightarrow> Inl (FeBuild e)
      | Inr plan \<Rightarrow>
          (let resolved = resolve_policy pol table;
               gate = (case who of
                         Some agent \<Rightarrow> gate_plan_with_context resolved plan (ctx_for_agent agent)
                       | None \<Rightarrow> gate_plan resolved plan)
           in case go_decision gate of
                DDeny node v driver rule held detail \<Rightarrow>
                  Inl (FePolicyDenied (reason (DDeny node v driver rule held detail)) (verb_label_of v) driver rule (go_effects gate))
              | DAllow \<Rightarrow>
                  (case require_ack plan RmServer AckAbsent of
                     Inl needs \<Rightarrow> Inl (FeIrreversibleBlocked (needs_reason needs))
                   | Inr _ \<Rightarrow> Inr (plan, go_effects gate))))"

definition plan_fingerprint :: "(plan_preview \<Rightarrow> byte list) \<Rightarrow> 'j plan \<Rightarrow> string" where
  "plan_fingerprint render plan = sha256_hex (render (preview plan))"

text \<open>The live committer of the sweeper.\<close>

definition live_commit ::
  "(statement \<Rightarrow> string + 'j plan) \<Rightarrow> (policy_decision \<Rightarrow> string) \<Rightarrow> (plan_preview \<Rightarrow> byte list)
     \<Rightarrow> ('j plan \<Rightarrow> 's \<Rightarrow> 's \<times> (string + unit)) \<Rightarrow> (string \<rightharpoonup> policy_def) \<Rightarrow> 's committer" where
  "live_commit build reason render apply_plan table trigger stmt pol who s =
     (case gate_fire build reason table stmt pol who of
        Inl e \<Rightarrow> (s, Inl e)
      | Inr (plan, effects) \<Rightarrow>
          (case apply_plan plan s of
             (s', Inl e) \<Rightarrow> (s', Inl (FeApply e))
           | (s', Inr _) \<Rightarrow>
               (s', Inr \<lparr>fo_plan_summary = plan_fingerprint render plan, fo_affected = of_nat (length effects),
                         fo_effects = effects\<rparr>)))"

text \<open>The recording committer the watchtower composes; its state is the count of applied effects. The principal
  is not read: \<open>commit_for_principal\<close> keeps the trait's default.\<close>

record recording_committer =
  rc_fail_reason :: "string option"
  rc_applied :: u64

definition recording_commit ::
  "(statement \<Rightarrow> string + 'j plan) \<Rightarrow> (policy_decision \<Rightarrow> string) \<Rightarrow> (plan_preview \<Rightarrow> byte list)
     \<Rightarrow> (apply_error \<Rightarrow> string) \<Rightarrow> (string \<rightharpoonup> policy_def) \<Rightarrow> recording_committer committer" where
  "recording_commit build reason render show_error table trigger stmt pol who c =
     (case rc_fail_reason c of
        Some r \<Rightarrow> (c, Inl (FeApply r))
      | None \<Rightarrow>
          (case gate_fire build reason table stmt pol None of
             Inl e \<Rightarrow> (c, Inl e)
           | Inr (plan, effects) \<Rightarrow>
               (case commit plan recording_apply (\<lambda>_ _. ()) recording_new () of
                  (_, _, report) \<Rightarrow>
                    (case cr_failed report of
                       Some err \<Rightarrow> (c, Inl (FeApply (show_error err)))
                     | None \<Rightarrow>
                         (let affected = of_nat (length (cr_applied report)) in
                          (c\<lparr>rc_applied := rc_applied c + affected\<rparr>,
                           Inr \<lparr>fo_plan_summary = plan_fingerprint render plan, fo_affected = affected, fo_effects = effects\<rparr>))))))"

section \<open>The interface of a committer\<close>

text \<open>What a dispatcher or scheduler relies on of a committer: a refusal by a gate leaves its state alone.\<close>

definition refused :: "fire_error \<Rightarrow> bool" where
  "refused e \<longleftrightarrow> (case e of FeApply _ \<Rightarrow> False | _ \<Rightarrow> True)"

lemma gate_fire_allows:
  assumes "gate_fire build reason table stmt pol who = Inr (plan, effects)"
  shows "build stmt = Inr plan \<and> effects = effect_summaries plan \<and> \<not> plan_is_irreversible plan
    \<and> evaluate_with_context (resolve_policy pol table) plan
        (case who of Some a \<Rightarrow> ctx_for_agent a | None \<Rightarrow> ctx_anonymous) = DAllow"
  using assms
  by (auto simp: gate_fire_def Let_def gate_plan_def gate_plan_with_context_def evaluate_def require_ack_def is_interactive_def
      split: sum.splits option.splits policy_decision.splits if_splits)

lemma gate_fire_refuses: "gate_fire build reason table stmt pol who = Inl e \<Longrightarrow> refused e"
  by (auto simp: gate_fire_def refused_def Let_def split: sum.splits option.splits policy_decision.splits)

lemma live_commit_refused:
  "live_commit build reason render apply_plan table trigger stmt pol who s = (s', Inl e) \<Longrightarrow> refused e \<Longrightarrow> s' = s"
  by (auto simp: live_commit_def refused_def split: sum.splits prod.splits)

section \<open>Properties\<close>


end
