(* ===== verification/Watch_Event.thy ===== *)
theory Watch_Event
  imports Server_State Crypto_Core Engine_Eval Lang_Token
begin

text \<open>
  Events and their ways into the system, \<open>crates/watchtower/src/{event,bus,webhook,watcher,binding}.rs\<close> and
  \<open>crates/secrets/src/key.rs\<close>: the local bus with its spool, the ingest of a webhook, the poll of a source.
  Parameters: \<open>secrets\<close> looks a signing secret up by its handle, \<open>lossy\<close> is \<open>String::from_utf8_lossy\<close>.
\<close>

section \<open>Events\<close>

datatype event_kind = EkWebhook | EkRowAppended | EkRowChanged | EkRowRemoved

fun event_kind_label :: "event_kind \<Rightarrow> string" where
  "event_kind_label EkWebhook = ''webhook''"
| "event_kind_label EkRowAppended = ''row_appended''"
| "event_kind_label EkRowChanged = ''row_changed''"
| "event_kind_label EkRowRemoved = ''row_removed''"

record 'j event =
  ev_id :: string
  ev_source :: string
  ev_kind :: event_kind
  ev_dedup_key :: string
  ev_columns :: "string list"
  ev_new :: "'j row"
  ev_received_at :: i64

definition event_new ::
  "string \<Rightarrow> string \<Rightarrow> event_kind \<Rightarrow> string \<Rightarrow> string list \<Rightarrow> 'j row \<Rightarrow> i64 \<Rightarrow> 'j event" where
  "event_new i src kind native_id cols row received =
     \<lparr>ev_id = i, ev_source = src, ev_kind = kind, ev_dedup_key = src @ ''#'' @ native_id, ev_columns = cols, ev_new = row,
      ev_received_at = received\<rparr>"

section \<open>The bus\<close>

datatype bus_error = BusClosed | BusFull

text \<open>\<open>LocalBus\<close>: the bounded channel (\<open>bus_open\<close>: its receiver lives) and the spool of events not acknowledged.\<close>

record 'j local_bus =
  bus_queue :: "'j event list"
  bus_capacity :: nat
  bus_open :: bool
  bus_spool :: "(string, 'j event) btree"

definition bus_new :: "nat \<Rightarrow> 'j local_bus" where
  "bus_new capacity = \<lparr>bus_queue = [], bus_capacity = max capacity 1, bus_open = True, bus_spool = []\<rparr>"

definition try_send :: "'j local_bus \<Rightarrow> 'j event \<Rightarrow> bus_error + 'j local_bus" where
  "try_send b e =
     (if \<not> bus_open b then Inl BusClosed
      else if length (bus_queue b) \<ge> bus_capacity b then Inl BusFull
      else Inr (b\<lparr>bus_queue := bus_queue b @ [e]\<rparr>))"

definition publish :: "'j local_bus \<Rightarrow> 'j event \<Rightarrow> 'j local_bus \<times> (bus_error + unit)" where
  "publish b e =
     (let b' = b\<lparr>bus_spool := bt_insert (ev_id e) e (bus_spool b)\<rparr> in
      case try_send b' e of Inl err \<Rightarrow> (b', Inl err) | Inr b'' \<Rightarrow> (b'', Inr ()))"

definition bus_ack :: "'j local_bus \<Rightarrow> string \<Rightarrow> 'j local_bus" where
  "bus_ack b i = b\<lparr>bus_spool := bt_remove i (bus_spool b)\<rparr>"

definition unacked_len :: "'j local_bus \<Rightarrow> nat" where
  "unacked_len b = length (bus_spool b)"

fun resend :: "'j event list \<Rightarrow> 'j local_bus \<times> nat \<Rightarrow> 'j local_bus \<times> nat" where
  "resend [] (b, n) = (b, n)"
| "resend (e # es) (b, n) = (case try_send b e of Inl _ \<Rightarrow> (b, n) | Inr b' \<Rightarrow> resend es (b', n + 1))"

definition redeliver_unacked :: "'j local_bus \<Rightarrow> 'j local_bus \<times> nat" where
  "redeliver_unacked b = resend (map snd (bus_spool b)) (b, 0)"

section \<open>Webhooks\<close>

definition signature_header :: string where
  "signature_header = ''x-qfs-signature''"

definition sig_version :: string where
  "sig_version = ''v0''"

record ingest_outcome =
  io_status :: nat
  io_published :: bool

definition ingest_accepted :: ingest_outcome where "ingest_accepted = \<lparr>io_status = 202, io_published = True\<rparr>"
definition ingest_unauthorized :: ingest_outcome where "ingest_unauthorized = \<lparr>io_status = 401, io_published = False\<rparr>"
definition ingest_not_found :: ingest_outcome where "ingest_not_found = \<lparr>io_status = 404, io_published = False\<rparr>"
definition ingest_internal :: ingest_outcome where "ingest_internal = \<lparr>io_status = 500, io_published = False\<rparr>"

record webhook_route =
  wr_name :: string
  wr_secret_handle :: string

definition routes_from_state :: "server_state \<Rightarrow> (string, webhook_route) btree" where
  "routes_from_state st =
     fold (\<lambda>(_, d) routes.
             if wd_route d = [] then routes
             else bt_insert (wd_route d) \<lparr>wr_name = wd_name d, wr_secret_handle = wd_secret d\<rparr> routes)
       (ss_webhooks st) []"

datatype connection_id_error = CieEmpty | CieReservedChar char

definition connection_id_new :: "string \<Rightarrow> connection_id_error + string" where
  "connection_id_new i =
     (if i = [] then Inl CieEmpty
      else case find (\<lambda>c. c = CHR ''@'' \<or> c = CHR ''/'' \<or> is_ws c) i of
             Some c \<Rightarrow> Inl (CieReservedChar c)
           | None \<Rightarrow> Inr i)"

text \<open>The UTF-8 bytes of a text.\<close>

definition utf8_char :: "char \<Rightarrow> byte list" where
  "utf8_char c =
     (let n = (of_char c :: nat) in
      if n < 128 then [of_nat n] else [of_nat (192 + n div 64), of_nat (128 + n mod 64)])"

definition utf8_bytes :: "string \<Rightarrow> byte list" where
  "utf8_bytes s = concat (map utf8_char s)"

definition sign_body :: "byte list \<Rightarrow> byte list \<Rightarrow> string" where
  "sign_body secret body = sig_version @ ''='' @ hex_lower (hmac_sha256 secret body)"

definition verify_signature ::
  "(string \<Rightarrow> byte list option) \<Rightarrow> string \<Rightarrow> (string \<rightharpoonup> string) \<Rightarrow> byte list \<Rightarrow> bool" where
  "verify_signature secrets handle headers body =
     (case headers signature_header of
        None \<Rightarrow> False
      | Some provided \<Rightarrow>
          (case strip_prefix (sig_version @ ''='') provided of
             None \<Rightarrow> False
           | Some provided_hex \<Rightarrow>
               (case connection_id_new handle of
                  Inl _ \<Rightarrow> False
                | Inr account \<Rightarrow>
                    (case secrets account of
                       None \<Rightarrow> False
                     | Some secret \<Rightarrow>
                         constant_time_eq (utf8_bytes (hex_lower (hmac_sha256 secret body))) (utf8_bytes provided_hex)))))"

definition webhook_event :: "(byte list \<Rightarrow> string) \<Rightarrow> string \<Rightarrow> byte list \<Rightarrow> i64 \<Rightarrow> 'j event" where
  "webhook_event lossy route body now =
     (let native_id = sha256_hex body in
      event_new (route @ ''#'' @ native_id) route EkWebhook native_id [''body''] \<lparr>row_values = [VText (lossy body)]\<rparr> now)"

definition ingest ::
  "(string \<Rightarrow> byte list option) \<Rightarrow> (byte list \<Rightarrow> string) \<Rightarrow> (string, webhook_route) btree \<Rightarrow> 'j local_bus
     \<Rightarrow> string \<Rightarrow> (string \<rightharpoonup> string) \<Rightarrow> byte list \<Rightarrow> i64 \<Rightarrow> 'j local_bus \<times> ingest_outcome" where
  "ingest secrets lossy routes b route headers body now =
     (case map_of routes route of
        None \<Rightarrow> (b, ingest_not_found)
      | Some w \<Rightarrow>
          if wr_secret_handle w \<noteq> [] \<and> \<not> verify_signature secrets (wr_secret_handle w) headers body
          then (b, ingest_unauthorized)
          else (case publish b (webhook_event lossy route body now) of
                  (b', Inr _) \<Rightarrow> (b', ingest_accepted)
                | (b', Inl _) \<Rightarrow> (b', ingest_internal)))"

section \<open>Watchers\<close>

record watcher =
  wt_source :: string
  wt_interval_secs :: u64
  wt_id_column :: string
  wt_cursor_key :: string

definition watcher_new :: "string \<Rightarrow> u64 \<Rightarrow> string \<Rightarrow> watcher" where
  "watcher_new src interval id_column =
     \<lparr>wt_source = src, wt_interval_secs = interval, wt_id_column = id_column, wt_cursor_key = src\<rparr>"

definition watchers_from_state :: "server_state \<Rightarrow> watcher list" where
  "watchers_from_state st =
     map (\<lambda>(_, t). watcher_new (td_on t) 60 ''id'') (filter (\<lambda>(_, t). strip_prefix ''/'' (td_on t) \<noteq> None) (ss_triggers st))"

text \<open>A cursor is the set of ids seen; a store keeps one by key.\<close>

type_synonym cursor_store = "string \<rightharpoonup> string set"

definition store_save :: "cursor_store \<Rightarrow> string \<Rightarrow> string set \<Rightarrow> cursor_store" where
  "store_save store key cursor = store(key \<mapsto> cursor)"

definition native_id :: "nat option \<Rightarrow> nat \<Rightarrow> 'j row \<Rightarrow> string" where
  "native_id id_idx seq row =
     (case Option.bind id_idx (value_at row) of
        Some (VText s) \<Rightarrow> s
      | Some (VInt n) \<Rightarrow> show_int (sint n)
      | Some (VTimestamp n) \<Rightarrow> show_int (sint n)
      | _ \<Rightarrow> ''seq'' @ show_nat seq)"

definition watch_event :: "watcher \<Rightarrow> string list \<Rightarrow> i64 \<Rightarrow> string \<Rightarrow> 'j row \<Rightarrow> 'j event" where
  "watch_event w cols now nid row =
     event_new (wt_source w @ ''#'' @ nid) (wt_source w) EkRowAppended nid cols row now"

fun poll_rows ::
  "watcher \<Rightarrow> string list \<Rightarrow> i64 \<Rightarrow> string set \<Rightarrow> (nat \<times> 'j row) list \<Rightarrow> 'j local_bus \<times> string set \<times> nat
     \<Rightarrow> 'j local_bus \<times> (bus_error + string set \<times> nat)" where
  "poll_rows w cols now cursor [] (b, advanced, emitted) = (b, Inr (advanced, emitted))"
| "poll_rows w cols now cursor ((seq, row) # rows) (b, advanced, emitted) =
     (let nid = native_id (position (\<lambda>c. c = wt_id_column w) cols) seq row in
      if nid \<in> cursor then poll_rows w cols now cursor rows (b, advanced, emitted)
      else case publish b (watch_event w cols now nid row) of
             (b', Inl e) \<Rightarrow> (b', Inl e)
           | (b', Inr _) \<Rightarrow> poll_rows w cols now cursor rows (b', insert nid advanced, emitted + 1))"

text \<open>\<open>poll_once\<close>: \<open>read\<close> is the result of executing the source; \<open>bus_text\<close> words a bus error.\<close>

definition poll_once ::
  "(bus_error \<Rightarrow> string) \<Rightarrow> watcher \<Rightarrow> string + 'j row_batch \<Rightarrow> i64 \<Rightarrow> 'j local_bus \<Rightarrow> cursor_store
     \<Rightarrow> ('j local_bus \<times> cursor_store) \<times> (string + nat)" where
  "poll_once bus_text w read now b store =
     (case read of
        Inl e \<Rightarrow> ((b, store), Inl e)
      | Inr got \<Rightarrow>
          (let cols = column_names (rb_schema got);
               cursor = (case store (wt_cursor_key w) of Some c \<Rightarrow> c | None \<Rightarrow> {}) in
           case poll_rows w cols now cursor (enumerate 0 (rb_rows got)) (b, cursor, 0) of
             (b', Inl e) \<Rightarrow> ((b', store), Inl (''watcher publish failed: '' @ bus_text e))
           | (b', Inr (advanced, emitted)) \<Rightarrow> ((b', store_save store (wt_cursor_key w) advanced), Inr emitted)))"

section \<open>What a signature proves\<close>

lemma utf8_first: "\<exists>b bs. utf8_char c = b # bs \<and> (unat b < 128 \<longleftrightarrow> (of_char c :: nat) < 128)"
proof -
  have "(of_char c :: nat) < 4 * 64" by simp
  then have "(of_char c :: nat) div 64 < 4" by (rule less_mult_imp_div_less)
  then have "192 + (of_char c :: nat) div 64 < 256" by simp
  then show ?thesis by (auto simp: utf8_char_def Let_def unat_of_nat take_bit_eq_mod simp del: of_nat_add)
qed

lemma utf8_char_inj: "utf8_char c @ xs = utf8_char d @ ys \<Longrightarrow> c = d \<and> xs = ys"
proof -
  assume eq: "utf8_char c @ xs = utf8_char d @ ys"
  have small: "(of_char c :: nat) < 256" "(of_char d :: nat) < 256" by simp_all
  have "(of_char c :: nat) < 128 \<longleftrightarrow> (of_char d :: nat) < 128"
    using utf8_first [of c] utf8_first [of d] eq by (metis append_Cons list.inject)
  then have "(of_char c :: nat) = of_char d \<and> xs = ys"
  proof (cases "(of_char c :: nat) < 128")
    case True
    then show ?thesis using eq \<open>_ \<longleftrightarrow> _\<close> by (auto simp: utf8_char_def Let_def word_of_nat_eq_iff take_bit_eq_mod)
  next
    case False
    then have "(of_nat (192 + of_char c div 64) :: byte) = of_nat (192 + of_char d div 64)"
      "(of_nat (128 + of_char c mod 64) :: byte) = of_nat (128 + of_char d mod 64)" "xs = ys"
      using eq \<open>_ \<longleftrightarrow> _\<close> by (auto simp: utf8_char_def Let_def simp del: of_nat_add)
    then have "(of_char c :: nat) div 64 = of_char d div 64" "(of_char c :: nat) mod 64 = of_char d mod 64"
      using small by (simp_all add: word_of_nat_eq_iff take_bit_eq_mod del: of_nat_add)
    then show ?thesis using \<open>xs = ys\<close> by (metis div_mult_mod_eq)
  qed
  then show "c = d \<and> xs = ys" by simp
qed

lemma utf8_nul: "utf8_char (CHR 0x00) = [0]"
  by (simp add: utf8_char_def)

lemma utf8_nuls: "utf8_bytes (replicate n (CHR 0x00)) = replicate n 0"
  by (induction n) (simp_all add: utf8_bytes_def utf8_nul)

lemma utf8_append: "utf8_bytes (a @ b) = utf8_bytes a @ utf8_bytes b"
  by (simp add: utf8_bytes_def)

lemma utf8_inj: "utf8_bytes a = utf8_bytes b \<Longrightarrow> a = b"
proof (induction a arbitrary: b)
  case Nil
  then show ?case using utf8_first [of "hd b"] by (cases b) (auto simp: utf8_bytes_def)
next
  case (Cons c a)
  obtain d b' where b: "b = d # b'" using Cons.prems utf8_first [of c] by (cases b) (auto simp: utf8_bytes_def)
  then have "utf8_char c @ utf8_bytes a = utf8_char d @ utf8_bytes b'" using Cons.prems by (simp add: utf8_bytes_def)
  then show ?case using utf8_char_inj Cons.IH b by blast
qed

lemma hex_digit_code: "d < 16 \<Longrightarrow> (of_char (hex_digit d) :: nat) < 128 \<and> (of_char (hex_digit d) :: nat) \<noteq> 0"
  by (simp add: hex_digit_def)

lemma utf8_hex: "length (utf8_bytes (hex_lower bs)) = 2 * length bs"
  using hex_digit_code nibbles_small
  by (induction bs) (simp_all add: hex_lower_def utf8_bytes_def utf8_char_def Let_def)

lemma signature_matches:
  fixes tag :: "byte list"
  assumes "length tag = 32"
  shows "constant_time_eq (utf8_bytes (hex_lower tag)) (utf8_bytes h)
    \<longleftrightarrow> (\<exists>k. h = hex_lower tag @ replicate (256 * k) (CHR 0x00))"
proof
  assume "constant_time_eq (utf8_bytes (hex_lower tag)) (utf8_bytes h)"
  then obtain k where k: "utf8_bytes (hex_lower tag) = utf8_bytes h @ replicate (256 * k) 0
      \<or> utf8_bytes h = utf8_bytes (hex_lower tag) @ replicate (256 * k) 0"
    unfolding constant_time_eq_iff by blast
  have "utf8_bytes h = utf8_bytes (hex_lower tag @ replicate (256 * k) (CHR 0x00))"
    using k
  proof
    assume eq: "utf8_bytes (hex_lower tag) = utf8_bytes h @ replicate (256 * k) 0"
    then have "length (utf8_bytes h) + 256 * k = 64" using assms utf8_hex [of tag] by (metis length_append length_replicate mult_2 numeral_Bit0)
    then have "k = 0" by simp
    then show ?thesis using eq by simp
  qed (simp add: utf8_append utf8_nuls)
  then show "\<exists>k. h = hex_lower tag @ replicate (256 * k) (CHR 0x00)" using utf8_inj by blast
next
  assume "\<exists>k. h = hex_lower tag @ replicate (256 * k) (CHR 0x00)"
  then show "constant_time_eq (utf8_bytes (hex_lower tag)) (utf8_bytes h)"
    unfolding constant_time_eq_iff by (auto simp: utf8_append utf8_nuls)
qed

lemma strip_prefix_Some: "strip_prefix pre s = Some r \<longleftrightarrow> s = pre @ r"
  by (induction pre s rule: strip_prefix.induct) auto

lemma verify_signature_iff:
  "verify_signature secrets handle headers body \<longleftrightarrow>
     connection_id_new handle = Inr handle
     \<and> (\<exists>secret k. secrets handle = Some secret
          \<and> headers signature_header = Some (sign_body secret body @ replicate (256 * k) (CHR 0x00)))"
proof -
  have len: "length (hmac_sha256 secret body) = 32" for secret
    by (simp add: hmac_sha256_def Let_def length_sha256)
  show ?thesis
  proof (cases "connection_id_new handle")
    case (Inl e)
    then show ?thesis by (auto simp: verify_signature_def split: option.splits)
  next
    case (Inr a)
    then have a: "a = handle" by (auto simp: connection_id_new_def split: if_splits option.splits)
    show ?thesis
      by (auto simp: verify_signature_def sign_body_def signature_matches len strip_prefix_Some Inr a sig_version_def
          split: option.splits)
  qed
qed

section \<open>Properties\<close>


end
