(* ===== verification/Watch_Dispatch.thy ===== *)
theory Watch_Dispatch
  imports Server_Runtime Watch_Event Watch_Fire Watch_Guard Watch_Bind
begin

text \<open>
  Dispatch of events, \<open>crates/watchtower/src/dispatch.rs\<close>, and the loop that feeds it,
  \<open>crates/qfs/src/watchtower.rs\<close>: an event off the channel is matched against the live triggers, guarded,
  bound into the handler, committed, and acknowledged unless a commit failed. Parameters, in
  \<open>dispatch_env\<close>: reading a stored body back (serde), the text of a JSON value, the statement gate, the
  committer. One reading of the clock serves an event.
\<close>

section \<open>The dispatcher\<close>

datatype dispatched = Fired nat | Duplicate | NoMatch | Gated

definition should_ack :: "dispatched \<Rightarrow> bool" where
  "should_ack d = True"

record ('j, 's, 'e) dispatch_env =
  de_rehydrate :: "string \<Rightarrow> 'e + statement"
  de_json :: "'j \<Rightarrow> string"
  de_gate :: "string \<Rightarrow> statement \<Rightarrow> string + unit"
  de_committer :: "'s committer"

record 's dispatcher =
  dp_seen :: "string set"
  dp_comm :: 's
  dp_audit :: "audit_entry list"

definition dispatcher_new :: "'s \<Rightarrow> 's dispatcher" where
  "dispatcher_new s = \<lparr>dp_seen = {}, dp_comm = s, dp_audit = []\<rparr>"

definition has_seen :: "'s dispatcher \<Rightarrow> string \<Rightarrow> bool" where
  "has_seen d key \<longleftrightarrow> key \<in> dp_seen d"

definition passes_guard :: "('j, 's, 'e) dispatch_env \<Rightarrow> trigger_def \<Rightarrow> string list \<Rightarrow> 'j row \<Rightarrow> bool" where
  "passes_guard env t cols row =
     (if td_predicate t = [] then True
      else case de_rehydrate env (td_predicate t) of
             Inl _ \<Rightarrow> False
           | Inr g \<Rightarrow> (case guard_matches g cols row of Inr m \<Rightarrow> m | Inl _ \<Rightarrow> False))"

definition bound_handler :: "('j, 's, 'e) dispatch_env \<Rightarrow> trigger_def \<Rightarrow> 'j new_bindings \<Rightarrow> statement option" where
  "bound_handler env t binds =
     (if td_plan t = [] then None
      else case de_rehydrate env (td_plan t) of
             Inl _ \<Rightarrow> None
           | Inr s \<Rightarrow> Some (bind_new (de_json env) binds s))"

definition trigger_matches :: "trigger_def \<Rightarrow> 'j event \<Rightarrow> bool" where
  "trigger_matches t e \<longleftrightarrow> td_on t = ev_source e \<or> td_on t = event_kind_label (ev_kind e)"

definition allow_record :: "trigger_def \<Rightarrow> fire_outcome \<Rightarrow> i64 \<Rightarrow> fired_record" where
  "allow_record t out now =
     \<lparr>fr_handler = ''trigger:'' @ td_name t, fr_policy = (case td_policy t of Some p \<Rightarrow> p | None \<Rightarrow> []),
      fr_decision = FAllow, fr_effects = fo_effects out, fr_ts = now\<rparr>"

definition deny_record :: "trigger_def \<Rightarrow> string \<Rightarrow> driver_id \<Rightarrow> nat option \<Rightarrow> string list \<Rightarrow> i64 \<Rightarrow> fired_record" where
  "deny_record t v driver rule effects now =
     \<lparr>fr_handler = ''trigger:'' @ td_name t, fr_policy = (case td_policy t of Some p \<Rightarrow> p | None \<Rightarrow> []),
      fr_decision = FDeny v driver rule None, fr_effects = effects, fr_ts = now\<rparr>"

definition log_fired :: "fired_record \<Rightarrow> 's dispatcher \<Rightarrow> 's dispatcher" where
  "log_fired r d = d\<lparr>dp_audit := audit_record_fired (dp_audit d) r\<rparr>"

text \<open>The loop over the matched triggers.\<close>

fun fire_loop ::
  "('j, 's, 'e) dispatch_env \<Rightarrow> 'j event \<Rightarrow> i64 \<Rightarrow> trigger_def list \<Rightarrow> nat \<Rightarrow> 's dispatcher
     \<Rightarrow> 's dispatcher \<times> (fire_error + nat)" where
  "fire_loop env e now [] fired d = (d, Inr fired)"
| "fire_loop env e now (t # ts) fired d =
     (if \<not> passes_guard env t (ev_columns e) (ev_new e) then fire_loop env e now ts fired d
      else case bound_handler env t (new_bindings_from_row (ev_columns e) (row_values (ev_new e))) of
             None \<Rightarrow> fire_loop env e now ts fired d
           | Some stmt \<Rightarrow>
               (case de_gate env (td_name t) stmt of
                  Inl _ \<Rightarrow> fire_loop env e now ts fired d
                | Inr _ \<Rightarrow>
                    (case de_committer env (td_name t) stmt (td_policy t) None (dp_comm d) of
                       (c, Inr out) \<Rightarrow>
                         fire_loop env e now ts (fired + 1) (log_fired (allow_record t out now) (d\<lparr>dp_comm := c\<rparr>))
                     | (c, Inl (FePolicyDenied reason v driver rule effects)) \<Rightarrow>
                         fire_loop env e now ts fired (log_fired (deny_record t v driver rule effects now) (d\<lparr>dp_comm := c\<rparr>))
                     | (c, Inl err) \<Rightarrow> (d\<lparr>dp_comm := c\<rparr>, Inl err))))"

definition dispatch_event ::
  "('j, 's, 'e) dispatch_env \<Rightarrow> 'j event \<Rightarrow> trigger_def list \<Rightarrow> i64 \<Rightarrow> 's dispatcher \<Rightarrow> 's dispatcher \<times> (fire_error + dispatched)" where
  "dispatch_event env e triggers now d =
     (if has_seen d (ev_dedup_key e) then (d, Inr Duplicate)
      else let matched = filter (\<lambda>t. trigger_matches t e) triggers in
           if matched = [] then (d, Inr NoMatch)
           else case fire_loop env e now matched 0 d of
                  (d', Inl err) \<Rightarrow> (d', Inl err)
                | (d', Inr fired) \<Rightarrow>
                    if fired > 0 then (d'\<lparr>dp_seen := insert (ev_dedup_key e) (dp_seen d')\<rparr>, Inr (Fired fired))
                    else (d', Inr Gated))"

section \<open>The loop\<close>

record ('j, 's) tower =
  tw_bus :: "'j local_bus"
  tw_disp :: "'s dispatcher"
  tw_triggers :: "trigger_def list"

text \<open>The daemon's steps: an event is published, the loop takes the next event of the channel, the triggers are
  reconciled. The label says what happened.\<close>

datatype 'j tower_label =
    LPublish "'j event"
  | LDispatch "'j event" "fire_error + dispatched"
  | LReconcile "trigger_def list"

definition receive :: "('j, 's, 'e) dispatch_env \<Rightarrow> i64 \<Rightarrow> ('j, 's) tower \<Rightarrow> (('j, 's) tower \<times> 'j tower_label) option" where
  "receive env now tw =
     (case bus_queue (tw_bus tw) of
        [] \<Rightarrow> None
      | e # q \<Rightarrow>
          (let bus = (tw_bus tw)\<lparr>bus_queue := q\<rparr> in
           case dispatch_event env e (tw_triggers tw) now (tw_disp tw) of
             (d, Inr out) \<Rightarrow>
               Some (tw\<lparr>tw_bus := (if should_ack out then bus_ack bus (ev_id e) else bus), tw_disp := d\<rparr>, LDispatch e (Inr out))
           | (d, Inl err) \<Rightarrow> Some (tw\<lparr>tw_bus := bus, tw_disp := d\<rparr>, LDispatch e (Inl err))))"

inductive tower_step :: "('j, 's, 'e) dispatch_env \<Rightarrow> ('j, 's) tower \<Rightarrow> 'j tower_label \<Rightarrow> ('j, 's) tower \<Rightarrow> bool"
  for env where
  ts_publish: "tower_step env tw (LPublish e) (tw\<lparr>tw_bus := fst (publish (tw_bus tw) e)\<rparr>)"
| ts_receive: "receive env now tw = Some (tw', l) \<Longrightarrow> tower_step env tw l tw'"
| ts_reconcile: "tower_step env tw (LReconcile ts) (tw\<lparr>tw_triggers := ts\<rparr>)"

inductive tower_run :: "('j, 's, 'e) dispatch_env \<Rightarrow> ('j, 's) tower \<Rightarrow> 'j tower_label list \<Rightarrow> ('j, 's) tower \<Rightarrow> bool"
  for env where
  tr_nil: "tower_run env tw [] tw"
| tr_step: "tower_step env tw l tw1 \<Longrightarrow> tower_run env tw1 ls tw2 \<Longrightarrow> tower_run env tw (l # ls) tw2"

inductive_cases tower_step_publishE: "tower_step env tw (LPublish e) tw'"
inductive_cases tower_step_dispatchE: "tower_step env tw (LDispatch e r) tw'"
inductive_cases tower_step_reconcileE: "tower_step env tw (LReconcile ts) tw'"
inductive_cases tower_run_NilE: "tower_run env tw [] tw'"
inductive_cases tower_run_ConsE: "tower_run env tw (l # ls) tw'"

section \<open>The calls of a dispatch\<close>

text \<open>Specification: the handlers an event is bound into, and the committer called on each in turn until one
  fails for good.\<close>

definition eligible :: "('j, 's, 'e) dispatch_env \<Rightarrow> 'j event \<Rightarrow> trigger_def \<Rightarrow> (trigger_def \<times> statement) option" where
  "eligible env e t =
     (if trigger_matches t e \<and> passes_guard env t (ev_columns e) (ev_new e)
      then case bound_handler env t (new_bindings_from_row (ev_columns e) (row_values (ev_new e))) of
             None \<Rightarrow> None
           | Some stmt \<Rightarrow> (case de_gate env (td_name t) stmt of Inl _ \<Rightarrow> None | Inr _ \<Rightarrow> Some (t, stmt))
      else None)"

fun failed_for_good :: "fire_error + fire_outcome \<Rightarrow> bool" where
  "failed_for_good (Inl (FePolicyDenied _ _ _ _ _)) = False"
| "failed_for_good (Inl _) = True"
| "failed_for_good (Inr _) = False"

fun run_calls :: "'s committer \<Rightarrow> (trigger_def \<times> statement) list \<Rightarrow> 's \<Rightarrow> 's \<times> (fire_error + fire_outcome) list" where
  "run_calls com [] s = (s, [])"
| "run_calls com ((t, stmt) # calls) s =
     (case com (td_name t) stmt (td_policy t) None s of
        (s', r) \<Rightarrow> if failed_for_good r then (s', [r]) else (case run_calls com calls s' of (s'', rs) \<Rightarrow> (s'', r # rs)))"

fun record_of :: "i64 \<Rightarrow> trigger_def \<Rightarrow> fire_error + fire_outcome \<Rightarrow> audit_entry option" where
  "record_of now t (Inr out) = Some (AeFiredPlan (allow_record t out now))"
| "record_of now t (Inl (FePolicyDenied reason v driver rule effects)) = Some (AeFiredPlan (deny_record t v driver rule effects now))"
| "record_of now t (Inl _) = None"

definition call_records :: "i64 \<Rightarrow> (trigger_def \<times> statement) list \<Rightarrow> (fire_error + fire_outcome) list \<Rightarrow> audit_entry list" where
  "call_records now calls rs = List.map_filter (\<lambda>(c, r). record_of now (fst c) r) (zip calls rs)"

fun call_result :: "nat \<Rightarrow> (fire_error + fire_outcome) list \<Rightarrow> fire_error + nat" where
  "call_result n [] = Inr n"
| "call_result n (Inr _ # rs) = call_result (n + 1) rs"
| "call_result n (Inl e # rs) = (if failed_for_good (Inl e) then Inl e else call_result n rs)"

lemma map_filter_Cons: "List.map_filter f (x # xs) = (case f x of None \<Rightarrow> List.map_filter f xs | Some y \<Rightarrow> y # List.map_filter f xs)"
  by (simp add: List.map_filter_def split: option.split)

lemma map_filter_Nil: "List.map_filter f [] = []"
  by (simp add: List.map_filter_def)

lemma fire_loop_calls:
  assumes "\<forall>t\<in>set ts. trigger_matches t e"
  shows "fire_loop env e now ts n d =
    (case run_calls (de_committer env) (List.map_filter (eligible env e) ts) (dp_comm d) of
       (c, rs) \<Rightarrow> (d\<lparr>dp_comm := c, dp_audit := dp_audit d @ call_records now (List.map_filter (eligible env e) ts) rs\<rparr>, call_result n rs))"
  using assms
proof (induction ts arbitrary: n d)
  case Nil
  then show ?case by (simp add: map_filter_Nil call_records_def)
next
  case (Cons t ts)
  let ?calls = "List.map_filter (eligible env e) ts"
  have IH: "fire_loop env e now ts n d =
    (case run_calls (de_committer env) ?calls (dp_comm d) of
       (c, rs) \<Rightarrow> (d\<lparr>dp_comm := c, dp_audit := dp_audit d @ call_records now ?calls rs\<rparr>, call_result n rs))" for n d
    using Cons by simp
  have match: "trigger_matches t e" using Cons.prems by simp
  show ?case
  proof (cases "eligible env e t")
    case None
    then have "fire_loop env e now (t # ts) n d = fire_loop env e now ts n d"
      using match by (auto simp: eligible_def split: if_splits option.splits sum.splits)
    then show ?thesis using IH None by (simp add: map_filter_Cons)
  next
    case (Some c)
    obtain stmt u where el: "passes_guard env t (ev_columns e) (ev_new e)" "c = (t, stmt)" "de_gate env (td_name t) stmt = Inr u"
      "bound_handler env t (new_bindings_from_row (ev_columns e) (row_values (ev_new e))) = Some stmt"
      using Some match by (auto simp: eligible_def split: if_splits option.splits sum.splits)
    obtain s' r where com: "de_committer env (td_name t) stmt (td_policy t) None (dp_comm d) = (s', r)" by fastforce
    obtain s2 rs where rest: "run_calls (de_committer env) ?calls s' = (s2, rs)" by fastforce
    show ?thesis
    proof (cases r)
      case (Inr out)
      then show ?thesis using el com rest Some IH
        by (simp add: map_filter_Cons call_records_def log_fired_def audit_record_fired_def audit_record_def)
    next
      case (Inl err)
      then show ?thesis using el com rest Some IH
        by (cases err) (simp_all add: map_filter_Cons map_filter_Nil call_records_def log_fired_def audit_record_fired_def audit_record_def)
    qed
  qed
qed

lemma eligible_unmatched: "\<not> trigger_matches t e \<Longrightarrow> eligible env e t = None"
  by (simp add: eligible_def)

lemma eligible_matches: "List.map_filter (eligible env e) (filter (\<lambda>t. trigger_matches t e) ts) = List.map_filter (eligible env e) ts"
  by (induction ts) (simp_all add: map_filter_Cons map_filter_Nil eligible_unmatched cong: option.case_cong)

section \<open>The interface of a committer\<close>

locale framed_committer =
  fixes com :: "'s committer"
  assumes refused_frame: "com t stmt pol p s = (s', Inl e) \<Longrightarrow> refused e \<Longrightarrow> s' = s"
begin

lemma denied_calls_frame: "run_calls com calls s = (s', rs) \<Longrightarrow> call_result n rs = Inr n \<Longrightarrow> s' = s"
proof (induction calls arbitrary: s rs)
  case (Cons c calls)
  obtain t stmt where c: "c = (t, stmt)" by (cases c)
  obtain s1 r where com: "com (td_name t) stmt (td_policy t) None s = (s1, r)" by fastforce
  obtain s2 rs2 where rest: "run_calls com calls s1 = (s2, rs2)" by fastforce
  have grow: "call_result m xs = Inr k \<Longrightarrow> m \<le> k" for m k xs
    by (induction m xs rule: call_result.induct) (auto split: if_splits)
  show ?case
  proof (cases r)
    case (Inr out)
    then have "call_result (Suc n) rs2 = Inr n" using Cons.prems c com rest by auto
    then show ?thesis using grow by fastforce
  next
    case (Inl e)
    then have e: "\<not> failed_for_good (Inl e)" using Cons.prems c com rest by (auto split: if_splits)
    then have "refused e" by (cases e) (simp_all add: refused_def)
    then have "s1 = s" using refused_frame com Inl by blast
    then show ?thesis using Cons.IH [of s1 rs2] Cons.prems c com rest Inl e by auto
  qed
qed simp

end

interpretation live: framed_committer "live_commit build reason render apply_plan table"
  for build :: "statement \<Rightarrow> string + 'j plan" and reason render apply_plan table
  by unfold_locales (rule live_commit_refused)

interpretation recording: framed_committer "recording_commit build reason render show_error table"
  for build :: "statement \<Rightarrow> string + 'j plan" and reason render show_error table
  by unfold_locales
    (auto simp: recording_commit_def refused_def Let_def split: option.splits sum.splits prod.splits)

section \<open>Properties\<close>

lemma dispatch_event_calls:
  assumes "\<not> has_seen d (ev_dedup_key e)" and "\<exists>t\<in>set triggers. trigger_matches t e"
    and "run_calls (de_committer env) (List.map_filter (eligible env e) triggers) (dp_comm d) = (c, rs)"
  shows "dispatch_event env e triggers now d =
    (let d' = d\<lparr>dp_comm := c, dp_audit := dp_audit d @ call_records now (List.map_filter (eligible env e) triggers) rs\<rparr> in
     case call_result 0 rs of
       Inl err \<Rightarrow> (d', Inl err)
     | Inr n \<Rightarrow> if n > 0 then (d'\<lparr>dp_seen := insert (ev_dedup_key e) (dp_seen d)\<rparr>, Inr (Fired n)) else (d', Inr Gated))"
proof -
  have "filter (\<lambda>t. trigger_matches t e) triggers \<noteq> []" using assms(2) by (auto simp: filter_empty_conv)
  then show ?thesis
    using assms(1,3) fire_loop_calls [of "filter (\<lambda>t. trigger_matches t e) triggers" e env now 0 d]
    by (simp add: dispatch_event_def eligible_matches Let_def split: sum.split)
qed

text \<open>C36: what a dispatch does, on every branch. An event whose key has fired is acknowledged without a call; one
  no trigger matches calls nothing. Otherwise the committer is called on the handlers of the matching
  triggers whose guard passes, whose body reads back and whose gate agrees, bound to the event, in
  trigger order, until one fails for good; there is one audit record for each call that committed or
  was denied and none else; the key is remembered exactly if a handler fired and none failed for good.\<close>

theorem dispatch_exact:
  "dispatch_event env e triggers now d =
    (if has_seen d (ev_dedup_key e) then (d, Inr Duplicate)
     else if \<not> (\<exists>t\<in>set triggers. trigger_matches t e) then (d, Inr NoMatch)
     else let calls = List.map_filter (eligible env e) triggers in
       case run_calls (de_committer env) calls (dp_comm d) of (c, rs) \<Rightarrow>
         (let d' = d\<lparr>dp_comm := c, dp_audit := dp_audit d @ call_records now calls rs\<rparr> in
          case call_result 0 rs of
            Inl err \<Rightarrow> (d', Inl err)
          | Inr 0 \<Rightarrow> (d', Inr Gated)
          | Inr n \<Rightarrow> (d'\<lparr>dp_seen := insert (ev_dedup_key e) (dp_seen d)\<rparr>, Inr (Fired n))))"
proof (cases "has_seen d (ev_dedup_key e) \<or> \<not> (\<exists>t\<in>set triggers. trigger_matches t e)")
  case True
  then show ?thesis by (auto simp: dispatch_event_def Let_def filter_empty_conv)
next
  case False
  obtain c rs where calls: "run_calls (de_committer env) (List.map_filter (eligible env e) triggers) (dp_comm d) = (c, rs)"
    by fastforce
  show ?thesis
    using False dispatch_event_calls [OF _ _ calls, of now] calls
    by (simp add: Let_def split: sum.split nat.split)
qed

lemma dispatch_seen:
  assumes "dispatch_event env e triggers now d = (d', r)"
  shows "dp_seen d' = (case r of Inr (Fired _) \<Rightarrow> insert (ev_dedup_key e) (dp_seen d) | _ \<Rightarrow> dp_seen d)"
    "r = Inr (Fired n) \<Longrightarrow> ev_dedup_key e \<notin> dp_seen d"
proof -
  obtain c rs where calls: "run_calls (de_committer env) (List.map_filter (eligible env e) triggers) (dp_comm d) = (c, rs)"
    by fastforce
  consider "has_seen d (ev_dedup_key e)" | "\<not> has_seen d (ev_dedup_key e)" "\<not> (\<exists>t\<in>set triggers. trigger_matches t e)"
    | "\<not> has_seen d (ev_dedup_key e)" "\<exists>t\<in>set triggers. trigger_matches t e" by blast
  then have "dp_seen d' = (case r of Inr (Fired _) \<Rightarrow> insert (ev_dedup_key e) (dp_seen d) | _ \<Rightarrow> dp_seen d)
      \<and> (r = Inr (Fired n) \<longrightarrow> ev_dedup_key e \<notin> dp_seen d)"
  proof cases
    case 1
    then show ?thesis using assms by (auto simp: dispatch_event_def)
  next
    case 2
    then have "filter (\<lambda>t. trigger_matches t e) triggers = []" by (simp add: filter_empty_conv)
    then show ?thesis using assms 2 by (auto simp: dispatch_event_def)
  next
    case 3
    from dispatch_event_calls [OF 3 calls, of now] assms 3(1) show ?thesis
      by (auto simp: Let_def has_seen_def split: sum.splits if_splits)
  qed
  then show "dp_seen d' = (case r of Inr (Fired _) \<Rightarrow> insert (ev_dedup_key e) (dp_seen d) | _ \<Rightarrow> dp_seen d)"
    "r = Inr (Fired n) \<Longrightarrow> ev_dedup_key e \<notin> dp_seen d" by blast+
qed

lemma receive_cases:
  assumes "receive env now tw = Some (tw', l)"
  obtains e q d r where "bus_queue (tw_bus tw) = e # q" "dispatch_event env e (tw_triggers tw) now (tw_disp tw) = (d, r)"
    "l = LDispatch e r" "tw_disp tw' = d" "bus_queue (tw_bus tw') = q"
    "bus_spool (tw_bus tw') = (case r of Inr _ \<Rightarrow> bt_remove (ev_id e) (bus_spool (tw_bus tw)) | Inl _ \<Rightarrow> bus_spool (tw_bus tw))"
  using assms
  by (cases "bus_queue (tw_bus tw)")
    (auto simp: receive_def Let_def should_ack_def bus_ack_def split: prod.splits sum.splits)

definition fired_keys :: "'j tower_label list \<Rightarrow> string list" where
  "fired_keys ls = List.map_filter (\<lambda>l. case l of LDispatch e (Inr (Fired _)) \<Rightarrow> Some (ev_dedup_key e) | _ \<Rightarrow> None) ls"

lemma run_fired_keys:
  "tower_run env tw ls tw' \<Longrightarrow>
     distinct (fired_keys ls) \<and> set (fired_keys ls) \<inter> dp_seen (tw_disp tw) = {} \<and> dp_seen (tw_disp tw) \<subseteq> dp_seen (tw_disp tw')"
proof (induction rule: tower_run.induct)
  case (tr_nil tw)
  then show ?case by (simp add: fired_keys_def map_filter_Nil)
next
  case (tr_step tw l tw1 ls tw2)
  from tr_step.hyps(1) show ?case
  proof cases
    case (ts_publish e)
    then show ?thesis using tr_step.IH by (simp add: fired_keys_def map_filter_Cons)
  next
    case (ts_receive now)
    then obtain e q d r where r: "dispatch_event env e (tw_triggers tw) now (tw_disp tw) = (d, r)"
      "l = LDispatch e r" "tw_disp tw1 = d" by (rule receive_cases)
    note seen = dispatch_seen [OF r(1)]
    show ?thesis
    proof (cases "\<exists>n. r = Inr (Fired n)")
      case True
      then obtain n where n: "r = Inr (Fired n)" by blast
      then show ?thesis using tr_step.IH seen(1) seen(2) [OF n] r(2,3)
        by (auto simp: fired_keys_def map_filter_Cons)
    next
      case False
      then have "dp_seen d = dp_seen (tw_disp tw)" using seen(1) by (auto split: sum.splits dispatched.splits)
      moreover have "fired_keys (l # ls) = fired_keys ls"
        using False r(2) by (cases r) (auto simp: fired_keys_def map_filter_Cons split: dispatched.split)
      ultimately show ?thesis using tr_step.IH r(3) by simp
    qed
  next
    case (ts_reconcile ts)
    then show ?thesis using tr_step.IH by (simp add: fired_keys_def map_filter_Cons)
  qed
qed


definition empty_tower :: "'s \<Rightarrow> trigger_def list \<Rightarrow> ('j, 's) tower" where
  "empty_tower s ts = \<lparr>tw_bus = bus_new 4, tw_disp = dispatcher_new s, tw_triggers = ts\<rparr>"

definition demo_event :: "unit event" where
  "demo_event = event_new ''e1'' ''/mail'' EkRowAppended ''7'' [''id''] \<lparr>row_values = [VInt 7]\<rparr> 0"

definition demo_trigger :: trigger_def where
  "demo_trigger = \<lparr>td_name = ''t'', td_on = ''/mail'', td_predicate = [], td_plan = ''p'', td_policy = None\<rparr>"

definition demo_env :: "fire_error + fire_outcome \<Rightarrow> (unit, nat, unit) dispatch_env" where
  "demo_env r =
     \<lparr>de_rehydrate = (\<lambda>_. Inr (StQuery (Pipeline (SrcName ''x'') []))), de_json = (\<lambda>_. []), de_gate = (\<lambda>_ _. Inr ()),
      de_committer = (\<lambda>_ _ _ _ n. (n + 1, r))\<rparr>"

definition demo_outcome :: fire_outcome where
  "demo_outcome = \<lparr>fo_plan_summary = [], fo_affected = 1, fo_effects = []\<rparr>"

lemma demo_bound: "bound_handler (demo_env r) demo_trigger binds \<noteq> None"
  by (simp add: bound_handler_def demo_env_def demo_trigger_def)

lemma demo_receive:
  "receive (demo_env r) 0 (empty_tower 0 [demo_trigger]\<lparr>tw_bus := fst (publish (bus_new 4) demo_event)\<rparr>)
     = (case r of
          Inr out \<Rightarrow> Some (\<lparr>tw_bus = bus_new 4, tw_disp = \<lparr>dp_seen = {ev_dedup_key demo_event}, dp_comm = 1,
              dp_audit = [AeFiredPlan (allow_record demo_trigger out 0)]\<rparr>, tw_triggers = [demo_trigger]\<rparr>, LDispatch demo_event (Inr (Fired 1)))
        | Inl (FePolicyDenied reason v driver rule effects) \<Rightarrow>
            Some (\<lparr>tw_bus = bus_new 4, tw_disp = \<lparr>dp_seen = {}, dp_comm = 1,
              dp_audit = [AeFiredPlan (deny_record demo_trigger v driver rule effects 0)]\<rparr>, tw_triggers = [demo_trigger]\<rparr>, LDispatch demo_event (Inr Gated))
        | Inl err \<Rightarrow> Some (\<lparr>tw_bus = (bus_new 4)\<lparr>bus_spool := [(ev_id demo_event, demo_event)]\<rparr>,
              tw_disp = \<lparr>dp_seen = {}, dp_comm = 1, dp_audit = []\<rparr>, tw_triggers = [demo_trigger]\<rparr>, LDispatch demo_event (Inl err)))"
proof -
  obtain stmt where "bound_handler (demo_env r) demo_trigger
      (new_bindings_from_row (ev_columns demo_event) (row_values (ev_new demo_event))) = Some stmt"
    using demo_bound by blast
  moreover have "passes_guard (demo_env r) demo_trigger cols row" for cols row
    by (simp add: passes_guard_def demo_trigger_def)
  moreover have "trigger_matches demo_trigger demo_event"
    by (simp add: trigger_matches_def demo_trigger_def demo_event_def event_new_def)
  ultimately show ?thesis
    by (cases r; cases "projl r")
      (simp_all add: receive_def empty_tower_def bus_new_def publish_def try_send_def Let_def dispatch_event_def has_seen_def
        dispatcher_new_def log_fired_def audit_record_fired_def audit_record_def should_ack_def bus_ack_def bt_remove_def demo_env_def)
qed


lemma step_spool:
  assumes "tower_step env tw l tw1" and "map_of (bus_spool (tw_bus tw)) i \<noteq> None"
  shows "map_of (bus_spool (tw_bus tw1)) i \<noteq> None \<or> (\<exists>e out. l = LDispatch e (Inr out) \<and> ev_id e = i)"
  using assms(1)
proof cases
  case (ts_publish e)
  have "bus_spool (fst (publish (tw_bus tw) e)) = bt_insert (ev_id e) e (bus_spool (tw_bus tw))"
    by (simp add: publish_def try_send_def Let_def)
  then show ?thesis using assms(2) ts_publish by (simp add: bt_get_insert)
next
  case (ts_receive now)
  then obtain e q d r where "l = LDispatch e r"
    "bus_spool (tw_bus tw1) = (case r of Inr _ \<Rightarrow> bt_remove (ev_id e) (bus_spool (tw_bus tw)) | Inl _ \<Rightarrow> bus_spool (tw_bus tw))"
    by (rule receive_cases)
  then show ?thesis using assms(2) by (cases r) (auto simp: bt_get_remove)
next
  case (ts_reconcile ts)
  then show ?thesis using assms(2) by simp
qed

lemma run_spool:
  "tower_run env tw ls tw' \<Longrightarrow> map_of (bus_spool (tw_bus tw)) i \<noteq> None \<Longrightarrow>
     map_of (bus_spool (tw_bus tw')) i \<noteq> None \<or> (\<exists>e out. LDispatch e (Inr out) \<in> set ls \<and> ev_id e = i)"
proof (induction rule: tower_run.induct)
  case (tr_step tw l tw1 ls tw2)
  from step_spool [OF tr_step.hyps(1) tr_step.prems] tr_step.IH show ?case by auto
qed simp

lemma run_append: "tower_run env tw (ls @ ls') tw' \<Longrightarrow> \<exists>tw1. tower_run env tw ls tw1 \<and> tower_run env tw1 ls' tw'"
proof (induction ls arbitrary: tw)
  case Nil
  then show ?case using tower_run.tr_nil by auto
next
  case (Cons l ls)
  from Cons.prems obtain tw1 where "tower_step env tw l tw1" "tower_run env tw1 (ls @ ls') tw'"
    by (auto elim: tower_run_ConsE)
  with Cons.IH [of tw1] show ?case by (blast intro: tower_run.tr_step)
qed

text \<open>Nothing published is lost from the spool. Whatever happens after an event was published, also if the
  channel was full, it stays in the spool until a dispatch of an event with its id was acknowledged.\<close>

theorem published_until_acked:
  assumes "tower_run env tw (ls @ LPublish e # ls') tw'"
  shows "map_of (bus_spool (tw_bus tw')) (ev_id e) \<noteq> None \<or> (\<exists>e' out. LDispatch e' (Inr out) \<in> set ls' \<and> ev_id e' = ev_id e)"
proof -
  obtain tw1 where "tower_run env tw1 (LPublish e # ls') tw'" using run_append [OF assms] by blast
  then obtain tw2 where step: "tower_step env tw1 (LPublish e) tw2" and run: "tower_run env tw2 ls' tw'"
    by (auto elim: tower_run_ConsE)
  from step have "map_of (bus_spool (tw_bus tw2)) (ev_id e) \<noteq> None"
  proof cases
    case ts_publish
    then show ?thesis by (simp add: publish_def try_send_def Let_def bt_get_insert)
  next
    case (ts_receive now)
    then show ?thesis by (auto elim: receive_cases)
  qed
  from run_spool [OF run this] show ?thesis .
qed

theorem published_until_acked_witness:
  "map_of (bus_spool (fst (publish (bus_new 4) demo_event))) (ev_id demo_event) \<noteq> None"
proof -
  let ?tw = "empty_tower 0 [] :: (unit, nat) tower"
  have "tower_run (demo_env (Inr demo_outcome)) ?tw ([] @ [LPublish demo_event])
      (?tw\<lparr>tw_bus := fst (publish (tw_bus ?tw) demo_event)\<rparr>)"
    unfolding append_Nil by (rule tr_step [OF ts_publish tr_nil])
  from published_until_acked [OF this] show ?thesis by (simp add: empty_tower_def)
qed

lemma queue_of_step:
  assumes "tower_step env tw l tw1" and "i \<notin> ev_id ` set (bus_queue (tw_bus tw))" and "\<And>e. l = LPublish e \<Longrightarrow> ev_id e \<noteq> i"
  shows "i \<notin> ev_id ` set (bus_queue (tw_bus tw1)) \<and> (\<forall>e r. l = LDispatch e r \<longrightarrow> ev_id e \<noteq> i)"
  using assms(1)
proof cases
  case (ts_publish e)
  then show ?thesis using assms(2,3) by (auto simp: publish_def try_send_def Let_def)
next
  case (ts_receive now)
  then obtain e q d r where "l = LDispatch e r" "bus_queue (tw_bus tw) = e # q" "bus_queue (tw_bus tw1) = q"
    by (rule receive_cases)
  then show ?thesis using assms(2) by auto
next
  case (ts_reconcile ts)
  then show ?thesis using assms(2) by simp
qed

lemma run_not_dispatched:
  "tower_run env tw ls tw' \<Longrightarrow> i \<notin> ev_id ` set (bus_queue (tw_bus tw)) \<Longrightarrow> \<forall>e. LPublish e \<in> set ls \<longrightarrow> ev_id e \<noteq> i
     \<Longrightarrow> \<forall>e r. LDispatch e r \<in> set ls \<longrightarrow> ev_id e \<noteq> i"
proof (induction rule: tower_run.induct)
  case (tr_step tw l tw1 ls tw2)
  have "i \<notin> ev_id ` set (bus_queue (tw_bus tw1)) \<and> (\<forall>e r. l = LDispatch e r \<longrightarrow> ev_id e \<noteq> i)"
    using queue_of_step [OF tr_step.hyps(1) tr_step.prems(1)] tr_step.prems(2) by auto
  with tr_step.IH tr_step.prems(2) show ?case by auto
qed simp

text \<open>C38: a failed event is not delivered again. After a dispatch that failed, if no other copy of the event is in
  the channel, no step of the daemon ever dispatches it again unless its source publishes it anew; it
  stays in the spool for good. The loop has no step that redelivers.\<close>

theorem failed_event_stuck:
  assumes "tower_run env tw (LDispatch e (Inl err) # ls) tw'"
    and "filter (\<lambda>x. ev_id x = ev_id e) (bus_queue (tw_bus tw)) = [e]" and "\<forall>x. LPublish x \<in> set ls \<longrightarrow> ev_id x \<noteq> ev_id e"
    and "map_of (bus_spool (tw_bus tw)) (ev_id e) \<noteq> None"
  shows "(\<forall>x r. LDispatch x r \<in> set ls \<longrightarrow> ev_id x \<noteq> ev_id e) \<and> map_of (bus_spool (tw_bus tw')) (ev_id e) \<noteq> None"
proof -
  obtain tw1 where step: "tower_step env tw (LDispatch e (Inl err)) tw1" and run: "tower_run env tw1 ls tw'"
    using assms(1) by (auto elim: tower_run_ConsE)
  from step obtain now where "receive env now tw = Some (tw1, LDispatch e (Inl err))" by cases
  then obtain q where q: "bus_queue (tw_bus tw) = e # q" "bus_queue (tw_bus tw1) = q"
    "bus_spool (tw_bus tw1) = bus_spool (tw_bus tw)"
    by (rule receive_cases) auto
  have "ev_id e \<notin> ev_id ` set (bus_queue (tw_bus tw1))"
    using assms(2) q by (auto simp: filter_empty_conv)
  then have never: "\<forall>x r. LDispatch x r \<in> set ls \<longrightarrow> ev_id x \<noteq> ev_id e"
    using run_not_dispatched [OF run _ assms(3)] by blast
  have "map_of (bus_spool (tw_bus tw1)) (ev_id e) \<noteq> None" using q(3) assms(4) by simp
  from run_spool [OF run this] never show ?thesis by blast
qed

theorem failed_event_stuck_witness:
  "map_of (bus_spool (tw_bus \<lparr>tw_bus = (bus_new 4)\<lparr>bus_spool := [(ev_id demo_event, demo_event)]\<rparr>,
     tw_disp = \<lparr>dp_seen = {}, dp_comm = 1 :: nat, dp_audit = []\<rparr>, tw_triggers = [demo_trigger]\<rparr>)) (ev_id demo_event) \<noteq> None"
proof -
  let ?tw = "empty_tower 0 [demo_trigger]\<lparr>tw_bus := fst (publish (bus_new 4) demo_event)\<rparr>"
  let ?tw' = "\<lparr>tw_bus = (bus_new 4)\<lparr>bus_spool := [(ev_id demo_event, demo_event)]\<rparr>,
     tw_disp = \<lparr>dp_seen = {}, dp_comm = 1 :: nat, dp_audit = []\<rparr>, tw_triggers = [demo_trigger]\<rparr>"
  have "receive (demo_env (Inl (FeApply ''down''))) 0 ?tw = Some (?tw', LDispatch demo_event (Inl (FeApply ''down'')))"
    by (simp add: demo_receive)
  then have run: "tower_run (demo_env (Inl (FeApply ''down''))) ?tw [LDispatch demo_event (Inl (FeApply ''down''))] ?tw'"
    by (blast intro: tr_step ts_receive tr_nil)
  have "filter (\<lambda>x. ev_id x = ev_id demo_event) (bus_queue (tw_bus ?tw)) = [demo_event]"
    "map_of (bus_spool (tw_bus ?tw)) (ev_id demo_event) \<noteq> None"
    by (simp_all add: publish_def try_send_def bus_new_def empty_tower_def Let_def)
  with failed_event_stuck [OF run] show ?thesis by simp
qed

text \<open>A dispatch that fires nothing changes nothing outside. With the live committer, an event that is a
  duplicate, matches no trigger or is gated leaves the state the plans are applied to as it was, however
  many handlers were tried and denied.\<close>

theorem gated_dispatch_frame:
  assumes "de_committer env = live_commit build reason render apply_plan table"
    and "dispatch_event env e triggers now d = (d', Inr out)" and "\<And>n. out \<noteq> Fired n"
  shows "dp_comm d' = dp_comm d"
proof -
  obtain c rs where calls: "run_calls (de_committer env) (List.map_filter (eligible env e) triggers) (dp_comm d) = (c, rs)"
    by fastforce
  consider "has_seen d (ev_dedup_key e)" | "\<not> has_seen d (ev_dedup_key e)" "\<not> (\<exists>t\<in>set triggers. trigger_matches t e)"
    | "\<not> has_seen d (ev_dedup_key e)" "\<exists>t\<in>set triggers. trigger_matches t e" by blast
  then show ?thesis
  proof cases
    case 1
    then show ?thesis using assms(2) by (simp add: dispatch_event_def)
  next
    case 2
    then have "filter (\<lambda>t. trigger_matches t e) triggers = []" by (simp add: filter_empty_conv)
    then show ?thesis using assms(2) 2 by (simp add: dispatch_event_def)
  next
    case 3
    from dispatch_event_calls [OF 3 calls, of now] assms(2,3)
    have "call_result 0 rs = Inr 0" "dp_comm d' = c" by (auto simp: Let_def split: sum.splits if_splits)
    with live.denied_calls_frame [OF calls [unfolded assms(1)]] show ?thesis by simp
  qed
qed

theorem gated_dispatch_frame_witness:
  "dp_comm (fst (dispatch_event \<lparr>de_rehydrate = (\<lambda>_. Inl ()), de_json = (\<lambda>_. []), de_gate = (\<lambda>_ _. Inr ()),
     de_committer = live_commit (\<lambda>_. Inl ''no plan'' :: string + unit plan) (\<lambda>_. []) (\<lambda>_. []) (\<lambda>_ s. (s + 1, Inr ())) Map.empty\<rparr>
     demo_event [demo_trigger] 0 (dispatcher_new 3))) = (3 :: nat)"
proof -
  let ?env = "\<lparr>de_rehydrate = (\<lambda>_. Inl () :: unit + statement), de_json = (\<lambda>_ :: unit. []), de_gate = (\<lambda>_ _. Inr ()),
     de_committer = live_commit (\<lambda>_. Inl ''no plan'' :: string + unit plan) (\<lambda>_. []) (\<lambda>_. []) (\<lambda>_ s. (s + 1, Inr ())) Map.empty
       :: nat committer\<rparr>"
  have "dispatch_event ?env demo_event [demo_trigger] 0 (dispatcher_new 3) = (dispatcher_new 3, Inr Gated)"
    by (simp add: dispatch_event_def has_seen_def dispatcher_new_def trigger_matches_def demo_trigger_def demo_event_def
        event_new_def passes_guard_def bound_handler_def)
  from gated_dispatch_frame [OF _ this] show ?thesis
    using \<open>dispatch_event _ _ _ _ _ = _\<close> by (simp add: dispatcher_new_def)
qed

end
