(* ===== verification/Watch_Cron.thy ===== *)
theory Watch_Cron
  imports Watch_Dispatch
begin

text \<open>
  Scheduled jobs and agents: the decision of \<open>crates/watchtower/src/cron.rs\<close>, the sweep of
  \<open>crates/qfs/src/sweeper.rs\<close> and the durable stores its marks are kept in, \<open>crates/host/src/{daemon,mock}.rs\<close>.
  Integer overflow wraps, as in the release profile. A sweep is one step: the registry does not change
  under it. The contents of a durable file are text.
\<close>

section \<open>Cadences\<close>

definition i64_from_str :: "string \<Rightarrow> i64 option" where
  "i64_from_str s =
     (let neg = (s \<noteq> [] \<and> hd s = CHR ''-''); signed = (s \<noteq> [] \<and> (hd s = CHR ''-'' \<or> hd s = CHR ''+''));
          ds = (if signed then tl s else s); v = dec_value ds in
      if ds = [] \<or> \<not> list_all is_ascii_digit ds then None
      else if neg then (if int v \<le> 2 ^ 63 then Some (- word_of_nat v) else None)
      else if int v < 2 ^ 63 then Some (word_of_nat v) else None)"

definition interval_secs :: "string \<Rightarrow> i64 option" where
  "interval_secs every =
     (let e = trim every in
      if e = [] \<or> \<not> is_ascii_alpha (last e) then None
      else case i64_from_str (trim (butlast e)) of
             None \<Rightarrow> None
           | Some num \<Rightarrow>
               if sint num \<le> 0 then None
               else let u = ascii_lower [last e] in
                    if u = ''m'' then Some (num * 60) else if u = ''h'' then Some (num * 3600)
                    else if u = ''d'' then Some (num * 86400) else None)"

definition i64_saturating_add :: "i64 \<Rightarrow> i64 \<Rightarrow> i64" where
  "i64_saturating_add a b =
     (let s = sint a + sint b in
      if s > 2 ^ 63 - 1 then word_of_int (2 ^ 63 - 1) else if s < - (2 ^ 63) then word_of_int (- (2 ^ 63)) else word_of_int s)"

definition is_due :: "string \<Rightarrow> i64 option \<Rightarrow> i64 \<Rightarrow> bool" where
  "is_due every last_run now =
     (case interval_secs every of
        None \<Rightarrow> False
      | Some i \<Rightarrow> (case last_run of None \<Rightarrow> True | Some l \<Rightarrow> sint (i64_saturating_add l i) \<le> sint now))"

section \<open>Firing what is due\<close>

datatype cron_outcome = CoFired u64 | CoDenied string | CoBlocked string | CoFailed string

fun outcome_committed :: "cron_outcome \<Rightarrow> bool" where
  "outcome_committed (CoFired _) = True"
| "outcome_committed _ = False"

record cron_run =
  crn_job :: string
  crn_scheduled_at :: i64
  crn_outcome :: cron_outcome
  crn_stamp :: "i64 option"
  crn_principal :: "string option"

fun outcome_of :: "fire_error + fire_outcome \<Rightarrow> cron_outcome" where
  "outcome_of (Inr out) = CoFired (fo_affected out)"
| "outcome_of (Inl (FePolicyDenied reason v driver rule effects)) = CoDenied reason"
| "outcome_of (Inl (FeIrreversibleBlocked reason)) = CoBlocked reason"
| "outcome_of (Inl (FeBuild reason)) = CoFailed reason"
| "outcome_of (Inl (FeApply reason)) = CoFailed reason"

text \<open>\<open>fire_one\<close> and \<open>fire_one_agent\<close>: they differ in the words of the failure and in the principal.\<close>

definition fire_body ::
  "(string \<Rightarrow> string + statement) \<Rightarrow> 's committer \<Rightarrow> string \<Rightarrow> string option \<Rightarrow> string \<Rightarrow> string \<Rightarrow> string option
     \<Rightarrow> string option \<Rightarrow> i64 \<Rightarrow> 's \<Rightarrow> 's \<times> cron_run" where
  "fire_body rehydrate com what agent name body pol label now s =
     (case rehydrate body of
        Inl e \<Rightarrow>
          (s, \<lparr>crn_job = name, crn_scheduled_at = now, crn_outcome = CoFailed (''stored '' @ what @ '' did not rehydrate: '' @ e),
               crn_stamp = None, crn_principal = label\<rparr>)
      | Inr stmt \<Rightarrow>
          (case com name stmt pol agent s of
             (s', r) \<Rightarrow>
               (s', \<lparr>crn_job = name, crn_scheduled_at = now, crn_outcome = outcome_of r,
                     crn_stamp = (if outcome_committed (outcome_of r) then Some now else None), crn_principal = label\<rparr>)))"

definition fire_one :: "(string \<Rightarrow> string + statement) \<Rightarrow> 's committer \<Rightarrow> job_def \<Rightarrow> i64 \<Rightarrow> 's \<Rightarrow> 's \<times> cron_run" where
  "fire_one rehydrate com j now s = fire_body rehydrate com ''JOB body'' None (jd_name j) (jd_plan j) (jd_policy j) None now s"

definition fire_one_agent :: "(string \<Rightarrow> string + statement) \<Rightarrow> 's committer \<Rightarrow> agent_def \<Rightarrow> i64 \<Rightarrow> 's \<Rightarrow> 's \<times> cron_run" where
  "fire_one_agent rehydrate com a now s =
     fire_body rehydrate com ''AGENT function'' (Some (ad_name a)) (ad_name a) (ad_plan a) (ad_policy a)
       (Some (''agent:'' @ ad_name a)) now s"

fun fire_due ::
  "(string \<Rightarrow> string + statement) \<Rightarrow> 's committer \<Rightarrow> job_def list \<Rightarrow> i64 \<Rightarrow> string set \<Rightarrow> 's \<Rightarrow> 's \<times> cron_run list" where
  "fire_due rehydrate com [] now in_flight s = (s, [])"
| "fire_due rehydrate com (j # js) now in_flight s =
     (if jd_name j \<in> in_flight \<or> \<not> is_due (jd_every j) (jd_last_run j) now then fire_due rehydrate com js now in_flight s
      else case fire_one rehydrate com j now s of
             (s', run) \<Rightarrow> (case fire_due rehydrate com js now in_flight s' of (s'', runs) \<Rightarrow> (s'', run # runs)))"

fun fire_due_agents ::
  "(string \<Rightarrow> string + statement) \<Rightarrow> 's committer \<Rightarrow> agent_def list \<Rightarrow> i64 \<Rightarrow> string set \<Rightarrow> 's \<Rightarrow> 's \<times> cron_run list" where
  "fire_due_agents rehydrate com [] now in_flight s = (s, [])"
| "fire_due_agents rehydrate com (a # as) now in_flight s =
     (if ad_every a = [] \<or> ad_plan a = [] \<or> ad_name a \<in> in_flight \<or> \<not> is_due (ad_every a) (ad_last_run a) now
      then fire_due_agents rehydrate com as now in_flight s
      else case fire_one_agent rehydrate com a now s of
             (s', run) \<Rightarrow> (case fire_due_agents rehydrate com as now in_flight s' of (s'', runs) \<Rightarrow> (s'', run # runs)))"

section \<open>Durable marks\<close>

text \<open>A durable store: what is put under a key is read back under every key that names the same cell.\<close>

locale durable_store =
  fixes get :: "'d \<Rightarrow> string \<Rightarrow> string option"
    and put :: "'d \<Rightarrow> string \<Rightarrow> string \<Rightarrow> 'd"
    and same :: "string \<Rightarrow> string \<Rightarrow> bool"
  assumes get_put: "get (put d k v) k' = (if same k k' then Some v else get d k')"
    and same_refl: "same k k"
begin

lemma get_puts: "get (fold (\<lambda>k d. put d k v) ks d) k' = (if \<exists>k\<in>set ks. same k k' then Some v else get d k')"
  by (induction ks arbitrary: d) (auto simp: get_put)

end

type_synonym mem_store = "string \<rightharpoonup> string"

definition mem_get :: "mem_store \<Rightarrow> string \<Rightarrow> string option" where
  "mem_get d k = d k"

definition mem_put :: "mem_store \<Rightarrow> string \<Rightarrow> string \<Rightarrow> mem_store" where
  "mem_put d k v = d(k \<mapsto> v)"

text \<open>The daemon's store: a file per key, its name the key with slashes flattened.\<close>

definition path_for :: "string \<Rightarrow> string" where
  "path_for key = map (\<lambda>c. if c = CHR ''/'' \<or> c = CHR 0x5C then CHR ''_'' else c) key @ ''.state''"

definition file_get :: "mem_store \<Rightarrow> string \<Rightarrow> string option" where
  "file_get files k = files (path_for k)"

definition file_put :: "mem_store \<Rightarrow> string \<Rightarrow> string \<Rightarrow> mem_store" where
  "file_put files k v = files(path_for k \<mapsto> v)"

definition durable_cas :: "('d \<Rightarrow> string \<Rightarrow> string option) \<Rightarrow> ('d \<Rightarrow> string \<Rightarrow> string \<Rightarrow> 'd) \<Rightarrow> 'd \<Rightarrow> string \<Rightarrow> string option \<Rightarrow> string \<Rightarrow> 'd \<times> bool" where
  "durable_cas get put d k expect v = (if get d k = expect then (put d k v, True) else (d, False))"

interpretation mem_durable: durable_store mem_get mem_put "(=)"
  by unfold_locales (simp_all add: mem_get_def mem_put_def)

interpretation file_durable: durable_store file_get file_put "\<lambda>k k'. path_for k = path_for k'"
  by unfold_locales (auto simp: file_get_def file_put_def)

definition last_run_key :: "string \<Rightarrow> string" where
  "last_run_key job = ''cron/'' @ job @ ''/last_run''"

definition agent_last_run_key :: "string \<Rightarrow> string" where
  "agent_last_run_key agent = ''cron/agent/'' @ agent @ ''/last_run''"

definition read_mark :: "('d \<Rightarrow> string \<Rightarrow> string option) \<Rightarrow> 'd \<Rightarrow> string \<Rightarrow> i64 option" where
  "read_mark get d key = Option.bind (get d key) (\<lambda>s. i64_from_str (trim s))"

definition mark_text :: "i64 \<Rightarrow> string" where
  "mark_text stamp = show_int (sint stamp)"

section \<open>A sweep\<close>

definition run_record :: "cron_run \<Rightarrow> job_run_record" where
  "run_record run =
     (let (outcome, detail, affected) =
            (case crn_outcome run of
               CoFired n \<Rightarrow> (''fired'', [], n)
             | CoDenied r \<Rightarrow> (''denied'', r, 0)
             | CoBlocked r \<Rightarrow> (''blocked'', r, 0)
             | CoFailed r \<Rightarrow> (''failed'', r, 0))
      in \<lparr>jr_scheduled_at = crn_scheduled_at run, jr_outcome = outcome, jr_detail = detail, jr_affected = affected,
          jr_principal = (case crn_principal run of Some p \<Rightarrow> p | None \<Rightarrow> [])\<rparr>)"

definition ledger_line :: "cron_run \<Rightarrow> string" where
  "ledger_line run =
     (let r = run_record run in
      ''cron fire job='' @ crn_job run @ '' outcome='' @ jr_outcome r @ '' affected='' @ show_int (sint (jr_affected r))
        @ '' at='' @ show_int (sint (crn_scheduled_at run))
        @ (if jr_principal r = [] then [] else '' principal='' @ jr_principal r))"

definition newer_mark :: "i64 option \<Rightarrow> i64 option \<Rightarrow> i64 option" where
  "newer_mark last_run mark =
     (case mark of
        None \<Rightarrow> last_run
      | Some m \<Rightarrow> (case last_run of None \<Rightarrow> Some m | Some l \<Rightarrow> if sint l < sint m then Some m else Some l))"

definition hydrate_job :: "('d \<Rightarrow> string \<Rightarrow> string option) \<Rightarrow> 'd \<Rightarrow> job_def \<Rightarrow> job_def" where
  "hydrate_job get d j = j\<lparr>jd_last_run := newer_mark (jd_last_run j) (read_mark get d (last_run_key (jd_name j)))\<rparr>"

definition hydrate_agent :: "('d \<Rightarrow> string \<Rightarrow> string option) \<Rightarrow> 'd \<Rightarrow> agent_def \<Rightarrow> agent_def" where
  "hydrate_agent get d a = a\<lparr>ad_last_run := newer_mark (ad_last_run a) (read_mark get d (agent_last_run_key (ad_name a)))\<rparr>"

definition stamp_job :: "cron_run \<Rightarrow> server_state \<Rightarrow> server_state" where
  "stamp_job run st =
     (let st' = record_job_run (crn_job run) (run_record run) st in
      case (crn_stamp run, map_of (ss_jobs st') (crn_job run)) of
        (Some stamp, Some j) \<Rightarrow> st'\<lparr>ss_jobs := bt_insert (crn_job run) (j\<lparr>jd_last_run := Some stamp\<rparr>) (ss_jobs st')\<rparr>
      | _ \<Rightarrow> st')"

definition stamp_agent :: "cron_run \<Rightarrow> server_state \<Rightarrow> server_state" where
  "stamp_agent run st =
     (let st' = record_agent_run (crn_job run) (run_record run) st in
      case (crn_stamp run, map_of (ss_agents st') (crn_job run)) of
        (Some stamp, Some a) \<Rightarrow> st'\<lparr>ss_agents := bt_insert (crn_job run) (a\<lparr>ad_last_run := Some stamp\<rparr>) (ss_agents st')\<rparr>
      | _ \<Rightarrow> st')"

record ('d, 's) sweep_world =
  sw_state :: server_state
  sw_durable :: 'd
  sw_ledger :: "string list"
  sw_comm :: 's

text \<open>The marks and the ledger lines of the runs, in order.\<close>

definition persist_runs :: "('d \<Rightarrow> string \<Rightarrow> string \<Rightarrow> 'd) \<Rightarrow> (string \<Rightarrow> string) \<Rightarrow> cron_run list \<Rightarrow> ('d, 's) sweep_world \<Rightarrow> ('d, 's) sweep_world" where
  "persist_runs put key runs w =
     w\<lparr>sw_durable := fold (\<lambda>run d. case crn_stamp run of Some t \<Rightarrow> put d (key (crn_job run)) (mark_text t) | None \<Rightarrow> d) runs (sw_durable w),
       sw_ledger := sw_ledger w @ map ledger_line runs\<rparr>"

definition sweep_jobs ::
  "('d \<Rightarrow> string \<Rightarrow> string option) \<Rightarrow> ('d \<Rightarrow> string \<Rightarrow> string \<Rightarrow> 'd) \<Rightarrow> (string \<Rightarrow> string + statement) \<Rightarrow> 's committer
     \<Rightarrow> i64 \<Rightarrow> ('d, 's) sweep_world \<Rightarrow> ('d, 's) sweep_world \<times> cron_run list" where
  "sweep_jobs get put rehydrate com now w =
     (let jobs = map (\<lambda>(k, j). (k, hydrate_job get (sw_durable w) j)) (ss_jobs (sw_state w));
          st = (sw_state w)\<lparr>ss_jobs := jobs\<rparr>;
          (s, runs) = fire_due rehydrate com (map snd jobs) now {} (sw_comm w)
      in (persist_runs put last_run_key runs (w\<lparr>sw_state := fold stamp_job runs st, sw_comm := s\<rparr>), runs))"

definition sweep_agents ::
  "('d \<Rightarrow> string \<Rightarrow> string option) \<Rightarrow> ('d \<Rightarrow> string \<Rightarrow> string \<Rightarrow> 'd) \<Rightarrow> (string \<Rightarrow> string + statement) \<Rightarrow> 's committer
     \<Rightarrow> i64 \<Rightarrow> ('d, 's) sweep_world \<Rightarrow> ('d, 's) sweep_world \<times> cron_run list" where
  "sweep_agents get put rehydrate com now w =
     (let agents = map (\<lambda>(k, a). (k, hydrate_agent get (sw_durable w) a)) (ss_agents (sw_state w));
          st = (sw_state w)\<lparr>ss_agents := agents\<rparr>;
          (s, runs) = fire_due_agents rehydrate com (map snd agents) now {} (sw_comm w)
      in (persist_runs put agent_last_run_key runs (w\<lparr>sw_state := fold stamp_agent runs st, sw_comm := s\<rparr>), runs))"

definition sweep_once ::
  "('d \<Rightarrow> string \<Rightarrow> string option) \<Rightarrow> ('d \<Rightarrow> string \<Rightarrow> string \<Rightarrow> 'd) \<Rightarrow> (string \<Rightarrow> string + statement) \<Rightarrow> 's committer
     \<Rightarrow> i64 \<Rightarrow> ('d, 's) sweep_world \<Rightarrow> ('d, 's) sweep_world \<times> cron_run list" where
  "sweep_once get put rehydrate com now w =
     (case sweep_jobs get put rehydrate com now w of
        (w1, runs) \<Rightarrow> (case sweep_agents get put rehydrate com now w1 of (w2, agent_runs) \<Rightarrow> (w2, runs @ agent_runs)))"

section \<open>Marks read back\<close>

lemma digit_not_sign: "is_ascii_digit c \<Longrightarrow> c \<noteq> CHR ''-'' \<and> c \<noteq> CHR ''+'' \<and> \<not> is_ws c"
  by (auto simp: is_ascii_digit_def is_ws_def)

lemma trim_solid: "\<forall>c\<in>set s. \<not> is_ws c \<Longrightarrow> trim s = s"
proof -
  assume solid: "\<forall>c\<in>set s. \<not> is_ws c"
  then have "dropWhile is_ws s = s" by (cases s) simp_all
  moreover have "dropWhile is_ws (rev s) = rev s" using solid last_in_set [of s] by (auto simp: dropWhile_eq_self_iff hd_rev)
  ultimately show ?thesis by (simp add: trim_def)
qed

lemma i64_from_digits:
  assumes "list_all is_ascii_digit ds" "ds \<noteq> []"
  shows "i64_from_str ds = (if int (dec_value ds) < 2 ^ 63 then Some (word_of_nat (dec_value ds)) else None)"
    "i64_from_str (CHR ''-'' # ds) = (if int (dec_value ds) \<le> 2 ^ 63 then Some (- word_of_nat (dec_value ds)) else None)"
proof -
  have "hd ds \<noteq> CHR ''-'' \<and> hd ds \<noteq> CHR ''+''" using assms digit_not_sign by (cases ds) auto
  then show "i64_from_str ds = (if int (dec_value ds) < 2 ^ 63 then Some (word_of_nat (dec_value ds)) else None)"
    using assms by (simp add: i64_from_str_def Let_def)
  show "i64_from_str (CHR ''-'' # ds) = (if int (dec_value ds) \<le> 2 ^ 63 then Some (- word_of_nat (dec_value ds)) else None)"
    using assms by (simp add: i64_from_str_def Let_def)
qed

lemma sint_bounds: "- (2 ^ 63) \<le> sint (t :: i64)" "sint t < 2 ^ 63"
  using sint_greater_eq [of t] sint_less [of t] by simp_all

lemma mark_text_solid: "\<forall>c\<in>set (mark_text t). \<not> is_ws c"
proof -
  have "\<forall>c\<in>set (show_nat n). \<not> is_ws c" for n using show_nat_digits [of n] digit_not_sign by (auto simp: list_all_iff)
  moreover have "\<not> is_ws (CHR ''-'')" by (simp add: is_ws_def)
  ultimately show ?thesis by (simp add: mark_text_def show_int_def)
qed

lemma sint_of_in_range: "- (2 ^ 63) \<le> x \<Longrightarrow> x < 2 ^ 63 \<Longrightarrow> sint (word_of_int x :: i64) = x"
  by (simp add: sint_sbintrunc' signed_take_bit_int_eq_self)

lemma mark_text_read: "i64_from_str (trim (mark_text t)) = Some t"
proof (cases "sint t < 0")
  case True
  define n where "n = nat (- sint t)"
  have n: "int n = - sint t" using True by (simp add: n_def)
  have "mark_text t = CHR ''-'' # show_nat n" using True by (simp add: mark_text_def show_int_def n_def)
  moreover have "word_of_nat n = (- t :: i64)"
    using arg_cong [OF n, of "word_of_int :: int \<Rightarrow> i64"] by simp
  ultimately show ?thesis
    unfolding trim_solid [OF mark_text_solid] using n sint_bounds(1) [of t] show_nat_digits [of n]
    by (simp add: i64_from_digits(2) [OF conjunct1 [OF show_nat_digits] conjunct2 [OF show_nat_digits]])
next
  case False
  define n where "n = nat (sint t)"
  have n: "int n = sint t" using False by (simp add: n_def)
  have "mark_text t = show_nat n" using False by (simp add: mark_text_def show_int_def n_def)
  moreover have "word_of_nat n = (t :: i64)"
    using arg_cong [OF n, of "word_of_int :: int \<Rightarrow> i64"] by simp
  ultimately show ?thesis
    unfolding trim_solid [OF mark_text_solid] using n sint_bounds(2) [of t] show_nat_digits [of n]
    by (simp add: i64_from_digits(1) [OF conjunct1 [OF show_nat_digits] conjunct2 [OF show_nat_digits]])
qed

lemma not_due:
  assumes "interval_secs every = Some i" "0 < sint i" "sint now + sint i < 2 ^ 63" "sint now' < sint now + sint i"
  shows "\<not> is_due every (newer_mark last_run (Some now)) now'"
proof -
  obtain l where l: "newer_mark last_run (Some now) = Some l" "sint now \<le> sint l"
  proof (cases "\<exists>m. last_run = Some m \<and> sint now \<le> sint m")
    case True
    then show ?thesis by (auto simp: newer_mark_def intro: that)
  next
    case False
    then have "newer_mark last_run (Some now) = Some now" by (cases last_run) (auto simp: newer_mark_def)
    then show ?thesis by (simp add: that)
  qed
  have "sint now' < sint (i64_saturating_add l i)"
  proof (cases "sint l + sint i > 2 ^ 63 - 1")
    case True
    then have "sint (i64_saturating_add l i) = 2 ^ 63 - 1" by (simp add: i64_saturating_add_def sint_sbintrunc' signed_take_bit_int_eq_self)
    then show ?thesis using assms(3,4) by simp
  next
    case False
    have "sint l + sint i \<ge> - (2 ^ 63)" using sint_bounds [of l] assms(2) by simp
    then have "sint (word_of_int (sint l + sint i) :: i64) = sint l + sint i" using False by (intro sint_of_in_range) simp_all
    moreover have "i64_saturating_add l i = word_of_int (sint l + sint i)"
      using False \<open>sint l + sint i \<ge> - (2 ^ 63)\<close> unfolding i64_saturating_add_def Let_def by (simp only: if_False not_less) simp
    ultimately have "sint (i64_saturating_add l i) = sint l + sint i" by (simp only:)
    then show ?thesis using assms(4) l(2) by simp
  qed
  then show ?thesis using assms(1) l(1) by (simp add: is_due_def)
qed

section \<open>Runs and stamps\<close>

lemma fire_body_run:
  "fire_body rehydrate com what agent name body pol label now s = (s', run) \<Longrightarrow>
     crn_job run = name \<and> crn_principal run = label \<and> (crn_stamp run = None \<or> crn_stamp run = Some now)
     \<and> crn_scheduled_at run = now \<and> (crn_stamp run \<noteq> None \<longleftrightarrow> outcome_committed (crn_outcome run))"
  by (auto simp: fire_body_def split: sum.splits prod.splits if_splits)

lemma fire_due_runs:
  "fire_due rehydrate com js now fl s = (s', runs) \<Longrightarrow> run \<in> set runs \<Longrightarrow>
     (\<exists>j\<in>set js. crn_job run = jd_name j \<and> is_due (jd_every j) (jd_last_run j) now) \<and> crn_principal run = None
     \<and> (crn_stamp run = None \<or> crn_stamp run = Some now)"
proof (induction js arbitrary: s s' runs)
  case (Cons j js)
  then show ?case
    by (auto simp: fire_one_def split: if_splits prod.splits dest!: fire_body_run) blast+
qed simp

lemma fire_due_agents_runs:
  "fire_due_agents rehydrate com as now fl s = (s', runs) \<Longrightarrow> run \<in> set runs \<Longrightarrow>
     (\<exists>a\<in>set as. crn_job run = ad_name a \<and> is_due (ad_every a) (ad_last_run a) now) \<and> crn_principal run = Some (''agent:'' @ crn_job run)
     \<and> (crn_stamp run = None \<or> crn_stamp run = Some now)"
proof (induction as arbitrary: s s' runs)
  case (Cons a as)
  then show ?case
    by (auto simp: fire_one_agent_def split: if_splits prod.splits dest!: fire_body_run) blast+
qed simp

lemma fire_due_stamp:
  "fire_due rehydrate com js now fl s = (s', runs) \<Longrightarrow> run \<in> set runs \<Longrightarrow> crn_stamp run \<noteq> None \<longleftrightarrow> outcome_committed (crn_outcome run)"
proof (induction js arbitrary: s s' runs)
  case (Cons j js)
  then show ?case
    by (auto simp: fire_one_def split: if_splits prod.splits dest!: fire_body_run)
qed simp

lemma fire_due_agents_stamp:
  "fire_due_agents rehydrate com as now fl s = (s', runs) \<Longrightarrow> run \<in> set runs \<Longrightarrow>
     crn_stamp run \<noteq> None \<longleftrightarrow> outcome_committed (crn_outcome run)"
proof (induction as arbitrary: s s' runs)
  case (Cons a as)
  then show ?case
    by (auto simp: fire_one_agent_def split: if_splits prod.splits dest!: fire_body_run)
qed simp

lemma sweep_jobs_stamp:
  "sweep_jobs get put rehydrate com now w = (w', runs) \<Longrightarrow> run \<in> set runs \<Longrightarrow>
     crn_stamp run \<noteq> None \<longleftrightarrow> outcome_committed (crn_outcome run)"
  by (auto simp: sweep_jobs_def Let_def split: prod.splits dest: fire_due_stamp)

lemma sweep_agents_stamp:
  "sweep_agents get put rehydrate com now w = (w', runs) \<Longrightarrow> run \<in> set runs \<Longrightarrow>
     crn_stamp run \<noteq> None \<longleftrightarrow> outcome_committed (crn_outcome run)"
  by (auto simp: sweep_agents_def Let_def split: prod.splits dest: fire_due_agents_stamp)

lemma sweep_once_stamp:
  "sweep_once get put rehydrate com now w = (w', runs) \<Longrightarrow> run \<in> set runs \<Longrightarrow>
     crn_stamp run \<noteq> None \<longleftrightarrow> outcome_committed (crn_outcome run)"
  using sweep_jobs_stamp [of get put rehydrate com now w _ _ run] sweep_agents_stamp [of get put rehydrate com now _ w' _ run]
  by (fastforce simp: sweep_once_def split: prod.splits)

context durable_store
begin

lemma persist_get:
  assumes "\<forall>run\<in>set runs. crn_stamp run = None \<or> crn_stamp run = Some now"
  shows "get (sw_durable (persist_runs put key runs w)) k =
    (if \<exists>run\<in>set runs. crn_stamp run \<noteq> None \<and> same (key (crn_job run)) k then Some (mark_text now) else get (sw_durable w) k)"
proof -
  have "fold (\<lambda>run d. case crn_stamp run of Some t \<Rightarrow> put d (key (crn_job run)) (mark_text t) | None \<Rightarrow> d) runs d
      = fold (\<lambda>k d. put d k (mark_text now)) (map (\<lambda>run. key (crn_job run)) (filter (\<lambda>run. crn_stamp run \<noteq> None) runs)) d" for d
    using assms by (induction runs arbitrary: d) auto
  then show ?thesis by (auto simp: persist_runs_def get_puts)
qed

lemma sweep_jobs_mark:
  assumes "sweep_jobs get put rehydrate com now w = (w', runs)"
  shows "get (sw_durable w') k =
    (if \<exists>run\<in>set runs. crn_stamp run \<noteq> None \<and> same (last_run_key (crn_job run)) k then Some (mark_text now) else get (sw_durable w) k)"
proof -
  let ?jobs = "map (\<lambda>(k, j). (k, hydrate_job get (sw_durable w) j)) (ss_jobs (sw_state w))"
  obtain s where f: "fire_due rehydrate com (map snd ?jobs) now {} (sw_comm w) = (s, runs)"
      "w' = persist_runs put last_run_key runs (w\<lparr>sw_state := fold stamp_job runs ((sw_state w)\<lparr>ss_jobs := ?jobs\<rparr>), sw_comm := s\<rparr>)"
    using assms by (auto simp: sweep_jobs_def Let_def split: prod.splits)
  have "\<forall>run\<in>set runs. crn_stamp run = None \<or> crn_stamp run = Some now" using fire_due_runs [OF f(1)] by blast
  note get = persist_get [OF this]
  show ?thesis unfolding f(2) get by (rule if_cong) simp_all
qed

lemma sweep_agents_mark:
  assumes "sweep_agents get put rehydrate com now w = (w', runs)"
  shows "get (sw_durable w') k =
    (if \<exists>run\<in>set runs. crn_stamp run \<noteq> None \<and> same (agent_last_run_key (crn_job run)) k then Some (mark_text now)
     else get (sw_durable w) k)"
proof -
  let ?agents = "map (\<lambda>(k, a). (k, hydrate_agent get (sw_durable w) a)) (ss_agents (sw_state w))"
  obtain s where f: "fire_due_agents rehydrate com (map snd ?agents) now {} (sw_comm w) = (s, runs)"
      "w' = persist_runs put agent_last_run_key runs (w\<lparr>sw_state := fold stamp_agent runs ((sw_state w)\<lparr>ss_agents := ?agents\<rparr>), sw_comm := s\<rparr>)"
    using assms by (auto simp: sweep_agents_def Let_def split: prod.splits)
  have "\<forall>run\<in>set runs. crn_stamp run = None \<or> crn_stamp run = Some now" using fire_due_agents_runs [OF f(1)] by blast
  note get = persist_get [OF this]
  show ?thesis unfolding f(2) get by (rule if_cong) simp_all
qed

lemma sweep_once_mark:
  assumes "sweep_once get put rehydrate com now w = (w', runs)" "run \<in> set runs" "crn_stamp run \<noteq> None"
  shows "get (sw_durable w') (if crn_principal run = None then last_run_key (crn_job run) else agent_last_run_key (crn_job run))
    = Some (mark_text now)"
proof -
  obtain w1 jruns aruns where s: "sweep_jobs get put rehydrate com now w = (w1, jruns)"
      "sweep_agents get put rehydrate com now w1 = (w', aruns)" "runs = jruns @ aruns"
    using assms(1) by (auto simp: sweep_once_def split: prod.splits)
  show ?thesis
  proof (cases "run \<in> set jruns")
    case True
    then have "crn_principal run = None"
      using s(1) fire_due_runs by (fastforce simp: sweep_jobs_def Let_def split: prod.splits)
    moreover have "get (sw_durable w1) (last_run_key (crn_job run)) = Some (mark_text now)"
      using sweep_jobs_mark [OF s(1), of "last_run_key (crn_job run)"] True assms(3) same_refl by auto
    ultimately show ?thesis using sweep_agents_mark [OF s(2), of "last_run_key (crn_job run)"] by simp
  next
    case False
    then have a: "run \<in> set aruns" using assms(2) s(3) by simp
    then have "crn_principal run \<noteq> None"
      using s(2) fire_due_agents_runs by (fastforce simp: sweep_agents_def Let_def split: prod.splits)
    then show ?thesis
      using sweep_agents_mark [OF s(2), of "agent_last_run_key (crn_job run)"] a assms(3) same_refl by auto
  qed
qed

end

lemma marked_job_not_fired:
  assumes "get (sw_durable w) (last_run_key name) = Some (mark_text now)"
    and "\<forall>(k, j)\<in>set (ss_jobs (sw_state w)). jd_name j = name \<longrightarrow>
          (\<exists>i. interval_secs (jd_every j) = Some i \<and> 0 < sint i \<and> sint now + sint i < 2 ^ 63 \<and> sint now' < sint now + sint i)"
    and "run \<in> set (snd (sweep_jobs get put rehydrate com now' w))"
  shows "crn_job run \<noteq> name"
proof
  assume name: "crn_job run = name"
  let ?jobs = "map (\<lambda>(k, j). (k, hydrate_job get (sw_durable w) j)) (ss_jobs (sw_state w))"
  obtain s runs where f: "fire_due rehydrate com (map snd ?jobs) now' {} (sw_comm w) = (s, runs)" "run \<in> set runs"
    using assms(3) by (auto simp: sweep_jobs_def Let_def split: prod.splits)
  obtain j' where j': "j' \<in> set (map snd ?jobs)" "crn_job run = jd_name j'" "is_due (jd_every j') (jd_last_run j') now'"
    using fire_due_runs [OF f] by blast
  then obtain k j where j: "(k, j) \<in> set (ss_jobs (sw_state w))" "j' = hydrate_job get (sw_durable w) j" by auto
  have mark: "read_mark get (sw_durable w) (last_run_key (jd_name j)) = Some now"
    using assms(1) name j'(2) j(2) by (simp add: read_mark_def hydrate_job_def mark_text_read)
  obtain i where "interval_secs (jd_every j) = Some i" "0 < sint i" "sint now + sint i < 2 ^ 63" "sint now' < sint now + sint i"
    using assms(2) j(1) name j'(2) j(2) by (fastforce simp: hydrate_job_def)
  from not_due [OF this] mark j'(3) j(2) show False by (simp add: hydrate_job_def)
qed

section \<open>Properties\<close>

text \<open>A registry with two jobs and an agent, none of which has run.\<close>

definition demo_rehydrate :: "string \<Rightarrow> string + statement" where
  "demo_rehydrate _ = Inr (StQuery (Pipeline (SrcName ''x'') []))"

definition demo_committer :: "nat committer" where
  "demo_committer _ _ _ _ n = (n + 1, Inr \<lparr>fo_plan_summary = [], fo_affected = 1, fo_effects = []\<rparr>)"

definition demo_job :: "string \<Rightarrow> job_def" where
  "demo_job n = \<lparr>jd_name = n, jd_every = ''1h'', jd_plan = ''p'', jd_last_run = None, jd_policy = None\<rparr>"

definition demo_registry :: server_state where
  "demo_registry = server_state_new
     \<lparr>ss_jobs := [(''agent_x'', demo_job ''agent_x''), (''j'', demo_job ''j'')],
      ss_agents := [(''x'', \<lparr>ad_name = ''x'', ad_every = ''1h'', ad_last_run = None, ad_plan = ''p'', ad_policy = None\<rparr>)]\<rparr>"

definition demo_world :: "(mem_store, nat) sweep_world" where
  "demo_world = \<lparr>sw_state = demo_registry, sw_durable = Map.empty, sw_ledger = [], sw_comm = 0\<rparr>"

lemma demo_cadence: "interval_secs ''1h'' = Some 3600"
proof -
  have "i64_from_str ''1'' = Some 1" by (simp add: i64_from_str_def dec_value_def is_ascii_digit_def)
  then show ?thesis by (simp add: interval_secs_def trim_def is_ws_def is_ascii_alpha_def ascii_lower_def)
qed

lemma demo_fire:
  "fire_body demo_rehydrate demo_committer what agent name body pol label now n
    = (n + 1, \<lparr>crn_job = name, crn_scheduled_at = now, crn_outcome = CoFired 1, crn_stamp = Some now, crn_principal = label\<rparr>)"
  by (simp add: fire_body_def demo_rehydrate_def demo_committer_def)

lemma demo_sweep:
  "\<lparr>crn_job = ''j'', crn_scheduled_at = 10, crn_outcome = CoFired 1, crn_stamp = Some 10, crn_principal = None\<rparr>
    \<in> set (snd (sweep_jobs file_get file_put demo_rehydrate demo_committer 10 demo_world))"
  by (simp add: sweep_jobs_def demo_world_def demo_registry_def demo_job_def hydrate_job_def newer_mark_def read_mark_def
      file_get_def is_due_def demo_cadence fire_one_def demo_fire)

lemma demo_agents:
  "sweep_agents file_get file_put demo_rehydrate demo_committer 10 demo_world = (w', runs) \<Longrightarrow>
    \<lparr>crn_job = ''x'', crn_scheduled_at = 10, crn_outcome = CoFired 1, crn_stamp = Some 10, crn_principal = Some ''agent:x''\<rparr> \<in> set runs
    \<and> ss_jobs (sw_state w') = ss_jobs demo_registry"
  by (auto simp: sweep_agents_def demo_world_def demo_registry_def demo_job_def hydrate_agent_def newer_mark_def read_mark_def
      file_get_def is_due_def demo_cadence fire_one_agent_def demo_fire persist_runs_def stamp_agent_def record_agent_run_def
      split: option.splits)



text \<open>C40:
  The marks of agents and of jobs share one key space, and the daemon's files flatten it further: an agent \<open>x\<close>
  and a job \<open>agent/x\<close> have the same key, an agent \<open>x\<close> and a job \<open>agent_x\<close> the same file. So a committed run of
  the agent holds the job back.
\<close>

theorem agent_mark_suppresses_job:
  assumes "sweep_agents file_get file_put rehydrate com now w = (w', runs)"
    and "run \<in> set runs" "outcome_committed (crn_outcome run)"
    and "\<forall>(k, j)\<in>set (ss_jobs (sw_state w')). jd_name j = ''agent_'' @ crn_job run \<longrightarrow>
          (\<exists>i. interval_secs (jd_every j) = Some i \<and> 0 < sint i \<and> sint now + sint i < 2 ^ 63 \<and> sint now' < sint now + sint i)"
  shows "(\<forall>run'\<in>set (snd (sweep_jobs file_get file_put rehydrate com now' w')). crn_job run' \<noteq> ''agent_'' @ crn_job run)
    \<and> last_run_key (''agent/'' @ crn_job run) = agent_last_run_key (crn_job run)
    \<and> path_for (last_run_key (''agent_'' @ crn_job run)) = path_for (agent_last_run_key (crn_job run))"
proof -
  have same: "path_for (last_run_key (''agent_'' @ crn_job run)) = path_for (agent_last_run_key (crn_job run))"
    by (simp add: path_for_def last_run_key_def agent_last_run_key_def)
  have key: "last_run_key (''agent/'' @ crn_job run) = agent_last_run_key (crn_job run)"
    by (simp add: last_run_key_def agent_last_run_key_def)
  have "crn_stamp run \<noteq> None" using sweep_agents_stamp [OF assms(1,2)] assms(3) by simp
  then have "file_get (sw_durable w') (last_run_key (''agent_'' @ crn_job run)) = Some (mark_text now)"
    using file_durable.sweep_agents_mark [OF assms(1), of "last_run_key (''agent_'' @ crn_job run)"] assms(2) same by auto
  then have "\<forall>run'\<in>set (snd (sweep_jobs file_get file_put rehydrate com now' w')). crn_job run' \<noteq> ''agent_'' @ crn_job run"
    using marked_job_not_fired [OF _ assms(4), where get = file_get and put = file_put] by blast
  with same key show ?thesis by blast
qed

theorem agent_mark_suppresses_job_witness:
  "''agent_x'' \<notin> crn_job ` set (snd (sweep_jobs file_get file_put demo_rehydrate demo_committer 100
     (fst (sweep_agents file_get file_put demo_rehydrate demo_committer 10 demo_world))))"
proof -
  let ?r = "\<lparr>crn_job = ''x'', crn_scheduled_at = 10, crn_outcome = CoFired 1, crn_stamp = Some 10, crn_principal = Some ''agent:x''\<rparr>"
  obtain w' runs where w': "sweep_agents file_get file_put demo_rehydrate demo_committer 10 demo_world = (w', runs)" by fastforce
  then have "?r \<in> set runs" "ss_jobs (sw_state w') = ss_jobs demo_registry" using demo_agents by auto
  with agent_mark_suppresses_job [OF w', of ?r 100] show ?thesis
    using w' by (auto simp: demo_registry_def demo_cadence demo_job_def)
qed

text \<open>
  A cadence is multiplied out without a check: a job that asks to run every 9223372036854775807 days gets an
  interval of minus one day and is due at every sweep.
\<close>

theorem cadence_overflow_always_due:
  "interval_secs ''9223372036854775807d'' = Some (- 86400) \<and> (0 \<le> sint now \<longrightarrow> is_due ''9223372036854775807d'' (Some now) now)"
proof -
  have "dec_value ''9223372036854775807'' = 9223372036854775807" by (simp add: dec_value_def)
  moreover have "list_all is_ascii_digit ''9223372036854775807''" by (simp add: is_ascii_digit_def)
  ultimately have n: "i64_from_str ''9223372036854775807'' = Some 9223372036854775807" by (simp add: i64_from_str_def)
  have "trim ''9223372036854775807'' = ''9223372036854775807''" "trim ''9223372036854775807d'' = ''9223372036854775807d''"
    by (simp_all add: trim_def is_ws_def)
  then have i: "interval_secs ''9223372036854775807d'' = Some (- 86400)"
    using n by (simp add: interval_secs_def is_ascii_alpha_def ascii_lower_def)
  moreover have "is_due ''9223372036854775807d'' (Some now) now" if "0 \<le> sint now"
  proof -
    have "sint (word_of_int (sint now + (- 86400)) :: i64) = sint now + (- 86400)"
      using that sint_bounds(2) [of now] by (intro sint_of_in_range) simp_all
    moreover have "sint (- 86400 :: i64) = - 86400" by simp
    ultimately show ?thesis
      using that sint_bounds(2) [of now] by (simp add: is_due_def i i64_saturating_add_def)
  qed
  ultimately show ?thesis by simp
qed

theorem cadence_overflow_always_due_witness: "is_due ''9223372036854775807d'' (Some 5) 5"
  using cadence_overflow_always_due [of 5] by simp

end
