(* ===== verification/Spec2Isabelle.thy ===== *)
theory Spec2Isabelle
  imports Plan_Commit Runtime_Preview Types_Unify Policy_Gate Txn_Commit Engine_Props
    Push_Sound Push_Lower_Props Lang_Lex_Props Watch_Bind Watch_Guard
    Server_Lower Server_Replay Server_Runtime Core_Document Crypto_Core Core_Security Watch_Fire Watch_Event
    Watch_Dispatch Watch_Cron
begin

text \<open>
  qfs (\<open>packages/qfs\<close>, a Rust workspace; \<open>crates/\<close> below is its directory of crates) turns one
  pipe-style query language into reads and effects on many services. A statement is lexed and parsed, a query
  is lowered to a logical plan, split between the sources that can run parts of it and the local engine, and
  evaluated; an effect becomes a plan, a graph of effect nodes, which is previewed without effects or
  committed by the interpreter under a grant of capabilities, a policy, and the gate on irreversible effects.
  A server is itself a driver: its configuration is a document of statements that is replayed as writes to
  \<open>/server\<close>, and its triggers, webhooks, watchers, jobs and agents fire plans without a human at hand.
  This development models the language's lexer and trees, that pipeline, the effect substrate with its two
  commit paths, the policy engine, the registry of the server with its boot, and the causes that fire plans.

  \<^bold>\<open>Conventions.\<close> A struct is a \<open>record\<close>, an enum a \<open>datatype\<close> with its variants, an operation a \<open>fun\<close> or
  \<open>definition\<close> of the same name. \<open>u64\<close>, \<open>i64\<close>, \<open>u32\<close> and bytes are words that wrap; \<open>usize\<close> counters of list
  positions are \<open>nat\<close>. A \<open>Result\<close> is a sum with the error on the left, an \<open>Option\<close> an \<open>option\<close>. A panic is an
  explicit value where the code can reach it. A \<open>BTreeMap\<close> that is iterated is its sorted list of entries
  (\<open>Btree_Util\<close>), a set that is only tested a set. A \<open>String\<close> is a list of characters below U+0100, with the
  UTF-8 length of each where offsets matter. Mutable state behind a lock is state passed and returned.
  Services, drivers, the parser, the clock and stores not in the repository are arguments of the definitions
  that use them; what is needed of them is a premise of the theorem that needs it.

  \<^bold>\<open>The parts and their theories.\<close>

  \<^item> \<open>Qfs_Prelude\<close>, \<open>Text_Util\<close>, \<open>Result_Util\<close>, \<open>Btree_Util\<close>: machine types, results, text of the standard library,
    sorted maps, with the facts all components share.
  \<^item> Types (\<open>crates/types\<close>): \<open>Types_Schema\<close>, \<open>Types_Value\<close>, \<open>Types_Predicate\<close>, \<open>Types_Float\<close> (the \<open>f64\<close> operations
    in units of 2^-1074), \<open>Types_Unify\<close>.
  \<^item> Language: \<open>Lang_Token\<close>, \<open>Lang_Lex\<close> (\<open>crates/lang\<close>), \<open>Parser_Ast\<close> (\<open>crates/parser/src/ast.rs\<close>). \<open>Lang_Lex_Props\<close>
    shows that the tokens tile the source and that rendered tokens lex back to themselves.
  \<^item> Queries: \<open>Push_Model\<close>, \<open>Push_Planner\<close>, \<open>Push_Lower\<close> (\<open>crates/pushdown\<close>); \<open>Engine_Eval\<close>, \<open>Engine_Ops\<close>,
    \<open>Engine_Combine\<close> (\<open>crates/engine\<close>). \<open>Engine_Sort\<close> and \<open>Engine_Props\<close> compare the operators with declarative
    readings, \<open>Push_Sound\<close> and \<open>Push_Lower_Props\<close> the split plan with the local evaluation of the whole query.
  \<^item> Plans (\<open>crates/plan\<close>): \<open>Plan_Model\<close>, \<open>Plan_Topo\<close> (Kahn's algorithm, whose fuel is the number of nodes and is
    shown to suffice), \<open>Plan_Commit\<close> (preview and sequential commit).
  \<^item> The interpreter (\<open>crates/runtime\<close>): \<open>Runtime_Caps\<close>, \<open>Runtime_Batch\<close>, \<open>Runtime_Group\<close>, \<open>Runtime_Frontier\<close>,
    \<open>Runtime_Interp\<close>. Groups of effects run concurrently: the commit loop is a step relation in which any group in
    flight may complete next, with any answer of its driver. \<open>Runtime_Interp_Inv\<close> is its invariant,
    \<open>Runtime_Commit\<close> what every run guarantees and that it ends, \<open>Runtime_Preview\<close> the dry run.
  \<^item> Transactions (\<open>crates/txn\<close>, \<open>crates/runtime/src/txn.rs\<close>): \<open>Txn_Model\<close>, \<open>Txn_Ledger\<close> (the ledger as a locale, the
    in-memory ledger as its instance), \<open>Txn_Saga\<close>, \<open>Txn_Commit\<close>. A commit is a trace of steps, so that a crash is a cut
    of it and a resumption a second run over the ledger that survived.
  \<^item> Policy (\<open>crates/server/src/policy\<close>): \<open>Policy_Model\<close>, \<open>Policy_Roles\<close>, \<open>Policy_Enforce\<close>, \<open>Policy_Text\<close>,
    \<open>Policy_Gate\<close>; \<open>Path_Glob\<close> is the contract its globs share with the capability scopes.
  \<^item> The server (\<open>crates/server\<close>, \<open>crates/core/src/ddl\<close>): \<open>Server_State\<close> and \<open>Server_Driver\<close> (the registry and its one
    write), \<open>Core_Spec\<close>, \<open>Core_ServerDdl\<close>, \<open>Server_Lower\<close> (declarations and their row-level twins to writes),
    \<open>Core_Document\<close> (cutting a document into statements), \<open>Server_Runtime\<close> (boot, reconfiguration, bindings, audit,
    materialized views). \<open>Server_Replay\<close> is the abstract registry, a table of rows with their run histories, and
    the refinement to it.
  \<^item> Causes (\<open>crates/watchtower\<close>, \<open>crates/qfs/src/{sweeper,watchtower}.rs\<close>, \<open>crates/host\<close>): \<open>Watch_Event\<close> (bus with its
    spool, webhooks, watchers), \<open>Ast_Walk\<close> and \<open>Watch_Bind\<close> (binding the row of an event into a statement),
    \<open>Watch_Guard\<close>, \<open>Watch_Fire\<close> (the gates before an unattended apply), \<open>Watch_Dispatch\<close> (the dispatcher and its loop
    as a step relation, in which publishing and reconfiguration may come between any two steps), \<open>Watch_Cron\<close>
    (cadences, a sweep over jobs and agents, the durable marks).
  \<^item> \<open>Crypto_Core\<close> (\<open>crates/crypto-core\<close>) and \<open>Core_Security\<close> (\<open>crates/core/src/security.rs\<close>).

  \<^bold>\<open>What is shown.\<close> Functional behaviour: the topological order and its least choice, first-match policy
  decisions, the statements of a document, the dispatch of an event. Equivalences: SHA-256 with the standard's
  definition, a guard with the engine's \<open>WHERE\<close>, a \<open>CREATE\<close> with its row-level twin. Refinements: split queries
  to local evaluation, registry writes to the abstract table, boot to replay. Safety over every interleaving:
  the interpreter applies nothing below a failed node, a crashed transaction resumes without applying a leg
  twice, an event fires once, a job does not run twice in its interval across restarts. The gates fail
  closed. Where the code departs from what its comments promise, the theorem states what it does: lost
  redelivery, colliding durable keys, the comparison of lengths modulo 256, checks the row-level twins do not make.

  \<^bold>\<open>Bounds.\<close> Loops are structural or carry a termination proof. The fuel of Kahn's loop and of the dry run is the
  number of nodes; both are shown never to run out. The commit loop of the interpreter is a relation without
  fuel; its runs are shown to end within one iteration per node. The lexer theorems hold for sources shorter
  than 2^32 bytes, as spans are 32-bit offsets.

  \<^bold>\<open>Interfaces.\<close> Each is a locale with an interpretation on the code's definitions in the theory that provides
  it: keyed stores as sorted maps (\<open>Btree_Util\<close>), segment globs (\<open>Path_Glob\<close>), the contract of a topological order
  (\<open>Plan_Topo\<close>), the scheduler (\<open>Runtime_Frontier\<close>), the walk of the enforcer (\<open>Policy_Enforce\<close>), the comparison
  behind sorting (\<open>Engine_Sort\<close>), the audit ledger (\<open>Txn_Ledger\<close>), the frame of a committer (\<open>Watch_Dispatch\<close>), the
  durable store, in memory and in files (\<open>Watch_Cron\<close>).

  \<^bold>\<open>Not modelled.\<close> The grammar (\<open>crates/parser/src/grammar.rs\<close>) is written in the combinators of the winnow crate,
  whose backtracking and error recovery are not in the repository; the parser is a parameter where it is
  called. The drivers of services (\<open>driver-*\<close>, \<open>google-auth\<close>, \<open>oauth\<close>, \<open>mcp\<close>, \<open>http\<close> apart from its statement
  rewriting, \<open>tunnel\<close>) are request and response code over network clients, \<open>store\<close>, \<open>session\<close>, \<open>identity\<close> and
  \<open>secrets\<close> code over SQLite and the operating system's keychain, \<open>cmd\<close> and most of \<open>crates/qfs\<close> argument parsing,
  wiring and terminal output. The evaluation of lambdas and the standard library in \<open>crates/core\<close>, the executor
  \<open>crates/exec\<close>, \<open>codec\<close>, \<open>sql-core\<close> and \<open>provision\<close> are pure in part and left out. Of the modelled crates,
  display texts, serialisation derives, tracing and time measurement are left out; the timing of the
  constant-time comparison is not stated.
\<close>

end
